(* ===== verification/Prelude.thy ===== *)
theory Prelude
  imports Main "HOL-Library.Word" "HOL-Library.Multiset"
begin

text \<open>
  Shared vocabulary of the development: the three ways a Rust call ends (a value, an error,
  a panic) with the combinators the sources use to chain them, machine integers with Rust's
  checked operations, and SQL-style tables (lists of rows with a key) with the laws the
  database components rely on.
\<close>

named_theorems outcome_simps \<open>inversion of chained fallible calls\<close>
named_theorems unat_simps \<open>word arithmetic read in the natural numbers\<close>
named_theorems table_simps \<open>laws of keyed tables\<close>

section \<open>Fallible computations\<close>

text \<open>
  A Rust call returns \<open>Ok\<close>, returns \<open>Err\<close>, or panics. \<open>and_then\<close> is the \<open>?\<close> operator:
  an error or a panic of the first computation is the result.
\<close>

datatype ('e, 'a) outcome = Ok 'a | Err 'e | Panic

fun and_then :: "('e, 'a) outcome \<Rightarrow> ('a \<Rightarrow> ('e, 'b) outcome) \<Rightarrow> ('e, 'b) outcome" where
  "and_then (Ok a) f = f a"
| "and_then (Err e) f = Err e"
| "and_then Panic f = Panic"

fun map_err :: "('e \<Rightarrow> 'f) \<Rightarrow> ('e, 'a) outcome \<Rightarrow> ('f, 'a) outcome" where
  "map_err h (Ok a) = Ok a"
| "map_err h (Err e) = Err (h e)"
| "map_err h Panic = Panic"

fun ok_or :: "'a option \<Rightarrow> 'e \<Rightarrow> ('e, 'a) outcome" where
  "ok_or (Some a) e = Ok a"
| "ok_or None e = Err e"

fun expect :: "'a option \<Rightarrow> ('e, 'a) outcome" where
  "expect (Some a) = Ok a"
| "expect None = Panic"

fun unwrap :: "('e, 'a) outcome \<Rightarrow> ('f, 'a) outcome" where
  "unwrap (Ok a) = Ok a"
| "unwrap (Err e) = Panic"
| "unwrap Panic = Panic"

definition ensure :: "bool \<Rightarrow> 'e \<Rightarrow> ('e, unit) outcome" where
  "ensure c e = (if c then Ok () else Err e)"

fun ok :: "('e, 'a) outcome \<Rightarrow> 'a option" where
  "ok (Ok a) = Some a"
| "ok (Err e) = None"
| "ok Panic = None"

fun is_ok :: "('e, 'a) outcome \<Rightarrow> bool" where
  "is_ok (Ok a) = True"
| "is_ok (Err e) = False"
| "is_ok Panic = False"

text \<open>\<open>iter().map(f).collect::<Result<Vec<_>, _>>()\<close>: the first failure stops the iteration.\<close>

fun try_map :: "('a \<Rightarrow> ('e, 'b) outcome) \<Rightarrow> 'a list \<Rightarrow> ('e, 'b list) outcome" where
  "try_map f [] = Ok []"
| "try_map f (x # xs) = and_then (f x) (\<lambda>y. and_then (try_map f xs) (\<lambda>ys. Ok (y # ys)))"

fun try_fold :: "('s \<Rightarrow> 'a \<Rightarrow> ('e, 's) outcome) \<Rightarrow> 's \<Rightarrow> 'a list \<Rightarrow> ('e, 's) outcome" where
  "try_fold f s [] = Ok s"
| "try_fold f s (x # xs) = and_then (f s x) (\<lambda>s'. try_fold f s' xs)"

lemma and_then_Ok_iff [simp, outcome_simps]:
  "and_then m f = Ok b \<longleftrightarrow> (\<exists>a. m = Ok a \<and> f a = Ok b)"
  by (cases m) auto

lemma and_then_return: "and_then m Ok = m"
  by (cases m) simp_all

lemma and_then_Err_iff [outcome_simps]:
  "and_then m f = Err e \<longleftrightarrow> m = Err e \<or> (\<exists>a. m = Ok a \<and> f a = Err e)"
  by (cases m) auto

lemma and_then_Panic_iff [outcome_simps]:
  "and_then m f = Panic \<longleftrightarrow> m = Panic \<or> (\<exists>a. m = Ok a \<and> f a = Panic)"
  by (cases m) auto

lemma map_err_Ok_iff [simp, outcome_simps]: "map_err h m = Ok a \<longleftrightarrow> m = Ok a"
  by (cases m) auto

lemma map_err_Panic_iff [simp, outcome_simps]: "map_err h m = Panic \<longleftrightarrow> m = Panic"
  by (cases m) auto

lemma map_err_Err_iff [outcome_simps]: "map_err h m = Err e \<longleftrightarrow> (\<exists>e'. m = Err e' \<and> e = h e')"
  by (cases m) auto

lemma unwrap_Ok_iff [simp, outcome_simps]: "unwrap m = Ok a \<longleftrightarrow> m = Ok a"
  by (cases m) auto

lemma unwrap_not_Err [simp]: "unwrap m \<noteq> Err e"
  by (cases m) auto

lemma ok_or_Ok_iff [simp, outcome_simps]: "ok_or x e = Ok a \<longleftrightarrow> x = Some a"
  by (cases x) auto

lemma ok_or_Err_iff [simp, outcome_simps]: "ok_or x e = Err e' \<longleftrightarrow> x = None \<and> e' = e"
  by (cases x) auto

lemma ok_or_not_Panic [simp]: "ok_or x e \<noteq> Panic"
  by (cases x) auto

lemma expect_Ok_iff [simp, outcome_simps]: "expect x = Ok a \<longleftrightarrow> x = Some a"
  by (cases x) auto

lemma expect_Panic_iff [simp, outcome_simps]: "expect x = Panic \<longleftrightarrow> x = None"
  by (cases x) auto

lemma expect_not_Err [simp]: "expect x \<noteq> Err e"
  by (cases x) auto

lemma ensure_Ok_iff [simp, outcome_simps]: "ensure c e = Ok u \<longleftrightarrow> c"
  by (simp add: ensure_def)

lemma ensure_Err_iff [simp, outcome_simps]: "ensure c e = Err e' \<longleftrightarrow> \<not> c \<and> e' = e"
  by (auto simp: ensure_def)

lemma ensure_not_Panic [simp]: "ensure c e \<noteq> Panic"
  by (simp add: ensure_def)

lemma ok_Some_iff [simp]: "ok m = Some a \<longleftrightarrow> m = Ok a"
  by (cases m) auto

lemma is_ok_iff: "is_ok m \<longleftrightarrow> (\<exists>a. m = Ok a)"
  by (cases m) auto

lemma try_map_Ok_iff:
  "try_map f xs = Ok ys \<longleftrightarrow> list_all2 (\<lambda>x y. f x = Ok y) xs ys"
  by (induction xs arbitrary: ys) (auto simp: list_all2_Cons1)

lemma try_map_length: "try_map f xs = Ok ys \<Longrightarrow> length ys = length xs"
  by (simp add: try_map_Ok_iff list_all2_lengthD)

lemma try_map_total: "(\<And>x. x \<in> set xs \<Longrightarrow> f x = Ok (g x)) \<Longrightarrow> try_map f xs = Ok (map g xs)"
  by (induction xs) auto

lemma try_map_nth:
  "try_map f xs = Ok ys \<Longrightarrow> i < length xs \<Longrightarrow> f (xs ! i) = Ok (ys ! i)"
  by (auto simp: try_map_Ok_iff dest: list_all2_nthD)

lemma try_map_map: "try_map f (map h xs) = try_map (\<lambda>x. f (h x)) xs"
  by (induction xs) simp_all

lemma try_map_append_Ok:
  "try_map f (xs @ ys) = Ok zs \<longleftrightarrow> (\<exists>as bs. try_map f xs = Ok as \<and> try_map f ys = Ok bs \<and> zs = as @ bs)"
  by (induction xs arbitrary: zs) auto

lemma try_fold_append:
  "try_fold f s (xs @ ys) = and_then (try_fold f s xs) (\<lambda>t. try_fold f t ys)"
proof (induction xs arbitrary: s)
  case (Cons x xs)
  then show ?case by (cases "f s x") auto
qed simp

text \<open>A nested loop is a loop over all pairs.\<close>

lemma try_fold_concat:
  "try_fold (\<lambda>s x. try_fold f s (h x)) s xs = try_fold f s (concat (map h xs))"
  by (induction xs arbitrary: s) (simp_all add: try_fold_append)

lemma try_fold_map: "try_fold (\<lambda>s x. f s (h x)) s xs = try_fold f s (map h xs)"
proof (induction xs arbitrary: s)
  case (Cons x xs)
  then show ?case by (cases "f s (h x)") auto
qed simp

lemma try_fold_unit_Ok_iff:
  "try_fold (\<lambda>_. f) () xs = Ok () \<longleftrightarrow> (\<forall>x \<in> set xs. f x = Ok ())"
  by (induction xs) auto

text \<open>An invariant of the loop body holds of the loop.\<close>

lemma try_fold_invariant:
  assumes "try_fold f s xs = Ok s'"
    and "I s"
    and "\<And>s x s'. x \<in> set xs \<Longrightarrow> I s \<Longrightarrow> f s x = Ok s' \<Longrightarrow> I s'"
  shows "I s'"
  using assms
proof (induction xs arbitrary: s)
  case Nil
  then show ?case by simp
next
  case (Cons x xs)
  from Cons.prems(1) obtain t where t: "f s x = Ok t" "try_fold f t xs = Ok s'"
    by auto
  from Cons.prems(2,3) t(1) have "I t" by (meson list.set_intros(1))
  with t(2) Cons.prems(3) show ?case
    by (meson Cons.IH list.set_intros(2))
qed

section \<open>Machine integers\<close>

type_synonym u8 = "8 word"
type_synonym u32 = "32 word"
type_synonym u64 = "64 word"
type_synonym bytes = "u8 list"

text \<open>Rust's \<open>checked_*\<close> operations: \<open>None\<close> where the exact result does not fit.\<close>

definition checked_add :: "'a::len word \<Rightarrow> 'a word \<Rightarrow> 'a word option" where
  "checked_add a b = (if unat a + unat b < 2 ^ LENGTH('a) then Some (a + b) else None)"

definition checked_sub :: "'a::len word \<Rightarrow> 'a word \<Rightarrow> 'a word option" where
  "checked_sub a b = (if b \<le> a then Some (a - b) else None)"

definition checked_mul :: "'a::len word \<Rightarrow> 'a word \<Rightarrow> 'a word option" where
  "checked_mul a b = (if unat a * unat b < 2 ^ LENGTH('a) then Some (a * b) else None)"

text \<open>The operator \<open>+\<close>: past the range it panics in a build with overflow checks and wraps in one without.\<close>

definition add_unchecked :: "bool \<Rightarrow> 'a::len word \<Rightarrow> 'a word \<Rightarrow> ('e, 'a word) outcome" where
  "add_unchecked overflow_checks a b =
     (case checked_add a b of Some c \<Rightarrow> Ok c | None \<Rightarrow> if overflow_checks then Panic else Ok (a + b))"

definition checked_div :: "'a::len word \<Rightarrow> 'a word \<Rightarrow> 'a word option" where
  "checked_div a b = (if b = 0 then None else Some (a div b))"

text \<open>\<open>u64::div_ceil\<close>; the divisor is never zero in the sources.\<close>

definition div_ceil :: "'a::len word \<Rightarrow> 'a word \<Rightarrow> 'a word" where
  "div_ceil a b = (if a mod b = 0 then a div b else a div b + 1)"

lemma unat_u64_less: "unat (x :: u64) < 2 ^ 64"
  using unsigned_less [of x] by simp

lemma unat_u64_less_numeral [simp]: "unat (x :: u64) < 18446744073709551616"
  using unat_u64_less [of x] by simp

lemma unat_add_fits: "unat a + unat b < 2 ^ LENGTH('a) \<Longrightarrow> unat (a + b) = unat a + unat b"
  for a b :: "'a::len word"
  by (simp add: unat_word_ariths)

lemma unat_mul_fits: "unat a * unat b < 2 ^ LENGTH('a) \<Longrightarrow> unat (a * b) = unat a * unat b"
  for a b :: "'a::len word"
  by (simp add: unat_word_ariths)

lemma checked_add_Some_iff:
  "checked_add a b = Some c \<longleftrightarrow> unat a + unat b = unat c"
proof -
  have "unat c < 2 ^ LENGTH('a)" by (rule unsigned_less)
  then show ?thesis
    by (auto simp: checked_add_def unat_add_fits word_unat_eq_iff)
qed

lemma checked_sub_Some_iff:
  "checked_sub a b = Some c \<longleftrightarrow> unat a = unat b + unat c"
proof -
  have "a = b + (a - b)" by simp
  then have "b \<le> a \<Longrightarrow> unat a = unat b + unat (a - b)"
    by (simp add: unat_sub word_le_nat_alt)
  then show ?thesis
    by (auto simp: checked_sub_def word_le_nat_alt unat_sub word_unat_eq_iff)
qed

lemma checked_mul_Some_iff:
  "checked_mul a b = Some c \<longleftrightarrow> unat a * unat b = unat c"
proof -
  have "unat c < 2 ^ LENGTH('a)" by (rule unsigned_less)
  then show ?thesis
    by (auto simp: checked_mul_def unat_mul_fits word_unat_eq_iff)
qed

lemma checked_add_None_iff: "checked_add a b = None \<longleftrightarrow> 2 ^ LENGTH('a) \<le> unat a + unat b"
  for a b :: "'a::len word"
  by (auto simp: checked_add_def)

lemma checked_sub_None_iff: "checked_sub a b = None \<longleftrightarrow> a < b"
  by (auto simp: checked_sub_def not_le)

lemma unat_div_ceil:
  assumes "b \<noteq> 0"
  shows "unat (div_ceil a b) = (unat a + (unat b - 1)) div unat b"
proof -
  let ?a = "unat a" and ?b = "unat b"
  have b: "0 < ?b" using assms by (simp add: unat_gt_0)
  have split: "?a = ?a div ?b * ?b + ?a mod ?b" by simp
  show ?thesis
  proof (cases "a mod b = 0")
    case True
    then have m: "?a mod ?b = 0" by (metis unat_0 unat_mod)
    then have "?a + (?b - 1) = ?a div ?b * ?b + (?b - 1)" using split by simp
    then have "(?a + (?b - 1)) div ?b = ?a div ?b"
      using b by (simp only: div_mult_self3) simp
    then show ?thesis using True by (simp add: div_ceil_def unat_div)
  next
    case False
    then have m: "0 < ?a mod ?b" by (metis gr0I unat_eq_zero unat_mod)
    have one: "(?a + (?b - 1)) div ?b = ?a div ?b + 1"
    proof -
      have "?a + (?b - 1) = ?a div ?b * ?b + (?a mod ?b - 1) + ?b"
        using split m b by linarith
      then have "?a + (?b - 1) = (?a div ?b + 1) * ?b + (?a mod ?b - 1)" by simp
      moreover have "?a mod ?b - 1 < ?b" using b by (meson less_imp_diff_less mod_less_divisor)
      ultimately show ?thesis by (metis div_mult_self3 div_less add.right_neutral b gr_implies_not0)
    qed
    have "1 < ?b" using m b by (cases "?b = 1") auto
    then have "?a div ?b + 1 \<le> ?a"
      using m by (metis div_less_dividend mod_0 neq0_conv Suc_eq_plus1 Suc_leI)
    moreover have "?a < 2 ^ LENGTH('a)" by (rule unsigned_less)
    ultimately have "?a div ?b + 1 < 2 ^ LENGTH('a)" by linarith
    then have "unat (a div b + 1) = ?a div ?b + 1"
      by (simp add: unat_add_fits unat_div)
    then show ?thesis using one False by (simp add: div_ceil_def)
  qed
qed

section \<open>Keyed tables\<close>

text \<open>
  A table with a primary key is an association list whose keys are distinct. The order of the
  list is the order in which a query without \<open>ORDER BY\<close> visits the rows.
\<close>

definition keys_of :: "('k \<times> 'v) list \<Rightarrow> 'k set" where
  "keys_of t = fst ` set t"

abbreviation keyed :: "('k \<times> 'v) list \<Rightarrow> bool" where
  "keyed t \<equiv> distinct (map fst t)"

text \<open>\<open>INSERT\<close> fails on a duplicate key.\<close>

definition insert_row :: "'e \<Rightarrow> 'k \<Rightarrow> 'v \<Rightarrow> ('k \<times> 'v) list \<Rightarrow> ('e, ('k \<times> 'v) list) outcome" where
  "insert_row dup k v t = (if k \<in> keys_of t then Err dup else Ok (t @ [(k, v)]))"

text \<open>\<open>UPDATE ... SET ... WHERE\<close>\<close>

definition update_where :: "('k \<Rightarrow> 'v \<Rightarrow> bool) \<Rightarrow> ('v \<Rightarrow> 'v) \<Rightarrow> ('k \<times> 'v) list \<Rightarrow> ('k \<times> 'v) list" where
  "update_where P f t = map (\<lambda>(k, v). (k, if P k v then f v else v)) t"

text \<open>\<open>DELETE FROM ... WHERE\<close>\<close>

definition delete_where :: "('k \<Rightarrow> 'v \<Rightarrow> bool) \<Rightarrow> ('k \<times> 'v) list \<Rightarrow> ('k \<times> 'v) list" where
  "delete_where P t = filter (\<lambda>(k, v). \<not> P k v) t"

lemma delete_where_Nil [simp]: "delete_where P [] = []"
  by (simp add: delete_where_def)

lemma keys_of_iff: "k \<in> keys_of t \<longleftrightarrow> (\<exists>v. map_of t k = Some v)"
  unfolding keys_of_def using map_of_eq_None_iff [of t k] by auto

lemma keys_of_simps [simp]:
  "keys_of [] = {}" "keys_of (t @ u) = keys_of t \<union> keys_of u"
  "keys_of ((k, v) # t) = insert k (keys_of t)"
  by (auto simp: keys_of_def)

lemma map_of_None_keys: "map_of t k = None \<longleftrightarrow> k \<notin> keys_of t"
  by (simp add: keys_of_def map_of_eq_None_iff)

lemma insert_row_Ok_iff [table_simps]:
  "insert_row dup k v t = Ok u \<longleftrightarrow> map_of t k = None \<and> u = t @ [(k, v)]"
  by (auto simp: insert_row_def map_of_None_keys)

lemma insert_row_lookup [table_simps]:
  assumes "insert_row dup k v t = Ok u"
  shows "map_of u j = (if j = k then Some v else map_of t j)"
  using assms by (auto simp: insert_row_Ok_iff map_add_def split: option.splits)

lemma insert_row_keyed: "insert_row dup k v t = Ok u \<Longrightarrow> keyed t \<Longrightarrow> keyed u"
  by (auto simp: insert_row_def keys_of_def split: if_splits)

lemma update_where_lookup [table_simps]:
  "map_of (update_where P f t) k = map_option (\<lambda>v. if P k v then f v else v) (map_of t k)"
  by (induction t) (auto simp: update_where_def)

lemma update_where_keys [simp]: "map fst (update_where P f t) = map fst t"
  by (auto simp: update_where_def)

lemma delete_where_lookup [table_simps]:
  "keyed t \<Longrightarrow> map_of (delete_where P t) k
     = (case map_of t k of Some v \<Rightarrow> if P k v then None else Some v | None \<Rightarrow> None)"
proof (induction t)
  case (Cons x t)
  obtain j v where x: "x = (j, v)" by (cases x)
  have "j \<notin> keys_of t" using Cons.prems x by (auto simp: keys_of_def)
  then have "map_of (delete_where P t) j = None"
    by (auto simp: map_of_None_keys keys_of_def delete_where_def)
  with Cons x show ?case by (auto simp: delete_where_def)
qed (simp add: delete_where_def)

lemma delete_where_keyed: "keyed t \<Longrightarrow> keyed (delete_where P t)"
  by (induction t) (auto simp: delete_where_def)

lemma delete_where_keys: "keys_of (delete_where P t) \<subseteq> keys_of t"
  by (auto simp: keys_of_def delete_where_def)

text \<open>\<open>SELECT ... WHERE key IN (ks)\<close>: one row for each key of \<open>ks\<close> that is in the table.\<close>

definition select_in :: "'k list \<Rightarrow> ('k \<times> 'v) list \<Rightarrow> ('k \<times> 'v) list" where
  "select_in ks t = filter (\<lambda>(k, _). k \<in> set ks) t"

lemma select_in_lookup [table_simps]:
  "map_of (select_in ks t) k = (if k \<in> set ks then map_of t k else None)"
  by (induction t) (auto simp: select_in_def)

lemma select_in_keyed: "keyed t \<Longrightarrow> keyed (select_in ks t)"
  by (induction t) (auto simp: select_in_def)

text \<open>
  \<open>ks.iter().map(|k| rows.remove(k))\<close>: each row is handed out once, so a key asked for a second time
  has no row.
\<close>

fun take_each :: "('k \<times> 'v) list \<Rightarrow> 'k list \<Rightarrow> 'v option list" where
  "take_each rows [] = []"
| "take_each rows (k # ks) = map_of rows k # take_each (delete_where (\<lambda>j _. j = k) rows) ks"

lemma delete_key_lookup: "map_of (delete_where (\<lambda>j _. j = k) t) i = (if i = k then None else map_of t i)"
  by (induction t) (auto simp: delete_where_def)

lemma take_each_distinct: "distinct ks \<Longrightarrow> take_each rows ks = map (map_of rows) ks"
proof (induction ks arbitrary: rows)
  case (Cons k ks)
  then have "map (map_of (delete_where (\<lambda>j _. j = k) rows)) ks = map (map_of rows) ks"
    by (auto simp: delete_key_lookup)
  with Cons show ?case by simp
qed simp

lemma take_each_length [simp]: "length (take_each rows ks) = length ks"
  by (induction ks arbitrary: rows) simp_all

text \<open>As many rows as keys asked for means that the keys are distinct and all present.\<close>

lemma select_in_length:
  assumes "keyed t"
  shows "length (select_in ks t) = length ks \<longleftrightarrow> distinct ks \<and> set ks \<subseteq> keys_of t"
proof -
  have "length (select_in ks t) = card (keys_of (select_in ks t))"
    using distinct_card [OF select_in_keyed [OF assms, of ks]] by (simp add: keys_of_def)
  also have "keys_of (select_in ks t) = set ks \<inter> keys_of t"
    by (auto simp: keys_of_def select_in_def)
  finally have len: "length (select_in ks t) = card (set ks \<inter> keys_of t)" .
  have "card (set ks \<inter> keys_of t) \<le> card (set ks)" by (intro card_mono) auto
  moreover have "card (set ks) \<le> length ks" by (rule card_length)
  moreover have "card (set ks \<inter> keys_of t) = card (set ks) \<longleftrightarrow> set ks \<subseteq> keys_of t"
    by (metis Int_absorb2 List.finite_set card_subset_eq inf_le1 le_iff_inf)
  ultimately show ?thesis using len card_distinct distinct_card
    by (metis le_antisym)
qed

text \<open>Updating and deleting in a table of two parts.\<close>

lemma update_where_append: "update_where P f (t @ u) = update_where P f t @ update_where P f u"
  by (simp add: update_where_def)

lemma delete_where_append: "delete_where P (t @ u) = delete_where P t @ delete_where P u"
  by (simp add: delete_where_def)

lemma update_where_other: "(\<And>k v. (k, v) \<in> set t \<Longrightarrow> \<not> P k v) \<Longrightarrow> update_where P f t = t"
  unfolding update_where_def by (rule map_idI) auto

lemma delete_where_other: "(\<And>k v. (k, v) \<in> set t \<Longrightarrow> \<not> P k v) \<Longrightarrow> delete_where P t = t"
  unfolding delete_where_def by (rule filter_True) auto

lemma delete_where_all: "(\<And>k v. (k, v) \<in> set t \<Longrightarrow> P k v) \<Longrightarrow> delete_where P t = []"
  unfolding delete_where_def by (rule filter_False) auto

lemma not_in_keys: "(k, v) \<in> set t \<Longrightarrow> K \<inter> keys_of t = {} \<Longrightarrow> k \<notin> K"
  by (metis disjoint_iff fst_conv image_eqI keys_of_def)

lemma update_where_zip:
  "length ks = length vs \<Longrightarrow> set ks \<subseteq> K \<Longrightarrow> update_where (\<lambda>k _. k \<in> K) f (zip ks vs) = zip ks (map f vs)"
  by (induction ks vs rule: list_induct2) (auto simp: update_where_def)

end
