(* ===== verification/Amounts.thy ===== *)
theory Amounts
  imports Prelude
begin

text \<open>
  Amounts (\<^verbatim>\<open>crates/cashu/src/amount.rs\<close>): an \<open>Amount\<close> is a \<open>u64\<close>. The theory holds the checked
  and the panicking arithmetic, the splitting of an amount into the denominations of a keyset
  (plain, targeted, fee-aware) and the conversion between units. The lemmas show when a split
  is exact, that it is the shortest one, that the loop of the targeted split ends, and that the
  fee-aware split covers its own fee.
\<close>

section \<open>Data\<close>

type_synonym Amount = u64

datatype amount_error =
    SplitValuesGreater
  | AmountOverflow
  | CannotConvertUnits
  | InvalidAmount string
  | AmountUndefined
  | Utf8ParseError

datatype CurrencyUnit = Sat | Msat | Usd | Eur | Auth | CustomUnit string

record FeeAndAmounts =
  fee :: u64
  amounts :: "u64 list"

datatype SplitTarget = NoTarget | Value Amount | Values "Amount list"

definition MSAT_IN_SAT :: u64 where
  "MSAT_IN_SAT = 1000"

section \<open>Arithmetic\<close>

definition try_sum :: "Amount list \<Rightarrow> (amount_error, Amount) outcome" where
  "try_sum xs = try_fold (\<lambda>acc x. ok_or (checked_add acc x) AmountOverflow) 0 xs"

definition amount_add :: "Amount \<Rightarrow> Amount \<Rightarrow> ('e, Amount) outcome" where
  "amount_add a b = expect (checked_add a b)"

definition amount_sub :: "Amount \<Rightarrow> Amount \<Rightarrow> ('e, Amount) outcome" where
  "amount_sub a b = expect (checked_sub a b)"

definition amount_mul :: "Amount \<Rightarrow> Amount \<Rightarrow> ('e, Amount) outcome" where
  "amount_mul a b = expect (checked_mul a b)"

definition amount_div :: "Amount \<Rightarrow> Amount \<Rightarrow> ('e, Amount) outcome" where
  "amount_div a b = expect (checked_div a b)"

definition to_i64 :: "Amount \<Rightarrow> u64 option" where
  "to_i64 a = (if a \<le> 2 ^ 63 - 1 then Some a else None)"

definition from_i64 :: "u64 \<Rightarrow> Amount option" where
  "from_i64 v = (if 0 \<le> sint v then Some v else None)"

definition to_unit :: "u64 \<Rightarrow> CurrencyUnit \<Rightarrow> CurrencyUnit \<Rightarrow> (amount_error, Amount) outcome" where
  "to_unit amount current_unit target_unit =
     (case (current_unit, target_unit) of
        (Sat, Sat) \<Rightarrow> Ok amount
      | (Msat, Msat) \<Rightarrow> Ok amount
      | (Sat, Msat) \<Rightarrow> ok_or (checked_mul amount MSAT_IN_SAT) AmountOverflow
      | (Msat, Sat) \<Rightarrow> Ok (amount div MSAT_IN_SAT)
      | (Usd, Usd) \<Rightarrow> Ok amount
      | (Eur, Eur) \<Rightarrow> Ok amount
      | _ \<Rightarrow> Err CannotConvertUnits)"

section \<open>Splitting\<close>

definition split_step :: "Amount list \<times> u64 \<Rightarrow> u64 \<Rightarrow> Amount list \<times> u64" where
  "split_step = (\<lambda>(acc, total) amount.
     (if total \<ge> amount then acc @ [amount] else acc, total mod amount))"

text \<open>The remainder by a zero denomination panics; the fold visits every denomination.\<close>

definition amount_split :: "Amount \<Rightarrow> FeeAndAmounts \<Rightarrow> (amount_error, Amount list) outcome" where
  "amount_split self fa =
     (if 0 \<in> set (amounts fa) then Panic
      else Ok (fst (foldl split_step ([], self) (rev (amounts fa)))))"

text \<open>One pass of the inner \<open>for\<close> loop of \<open>split_targeted\<close>, with its \<open>break\<close>.\<close>

fun for_parts ::
  "FeeAndAmounts \<Rightarrow> Amount \<Rightarrow> Amount list \<Rightarrow> Amount list \<Rightarrow> Amount
     \<Rightarrow> (amount_error, Amount list \<times> Amount) outcome" where
  "for_parts fa self [] parts parts_total = Ok (parts, parts_total)"
| "for_parts fa self (part # rest) parts parts_total =
     and_then (amount_add part parts_total) (\<lambda>sum.
     and_then (if sum \<le> self then Ok (parts @ [part])
               else and_then (amount_sub self parts_total) (\<lambda>amount_left.
                    and_then (amount_split amount_left fa) (\<lambda>ext. Ok (parts @ ext)))) (\<lambda>parts'.
     and_then (try_sum parts') (\<lambda>parts_total'.
     if parts_total' = self then Ok (parts', parts_total')
     else for_parts fa self rest parts' parts_total')))"

text \<open>The outer \<open>while\<close> loop; \<open>None\<close> is a loop that never ends.\<close>

partial_function (option) while_parts ::
  "FeeAndAmounts \<Rightarrow> Amount \<Rightarrow> Amount list \<Rightarrow> Amount list \<Rightarrow> Amount
     \<Rightarrow> (amount_error, Amount list) outcome option" where
  "while_parts fa self parts_of_value parts parts_total =
     (if parts_total < self then
        (case for_parts fa self parts_of_value parts parts_total of
           Ok (parts', parts_total') \<Rightarrow> while_parts fa self parts_of_value parts' parts_total'
         | Err e \<Rightarrow> Some (Err e)
         | Panic \<Rightarrow> Some Panic)
      else Some (Ok parts))"

definition split_targeted ::
  "Amount \<Rightarrow> SplitTarget \<Rightarrow> FeeAndAmounts \<Rightarrow> (amount_error, Amount list) outcome option" where
  "split_targeted self target fa =
     (case target of
        NoTarget \<Rightarrow> Some (and_then (amount_split self fa) (\<lambda>parts. Ok (sort parts)))
      | Value amount \<Rightarrow>
          if self \<le> amount then Some (amount_split self fa)
          else (case amount_split amount fa of
                  Ok parts_of_value \<Rightarrow>
                    map_option (\<lambda>r. and_then r (\<lambda>parts. Ok (sort parts)))
                      (while_parts fa self parts_of_value [] 0)
                | Err e \<Rightarrow> Some (Err e)
                | Panic \<Rightarrow> Some Panic)
      | Values values \<Rightarrow>
          Some (and_then (try_sum values) (\<lambda>values_total.
            if self = values_total then Ok (sort values)
            else if self < values_total then Err SplitValuesGreater
            else and_then (amount_sub self values_total) (\<lambda>extra.
                 and_then (amount_split extra fa) (\<lambda>extra_amount.
                 Ok (sort (values @ extra_amount)))))))"

lemma retry_decreases:
  "Suc (unat a) = unat b \<Longrightarrow> 18446744073709551616 - unat b < 18446744073709551616 - unat a"
  for a b :: u64
  using unat_u64_less_numeral [of b] by linarith

text \<open>
  \<open>split_with_fee\<close> retries with the next amount; an amount that cannot be increased is an error,
  so the recursion ends.
\<close>

function split_with_fee :: "Amount \<Rightarrow> FeeAndAmounts \<Rightarrow> (amount_error, Amount list) outcome" where
  "split_with_fee self fa =
     and_then (amount_split self fa) (\<lambda>without_fee_amounts.
     and_then (ok_or (checked_mul (fee fa) (of_nat (length without_fee_amounts))) AmountOverflow)
       (\<lambda>total_fee_ppk.
     and_then (ok_or (checked_add self (div_ceil total_fee_ppk 1000)) AmountOverflow) (\<lambda>new_amount.
     and_then (amount_split new_amount fa) (\<lambda>parts.
     and_then (ok_or (checked_mul (of_nat (length parts)) (fee fa)) AmountOverflow)
       (\<lambda>split_fee_ppk.
     case checked_sub new_amount (div_ceil split_fee_ppk 1000) of
       Some net_amount \<Rightarrow>
         if net_amount \<ge> self then Ok parts
         else (case checked_add self 1 of
                 Some next_amount \<Rightarrow> split_with_fee next_amount fa
               | None \<Rightarrow> Err AmountOverflow)
     | None \<Rightarrow> (case checked_add self 1 of
                  Some next_amount \<Rightarrow> split_with_fee next_amount fa
                | None \<Rightarrow> Err AmountOverflow))))))"
  by pat_completeness auto
termination
  by (relation "measure (\<lambda>(self, fa). 2 ^ 64 - unat self)")
     (auto simp: checked_add_Some_iff retry_decreases)

declare split_with_fee.simps [simp del]

section \<open>Sums\<close>

text \<open>The value of a list of amounts, read without a width.\<close>

definition total :: "Amount list \<Rightarrow> nat" where
  "total xs = sum_list (map unat xs)"

lemma total_simps [simp]:
  "total [] = 0"
  "total (x # xs) = unat x + total xs"
  "total (xs @ ys) = total xs + total ys"
  by (simp_all add: total_def)

lemma total_sort [simp]: "total (sort xs) = total xs"
proof -
  have "mset (map unat (sort xs)) = mset (map unat xs)" by simp
  then show ?thesis unfolding total_def by (metis sum_mset_sum_list)
qed

lemma try_fold_sum:
  "try_fold (\<lambda>acc x. ok_or (checked_add acc x) AmountOverflow) a xs = Ok t
     \<longleftrightarrow> unat a + total xs = unat t"
proof (induction xs arbitrary: a)
  case Nil
  then show ?case by (auto simp: word_unat_eq_iff)
next
  case (Cons x xs)
  have fits: "unat a + (unat x + total xs) = unat t \<Longrightarrow> \<exists>b. checked_add a x = Some b"
  proof -
    assume eq: "unat a + (unat x + total xs) = unat t"
    then have "unat a + unat x < 18446744073709551616"
      using unat_u64_less_numeral [of t] by linarith
    then show ?thesis by (simp add: checked_add_def)
  qed
  show ?case
  proof
    assume "try_fold (\<lambda>acc x. ok_or (checked_add acc x) AmountOverflow) a (x # xs) = Ok t"
    then show "unat a + total (x # xs) = unat t"
      by (auto simp: Cons.IH checked_add_Some_iff)
  next
    assume eq: "unat a + total (x # xs) = unat t"
    then obtain b where b: "checked_add a x = Some b" using fits by auto
    then have "unat b + total xs = unat t"
      using eq by (simp add: checked_add_Some_iff)
    then show "try_fold (\<lambda>acc x. ok_or (checked_add acc x) AmountOverflow) a (x # xs) = Ok t"
      using b Cons.IH by auto
  qed
qed

lemma try_sum_Ok_iff: "try_sum xs = Ok t \<longleftrightarrow> total xs = unat t"
  by (simp add: try_sum_def try_fold_sum)

lemma try_fold_sum_no_panic:
  "try_fold (\<lambda>acc x. ok_or (checked_add acc x) AmountOverflow) a xs \<noteq> Panic"
  by (induction xs arbitrary: a) (auto simp: and_then_Panic_iff)

lemma try_fold_sum_Err:
  "try_fold (\<lambda>acc x. ok_or (checked_add acc x) AmountOverflow) a xs = Err e \<Longrightarrow> e = AmountOverflow"
  by (induction xs arbitrary: a) (auto simp: and_then_Err_iff)

lemma try_sum_cases:
  "(\<exists>t. try_sum xs = Ok t \<and> unat t = total xs \<and> total xs < 2 ^ 64)
   \<or> (try_sum xs = Err AmountOverflow \<and> 2 ^ 64 \<le> total xs)"
proof (cases "try_sum xs")
  case (Ok t)
  with unat_u64_less_numeral [of t] show ?thesis by (auto simp: try_sum_Ok_iff)
next
  case (Err e)
  have "total xs < 2 ^ 64 \<Longrightarrow> try_sum xs = Ok (of_nat (total xs))"
    by (simp add: try_sum_Ok_iff unat_of_nat)
  with Err show ?thesis
    using try_fold_sum_Err [of 0 xs e] by (auto simp: try_sum_def not_less [symmetric])
next
  case Panic
  then show ?thesis by (simp add: try_sum_def try_fold_sum_no_panic)
qed

section \<open>Splitting into powers of two\<close>

text \<open>
  Keysets have the denominations \<open>1, 2, 4, \<dots>\<close> (\<open>(0..max_order).map(|n| 2u64.pow(n.into()))\<close> where
  a keyset is created or rotated).
\<close>

definition pow2_amounts :: "nat \<Rightarrow> u64 list" where
  "pow2_amounts max_order = map (\<lambda>n. 2 ^ n) [0..<max_order]"

text \<open>The reference split: the binary digits of a number, from the top.\<close>

fun bin_split :: "nat \<Rightarrow> nat \<Rightarrow> nat list" where
  "bin_split 0 t = []"
| "bin_split (Suc n) t =
     (if 2 ^ n \<le> t then 2 ^ n # bin_split n (t mod 2 ^ n) else bin_split n (t mod 2 ^ n))"

lemma bin_split_sum: "t < 2 ^ n \<Longrightarrow> sum_list (bin_split n t) = t"
proof (induction n arbitrary: t)
  case 0
  then show ?case by simp
next
  case (Suc n)
  have m: "t mod 2 ^ n < 2 ^ n" by simp
  from Suc.prems have "2 ^ n \<le> t \<Longrightarrow> t mod 2 ^ n = t - 2 ^ n"
    by (simp add: le_mod_geq)
  then show ?case using Suc.IH [OF m] by auto
qed

lemma bin_split_powers: "x \<in> set (bin_split n t) \<Longrightarrow> \<exists>i<n. x = 2 ^ i"
  by (induction n arbitrary: t) (auto split: if_splits intro: less_SucI)

lemma bin_split_bound: "x \<in> set (bin_split n t) \<Longrightarrow> x < 2 ^ n"
  by (auto dest!: bin_split_powers)

lemma bin_split_descending: "sorted_wrt (>) (bin_split n t)"
  by (induction n arbitrary: t) (auto dest: bin_split_bound)

fun popcount :: "nat \<Rightarrow> nat" where
  "popcount n = (if n = 0 then 0 else n mod 2 + popcount (n div 2))"

declare popcount.simps [simp del]

lemma popcount_0 [simp]: "popcount 0 = 0"
  by (simp add: popcount.simps)

lemma popcount_rec: "popcount n = n mod 2 + popcount (n div 2)"
  by (cases "n = 0") (simp_all add: popcount.simps)

lemma popcount_Suc: "popcount (Suc n) \<le> popcount n + 1"
proof (induction n rule: less_induct)
  case (less n)
  show ?case
  proof (cases "even n")
    case True
    then show ?thesis using popcount_rec [of "Suc n"] popcount_rec [of n] by simp
  next
    case False
    then have "n div 2 < n" by (auto elim: oddE)
    with less have "popcount (Suc (n div 2)) \<le> popcount (n div 2) + 1" by blast
    with False show ?thesis using popcount_rec [of "Suc n"] popcount_rec [of n]
      by (simp add: odd_iff_mod_2_eq_one)
  qed
qed

lemma popcount_add_power: "popcount (a + 2 ^ i) \<le> popcount a + 1"
proof (induction i arbitrary: a)
  case 0
  then show ?case using popcount_Suc by simp
next
  case (Suc i)
  have "(a + 2 ^ Suc i) mod 2 = a mod 2" "(a + 2 ^ Suc i) div 2 = a div 2 + 2 ^ i"
    by simp_all
  then show ?case using Suc [of "a div 2"] popcount_rec [of "a + 2 ^ Suc i"] popcount_rec [of a]
    by (simp add: add.commute)
qed

lemma popcount_top: "r < 2 ^ n \<Longrightarrow> popcount (2 ^ n + r) = Suc (popcount r)"
proof (induction n arbitrary: r)
  case 0
  then show ?case by (simp add: popcount.simps)
next
  case (Suc n)
  have "(2 ^ Suc n + r) mod 2 = r mod 2" "(2 ^ Suc n + r) div 2 = 2 ^ n + r div 2"
    by (simp_all add: mod_simps)
  moreover have "r div 2 < 2 ^ n" using Suc.prems by simp
  ultimately show ?case using Suc.IH popcount_rec [of "2 ^ Suc n + r"] popcount_rec [of r] by simp
qed

lemma length_bin_split: "t < 2 ^ n \<Longrightarrow> length (bin_split n t) = popcount t"
proof (induction n arbitrary: t)
  case 0
  then show ?case by simp
next
  case (Suc n)
  have m: "t mod 2 ^ n < 2 ^ n" by simp
  show ?case
  proof (cases "2 ^ n \<le> t")
    case True
    with Suc.prems have t: "t = 2 ^ n + t mod 2 ^ n" by (simp add: le_mod_geq)
    then have "popcount t = Suc (popcount (t mod 2 ^ n))" using popcount_top [OF m] by simp
    with True Suc.IH [OF m] show ?thesis by simp
  next
    case False
    then show ?thesis using Suc.IH [OF m] by simp
  qed
qed

lemma popcount_minimal: "\<forall>x\<in>set xs. \<exists>i. x = 2 ^ i \<Longrightarrow> popcount (sum_list xs) \<le> length xs"
proof (induction xs)
  case Nil
  then show ?case by simp
next
  case (Cons x xs)
  then obtain i where "x = 2 ^ i" by auto
  with Cons show ?case using popcount_add_power [of "sum_list xs" i] by (auto simp: add.commute)
qed

subsection \<open>The split of the code\<close>

lemma unat_power2: "i < 64 \<Longrightarrow> unat (2 ^ i :: u64) = 2 ^ i"
proof -
  assume "i < 64"
  then have "(2::nat) ^ i < 2 ^ 64" by (rule power_strict_increasing) simp
  moreover have "unat (of_nat (2 ^ i) :: u64) = 2 ^ i mod 2 ^ LENGTH(64)" by (rule unat_of_nat)
  ultimately show ?thesis by simp
qed

lemma power2_nonzero: "i < 64 \<Longrightarrow> (2 ^ i :: u64) \<noteq> 0"
  using unat_power2 [of i] by (metis power_eq_0_iff unat_0 zero_neq_numeral)

lemma pow2_amounts_nonzero: "max_order \<le> 64 \<Longrightarrow> 0 \<notin> set (pow2_amounts max_order)"
  by (auto simp: pow2_amounts_def dest!: power2_nonzero [rotated] sym [of "0 :: u64"])

lemma pow2_amounts_Suc: "rev (pow2_amounts (Suc n)) = 2 ^ n # rev (pow2_amounts n)"
  by (simp add: pow2_amounts_def)

lemma foldl_split_step:
  "n \<le> 64 \<Longrightarrow>
     map unat (fst (foldl split_step (acc, t) (rev (pow2_amounts n)))) = map unat acc @ bin_split n (unat t)"
proof (induction n arbitrary: acc t)
  case 0
  then show ?case by (simp add: pow2_amounts_def)
next
  case (Suc n)
  then have n: "n < 64" by simp
  have le: "2 ^ n \<le> t \<longleftrightarrow> 2 ^ n \<le> unat t"
    using unat_power2 [OF n] by (simp add: word_le_nat_alt)
  have md: "unat (t mod 2 ^ n) = unat t mod 2 ^ n"
    using unat_power2 [OF n] by (simp add: unat_mod)
  show ?case
    using Suc n by (simp add: pow2_amounts_Suc split_step_def le md unat_power2)
qed

lemma amount_split_pow2:
  assumes "n \<le> 64" "amounts fa = pow2_amounts n"
  shows "\<exists>xs. amount_split s fa = Ok xs \<and> map unat xs = bin_split n (unat s)"
  using foldl_split_step [of n "[]" s] assms pow2_amounts_nonzero [of n]
  by (simp add: amount_split_def)

lemma amount_split_total:
  assumes "n \<le> 64" "amounts fa = pow2_amounts n" "unat s < 2 ^ n" "amount_split s fa = Ok xs"
  shows "total xs = unat s"
  using amount_split_pow2 [OF assms(1,2), of s] assms(3,4) bin_split_sum [of "unat s" n]
  by (auto simp: total_def)

lemma amount_split_members: "amount_split s fa = Ok xs \<Longrightarrow> set xs \<subseteq> set (amounts fa)"
proof -
  have "set (fst (foldl split_step (acc, t) as)) \<subseteq> set acc \<union> set as" for acc t as
  proof (induction as arbitrary: acc t)
    case Nil
    then show ?case by simp
  next
    case (Cons a as)
    show ?case
      using Cons.IH [of "acc @ [a]" "t mod a"] Cons.IH [of acc "t mod a"]
      by (auto simp: split_step_def)
  qed
  from this [of "[]" s "rev (amounts fa)"]
  show "amount_split s fa = Ok xs \<Longrightarrow> set xs \<subseteq> set (amounts fa)"
    by (auto simp: amount_split_def split: if_splits)
qed

lemma unat_pow2_amounts:
  "n \<le> 64 \<Longrightarrow> x \<in> set (pow2_amounts n) \<Longrightarrow> \<exists>i. unat x = 2 ^ i"
  using unat_power2 by (fastforce simp: pow2_amounts_def)

lemma amount_split_minimal:
  assumes n: "n \<le> 64" "amounts fa = pow2_amounts n" "unat s < 2 ^ n"
    and xs: "amount_split s fa = Ok xs"
    and ys: "set ys \<subseteq> set (amounts fa)" "total ys = unat s"
  shows "length xs \<le> length ys"
proof -
  have "map unat xs = bin_split n (unat s)" using amount_split_pow2 [OF n(1,2), of s] xs by auto
  then have "length xs = popcount (unat s)"
    using length_bin_split [OF n(3)] by (metis length_map)
  moreover have "popcount (sum_list (map unat ys)) \<le> length (map unat ys)"
    using ys(1) unat_pow2_amounts [OF n(1)] n(2) by (intro popcount_minimal) auto
  ultimately show ?thesis using ys(2) by (simp add: total_def)
qed

lemma amount_split_exact:
  assumes "n \<le> 64" "amounts fa = pow2_amounts n" "unat s < 2 ^ n"
  shows "\<exists>xs. amount_split s fa = Ok xs \<and> total xs = unat s"
  using amount_split_pow2 [OF assms(1,2), of s] amount_split_total [OF assms] by blast

text \<open>
  C29: With the denominations \<open>1, 2, 4, \<dots>, 2 ^ (n - 1)\<close> of a keyset and an amount below \<open>2 ^ n\<close>,
  \<open>Amount::split\<close> returns denominations of the keyset, strictly descending, whose sum is exactly
  the amount, and no shorter list of denominations has that sum.
\<close>

theorem split_exact_and_shortest:
  assumes "n \<le> 64" "amounts fa = pow2_amounts n" "unat s < 2 ^ n"
  shows "\<exists>xs. amount_split s fa = Ok xs \<and> total xs = unat s \<and> sorted_wrt (>) xs
           \<and> set xs \<subseteq> set (amounts fa)
           \<and> (\<forall>ys. set ys \<subseteq> set (amounts fa) \<and> total ys = unat s \<longrightarrow> length xs \<le> length ys)"
proof -
  obtain xs where xs: "amount_split s fa = Ok xs" "map unat xs = bin_split n (unat s)"
    using amount_split_pow2 [OF assms(1,2)] by blast
  have "sorted_wrt (>) (map unat xs)" using xs(2) bin_split_descending by simp
  then have "sorted_wrt (>) xs" by (simp add: sorted_wrt_map word_less_nat_alt)
  with xs(1) show ?thesis
    using amount_split_total [OF assms xs(1)] amount_split_members [OF xs(1)]
      amount_split_minimal [OF assms xs(1)] by blast
qed

theorem split_exact_and_shortest_witness:
  "\<exists>xs. amount_split 13 \<lparr>fee = 0, amounts = pow2_amounts 5\<rparr> = Ok xs \<and> total xs = 13
     \<and> sorted_wrt (>) xs"
  using split_exact_and_shortest [of 5 "\<lparr>fee = 0, amounts = pow2_amounts 5\<rparr>" 13] by auto

section \<open>The targeted split\<close>

lemma for_parts_progress:
  assumes n: "n \<le> 63" "amounts fa = pow2_amounts n" "unat self < 2 ^ n"
  shows "\<lbrakk>\<forall>p\<in>set ps. 0 < unat p \<and> unat p < 2 ^ n; total parts = unat tot; unat tot < unat self\<rbrakk>
     \<Longrightarrow> \<exists>parts' tot'. for_parts fa self ps parts tot = Ok (parts', tot') \<and> total parts' = unat tot'
          \<and> unat tot' \<le> unat self \<and> unat tot \<le> unat tot' \<and> (ps \<noteq> [] \<longrightarrow> unat tot < unat tot')"
proof (induction ps arbitrary: parts tot)
  case Nil
  then show ?case by simp
next
  case (Cons p ps)
  have n2: "(2::nat) ^ n \<le> 2 ^ 63" using n(1) by (rule power_increasing) simp
  have "unat p + unat tot < 2 ^ 64"
    using Cons.prems n(3) n2 by simp
  then obtain sm where sm: "checked_add p tot = Some sm" "unat sm = unat p + unat tot"
    by (simp add: checked_add_def unat_add_fits)
  show ?case
  proof (cases "sm \<le> self")
    case True
    let ?parts = "parts @ [p]"
    have tot': "total ?parts = unat sm" using Cons.prems(2) sm(2) by simp
    then have ts: "try_sum ?parts = Ok sm" by (simp add: try_sum_Ok_iff)
    have p0: "0 < unat p" using Cons.prems(1) by simp
    show ?thesis
    proof (cases "sm = self")
      case True
      then show ?thesis using sm ts tot' p0 Cons.prems by (auto simp: amount_add_def)
    next
      case False
      with True have lt: "unat sm < unat self" by (simp add: word_le_nat_alt word_unat_eq_iff)
      obtain parts' tt where IH: "for_parts fa self ps ?parts sm = Ok (parts', tt)"
        "total parts' = unat tt" "unat tt \<le> unat self" "unat sm \<le> unat tt"
        using Cons.IH [OF _ tot' lt] Cons.prems(1) by auto
      have "for_parts fa self (p # ps) parts tot = Ok (parts', tt)"
        using sm(1) True False ts IH(1) by (simp add: amount_add_def)
      moreover have "unat tot \<le> unat tt" "unat tot < unat tt" using IH(4) sm(2) p0 by linarith+
      ultimately show ?thesis using IH(2,3) by blast
    qed
  next
    case False
    obtain left where left: "checked_sub self tot = Some left" "unat self = unat tot + unat left"
      using Cons.prems(3) by (metis checked_sub_Some_iff checked_sub_def less_imp_le word_le_nat_alt)
    have l: "unat left < 2 ^ n" using left(2) n(3) by simp
    have n64: "n \<le> 64" using n(1) by simp
    obtain ext where ext: "amount_split left fa = Ok ext" "total ext = unat left"
      using amount_split_exact [OF n64 n(2) l] by blast
    then have tot': "total (parts @ ext) = unat self" using Cons.prems(2) left(2) by simp
    then have ts: "try_sum (parts @ ext) = Ok self" by (simp add: try_sum_Ok_iff)
    have "for_parts fa self (p # ps) parts tot = Ok (parts @ ext, self)"
      using sm(1) False left(1) ext(1) ts by (simp add: amount_add_def amount_sub_def)
    moreover have "unat tot \<le> unat self" using Cons.prems(3) by simp
    ultimately show ?thesis using tot' Cons.prems(3) by blast
  qed
qed

lemma while_parts_total:
  assumes n: "n \<le> 63" "amounts fa = pow2_amounts n" "unat self < 2 ^ n"
    and ps: "\<forall>p\<in>set ps. 0 < unat p \<and> unat p < 2 ^ n" "ps \<noteq> []"
  shows "total parts = unat tot \<Longrightarrow> unat tot \<le> unat self
     \<Longrightarrow> \<exists>parts'. while_parts fa self ps parts tot = Some (Ok parts') \<and> total parts' = unat self"
proof (induction "unat self - unat tot" arbitrary: parts tot rule: less_induct)
  case less
  show ?case
  proof (cases "unat tot < unat self")
    case True
    obtain parts' tot' where f: "for_parts fa self ps parts tot = Ok (parts', tot')"
      "total parts' = unat tot'" "unat tot' \<le> unat self" "unat tot < unat tot'"
      using for_parts_progress [OF n ps(1) less.prems(1) True] ps(2) by blast
    have "unat self - unat tot' < unat self - unat tot" using f True by linarith
    from less.hyps [OF this f(2,3)] show ?thesis
      using f(1) True by (subst while_parts.simps) (auto simp: word_less_nat_alt)
  next
    case False
    with less.prems show ?thesis
      by (subst while_parts.simps) (auto simp: word_less_nat_alt)
  qed
qed

lemma amount_split_nonempty:
  assumes "n \<le> 64" "amounts fa = pow2_amounts n" "unat s < 2 ^ n" "0 < unat s" "amount_split s fa = Ok xs"
  shows "xs \<noteq> [] \<and> (\<forall>x\<in>set xs. 0 < unat x \<and> unat x < 2 ^ n)"
proof -
  have m: "map unat xs = bin_split n (unat s)" using amount_split_pow2 [OF assms(1,2), of s] assms(5) by auto
  have "total xs = unat s" using amount_split_total [OF assms(1-3,5)] .
  moreover have "\<forall>y\<in>set (map unat xs). 0 < y \<and> y < 2 ^ n"
    unfolding m by (auto dest: bin_split_bound bin_split_powers)
  ultimately show ?thesis using assms(4) by auto
qed

text \<open>
  \<open>split_targeted\<close> ends, and its parts sum to the amount that was split, for every target
  other than the value zero and for explicit values that do not exceed the amount, as long as
  the amount is below \<open>2 ^ n\<close> and the keyset has the \<open>n \<le> 63\<close> lowest powers of two.
\<close>

theorem split_targeted_total:
  assumes "n \<le> 63" "amounts fa = pow2_amounts n" "unat s < 2 ^ n"
    and "target \<noteq> Value 0" "\<And>vs. target = Values vs \<Longrightarrow> total vs \<le> unat s"
  shows "\<exists>parts. split_targeted s target fa = Some (Ok parts) \<and> total parts = unat s"
proof -
  have n64: "n \<le> 64" using assms(1) by simp
  note whole = amount_split_exact [OF n64 assms(2)]
  show ?thesis
  proof (cases target)
    case NoTarget
    then show ?thesis using whole [OF assms(3)] by (auto simp: split_targeted_def)
  next
    case (Value v)
    show ?thesis
    proof (cases "s \<le> v")
      case True
      then show ?thesis using Value whole [OF assms(3)] by (auto simp: split_targeted_def)
    next
      case False
      then have v: "unat v < 2 ^ n" using assms(3) by (simp add: word_le_nat_alt)
      have v0: "0 < unat v" using Value assms(4) by (simp add: unat_gt_0)
      obtain ps where ps: "amount_split v fa = Ok ps" using whole [OF v] by blast
      obtain parts where "while_parts fa s ps [] 0 = Some (Ok parts)" "total parts = unat s"
        using while_parts_total [OF assms(1-3), of ps "[]" 0]
          amount_split_nonempty [OF n64 assms(2) v v0 ps] by auto
      then show ?thesis using Value False ps by (auto simp: split_targeted_def)
    qed
  next
    case (Values vs)
    then have le: "total vs \<le> unat s" using assms(5) by blast
    then obtain t where t: "try_sum vs = Ok t" "unat t = total vs"
      using try_sum_cases [of vs] unat_u64_less_numeral [of s] by auto
    obtain extra where extra: "checked_sub s t = Some extra" "unat s = unat t + unat extra"
      using le t(2) by (metis checked_sub_Some_iff checked_sub_def word_le_nat_alt)
    have "unat extra < 2 ^ n" using extra(2) assms(3) by simp
    then obtain ext where "amount_split extra fa = Ok ext" "total ext = unat extra"
      using whole by blast
    then show ?thesis using Values t extra le
      by (auto simp: split_targeted_def amount_sub_def word_less_nat_alt)
  qed
qed

theorem split_targeted_total_witness:
  "\<exists>parts. split_targeted 20 (Value 3) \<lparr>fee = 0, amounts = pow2_amounts 6\<rparr> = Some (Ok parts)
     \<and> total parts = 20"
  using split_targeted_total [of 6 "\<lparr>fee = 0, amounts = pow2_amounts 6\<rparr>" 20 "Value 3"] by auto

lemma while_parts_no_parts:
  assumes ret: "while_parts fa self ps parts tot = Some r"
  shows "\<not> (ps = [] \<and> tot < self)"
proof (rule while_parts.raw_induct
    [where P = "\<lambda>fa self ps parts tot r. \<not> (ps = [] \<and> tot < self)", OF _ ret])
  fix w fa self ps parts tot r
  assume IH: "\<And>fa self ps parts tot r. w fa self ps parts tot = Some r \<Longrightarrow> \<not> (ps = [] \<and> tot < self)"
    and eq: "(if tot < self
         then case for_parts fa self ps parts tot of
                Ok (parts', tot') \<Rightarrow> w fa self ps parts' tot'
              | Err e \<Rightarrow> Some (Err e) | Panic \<Rightarrow> Some Panic
         else Some (Ok parts)) = Some r"
  show "\<not> (ps = [] \<and> tot < self)"
  proof
    assume "ps = [] \<and> tot < self"
    with eq have "w fa self [] parts tot = Some r" by simp
    with IH \<open>ps = [] \<and> tot < self\<close> show False by blast
  qed
qed

lemma foldl_split_step_0: "0 \<notin> set as \<Longrightarrow> fst (foldl split_step (acc, 0) as) = acc"
  by (induction as arbitrary: acc) (auto simp: split_step_def)

text \<open>
  A target value of zero is not rejected: for every positive amount the loop of
  \<open>split_targeted\<close> never ends, because no part ever makes the running total grow.
\<close>

theorem split_targeted_zero_diverges:
  assumes "0 < s" "0 \<notin> set (amounts fa)"
  shows "split_targeted s (Value 0) fa = None"
proof -
  have "amount_split 0 fa = Ok []"
    using assms(2) by (simp add: amount_split_def foldl_split_step_0)
  moreover have "while_parts fa s [] [] 0 = None"
    using while_parts_no_parts [of fa s "[]" "[]" 0] assms(1)
    by (cases "while_parts fa s [] [] 0") auto
  ultimately show ?thesis using assms(1) by (auto simp: split_targeted_def)
qed

theorem split_targeted_zero_diverges_witness:
  "split_targeted 5 (Value 0) \<lparr>fee = 0, amounts = [1, 2, 4]\<rparr> = None"
  using split_targeted_zero_diverges [of 5 "\<lparr>fee = 0, amounts = [1, 2, 4]\<rparr>"] by simp

section \<open>The fee-aware split\<close>

text \<open>The input fee of \<open>k\<close> proofs of a keyset, in whole units, rounded up.\<close>

definition fee_of_count :: "FeeAndAmounts \<Rightarrow> nat \<Rightarrow> nat" where
  "fee_of_count fa k = (unat (fee fa) * k + 999) div 1000"

lemma unat_of_nat_length:
  fixes f g :: u64
  assumes "checked_mul (of_nat (length xs)) f = Some g" "length xs < 2 ^ 64"
  shows "unat (div_ceil g 1000) = (unat f * length xs + 999) div 1000"
proof -
  have "unat (of_nat (length xs) :: u64) = length xs"
    using assms(2) by (simp add: unat_of_nat)
  then have "unat g = unat f * length xs"
    using assms(1) by (simp add: checked_mul_Some_iff mult.commute)
  then show ?thesis by (simp add: unat_div_ceil)
qed

lemma split_with_fee_covers:
  "split_with_fee s fa = Ok xs \<Longrightarrow> \<forall>ys m. amount_split m fa = Ok ys \<longrightarrow> length ys < 2 ^ 64
     \<Longrightarrow> \<exists>m. amount_split m fa = Ok xs \<and> unat s + fee_of_count fa (length xs) \<le> unat m"
proof (induction s fa rule: split_with_fee.induct)
  case (1 s fa)
  note IH = "1.IH"
  from "1.prems"(1) obtain ys t m where run: "amount_split s fa = Ok ys"
    "checked_mul (fee fa) (of_nat (length ys)) = Some t"
    "checked_add s (div_ceil t 1000) = Some m"
    by (subst (asm) split_with_fee.simps) auto
  from "1.prems"(1) run obtain ps g where run2: "amount_split m fa = Ok ps"
    "checked_mul (of_nat (length ps)) (fee fa) = Some g"
    by (subst (asm) split_with_fee.simps) auto
  let ?retry = "case checked_add s 1 of Some nx \<Rightarrow> split_with_fee nx fa | None \<Rightarrow> Err AmountOverflow"
  have body: "split_with_fee s fa = (case checked_sub m (div_ceil g 1000) of
      Some net \<Rightarrow> if net \<ge> s then Ok ps else ?retry | None \<Rightarrow> ?retry)"
    using run run2 by (subst split_with_fee.simps) simp
  have retry: ?case if r: "?retry = Ok xs"
    and h: "\<And>nx. checked_add s 1 = Some nx \<Longrightarrow> split_with_fee nx fa = Ok xs
       \<Longrightarrow> \<exists>m. amount_split m fa = Ok xs \<and> unat nx + fee_of_count fa (length xs) \<le> unat m"
  proof -
    from r obtain nx where nx: "checked_add s 1 = Some nx" "split_with_fee nx fa = Ok xs"
      by (auto split: option.splits)
    then show ?thesis using h [OF nx] by (auto simp: checked_add_Some_iff)
  qed
  show ?case
  proof (cases "checked_sub m (div_ceil g 1000)")
    case None
    then show ?thesis using body "1.prems" run run2 IH by (intro retry) auto
  next
    case (Some net)
    show ?thesis
    proof (cases "net \<ge> s")
      case True
      then have xs: "xs = ps" using Some body "1.prems"(1) by simp
      have "unat (div_ceil g 1000) = fee_of_count fa (length ps)"
        using unat_of_nat_length [OF run2(2)] run2(1) "1.prems"(2) by (auto simp: fee_of_count_def)
      then have "unat s + fee_of_count fa (length ps) \<le> unat m"
        using Some True by (simp add: checked_sub_Some_iff word_le_nat_alt)
      with run2(1) xs show ?thesis by blast
    next
      case False
      then show ?thesis using Some body "1.prems" run run2 IH by (intro retry) auto
    qed
  qed
qed

lemma amount_split_length: "amount_split m fa = Ok ys \<Longrightarrow> length ys \<le> length (amounts fa)"
proof -
  have "length (fst (foldl split_step (acc, t) as)) \<le> length acc + length as" for acc t as
  proof (induction as arbitrary: acc t)
    case Nil
    then show ?case by simp
  next
    case (Cons a as)
    show ?case
      using Cons.IH [of "acc @ [a]" "t mod a"] Cons.IH [of acc "t mod a"]
      by (simp add: split_step_def)
  qed
  from this [of "[]" m "rev (amounts fa)"]
  show "amount_split m fa = Ok ys \<Longrightarrow> length ys \<le> length (amounts fa)"
    by (auto simp: amount_split_def split: if_splits)
qed

text \<open>
  When \<open>split_with_fee\<close> succeeds, the parts it returns are the split of an amount that covers
  both the requested amount and the input fee of exactly that many parts, rounded up; whenever
  that amount fits the keyset's powers of two, the parts themselves are worth that much.
\<close>

theorem split_with_fee_covers_fee:
  assumes "n \<le> 64" "amounts fa = pow2_amounts n" "split_with_fee s fa = Ok xs"
  shows "\<exists>m. amount_split m fa = Ok xs \<and> unat s + fee_of_count fa (length xs) \<le> unat m
           \<and> (unat m < 2 ^ n \<longrightarrow> unat s + fee_of_count fa (length xs) \<le> total xs)"
proof -
  have "\<forall>ys m. amount_split m fa = Ok ys \<longrightarrow> length ys < 2 ^ 64"
    using amount_split_length assms(1,2) by (fastforce simp: pow2_amounts_def)
  from split_with_fee_covers [OF assms(3) this] obtain m where
    "amount_split m fa = Ok xs" "unat s + fee_of_count fa (length xs) \<le> unat m" by blast
  then show ?thesis using amount_split_total [OF assms(1,2)] by metis
qed

text \<open>A run of the function on concrete inputs: the fee makes 5 into a split of 6.\<close>

lemma split_with_fee_5:
  "split_with_fee 5 \<lparr>fee = 400, amounts = pow2_amounts 5\<rparr> = Ok [4, 2]"
  by (simp add: split_with_fee.simps amount_split_def split_step_def pow2_amounts_def upt_rec
      checked_mul_def checked_add_def checked_sub_def div_ceil_def word_le_nat_alt)

theorem split_with_fee_covers_fee_witness:
  "split_with_fee 5 \<lparr>fee = 400, amounts = pow2_amounts 5\<rparr> = Ok [4, 2]
   \<and> (\<exists>m. amount_split m \<lparr>fee = 400, amounts = pow2_amounts 5\<rparr> = Ok [4, 2]
        \<and> 5 + fee_of_count \<lparr>fee = 400, amounts = pow2_amounts 5\<rparr> (length [4, 2 :: u64]) \<le> unat m)"
  using split_with_fee_covers_fee
      [of 5 "\<lparr>fee = 400, amounts = pow2_amounts 5\<rparr>" 5 "[4, 2]", OF _ _ split_with_fee_5]
    split_with_fee_5 by auto

section \<open>Units\<close>

text \<open>
  Converting sats to millisats and back returns the same amount; millisats to sats and back
  loses exactly the part below one sat.
\<close>

theorem to_unit_roundtrip:
  "(to_unit a Sat Msat = Ok b \<longrightarrow> to_unit b Msat Sat = Ok a)
   \<and> (to_unit c Msat Sat = Ok d
        \<longrightarrow> (\<exists>r. to_unit d Sat Msat = Ok r \<and> unat c = unat r + unat c mod 1000))"
proof (intro conjI impI)
  assume "to_unit a Sat Msat = Ok b"
  then have "unat a * 1000 = unat b"
    by (simp add: to_unit_def checked_mul_Some_iff MSAT_IN_SAT_def)
  then have "unat (b div 1000) = unat a" by (simp add: unat_div)
  then show "to_unit b Msat Sat = Ok a"
    by (simp add: to_unit_def MSAT_IN_SAT_def word_unat_eq_iff)
next
  assume "to_unit c Msat Sat = Ok d"
  then have d: "unat d = unat c div 1000"
    by (auto simp: to_unit_def MSAT_IN_SAT_def unat_div)
  have "unat c div 1000 * 1000 \<le> unat c" by simp
  then have "unat c div 1000 * 1000 < 18446744073709551616"
    using unat_u64_less_numeral [of c] by linarith
  with d have "checked_mul d 1000 = Some (d * 1000)" "unat (d * 1000) = unat c div 1000 * 1000"
    by (simp_all add: checked_mul_def unat_mul_fits)
  then show "\<exists>r. to_unit d Sat Msat = Ok r \<and> unat c = unat r + unat c mod 1000"
    by (simp add: to_unit_def MSAT_IN_SAT_def)
qed

theorem to_unit_roundtrip_witness:
  "to_unit 21 Sat Msat = Ok 21000 \<and> to_unit 21000 Msat Sat = Ok 21
   \<and> (\<exists>r. to_unit 21 Sat Msat = Ok r \<and> unat (21999 :: u64) = unat r + unat (21999 :: u64) mod 1000)"
proof -
  have "to_unit 21 Sat Msat = Ok 21000" by (simp add: to_unit_def checked_mul_def MSAT_IN_SAT_def)
  moreover have "to_unit 21999 Msat Sat = Ok 21" by (simp add: to_unit_def MSAT_IN_SAT_def)
  ultimately show ?thesis using to_unit_roundtrip [of 21 21000 21999 21] by blast
qed

end
