(* ===== verification/Hex.thy ===== *)
theory Hex
  imports Prelude
begin

unbundle bit_operations_syntax

text \<open>
  Hexadecimal text (\<^verbatim>\<open>crates/cashu/src/util/hex.rs\<close>) and the string operations the parsers use.
  A Rust \<open>String\<close> is its UTF-8 bytes, one \<open>char\<close> each; a \<open>&[u8]\<close> is a list of \<open>u8\<close>.
\<close>

section \<open>Strings\<close>

definition as_bytes :: "string \<Rightarrow> bytes" where
  "as_bytes s = map (\<lambda>c. of_nat (of_char c)) s"

text \<open>
  Slicing a \<open>str\<close> panics when the index is out of range or inside a multi-byte character, that
  is, when the byte at the index is a continuation byte.
\<close>

definition is_char_boundary :: "string \<Rightarrow> nat \<Rightarrow> bool" where
  "is_char_boundary s i =
     (i = 0 \<or> i = length s
      \<or> (i < length s \<and> \<not> (128 \<le> (of_char (s ! i) :: nat) \<and> (of_char (s ! i) :: nat) < 192)))"

definition str_to :: "string \<Rightarrow> nat \<Rightarrow> ('e, string) outcome" where
  "str_to s i = (if is_char_boundary s i then Ok (take i s) else Panic)"

definition str_from :: "string \<Rightarrow> nat \<Rightarrow> ('e, string) outcome" where
  "str_from s i = (if is_char_boundary s i then Ok (drop i s) else Panic)"

definition lowercase_char :: "char \<Rightarrow> char" where
  "lowercase_char c =
     (if 65 \<le> (of_char c :: nat) \<and> (of_char c :: nat) \<le> 90 then char_of ((of_char c :: nat) + 32) else c)"

definition to_lowercase :: "string \<Rightarrow> string" where
  "to_lowercase s = map lowercase_char s"

lemma as_bytes_simps [simp]:
  "as_bytes [] = []"
  "as_bytes (c # cs) = of_nat (of_char c) # as_bytes cs"
  "as_bytes (s @ t) = as_bytes s @ as_bytes t"
  by (simp_all add: as_bytes_def)

section \<open>Encoding and decoding\<close>

datatype hex_error = InvalidHexCharacter char nat | OddLength

definition from_digit :: "u8 \<Rightarrow> char" where
  "from_digit num =
     (if num < 10 then char_of (unat (48 + num)) else char_of (unat (97 + num - 10)))"

definition encode :: "bytes \<Rightarrow> string" where
  "encode bytes =
     concat (map (\<lambda>byte. [from_digit (drop_bit 4 byte), from_digit (byte AND 15)]) bytes)"

definition val :: "char \<Rightarrow> nat \<Rightarrow> (hex_error, u8) outcome" where
  "val ch idx =
     (let c = (of_char ch :: nat) in
      if 65 \<le> c \<and> c \<le> 70 then Ok (of_nat (c - 65 + 10))
      else if 97 \<le> c \<and> c \<le> 102 then Ok (of_nat (c - 97 + 10))
      else if 48 \<le> c \<and> c \<le> 57 then Ok (of_nat (c - 48))
      else Err (InvalidHexCharacter ch idx))"

fun decode_pairs :: "nat \<Rightarrow> string \<Rightarrow> (hex_error, bytes) outcome" where
  "decode_pairs i (h # l # rest) =
     and_then (val h i) (\<lambda>high.
     and_then (val l (i + 1)) (\<lambda>low.
     and_then (decode_pairs (i + 2) rest) (\<lambda>bytes.
     Ok ((push_bit 4 high OR low) # bytes))))"
| "decode_pairs i [c] = Ok []"
| "decode_pairs i [] = Ok []"

definition decode :: "string \<Rightarrow> (hex_error, bytes) outcome" where
  "decode hex =
     and_then (ensure (length hex mod 2 = 0) OddLength) (\<lambda>_. decode_pairs 0 hex)"

section \<open>Round trip\<close>

lemma nibble_cases:
  assumes "x < (16 :: u8)"
  shows "x \<in> {0, 1, 2, 3, 4, 5, 6, 7, 8, 9, 10, 11, 12, 13, 14, 15}"
proof -
  have "unat x < 16" using assms by (simp add: word_less_nat_alt)
  then have "unat x \<in> {0, 1, 2, 3, 4, 5, 6, 7, 8, 9, 10, 11, 12, 13, 14, 15}"
    unfolding insert_iff empty_iff by presburger
  then show ?thesis by (simp add: word_unat_eq_iff)
qed

lemma val_from_digit [simp]: "x < 16 \<Longrightarrow> val (from_digit x) i = Ok x"
  by (drule nibble_cases) (auto simp: val_def from_digit_def Let_def)

lemma high_nibble: "drop_bit 4 b < (16 :: u8)"
proof -
  have "unat (drop_bit 4 b) = unat b div 16"
    by (simp add: drop_bit_eq_div unat_div)
  moreover have "unat b < 256" using unsigned_less [of b] by simp
  ultimately show ?thesis by (simp add: word_less_nat_alt)
qed

lemma low_nibble: "b AND 15 < (16 :: u8)"
proof -
  have "b AND 15 \<le> 15" by (rule word_and_le1)
  also have "(15 :: u8) < 16" by simp
  finally show ?thesis .
qed

lemma nibbles_join: "push_bit 4 (drop_bit 4 b) OR (b AND 15) = (b :: u8)"
proof -
  have "(15 :: u8) = mask 4" by (simp add: mask_eq_exp_minus_1)
  then have "b AND 15 = take_bit 4 b" by (simp add: take_bit_eq_mask)
  moreover have "push_bit 4 (drop_bit 4 b) OR take_bit 4 b = b"
    by (rule bit_word_eqI) (auto simp: bit_simps)
  ultimately show ?thesis by simp
qed

lemma decode_pairs_encode: "decode_pairs i (encode bs) = Ok bs"
proof (induction bs arbitrary: i)
  case Nil
  then show ?case by (simp add: encode_def)
next
  case (Cons b bs)
  have "encode (b # bs) = from_digit (drop_bit 4 b) # from_digit (b AND 15) # encode bs"
    by (simp add: encode_def)
  then show ?case using Cons high_nibble low_nibble nibbles_join by simp
qed

lemma length_encode [simp]: "length (encode bs) = 2 * length bs"
  by (induction bs) (auto simp: encode_def)

lemma decode_encode [simp]: "decode (encode bs) = Ok bs"
  by (simp add: decode_def ensure_def decode_pairs_encode)

lemma encode_take: "take (2 * n) (encode bs) = encode (take n bs)"
proof (induction bs arbitrary: n)
  case Nil
  then show ?case by (simp add: encode_def)
next
  case (Cons b bs)
  then show ?case by (cases n) (auto simp: encode_def)
qed

lemma encode_inj: "encode a = encode b \<Longrightarrow> a = b"
  by (metis decode_encode outcome.inject(1))

lemma from_digit_ascii: "x < 16 \<Longrightarrow> (of_char (from_digit x) :: nat) < 128"
  by (drule nibble_cases) (auto simp: from_digit_def)

lemma encode_ascii: "c \<in> set (encode bs) \<Longrightarrow> (of_char c :: nat) < 128"
  by (auto simp: encode_def from_digit_ascii high_nibble low_nibble)

text \<open>
  Decoding the hexadecimal text of any byte string returns that byte string; text of odd
  length is refused, and decoded text has half as many bytes.
\<close>

theorem hex_roundtrip:
  "decode (encode bs) = Ok bs \<and> (odd (length s) \<longrightarrow> decode s = Err OddLength)
   \<and> (decode s = Ok cs \<longrightarrow> length s = 2 * length cs)"
proof -
  have "even (length s) \<Longrightarrow> decode_pairs i s = Ok cs \<Longrightarrow> length s = 2 * length cs" for i s cs
    by (induction i s arbitrary: cs rule: decode_pairs.induct) auto
  moreover have "odd (length s) \<longleftrightarrow> length s mod 2 \<noteq> 0" by presburger
  ultimately show ?thesis by (auto simp: decode_def ensure_def decode_pairs_encode simp del: mod_simps)
qed

theorem hex_roundtrip_witness:
  "decode (encode [255, 1]) = Ok [255, 1] \<and> decode ''abc'' = Err OddLength
   \<and> length (encode [255, 1]) = 2 * length ([255, 1] :: bytes)"
  using hex_roundtrip [of "[255, 1]" "''abc''" "[]"]
    hex_roundtrip [of "[255, 1]" "encode [255, 1]" "[255, 1]"] by simp

end
