(* ===== verification/Keysets.thy ===== *)
theory Keysets
  imports Hex Amounts
begin

text \<open>
  Keyset identifiers (\<^verbatim>\<open>crates/cashu/src/nuts/nut02.rs\<close>) and the fee of a set of proofs
  (\<^verbatim>\<open>crates/cdk/src/fees.rs\<close>). SHA-256 is a parameter. The lemmas show that identifiers survive
  their byte and text forms, what a short identifier resolves to, and that the fee does not
  depend on the order in which the hash map is visited.
\<close>

section \<open>Data\<close>

datatype KeySetVersion = Version00 | Version01

datatype IdBytes = V1 bytes | V2 bytes

record Id =
  version :: KeySetVersion
  id_bytes :: IdBytes

record ShortKeysetId =
  short_version :: KeySetVersion
  prefix :: bytes

datatype nut02_error =
    HexError hex_error
  | Length
  | UnknownVersion
  | IncorrectKeysetId
  | UnknownShortKeysetId
  | MalformedShortKeysetId
  | Slice

type_synonym PublicKey = bytes

text \<open>A map from amounts to keys, in the order of its iterator.\<close>

type_synonym Keys = "(Amount \<times> PublicKey) list"

record KeySet =
  ks_id :: Id
  ks_unit :: CurrencyUnit
  ks_keys :: Keys
  ks_final_expiry :: "u64 option"

record KeySetInfo =
  info_id :: Id
  info_unit :: CurrencyUnit
  info_active :: bool
  info_input_fee_ppk :: u64
  info_final_expiry :: "u64 option"

section \<open>Identifiers\<close>

fun version_to_byte :: "KeySetVersion \<Rightarrow> u8" where
  "version_to_byte Version00 = 0"
| "version_to_byte Version01 = 1"

definition version_from_byte :: "u8 \<Rightarrow> (nut02_error, KeySetVersion) outcome" where
  "version_from_byte b =
     (if b = 0 then Ok Version00 else if b = 1 then Ok Version01 else Err UnknownVersion)"

fun version_string :: "KeySetVersion \<Rightarrow> string" where
  "version_string Version00 = ''00''"
| "version_string Version01 = ''01''"

fun idbytes_to_vec :: "IdBytes \<Rightarrow> bytes" where
  "idbytes_to_vec (V1 b) = b"
| "idbytes_to_vec (V2 b) = b"

text \<open>\<open>try_into\<close> from a slice to \<open>[u8; n]\<close> fails on any other length.\<close>

definition to_array :: "nat \<Rightarrow> bytes \<Rightarrow> 'e \<Rightarrow> ('e, bytes) outcome" where
  "to_array n b e = (if length b = n then Ok b else Err e)"

definition id_to_bytes :: "Id \<Rightarrow> bytes" where
  "id_to_bytes i = [version_to_byte (version i)] @ idbytes_to_vec (id_bytes i)"

definition id_from_bytes :: "bytes \<Rightarrow> (nut02_error, Id) outcome" where
  "id_from_bytes b =
     (case b of
        [] \<Rightarrow> Panic
      | b0 # rest \<Rightarrow>
          and_then (version_from_byte b0) (\<lambda>v.
          and_then (case v of
              Version00 \<Rightarrow> and_then (to_array 7 rest Slice) (\<lambda>a. Ok (V1 a))
            | Version01 \<Rightarrow> and_then (to_array 32 rest Slice) (\<lambda>a. Ok (V2 a))) (\<lambda>i.
          Ok \<lparr>version = v, id_bytes = i\<rparr>)))"

definition id_to_string :: "Id \<Rightarrow> string" where
  "id_to_string i = version_string (version i) @ encode (idbytes_to_vec (id_bytes i))"

definition id_try_from :: "string \<Rightarrow> (nut02_error, Id) outcome" where
  "id_try_from s =
     and_then (ensure (length s = 14 + 2 \<or> length s = 64 + 2) Length) (\<lambda>_.
     and_then (str_to s 2) (\<lambda>v2.
     and_then (map_err HexError (decode v2)) (\<lambda>vb.
     and_then (case vb of [] \<Rightarrow> Panic | b # _ \<Rightarrow> version_from_byte b) (\<lambda>v.
     and_then (str_from s 2) (\<lambda>rest.
     and_then (case v of
         Version00 \<Rightarrow> and_then (map_err HexError (decode rest)) (\<lambda>b.
                      and_then (to_array 7 b Length) (\<lambda>a. Ok (V1 a)))
       | Version01 \<Rightarrow> and_then (map_err HexError (decode rest)) (\<lambda>b.
                      and_then (to_array 32 b Length) (\<lambda>a. Ok (V2 a)))) (\<lambda>i.
     Ok \<lparr>version = v, id_bytes = i\<rparr>))))))"

text \<open>\<open>u32::from(Id)\<close>: the first eight bytes, big-endian, modulo \<open>2 ^ 31 - 1\<close>.\<close>

definition u64_from_be_bytes :: "bytes \<Rightarrow> u64" where
  "u64_from_be_bytes b = foldl (\<lambda>acc x. acc * 256 + ucast x) 0 b"

definition id_to_u32 :: "Id \<Rightarrow> u32" where
  "id_to_u32 i = ucast (u64_from_be_bytes (take 8 (id_to_bytes i)) mod (2 ^ 31 - 1))"

fun unit_string :: "CurrencyUnit \<Rightarrow> string" where
  "unit_string Sat = ''SAT''"
| "unit_string Msat = ''MSAT''"
| "unit_string Usd = ''USD''"
| "unit_string Eur = ''EUR''"
| "unit_string Auth = ''AUTH''"
| "unit_string (CustomUnit u) = u"

definition unit_to_string :: "CurrencyUnit \<Rightarrow> string" where
  "unit_to_string u = to_lowercase (unit_string u)"

fun digits_of :: "nat \<Rightarrow> string" where
  "digits_of n =
     (if n < 10 then [char_of (48 + n)] else digits_of (n div 10) @ [char_of (48 + n mod 10)])"

declare digits_of.simps [simp del]

definition u64_to_string :: "u64 \<Rightarrow> string" where
  "u64_to_string n = digits_of (unat n)"

definition pubkeys_concat :: "Keys \<Rightarrow> bytes" where
  "pubkeys_concat keys = concat (map snd (sort_key fst keys))"

definition v1_from_keys :: "(bytes \<Rightarrow> bytes) \<Rightarrow> Keys \<Rightarrow> (nut02_error, Id) outcome" where
  "v1_from_keys sha256 keys =
     (case decode (take 14 (encode (sha256 (pubkeys_concat keys)))) of
        Ok b \<Rightarrow> if length b = 7 then Ok \<lparr>version = Version00, id_bytes = V1 b\<rparr> else Panic
      | _ \<Rightarrow> Panic)"

definition v2_from_data ::
  "(bytes \<Rightarrow> bytes) \<Rightarrow> Keys \<Rightarrow> CurrencyUnit \<Rightarrow> u64 option \<Rightarrow> (nut02_error, Id) outcome" where
  "v2_from_data sha256 keys unit expiry =
     (let data = pubkeys_concat keys @ as_bytes ''unit:''
                 @ as_bytes (to_lowercase (unit_to_string unit))
                 @ (case expiry of None \<Rightarrow> []
                    | Some e \<Rightarrow> as_bytes ''final_expiry:'' @ as_bytes (u64_to_string e))
      in case decode (take 64 (encode (sha256 data))) of
           Ok b \<Rightarrow> if length b = 32 then Ok \<lparr>version = Version01, id_bytes = V2 b\<rparr> else Panic
         | _ \<Rightarrow> Panic)"

definition verify_id :: "(bytes \<Rightarrow> bytes) \<Rightarrow> KeySet \<Rightarrow> (nut02_error, unit) outcome" where
  "verify_id sha256 ks =
     and_then (case version (ks_id ks) of
         Version00 \<Rightarrow> v1_from_keys sha256 (ks_keys ks)
       | Version01 \<Rightarrow> v2_from_data sha256 (ks_keys ks) (ks_unit ks) (ks_final_expiry ks)) (\<lambda>keys_id.
     and_then (ensure (id_to_u32 keys_id = id_to_u32 (ks_id ks)) IncorrectKeysetId) (\<lambda>_.
     and_then (ensure (keys_id = ks_id ks) IncorrectKeysetId) (\<lambda>_. Ok ())))"

section \<open>Short identifiers\<close>

definition short_to_bytes :: "ShortKeysetId \<Rightarrow> bytes" where
  "short_to_bytes s = [version_to_byte (short_version s)] @ prefix s"

definition short_from_bytes :: "bytes \<Rightarrow> (nut02_error, ShortKeysetId) outcome" where
  "short_from_bytes b =
     (case b of
        [] \<Rightarrow> Panic
      | b0 # rest \<Rightarrow> and_then (version_from_byte b0) (\<lambda>v.
          Ok \<lparr>short_version = v, prefix = rest\<rparr>))"

definition short_from_id :: "Id \<Rightarrow> (nut02_error, ShortKeysetId) outcome" where
  "short_from_id i =
     (case (version i, id_bytes i) of
        (Version00, V1 b) \<Rightarrow> Ok \<lparr>short_version = Version00, prefix = b\<rparr>
      | (Version01, V2 b) \<Rightarrow> Ok \<lparr>short_version = Version01, prefix = take 7 b\<rparr>
      | _ \<Rightarrow> Panic)"

definition short_to_string :: "ShortKeysetId \<Rightarrow> string" where
  "short_to_string s = version_string (short_version s) @ encode (prefix s)"

definition short_try_from :: "string \<Rightarrow> (nut02_error, ShortKeysetId) outcome" where
  "short_try_from s =
     and_then (ensure (length s = 16) Length) (\<lambda>_.
     and_then (str_to s 2) (\<lambda>v2.
     and_then (map_err HexError (decode v2)) (\<lambda>vb.
     and_then (case vb of [] \<Rightarrow> Panic | b # _ \<Rightarrow> version_from_byte b) (\<lambda>v.
     and_then (str_from s 2) (\<lambda>rest.
     and_then (map_err HexError (decode rest)) (\<lambda>p.
     Ok \<lparr>short_version = v, prefix = p\<rparr>))))))"

text \<open>
  The loop over the keysets slices each identifier to the length of the prefix; the slice panics
  when the identifier is shorter.
\<close>

fun find_short :: "bytes \<Rightarrow> KeySetInfo list \<Rightarrow> (nut02_error, Id) outcome" where
  "find_short p [] = Err UnknownShortKeysetId"
| "find_short p (k # ks) =
     (let b = idbytes_to_vec (id_bytes (info_id k)) in
      if length b < length p then Panic
      else if take (length p) b = p then Ok (info_id k)
      else find_short p ks)"

definition from_short_keyset_id ::
  "ShortKeysetId \<Rightarrow> KeySetInfo list \<Rightarrow> (nut02_error, Id) outcome" where
  "from_short_keyset_id short infos =
     (if length (prefix short) < 7 \<or> length (prefix short) > 32 then Err MalformedShortKeysetId
      else (case short_version short of
              Version00 \<Rightarrow> Ok \<lparr>version = Version00, id_bytes = V1 (take 7 (prefix short))\<rparr>
            | Version01 \<Rightarrow> find_short (prefix short) infos))"

section \<open>Fees\<close>

datatype fee_error = KeysetUnknown Id | FeeOverflow

text \<open>
  The product of a fee and a count is unchecked in the source: it panics in a build with overflow
  checks and wraps in a build without.
\<close>

definition mul_unchecked :: "bool \<Rightarrow> u64 \<Rightarrow> u64 \<Rightarrow> ('e, u64) outcome" where
  "mul_unchecked overflow_checks a b =
     (case checked_mul a b of
        Some c \<Rightarrow> Ok c
      | None \<Rightarrow> if overflow_checks then Panic else Ok (a * b))"

definition fee_step ::
  "bool \<Rightarrow> (Id \<Rightarrow> u64 option) \<Rightarrow> u64 \<Rightarrow> Id \<times> u64 \<Rightarrow> (fee_error, u64) outcome" where
  "fee_step overflow_checks keyset_fee sum_fee = (\<lambda>(keyset_id, proof_count).
     and_then (ok_or (keyset_fee keyset_id) (KeysetUnknown keyset_id)) (\<lambda>keyset_fee_ppk.
     and_then (mul_unchecked overflow_checks keyset_fee_ppk proof_count) (\<lambda>proofs_fee.
     ok_or (checked_add sum_fee proofs_fee) FeeOverflow)))"

definition calculate_fee ::
  "bool \<Rightarrow> (Id \<times> u64) list \<Rightarrow> (Id \<Rightarrow> u64 option) \<Rightarrow> (fee_error, Amount) outcome" where
  "calculate_fee overflow_checks proofs_count keyset_fee =
     and_then (try_fold (fee_step overflow_checks keyset_fee) 0 proofs_count) (\<lambda>sum_fee.
     and_then (ok_or (checked_add sum_fee 999) FeeOverflow) (\<lambda>s.
     Ok (s div 1000)))"

section \<open>Identifiers survive their encodings\<close>

text \<open>The array lengths of the Rust types and the agreement of version and bytes.\<close>

fun id_wf :: "Id \<Rightarrow> bool" where
  "id_wf \<lparr>version = Version00, id_bytes = V1 b\<rparr> = (length b = 7)"
| "id_wf \<lparr>version = Version01, id_bytes = V2 b\<rparr> = (length b = 32)"
| "id_wf _ = False"

lemma id_wf_cases:
  assumes "id_wf i"
  obtains (v1) b where "i = \<lparr>version = Version00, id_bytes = V1 b\<rparr>" "length b = 7"
        | (v2) b where "i = \<lparr>version = Version01, id_bytes = V2 b\<rparr>" "length b = 32"
  using assms by (cases i rule: id_wf.cases) auto

lemma version_string_encode: "version_string v = encode [version_to_byte v]"
  by (cases v) (simp_all add: encode_def from_digit_def char_of_def bit_0)

lemma version_from_to_byte [simp]: "version_from_byte (version_to_byte v) = Ok v"
  by (cases v) (simp_all add: version_from_byte_def)

lemma version_string_simps [simp]:
  "length (version_string v) = 2"
  "take 2 (version_string v @ s) = version_string v"
  "drop 2 (version_string v @ s) = s"
  by (cases v; simp)+

lemma version_decode [simp]: "decode (version_string v) = Ok [version_to_byte v]"
  by (simp add: version_string_encode)

lemma boundary_after_version:
  "b \<noteq> [] \<Longrightarrow> is_char_boundary (version_string v @ encode b) 2"
proof -
  assume "b \<noteq> []"
  then have "encode b ! 0 \<in> set (encode b)" by (cases b) (auto simp: encode_def)
  then have "(of_char (encode b ! 0) :: nat) < 128" by (rule encode_ascii)
  moreover have "(version_string v @ encode b) ! 2 = encode b ! 0"
    using version_string_simps(1) [of v] by (simp add: nth_append)
  ultimately show ?thesis using \<open>b \<noteq> []\<close> by (simp add: is_char_boundary_def)
qed

lemma str_split_version [simp]:
  "b \<noteq> [] \<Longrightarrow> str_to (version_string v @ encode b) 2 = Ok (version_string v)"
  "b \<noteq> [] \<Longrightarrow> str_from (version_string v @ encode b) 2 = Ok (encode b)"
  by (simp_all add: str_to_def str_from_def boundary_after_version)

lemma version_from_byte_Ok: "version_from_byte b = Ok v \<longleftrightarrow> b = version_to_byte v"
  by (cases v) (auto simp: version_from_byte_def)

lemma id_from_bytes_Ok:
  assumes "id_from_bytes b = Ok j"
  shows "id_wf j" "id_to_bytes j = b"
proof -
  obtain v i where j: "j = \<lparr>version = v, id_bytes = i\<rparr>" by (cases j)
  then show "id_wf j" "id_to_bytes j = b"
    using assms by (cases v; auto simp: id_from_bytes_def id_to_bytes_def to_array_def
        version_from_byte_Ok split: list.splits if_splits)+
qed

text \<open>
  C33: Every well-formed keyset identifier is recovered from its bytes and from its text, and bytes
  that parse are exactly the bytes of the well-formed identifier they parse to.
\<close>

theorem id_roundtrip:
  "(id_wf i \<longrightarrow> id_from_bytes (id_to_bytes i) = Ok i \<and> id_try_from (id_to_string i) = Ok i)
   \<and> (id_from_bytes b = Ok j \<longrightarrow> id_wf j \<and> id_to_bytes j = b)"
proof (intro conjI impI)
  assume "id_wf i"
  then show "id_from_bytes (id_to_bytes i) = Ok i"
    by (cases rule: id_wf_cases) (simp_all add: id_from_bytes_def id_to_bytes_def to_array_def
        version_from_byte_def)
next
  assume "id_wf i"
  then show "id_try_from (id_to_string i) = Ok i"
  proof (cases rule: id_wf_cases)
    case (v1 b)
    then have "b \<noteq> []" by auto
    with v1 show ?thesis
      by (simp add: id_try_from_def ensure_def id_to_string_def to_array_def version_from_byte_def
          del: version_string.simps)
  next
    case (v2 b)
    then have "b \<noteq> []" by auto
    with v2 show ?thesis
      by (simp add: id_try_from_def ensure_def id_to_string_def to_array_def version_from_byte_def
          del: version_string.simps)
  qed
next
  assume "id_from_bytes b = Ok j"
  then show "id_wf j" by (rule id_from_bytes_Ok)
next
  assume "id_from_bytes b = Ok j"
  then show "id_to_bytes j = b" by (rule id_from_bytes_Ok)
qed

definition example_id :: Id where
  "example_id = \<lparr>version = Version00, id_bytes = V1 [0, 154, 31, 41, 50, 83, 228]\<rparr>"

theorem id_roundtrip_witness:
  "id_wf example_id \<and> id_try_from (id_to_string example_id) = Ok example_id
   \<and> id_from_bytes (id_to_bytes example_id) = Ok example_id"
  using id_roundtrip [of example_id "[]" example_id] by (simp add: example_id_def)

section \<open>Derived identifiers\<close>

lemma v1_from_keys_eq:
  assumes "length (sha256 (pubkeys_concat keys)) = 32"
  shows "v1_from_keys sha256 keys
           = Ok \<lparr>version = Version00, id_bytes = V1 (take 7 (sha256 (pubkeys_concat keys)))\<rparr>"
  using encode_take [of 7 "sha256 (pubkeys_concat keys)"] assms by (simp add: v1_from_keys_def)

lemma v2_from_data_eq:
  assumes "\<And>m. length (sha256 m) = 32"
  shows "\<exists>m. v2_from_data sha256 keys unit expiry
           = Ok \<lparr>version = Version01, id_bytes = V2 (sha256 m)\<rparr>"
  using assms by (auto simp: v2_from_data_def Let_def)

section \<open>Resolving short identifiers\<close>

lemma find_short_Ok:
  assumes "k \<in> set infos" "info_id k = i" "take (length p) (idbytes_to_vec (id_bytes i)) = p"
    and "\<And>k'. k' \<in> set infos \<Longrightarrow> length p \<le> length (idbytes_to_vec (id_bytes (info_id k')))"
    and "\<And>k'. k' \<in> set infos \<Longrightarrow> take (length p) (idbytes_to_vec (id_bytes (info_id k'))) = p
           \<Longrightarrow> info_id k' = i"
  shows "find_short p infos = Ok i"
  using assms
proof (induction infos)
  case (Cons a infos)
  have len: "\<not> length (idbytes_to_vec (id_bytes (info_id a))) < length p"
    using Cons.prems(4) [of a] by simp
  show ?case
  proof (cases "take (length p) (idbytes_to_vec (id_bytes (info_id a))) = p")
    case True
    with Cons.prems(5) have "info_id a = i" by simp
    with True len show ?thesis by (simp add: Let_def)
  next
    case False
    with Cons.prems(1-3) have "k \<in> set infos" by auto
    then have "find_short p infos = Ok i" using Cons.prems by (intro Cons.IH) auto
    with False len show ?thesis by (simp add: Let_def)
  qed
qed simp

lemma find_short_Ok_member: "find_short p infos = Ok i \<Longrightarrow> \<exists>k \<in> set infos. info_id k = i"
  by (induction infos) (simp_all add: Let_def split: if_splits)

lemma id_wf_length: "id_wf i \<Longrightarrow> 7 \<le> length (idbytes_to_vec (id_bytes i))"
  by (erule id_wf_cases) simp_all

text \<open>
  The short form of a keyset identifier resolves to that identifier: a version 00 identifier
  by itself, a version 01 identifier whenever it is among the given keysets and no other keyset
  there starts with the same seven bytes.
\<close>

theorem short_id_resolves:
  assumes "id_wf i" "short_from_id i = Ok short"
    and "version i = Version01 \<longrightarrow> (\<exists>k \<in> set infos. info_id k = i)"
    and "\<forall>k \<in> set infos. id_wf (info_id k)
           \<and> (take 7 (idbytes_to_vec (id_bytes (info_id k))) = take 7 (idbytes_to_vec (id_bytes i))
              \<longrightarrow> info_id k = i)"
  shows "from_short_keyset_id short infos = Ok i"
  using assms(1)
proof (cases rule: id_wf_cases)
  case (v1 b)
  with assms(2) show ?thesis by (auto simp: short_from_id_def from_short_keyset_id_def)
next
  case (v2 b)
  with assms(3) obtain k where k: "k \<in> set infos" "info_id k = i" by auto
  have "find_short (take 7 b) infos = Ok i"
    using v2 assms(4) by (intro find_short_Ok [OF k]) (auto dest: id_wf_length)
  with assms(2) v2 show ?thesis by (auto simp: short_from_id_def from_short_keyset_id_def)
qed

definition example_id2 :: Id where
  "example_id2 = \<lparr>version = Version01, id_bytes = V2 (replicate 32 7)\<rparr>"

definition info_of :: "Id \<Rightarrow> u64 \<Rightarrow> KeySetInfo" where
  "info_of i ppk = \<lparr>info_id = i, info_unit = Sat, info_active = True, info_input_fee_ppk = ppk,
     info_final_expiry = None\<rparr>"

theorem short_id_resolves_witness:
  "from_short_keyset_id \<lparr>short_version = Version01, prefix = replicate 7 7\<rparr>
     [info_of example_id 0, info_of example_id2 100] = Ok example_id2"
  by (rule short_id_resolves)
     (simp_all add: example_id_def example_id2_def info_of_def short_from_id_def
       Cons_replicate_eq)

text \<open>
  A short identifier given as bytes with a prefix longer than seven bytes makes the lookup
  panic as soon as it meets a version 00 keyset, whose identifier is shorter than the slice.
\<close>

theorem short_id_panics:
  assumes "short_from_bytes (1 # p) = Ok short" "7 < length p" "length p \<le> 32"
    and "id_wf (info_id k)" "version (info_id k) = Version00"
  shows "from_short_keyset_id short (k # ks) = Panic"
  using assms(4,5)
proof (cases rule: id_wf_cases)
  case (v1 b)
  with assms(1-3) show ?thesis
    by (auto simp: short_from_bytes_def version_from_byte_def from_short_keyset_id_def Let_def)
qed auto

theorem short_id_panics_witness:
  "from_short_keyset_id \<lparr>short_version = Version01, prefix = replicate 32 7\<rparr>
     [info_of example_id 0, info_of example_id2 100] = Panic"
  by (rule short_id_panics [where p = "replicate 32 7"])
     (simp_all add: short_from_bytes_def version_from_byte_def info_of_def example_id_def)

section \<open>The fee of a set of proofs\<close>

text \<open>The exact fee in parts per thousand, over the naturals.\<close>

definition fee_ppk :: "(Id \<Rightarrow> u64 option) \<Rightarrow> (Id \<times> u64) list \<Rightarrow> nat" where
  "fee_ppk keyset_fee pcs = (\<Sum>(i, n) \<leftarrow> pcs. unat (the (keyset_fee i)) * unat n)"

lemma fee_ppk_Cons: "fee_ppk f ((i, n) # pcs) = unat (the (f i)) * unat n + fee_ppk f pcs"
  by (simp add: fee_ppk_def)

lemma fee_fold:
  assumes "\<forall>(i, n) \<in> set pcs. keyset_fee i \<noteq> None"
    and "unat s + fee_ppk keyset_fee pcs < 2 ^ 64"
  shows "\<exists>r. try_fold (fee_step oc keyset_fee) s pcs = Ok r
           \<and> unat r = unat s + fee_ppk keyset_fee pcs"
  using assms
proof (induction pcs arbitrary: s)
  case Nil
  then show ?case by (simp add: fee_ppk_def)
next
  case (Cons p pcs)
  obtain i n where p: "p = (i, n)" by (cases p)
  from Cons.prems(1) p obtain f where f: "keyset_fee i = Some f" by auto
  have bound: "unat s + unat f * unat n + fee_ppk keyset_fee pcs < 2 ^ 64"
    using Cons.prems(2) p f by (simp add: fee_ppk_Cons)
  then have m: "checked_mul f n = Some (f * n)" "unat (f * n) = unat f * unat n"
    by (simp_all add: checked_mul_Some_iff unat_mul_fits)
  then have a: "checked_add s (f * n) = Some (s + f * n)" "unat (s + f * n) = unat s + unat f * unat n"
    using bound by (simp_all add: checked_add_Some_iff unat_add_fits)
  have "\<exists>r. try_fold (fee_step oc keyset_fee) (s + f * n) pcs = Ok r
           \<and> unat r = unat (s + f * n) + fee_ppk keyset_fee pcs"
    using Cons.prems(1) bound a(2) by (intro Cons.IH) auto
  moreover have "fee_step oc keyset_fee s p = Ok (s + f * n)"
    using p f m a by (simp add: fee_step_def mul_unchecked_def)
  ultimately show ?case using p f a(2) by (simp add: fee_ppk_Cons add.assoc)
qed

text \<open>
  C32: When every keyset is known and the total fits in 64 bits, the fee is the sum over the
  keysets of proof count times fee per thousand, divided by a thousand and rounded up; it does
  not depend on the order in which the map of counts is visited.
\<close>

theorem calculate_fee_value:
  assumes "\<forall>(i, n) \<in> set pcs. keyset_fee i \<noteq> None"
    and "fee_ppk keyset_fee pcs + 999 < 2 ^ 64"
    and "mset pcs' = mset pcs"
  shows "\<exists>f. calculate_fee oc pcs' keyset_fee = Ok f
           \<and> unat f = (fee_ppk keyset_fee pcs + 999) div 1000"
proof -
  have eq: "fee_ppk keyset_fee pcs' = fee_ppk keyset_fee pcs"
    using assms(3) unfolding fee_ppk_def by (simp add: mset_map flip: sum_mset_sum_list)
  have "set pcs' = set pcs" using assms(3) by (rule mset_eq_setD)
  then obtain r where r: "try_fold (fee_step oc keyset_fee) 0 pcs' = Ok r"
      "unat r = fee_ppk keyset_fee pcs"
    using fee_fold [of pcs' keyset_fee 0 oc] assms(1,2) eq by auto
  then have "checked_add r 999 = Some (r + 999)" "unat (r + 999) = fee_ppk keyset_fee pcs + 999"
    using assms(2) by (simp_all add: checked_add_Some_iff unat_add_fits)
  with r show ?thesis by (simp add: calculate_fee_def unat_div)
qed

theorem calculate_fee_value_witness:
  "\<exists>f. calculate_fee True [(example_id2, 3), (example_id, 2)]
         [example_id \<mapsto> 100, example_id2 \<mapsto> 400] = Ok f
     \<and> unat f = (fee_ppk [example_id \<mapsto> 100, example_id2 \<mapsto> 400]
                   [(example_id, 2), (example_id2, 3)] + 999) div 1000"
  by (rule calculate_fee_value)
     (simp_all add: example_id_def example_id2_def fee_ppk_def)

text \<open>
  The product of a keyset's fee and its proof count is not checked: two proofs of a keyset
  whose fee is \<open>2 ^ 63\<close> per thousand pay nothing in a build without overflow checks, and the
  computation panics in a build with them.
\<close>

theorem calculate_fee_unchecked_product:
  "calculate_fee False [(i, 2)] [i \<mapsto> 2 ^ 63] = Ok 0
   \<and> calculate_fee True [(i, 2)] [i \<mapsto> 2 ^ 63] = Panic"
  by (simp add: calculate_fee_def fee_step_def mul_unchecked_def checked_mul_def checked_add_def)

end
