(* ===== verification/Crypto.thy ===== *)
theory Crypto
  imports Keysets
begin

text \<open>
  Keys and the blind Diffie-Hellman exchange (\<^verbatim>\<open>crates/cashu/src/dhke.rs\<close>,
  \<^verbatim>\<open>nuts/nut01/public_key.rs\<close>, \<^verbatim>\<open>nuts/nut01/secret_key.rs\<close>, \<^verbatim>\<open>nuts/nut12.rs\<close>).
  SHA-256, secp256k1, Schnorr signatures and the JSON parser are third-party code: they are the
  fields of one record of functions that every definition using them takes as an argument. The
  laws of the curve that the exchange relies on are collected in \<open>secp_laws\<close>; under them the lemmas
  show that blinding, signing and unblinding gives a token the mint accepts, and that the mint's
  proof of equal discrete logarithms is accepted.
\<close>

section \<open>Third-party functions\<close>

type_synonym SecretKey = bytes
type_synonym Signature = bytes

datatype Kind = P2PK | HTLC

record SecretData =
  sd_nonce :: string
  sd_data :: string
  sd_tags :: "string list list option"

text \<open>A JSON value as the parser delivers it to a visitor.\<close>

datatype json = JNull | JBool bool | JNumber string | JString string
  | JArray "json list" | JObject "(string \<times> json) list"

text \<open>
  Public keys are their 33 compressed bytes, secret keys their 32 bytes; a key that fails to parse
  or an operation that leaves the group is \<open>None\<close>. The two \<open>json_\<close> readers and the writer are the
  code that \<open>derive(Serialize, Deserialize)\<close> generates.
\<close>

record externs =
  sha256 :: "bytes \<Rightarrow> bytes"
  secp_pk_from_str :: "string \<Rightarrow> PublicKey option"
  secp_pk_from_slice :: "bytes \<Rightarrow> PublicKey option"
  secp_sk_from_slice :: "bytes \<Rightarrow> SecretKey option"
  xonly_from_slice :: "bytes \<Rightarrow> bytes option"
  pk_mul_tweak :: "PublicKey \<Rightarrow> SecretKey \<Rightarrow> PublicKey option"
  pk_combine :: "PublicKey \<Rightarrow> PublicKey \<Rightarrow> PublicKey option"
  pk_negate :: "PublicKey \<Rightarrow> PublicKey"
  pk_uncompressed :: "PublicKey \<Rightarrow> bytes"
  sk_public_key :: "SecretKey \<Rightarrow> PublicKey"
  sk_mul_tweak :: "SecretKey \<Rightarrow> SecretKey \<Rightarrow> SecretKey option"
  sk_add_tweak :: "SecretKey \<Rightarrow> SecretKey \<Rightarrow> SecretKey option"
  schnorr_sign :: "bytes \<Rightarrow> SecretKey \<Rightarrow> Signature"
  schnorr_verify :: "Signature \<Rightarrow> bytes \<Rightarrow> bytes \<Rightarrow> bool"
  sig_from_str :: "string \<Rightarrow> Signature option"
  sig_to_string :: "Signature \<Rightarrow> string"
  sha256_from_str :: "string \<Rightarrow> bytes option"
  json_from_str :: "string \<Rightarrow> json option"
  json_kind :: "json \<Rightarrow> Kind option"
  json_secret_data :: "json \<Rightarrow> SecretData option"

section \<open>Keys\<close>

datatype nut01_error = Secp256k1 | InvalidPublicKeySize nat nat

definition pk_from_hex :: "externs \<Rightarrow> string \<Rightarrow> (nut01_error, PublicKey) outcome" where
  "pk_from_hex e hex =
     (if length hex \<noteq> 33 * 2 then Err (InvalidPublicKeySize 33 (length hex div 2))
      else ok_or (secp_pk_from_str e hex) Secp256k1)"

definition pk_from_slice :: "externs \<Rightarrow> bytes \<Rightarrow> (nut01_error, PublicKey) outcome" where
  "pk_from_slice e b = ok_or (secp_pk_from_slice e b) Secp256k1"

definition pk_to_hex :: "PublicKey \<Rightarrow> string" where
  "pk_to_hex pk = encode pk"

text \<open>The x-only key drops the parity byte of the compressed form.\<close>

definition x_only_public_key :: "PublicKey \<Rightarrow> bytes" where
  "x_only_public_key pk = tl pk"

definition pk_verify :: "externs \<Rightarrow> PublicKey \<Rightarrow> bytes \<Rightarrow> Signature \<Rightarrow> bool" where
  "pk_verify e pk msg sig = schnorr_verify e sig (sha256 e msg) (x_only_public_key pk)"

definition sk_sign :: "externs \<Rightarrow> SecretKey \<Rightarrow> bytes \<Rightarrow> Signature" where
  "sk_sign e sk msg = schnorr_sign e (sha256 e msg) sk"

section \<open>Hashing to the curve\<close>

datatype dhke_error = TokenNotVerified | NoValidPoint | DhkeSecp256k1 | DhkeCustom string

definition DOMAIN_SEPARATOR :: bytes where
  "DOMAIN_SEPARATOR = as_bytes ''Secp256k1_HashToCurve_Cashu_''"

definition u32_to_le_bytes :: "u32 \<Rightarrow> bytes" where
  "u32_to_le_bytes c = [ucast c, ucast (drop_bit 8 c), ucast (drop_bit 16 c), ucast (drop_bit 24 c)]"

function hash_to_curve_from :: "externs \<Rightarrow> bytes \<Rightarrow> u32 \<Rightarrow> (dhke_error, PublicKey) outcome" where
  "hash_to_curve_from e msg_hash counter =
     (if counter < 2 ^ 16
      then (case xonly_from_slice e (sha256 e (msg_hash @ u32_to_le_bytes counter)) of
              Some x \<Rightarrow> Ok (2 # x)
            | None \<Rightarrow> hash_to_curve_from e msg_hash (counter + 1))
      else Err NoValidPoint)"
  by pat_completeness auto

termination
proof (relation "measure (\<lambda>(e, h, c). 2 ^ 16 - unat c)")
  fix e :: externs and h :: bytes and c :: u32
  assume "c < 2 ^ 16"
  then have "unat c < 2 ^ 16" by (simp add: word_less_nat_alt)
  then have "unat (c + 1) = unat c + 1" by (simp add: unat_add_fits)
  with \<open>unat c < 2 ^ 16\<close>
  show "((e, h, c + 1), e, h, c) \<in> measure (\<lambda>(e, h, c). 2 ^ 16 - unat c)" by simp
qed simp

declare hash_to_curve_from.simps [simp del]

definition hash_to_curve :: "externs \<Rightarrow> bytes \<Rightarrow> (dhke_error, PublicKey) outcome" where
  "hash_to_curve e message = hash_to_curve_from e (sha256 e (DOMAIN_SEPARATOR @ message)) 0"

section \<open>Blind signatures\<close>

definition hash_e :: "externs \<Rightarrow> PublicKey list \<Rightarrow> bytes" where
  "hash_e e public_keys =
     sha256 e (as_bytes (concat (map (\<lambda>p. encode (pk_uncompressed e p)) public_keys)))"

text \<open>\<open>generated\<close> is the random key used when no blinding factor is given.\<close>

definition blind_message ::
  "externs \<Rightarrow> SecretKey \<Rightarrow> bytes \<Rightarrow> SecretKey option \<Rightarrow> (dhke_error, PublicKey \<times> SecretKey) outcome" where
  "blind_message e generated secret blinding_factor =
     and_then (hash_to_curve e secret) (\<lambda>y.
     let r = (case blinding_factor of Some r \<Rightarrow> r | None \<Rightarrow> generated) in
     and_then (ok_or (pk_combine e y (sk_public_key e r)) DhkeSecp256k1) (\<lambda>b. Ok (b, r)))"

definition unblind_message ::
  "externs \<Rightarrow> PublicKey \<Rightarrow> SecretKey \<Rightarrow> PublicKey \<Rightarrow> (dhke_error, PublicKey) outcome" where
  "unblind_message e blinded_key r mint_pubkey =
     and_then (ok_or (pk_mul_tweak e mint_pubkey r) DhkeSecp256k1) (\<lambda>a.
     ok_or (pk_combine e blinded_key (pk_negate e a)) DhkeSecp256k1)"

definition sign_message :: "externs \<Rightarrow> SecretKey \<Rightarrow> PublicKey \<Rightarrow> (dhke_error, PublicKey) outcome" where
  "sign_message e k blinded_message = ok_or (pk_mul_tweak e blinded_message k) DhkeSecp256k1"

definition verify_message ::
  "externs \<Rightarrow> SecretKey \<Rightarrow> PublicKey \<Rightarrow> bytes \<Rightarrow> (dhke_error, unit) outcome" where
  "verify_message e a unblinded_message msg =
     and_then (hash_to_curve e msg) (\<lambda>y.
     and_then (ok_or (pk_mul_tweak e y a) DhkeSecp256k1) (\<lambda>expected.
     if unblinded_message = expected then Ok () else Err TokenNotVerified))"

section \<open>Proofs of equal discrete logarithms\<close>

datatype nut12_error = MissingDleqProof | InvalidDleqProof | Nut12DHKE dhke_error
  | Nut12NUT01 nut01_error | Nut12Secp256k1

record BlindSignatureDleq =
  dleq_e :: SecretKey
  dleq_s :: SecretKey

definition verify_dleq ::
  "externs \<Rightarrow> PublicKey \<Rightarrow> PublicKey \<Rightarrow> SecretKey \<Rightarrow> SecretKey \<Rightarrow> PublicKey \<Rightarrow> (nut12_error, unit) outcome" where
  "verify_dleq x blinded_message blinded_signature e s mint_pubkey =
     and_then (ok_or (pk_mul_tweak x mint_pubkey e) Nut12Secp256k1) (\<lambda>a.
     and_then (ok_or (pk_combine x (sk_public_key x s) (pk_negate x a)) Nut12Secp256k1) (\<lambda>r1.
     and_then (ok_or (pk_mul_tweak x blinded_message s) Nut12Secp256k1) (\<lambda>b.
     and_then (ok_or (pk_mul_tweak x blinded_signature e) Nut12Secp256k1) (\<lambda>c.
     and_then (ok_or (pk_combine x b (pk_negate x c)) Nut12Secp256k1) (\<lambda>r2.
     if e \<noteq> hash_e x [r1, r2, mint_pubkey, blinded_signature] then Err InvalidDleqProof
     else Ok ())))))"

text \<open>\<open>r\<close> is the random nonce.\<close>

definition calculate_dleq ::
  "externs \<Rightarrow> SecretKey \<Rightarrow> PublicKey \<Rightarrow> PublicKey \<Rightarrow> SecretKey \<Rightarrow> (nut12_error, BlindSignatureDleq) outcome" where
  "calculate_dleq x r blinded_signature blinded_message mint_secret_key =
     (let r1 = sk_public_key x r in
      and_then (ok_or (pk_mul_tweak x blinded_message r) Nut12Secp256k1) (\<lambda>r2.
      let e = hash_e x [r1, r2, sk_public_key x mint_secret_key, blinded_signature] in
      and_then (ok_or (secp_sk_from_slice x e) (Nut12NUT01 Secp256k1)) (\<lambda>e_sk.
      and_then (ok_or (sk_mul_tweak x e_sk mint_secret_key) Nut12Secp256k1) (\<lambda>s1.
      and_then (ok_or (sk_add_tweak x r s1) Nut12Secp256k1) (\<lambda>s.
      Ok \<lparr>dleq_e = e_sk, dleq_s = s\<rparr>)))))"

section \<open>The laws of the curve\<close>

text \<open>
  What the exchange relies on: the points form a group of prime order in which a point is
  determined by its discrete logarithm, keys are non-zero, tweaking multiplies and combining adds
  logarithms and fails only at the point at infinity.
\<close>

record curve =
  order :: int
  is_scalar :: "SecretKey \<Rightarrow> bool"
  scalar :: "SecretKey \<Rightarrow> int"
  is_point :: "PublicKey \<Rightarrow> bool"
  dlog :: "PublicKey \<Rightarrow> int"

definition has_log :: "curve \<Rightarrow> PublicKey \<Rightarrow> int \<Rightarrow> bool" where
  "has_log k P x \<longleftrightarrow> is_point k P \<and> dlog k P mod order k = x mod order k"

definition has_scalar :: "curve \<Rightarrow> SecretKey \<Rightarrow> int \<Rightarrow> bool" where
  "has_scalar k s x \<longleftrightarrow> is_scalar k s \<and> scalar k s mod order k = x mod order k"

definition secp_laws :: "externs \<Rightarrow> curve \<Rightarrow> bool" where
  "secp_laws e k \<longleftrightarrow>
     (\<forall>a b. order k dvd a * b \<longrightarrow> order k dvd a \<or> order k dvd b)
   \<and> (\<forall>P. is_point k P \<longrightarrow> \<not> order k dvd dlog k P)
   \<and> (\<forall>s. is_scalar k s \<longrightarrow> \<not> order k dvd scalar k s)
   \<and> (\<forall>P Q x. has_log k P x \<longrightarrow> has_log k Q x \<longrightarrow> P = Q)
   \<and> (\<forall>s. is_scalar k s \<longrightarrow> has_log k (sk_public_key e s) (scalar k s))
   \<and> (\<forall>P s. is_point k P \<longrightarrow> is_scalar k s \<longrightarrow>
        (\<exists>Q. pk_mul_tweak e P s = Some Q \<and> has_log k Q (dlog k P * scalar k s)))
   \<and> (\<forall>P Q. is_point k P \<longrightarrow> is_point k Q \<longrightarrow>
        (if order k dvd dlog k P + dlog k Q then pk_combine e P Q = None
         else \<exists>R. pk_combine e P Q = Some R \<and> has_log k R (dlog k P + dlog k Q)))
   \<and> (\<forall>P. is_point k P \<longrightarrow> has_log k (pk_negate e P) (- dlog k P))
   \<and> (\<forall>s t. is_scalar k s \<longrightarrow> is_scalar k t \<longrightarrow>
        (\<exists>u. sk_mul_tweak e s t = Some u \<and> has_scalar k u (scalar k s * scalar k t)))
   \<and> (\<forall>s t. is_scalar k s \<longrightarrow> is_scalar k t \<longrightarrow>
        (if order k dvd scalar k s + scalar k t then sk_add_tweak e s t = None
         else \<exists>u. sk_add_tweak e s t = Some u \<and> has_scalar k u (scalar k s + scalar k t)))
   \<and> (\<forall>h x. xonly_from_slice e h = Some x \<longrightarrow> is_point k (2 # x))
   \<and> (\<forall>b s. secp_sk_from_slice e b = Some s \<longrightarrow> s = b \<and> is_scalar k s)"

lemma has_log_self: "is_point k P \<Longrightarrow> has_log k P (dlog k P)"
  by (simp add: has_log_def)

lemma has_log_cong: "has_log k P x \<Longrightarrow> x mod order k = y mod order k \<Longrightarrow> has_log k P y"
  by (simp add: has_log_def)

lemma secp_lawsD:
  assumes "secp_laws e k"
  shows "order k dvd a * b \<Longrightarrow> order k dvd a \<or> order k dvd b"
    and "is_point k P \<Longrightarrow> \<not> order k dvd dlog k P"
    and "is_scalar k s \<Longrightarrow> \<not> order k dvd scalar k s"
    and "has_log k P x \<Longrightarrow> has_log k Q x \<Longrightarrow> P = Q"
    and "is_scalar k s \<Longrightarrow> has_log k (sk_public_key e s) (scalar k s)"
    and "is_point k P \<Longrightarrow> is_scalar k s \<Longrightarrow>
           \<exists>Q. pk_mul_tweak e P s = Some Q \<and> has_log k Q (dlog k P * scalar k s)"
    and "is_point k P \<Longrightarrow> is_point k Q \<Longrightarrow>
           if order k dvd dlog k P + dlog k Q then pk_combine e P Q = None
           else \<exists>R. pk_combine e P Q = Some R \<and> has_log k R (dlog k P + dlog k Q)"
    and "is_point k P \<Longrightarrow> has_log k (pk_negate e P) (- dlog k P)"
    and "is_scalar k s \<Longrightarrow> is_scalar k t \<Longrightarrow>
           \<exists>u. sk_mul_tweak e s t = Some u \<and> has_scalar k u (scalar k s * scalar k t)"
    and "is_scalar k s \<Longrightarrow> is_scalar k t \<Longrightarrow>
           if order k dvd scalar k s + scalar k t then sk_add_tweak e s t = None
           else \<exists>u. sk_add_tweak e s t = Some u \<and> has_scalar k u (scalar k s + scalar k t)"
    and "xonly_from_slice e h = Some y \<Longrightarrow> is_point k (2 # y)"
    and "secp_sk_from_slice e h = Some s \<Longrightarrow> s = h \<and> is_scalar k s"
proof -
  note l = assms [unfolded secp_laws_def]
  show "order k dvd a * b \<Longrightarrow> order k dvd a \<or> order k dvd b"
    by (rule l [THEN conjunct1, rule_format])
  show "is_point k P \<Longrightarrow> \<not> order k dvd dlog k P"
    by (rule l [THEN conjunct2, THEN conjunct1, rule_format])
  show "is_scalar k s \<Longrightarrow> \<not> order k dvd scalar k s"
    by (rule l [THEN conjunct2, THEN conjunct2, THEN conjunct1, rule_format])
  show "has_log k P x \<Longrightarrow> has_log k Q x \<Longrightarrow> P = Q"
    by (rule l [THEN conjunct2, THEN conjunct2, THEN conjunct2, THEN conjunct1, rule_format])
  show "is_scalar k s \<Longrightarrow> has_log k (sk_public_key e s) (scalar k s)"
    by (rule l [THEN conjunct2, THEN conjunct2, THEN conjunct2, THEN conjunct2, THEN conjunct1, rule_format])
  show "is_point k P \<Longrightarrow> is_scalar k s \<Longrightarrow>
      \<exists>Q. pk_mul_tweak e P s = Some Q \<and> has_log k Q (dlog k P * scalar k s)"
    by (rule l [THEN conjunct2, THEN conjunct2, THEN conjunct2, THEN conjunct2, THEN conjunct2, THEN conjunct1, rule_format])
  show "is_point k P \<Longrightarrow> is_point k Q \<Longrightarrow>
      if order k dvd dlog k P + dlog k Q then pk_combine e P Q = None
      else \<exists>R. pk_combine e P Q = Some R \<and> has_log k R (dlog k P + dlog k Q)"
    by (rule l [THEN conjunct2, THEN conjunct2, THEN conjunct2, THEN conjunct2, THEN conjunct2, THEN conjunct2, THEN conjunct1, rule_format])
  show "is_point k P \<Longrightarrow> has_log k (pk_negate e P) (- dlog k P)"
    by (rule l [THEN conjunct2, THEN conjunct2, THEN conjunct2, THEN conjunct2, THEN conjunct2, THEN conjunct2, THEN conjunct2, THEN conjunct1, rule_format])
  show "is_scalar k s \<Longrightarrow> is_scalar k t \<Longrightarrow>
      \<exists>u. sk_mul_tweak e s t = Some u \<and> has_scalar k u (scalar k s * scalar k t)"
    by (rule l [THEN conjunct2, THEN conjunct2, THEN conjunct2, THEN conjunct2, THEN conjunct2, THEN conjunct2, THEN conjunct2, THEN conjunct2, THEN conjunct1, rule_format])
  show "is_scalar k s \<Longrightarrow> is_scalar k t \<Longrightarrow>
      if order k dvd scalar k s + scalar k t then sk_add_tweak e s t = None
      else \<exists>u. sk_add_tweak e s t = Some u \<and> has_scalar k u (scalar k s + scalar k t)"
    by (rule l [THEN conjunct2, THEN conjunct2, THEN conjunct2, THEN conjunct2, THEN conjunct2, THEN conjunct2, THEN conjunct2, THEN conjunct2, THEN conjunct2, THEN conjunct1, rule_format])
  show "xonly_from_slice e h = Some y \<Longrightarrow> is_point k (2 # y)"
    by (rule l [THEN conjunct2, THEN conjunct2, THEN conjunct2, THEN conjunct2, THEN conjunct2, THEN conjunct2, THEN conjunct2, THEN conjunct2, THEN conjunct2, THEN conjunct2, THEN conjunct1, rule_format])
  show "secp_sk_from_slice e h = Some s \<Longrightarrow> s = h \<and> is_scalar k s"
    by (rule l [THEN conjunct2, THEN conjunct2, THEN conjunct2, THEN conjunct2, THEN conjunct2, THEN conjunct2, THEN conjunct2, THEN conjunct2, THEN conjunct2, THEN conjunct2, THEN conjunct2, rule_format])
qed

lemma has_log_point: "has_log k P x \<Longrightarrow> is_point k P"
  by (simp add: has_log_def)

lemma has_log_nonzero:
  assumes "secp_laws e k" "has_log k P x"
  shows "\<not> order k dvd x"
  using secp_lawsD(2) [OF assms(1) has_log_point [OF assms(2)]] assms(2)
  by (simp add: has_log_def dvd_eq_mod_eq_0)

lemma has_scalar_self: "is_scalar k s \<Longrightarrow> has_scalar k s (scalar k s)"
  by (simp add: has_scalar_def)

lemma public_log:
  assumes "secp_laws e k" "has_scalar k s x"
  shows "has_log k (sk_public_key e s) x"
  using secp_lawsD(5) [OF assms(1)] assms(2) by (auto simp: has_scalar_def intro: has_log_cong)

lemma mul_tweak_log:
  assumes "secp_laws e k" "has_log k P x" "has_scalar k s y"
  obtains Q where "pk_mul_tweak e P s = Some Q" "has_log k Q (x * y)"
proof -
  have "is_scalar k s" using assms(3) by (simp add: has_scalar_def)
  then obtain Q where "pk_mul_tweak e P s = Some Q" "has_log k Q (dlog k P * scalar k s)"
    using secp_lawsD(6) [OF assms(1) has_log_point [OF assms(2)]] by blast
  moreover have "(dlog k P * scalar k s) mod order k = (x * y) mod order k"
    using assms(2,3) by (intro mod_mult_cong) (simp_all add: has_log_def has_scalar_def)
  ultimately show thesis using has_log_cong that by blast
qed

lemma combine_log:
  assumes "secp_laws e k" "has_log k P x" "has_log k Q y" "\<not> order k dvd x + y"
  obtains R where "pk_combine e P Q = Some R" "has_log k R (x + y)"
proof -
  have eq: "(dlog k P + dlog k Q) mod order k = (x + y) mod order k"
    using assms(2,3) by (intro mod_add_cong) (simp_all add: has_log_def)
  then have "\<not> order k dvd dlog k P + dlog k Q" using assms(4) by (simp add: dvd_eq_mod_eq_0)
  then obtain R where "pk_combine e P Q = Some R" "has_log k R (dlog k P + dlog k Q)"
    using secp_lawsD(7) [OF assms(1) has_log_point [OF assms(2)] has_log_point [OF assms(3)]] by auto
  with eq show thesis using has_log_cong that by blast
qed

lemma combine_Some_log:
  assumes "secp_laws e k" "has_log k P x" "has_log k Q y" "pk_combine e P Q = Some R"
  shows "has_log k R (x + y)"
proof -
  have eq: "(dlog k P + dlog k Q) mod order k = (x + y) mod order k"
    using assms(2,3) by (intro mod_add_cong) (simp_all add: has_log_def)
  have "has_log k R (dlog k P + dlog k Q)"
    using secp_lawsD(7) [OF assms(1) has_log_point [OF assms(2)] has_log_point [OF assms(3)]]
      assms(4) by (auto split: if_splits)
  then show ?thesis using eq by (rule has_log_cong)
qed

lemma negate_log:
  assumes "secp_laws e k" "has_log k P x"
  shows "has_log k (pk_negate e P) (- x)"
proof -
  have "(- dlog k P) mod order k = (- x) mod order k"
    using assms(2) by (metis has_log_def mod_minus_eq)
  then show ?thesis
    using secp_lawsD(8) [OF assms(1) has_log_point [OF assms(2)]] by (rule has_log_cong [rotated])
qed

lemma hash_to_curve_from_Ok:
  "hash_to_curve_from e h c = Ok y \<Longrightarrow> \<exists>m x. xonly_from_slice e m = Some x \<and> y = 2 # x"
proof (induction e h c rule: hash_to_curve_from.induct)
  case (1 e h c)
  show ?case
  proof (cases "xonly_from_slice e (sha256 e (h @ u32_to_le_bytes c))")
    case None
    with 1 show ?thesis by (subst (asm) (2) hash_to_curve_from.simps) (auto split: if_splits)
  next
    case (Some x)
    with 1(2) show ?thesis by (subst (asm) hash_to_curve_from.simps) (auto split: if_splits)
  qed
qed

lemma hash_to_curve_log:
  assumes "secp_laws e k" "hash_to_curve e m = Ok y"
  shows "has_log k y (dlog k y)"
  using secp_lawsD(11) [OF assms(1)] hash_to_curve_from_Ok assms(2)
  unfolding hash_to_curve_def by (blast intro: has_log_self)

section \<open>The exchange is complete\<close>

text \<open>
  A message that is blinded, signed with a mint key and unblinded with the matching public key
  gives a token that the mint verifies with that key; the blinded signature is recovered from the
  token and the blinding factor.
\<close>

lemma blind_sign_unblind_verify:
  assumes "secp_laws e k" "is_scalar k mint_key"
    and "is_scalar k (case factor of Some r \<Rightarrow> r | None \<Rightarrow> generated)"
    and "blind_message e generated secret factor = Ok (B, r)"
  obtains y A C' C where "hash_to_curve e secret = Ok y" "pk_combine e y (sk_public_key e r) = Some B"
    and "is_point k B" "sign_message e mint_key B = Ok C'"
    and "unblind_message e C' r (sk_public_key e mint_key) = Ok C"
    and "verify_message e mint_key C secret = Ok ()"
    and "pk_mul_tweak e (sk_public_key e mint_key) r = Some A" "pk_combine e C A = Some C'"
proof -
  from assms(4) obtain y where y: "hash_to_curve e secret = Ok y"
    and r: "r = (case factor of Some r \<Rightarrow> r | None \<Rightarrow> generated)"
    and B: "pk_combine e y (sk_public_key e r) = Some B"
    by (auto simp: blind_message_def Let_def)
  let ?y = "dlog k y" and ?r = "scalar k r" and ?a = "scalar k mint_key"
  have sr: "has_scalar k r ?r" using assms(3) r by (simp add: has_scalar_self)
  have sa: "has_scalar k mint_key ?a" using assms(2) by (rule has_scalar_self)
  note ly = hash_to_curve_log [OF assms(1) y]
  have lB: "has_log k B (?y + ?r)"
    using combine_Some_log [OF assms(1) ly public_log [OF assms(1) sr] B] .
  then obtain C' where C': "pk_mul_tweak e B mint_key = Some C'" "has_log k C' ((?y + ?r) * ?a)"
    using mul_tweak_log assms(1) sa by blast
  obtain A where A: "pk_mul_tweak e (sk_public_key e mint_key) r = Some A" "has_log k A (?a * ?r)"
    using mul_tweak_log [OF assms(1) public_log [OF assms(1) sa] sr] by blast
  obtain D where D: "pk_mul_tweak e y mint_key = Some D" "has_log k D (?y * ?a)"
    using mul_tweak_log [OF assms(1) ly sa] by blast
  have sum: "(?y + ?r) * ?a + - (?a * ?r) = ?y * ?a" by algebra
  obtain C where C: "pk_combine e C' (pk_negate e A) = Some C" "has_log k C (?y * ?a)"
    using combine_log [OF assms(1) C'(2) negate_log [OF assms(1) A(2)]]
      has_log_nonzero [OF assms(1) D(2)] unfolding sum by blast
  have "C = D" using secp_lawsD(4) [OF assms(1) C(2) D(2)] .
  have bk: "?y * ?a + ?a * ?r = (?y + ?r) * ?a" by algebra
  obtain R where R: "pk_combine e C A = Some R" "has_log k R ((?y + ?r) * ?a)"
    using combine_log [OF assms(1) C(2) A(2)] has_log_nonzero [OF assms(1) C'(2)]
    unfolding bk by blast
  then have "R = C'" using secp_lawsD(4) [OF assms(1)] C'(2) by blast
  show thesis
    by (rule that [of y C' C A])
       (use y A C C' D B R \<open>C = D\<close> \<open>R = C'\<close> has_log_point [OF lB] in
         \<open>simp_all add: sign_message_def unblind_message_def verify_message_def\<close>)
qed

lemma calculate_dleq_scalar:
  assumes "secp_laws x k" "is_scalar k r" "is_scalar k a"
    and "calculate_dleq x r C' B a = Ok d"
  obtains r2 where "pk_mul_tweak x B r = Some r2"
    and "dleq_e d = hash_e x [sk_public_key x r, r2, sk_public_key x a, C']"
    and "is_scalar k (dleq_e d)"
    and "has_scalar k (dleq_s d) (scalar k r + scalar k (dleq_e d) * scalar k a)"
proof -
  from assms(4) obtain r2 e s1 s where
    r2: "pk_mul_tweak x B r = Some r2"
    and e: "secp_sk_from_slice x (hash_e x [sk_public_key x r, r2, sk_public_key x a, C']) = Some e"
    and s1: "sk_mul_tweak x e a = Some s1"
    and s: "sk_add_tweak x r s1 = Some s"
    and d: "d = \<lparr>dleq_e = e, dleq_s = s\<rparr>"
    by (auto simp: calculate_dleq_def Let_def)
  have se: "is_scalar k e" and eh: "e = hash_e x [sk_public_key x r, r2, sk_public_key x a, C']"
    using secp_lawsD(12) [OF assms(1) e] by auto
  have hs1: "has_scalar k s1 (scalar k e * scalar k a)"
    using secp_lawsD(9) [OF assms(1) se assms(3)] s1 by auto
  then have "is_scalar k s1" by (simp add: has_scalar_def)
  from secp_lawsD(10) [OF assms(1,2) this] s have "has_scalar k s (scalar k r + scalar k s1)"
    by (auto split: if_splits)
  moreover have "(scalar k r + scalar k s1) mod order k
                   = (scalar k r + scalar k e * scalar k a) mod order k"
    using hs1 by (intro mod_add_cong) (simp_all add: has_scalar_def)
  ultimately have "has_scalar k s (scalar k r + scalar k e * scalar k a)"
    by (simp add: has_scalar_def)
  with r2 eh se d that show thesis by simp
qed

text \<open>
  The proof of equal discrete logarithms that the mint computes for a signature it made is accepted
  by the verifier, whatever the nonce.
\<close>

lemma calculated_dleq_verifies:
  assumes "secp_laws x k" "is_scalar k r" "is_scalar k mint_key" "is_point k B"
    and "sign_message x mint_key B = Ok C'"
    and "calculate_dleq x r C' B mint_key = Ok d"
  shows "verify_dleq x B C' (dleq_e d) (dleq_s d) (sk_public_key x mint_key) = Ok ()"
proof -
  let ?e = "dleq_e d" and ?s = "dleq_s d" and ?A = "sk_public_key x mint_key"
  let ?n = "scalar k r" and ?a = "scalar k mint_key" and ?v = "scalar k (dleq_e d)"
  and ?b = "dlog k B"
  obtain r2 where r2: "pk_mul_tweak x B r = Some r2"
    and e: "?e = hash_e x [sk_public_key x r, r2, ?A, C']"
    and se: "is_scalar k ?e" and ss: "has_scalar k ?s (?n + ?v * ?a)"
    using calculate_dleq_scalar [OF assms(1-3,6)] by blast
  note ve = has_scalar_self [OF se] and va = has_scalar_self [OF assms(3)]
  and vn = has_scalar_self [OF assms(2)] and lB = has_log_self [OF assms(4)]
  have lr2: "has_log k r2 (?b * ?n)"
    using mul_tweak_log [OF assms(1) lB vn] r2 by (metis option.sel)
  have lC: "has_log k C' (?b * ?a)"
    using mul_tweak_log [OF assms(1) lB va] assms(5) by (metis ok_or_Ok_iff option.sel sign_message_def)
  have lr1: "has_log k (sk_public_key x r) ?n" using public_log [OF assms(1) vn] .
  obtain a' where a': "pk_mul_tweak x ?A ?e = Some a'" "has_log k a' (?a * ?v)"
    using mul_tweak_log [OF assms(1) public_log [OF assms(1) va] ve] by blast
  have sum1: "?n + ?v * ?a + - (?a * ?v) = ?n" by simp
  obtain q1 where q1: "pk_combine x (sk_public_key x ?s) (pk_negate x a') = Some q1" "has_log k q1 ?n"
    using combine_log [OF assms(1) public_log [OF assms(1) ss] negate_log [OF assms(1) a'(2)]]
      has_log_nonzero [OF assms(1) lr1] unfolding sum1 by blast
  obtain b where b: "pk_mul_tweak x B ?s = Some b" "has_log k b (?b * (?n + ?v * ?a))"
    using mul_tweak_log [OF assms(1) lB ss] by blast
  obtain c where c: "pk_mul_tweak x C' ?e = Some c" "has_log k c (?b * ?a * ?v)"
    using mul_tweak_log [OF assms(1) lC ve] by blast
  have sum2: "?b * (?n + ?v * ?a) + - (?b * ?a * ?v) = ?b * ?n" by algebra
  obtain q2 where q2: "pk_combine x b (pk_negate x c) = Some q2" "has_log k q2 (?b * ?n)"
    using combine_log [OF assms(1) b(2) negate_log [OF assms(1) c(2)]]
      has_log_nonzero [OF assms(1) lr2] unfolding sum2 by blast
  have "q1 = sk_public_key x r" "q2 = r2"
    using secp_lawsD(4) [OF assms(1)] q1(2) q2(2) lr1 lr2 by blast+
  with a'(1) q1(1) b(1) c(1) q2(1) e show ?thesis by (simp add: verify_dleq_def ensure_def)
qed

section \<open>A small instance of the third-party functions\<close>

text \<open>
  A group of order five with its discrete logarithm in the open, a hash with one value and
  hexadecimal text forms. It satisfies the laws, so that the statements that assume them can be
  applied.
\<close>

definition toy_val :: "bytes \<Rightarrow> int" where
  "toy_val b = uint (last b)"

definition toy_elem :: "int \<Rightarrow> bytes option" where
  "toy_elem x = (if x mod 5 = 0 then None else Some [word_of_int (x mod 5)])"

definition toy_externs :: externs where
  "toy_externs = \<lparr>
     sha256 = (\<lambda>_. [1]),
     secp_pk_from_str = (\<lambda>s. ok (decode s)),
     secp_pk_from_slice = Some,
     secp_sk_from_slice = (\<lambda>b. if b \<in> {[1], [2], [3], [4]} then Some b else None),
     xonly_from_slice = (\<lambda>b. if b \<in> {[1], [2], [3], [4]} then Some b else None),
     pk_mul_tweak = (\<lambda>P s. map_option ((#) 2) (toy_elem (toy_val P * toy_val s))),
     pk_combine = (\<lambda>P Q. map_option ((#) 2) (toy_elem (toy_val P + toy_val Q))),
     pk_negate = (\<lambda>P. [2, word_of_int (- toy_val P mod 5)]),
     pk_uncompressed = (\<lambda>P. P),
     sk_public_key = (\<lambda>s. 2 # s),
     sk_mul_tweak = (\<lambda>s t. toy_elem (toy_val s * toy_val t)),
     sk_add_tweak = (\<lambda>s t. toy_elem (toy_val s + toy_val t)),
     schnorr_sign = (\<lambda>digest sk. sk @ digest),
     schnorr_verify = (\<lambda>sig digest key. sig = key @ digest),
     sig_from_str = (\<lambda>s. ok (decode s)),
     sig_to_string = encode,
     sha256_from_str = (\<lambda>s. ok (decode s)),
     json_from_str = (\<lambda>_. None),
     json_kind = (\<lambda>_. None),
     json_secret_data = (\<lambda>_. None)\<rparr>"

definition toy_curve :: curve where
  "toy_curve = \<lparr>order = 5, is_scalar = (\<lambda>s. s \<in> {[1], [2], [3], [4]}), scalar = toy_val,
     is_point = (\<lambda>P. P \<in> {[2, 1], [2, 2], [2, 3], [2, 4]}), dlog = toy_val\<rparr>"

lemma five_prime: "(5::int) dvd a * b \<Longrightarrow> 5 dvd a \<or> 5 dvd b"
proof -
  assume "5 dvd a * b"
  then have "(a mod 5) * (b mod 5) mod 5 = 0" by (simp add: mod_mult_eq dvd_eq_mod_eq_0)
  moreover have "a mod 5 \<in> {0, 1, 2, 3, 4}" "b mod 5 \<in> {0, 1, 2, 3, 4}"
    unfolding insert_iff empty_iff by presburger+
  ultimately show ?thesis by (auto simp: dvd_eq_mod_eq_0)
qed

lemmas toy_defs = toy_externs_def toy_curve_def toy_val_def toy_elem_def has_log_def has_scalar_def

lemma toy_secp_laws: "secp_laws toy_externs toy_curve"
  unfolding secp_laws_def
proof (intro conjI allI impI)
  fix a b assume "order toy_curve dvd a * b"
  then show "order toy_curve dvd a \<or> order toy_curve dvd b"
    using five_prime by (simp add: toy_curve_def)
next
  fix P Q x assume "has_log toy_curve P x" "has_log toy_curve Q x"
  then show "P = Q" by (auto simp: toy_defs)
qed (auto simp: toy_defs split: if_splits)

end
