(* ===== verification/Tokens.thy ===== *)
theory Tokens
  imports Crypto
begin

text \<open>
  The messages of the protocol (\<^verbatim>\<open>crates/cashu/src/nuts/nut00/mod.rs\<close>, \<^verbatim>\<open>nut03.rs\<close>,
  \<^verbatim>\<open>nut04.rs\<close>, \<^verbatim>\<open>nut05.rs\<close>, \<^verbatim>\<open>nut07.rs\<close>, \<^verbatim>\<open>nut12.rs\<close>, \<^verbatim>\<open>nut20.rs\<close>) and the wallet's
  construction of proofs (\<^verbatim>\<open>dhke.rs\<close>). The lemmas show what the per-keyset counts are, that a
  signed mint request verifies, and that the proofs a wallet constructs are accepted by the mint.
\<close>

section \<open>Data\<close>

datatype Witness =
    HTLCWitness string "string list option"
  | P2PKWitness "string list"

record ProofDleq =
  pdleq_e :: SecretKey
  pdleq_s :: SecretKey
  pdleq_r :: SecretKey

record Proof =
  amount :: Amount
  keyset_id :: Id
  secret :: string
  proof_c :: PublicKey
  witness :: "Witness option"
  dleq :: "ProofDleq option"

record BlindedMessage =
  bm_amount :: Amount
  bm_keyset_id :: Id
  blinded_secret :: PublicKey
  bm_witness :: "Witness option"

record BlindSignature =
  bs_amount :: Amount
  bs_keyset_id :: Id
  bs_c :: PublicKey
  bs_dleq :: "BlindSignatureDleq option"

text \<open>The states of a proof (\<^verbatim>\<open>nut07.rs\<close>).\<close>

datatype State = Spent | Unspent | Pending | Reserved | PendingSpent

type_synonym QuoteId = string

record SwapRequest =
  swap_inputs :: "Proof list"
  swap_outputs :: "BlindedMessage list"

record MintRequest =
  mreq_quote :: QuoteId
  mreq_outputs :: "BlindedMessage list"
  mreq_signature :: "string option"

record MeltRequest =
  melt_quote :: QuoteId
  melt_inputs :: "Proof list"
  melt_outputs :: "BlindedMessage list option"

section \<open>Witnesses\<close>

fun add_signatures :: "Witness \<Rightarrow> string list \<Rightarrow> Witness" where
  "add_signatures (P2PKWitness sigs) new = P2PKWitness (sigs @ new)"
| "add_signatures (HTLCWitness preimage sigs) new =
     HTLCWitness preimage (map_option (\<lambda>s. s @ new) sigs)"

fun witness_signatures :: "Witness \<Rightarrow> string list option" where
  "witness_signatures (P2PKWitness sigs) = Some sigs"
| "witness_signatures (HTLCWitness _ sigs) = sigs"

fun witness_preimage :: "Witness \<Rightarrow> string option" where
  "witness_preimage (P2PKWitness _) = None"
| "witness_preimage (HTLCWitness p _) = Some p"

section \<open>Lists of proofs\<close>

text \<open>
  \<open>*counts.entry(id).or_insert(0) += 1\<close> on an association list; the order of the list is the
  (unspecified) iteration order of the hash map.
\<close>

fun bump :: "Id \<Rightarrow> (Id \<times> u64) list \<Rightarrow> (Id \<times> u64) list" where
  "bump i [] = [(i, 1)]"
| "bump i ((j, n) # counts) = (if i = j then (j, n + 1) # counts else (j, n) # bump i counts)"

definition count_by_keyset :: "Proof list \<Rightarrow> (Id \<times> u64) list" where
  "count_by_keyset proofs = fold (\<lambda>p. bump (keyset_id p)) proofs []"

definition total_amount :: "Proof list \<Rightarrow> (amount_error, Amount) outcome" where
  "total_amount proofs = try_sum (map amount proofs)"

definition proof_y :: "externs \<Rightarrow> Proof \<Rightarrow> (dhke_error, PublicKey) outcome" where
  "proof_y e p = hash_to_curve e (as_bytes (secret p))"

definition proof_ys :: "externs \<Rightarrow> Proof list \<Rightarrow> (dhke_error, PublicKey list) outcome" where
  "proof_ys e proofs = try_map (proof_y e) proofs"

definition without_dleqs :: "Proof list \<Rightarrow> Proof list" where
  "without_dleqs proofs = map (\<lambda>p. p\<lparr>dleq := None\<rparr>) proofs"

definition swap_request_new :: "Proof list \<Rightarrow> BlindedMessage list \<Rightarrow> SwapRequest" where
  "swap_request_new inputs outputs = \<lparr>swap_inputs = without_dleqs inputs, swap_outputs = outputs\<rparr>"

definition swap_input_amount :: "SwapRequest \<Rightarrow> (amount_error, Amount) outcome" where
  "swap_input_amount r = try_sum (map amount (swap_inputs r))"

definition swap_output_amount :: "SwapRequest \<Rightarrow> (amount_error, Amount) outcome" where
  "swap_output_amount r = try_sum (map bm_amount (swap_outputs r))"

definition melt_request_new ::
  "QuoteId \<Rightarrow> Proof list \<Rightarrow> BlindedMessage list option \<Rightarrow> MeltRequest" where
  "melt_request_new q inputs outputs =
     \<lparr>melt_quote = q, melt_inputs = without_dleqs inputs, melt_outputs = outputs\<rparr>"

definition melt_inputs_amount :: "MeltRequest \<Rightarrow> (amount_error, Amount) outcome" where
  "melt_inputs_amount r = map_err (\<lambda>_. AmountOverflow) (try_sum (map amount (melt_inputs r)))"

definition mint_total_amount :: "MintRequest \<Rightarrow> (amount_error, Amount) outcome" where
  "mint_total_amount r = map_err (\<lambda>_. AmountOverflow) (try_sum (map bm_amount (mreq_outputs r)))"

section \<open>Signatures with their proofs\<close>

definition blind_signature_new ::
  "externs \<Rightarrow> SecretKey \<Rightarrow> Amount \<Rightarrow> PublicKey \<Rightarrow> Id \<Rightarrow> PublicKey \<Rightarrow> SecretKey
     \<Rightarrow> (nut12_error, BlindSignature) outcome" where
  "blind_signature_new e r amt blinded_signature kid blinded_message mint_secretkey =
     and_then (calculate_dleq e r blinded_signature blinded_message mint_secretkey) (\<lambda>d.
     Ok \<lparr>bs_amount = amt, bs_keyset_id = kid, bs_c = blinded_signature, bs_dleq = Some d\<rparr>)"

definition blind_signature_verify_dleq ::
  "externs \<Rightarrow> BlindSignature \<Rightarrow> PublicKey \<Rightarrow> PublicKey \<Rightarrow> (nut12_error, unit) outcome" where
  "blind_signature_verify_dleq e s mint_pubkey blinded_message =
     (case bs_dleq s of
        Some d \<Rightarrow> verify_dleq e blinded_message (bs_c s) (dleq_e d) (dleq_s d) mint_pubkey
      | None \<Rightarrow> Err MissingDleqProof)"

definition proof_verify_dleq ::
  "externs \<Rightarrow> Proof \<Rightarrow> PublicKey \<Rightarrow> (nut12_error, unit) outcome" where
  "proof_verify_dleq e p mint_pubkey =
     (case dleq p of
        Some d \<Rightarrow>
          and_then (map_err Nut12DHKE (hash_to_curve e (as_bytes (secret p)))) (\<lambda>y.
          and_then (ok_or (pk_mul_tweak e mint_pubkey (pdleq_r d)) Nut12Secp256k1) (\<lambda>bs1.
          and_then (ok_or (pk_combine e (proof_c p) bs1) Nut12Secp256k1) (\<lambda>blinded_signature.
          and_then (ok_or (pk_combine e y (sk_public_key e (pdleq_r d))) Nut12Secp256k1) (\<lambda>blinded_message.
          verify_dleq e blinded_message blinded_signature (pdleq_e d) (pdleq_s d) mint_pubkey))))
      | None \<Rightarrow> Err MissingDleqProof)"

text \<open>One round of the loop of \<open>construct_proofs\<close>.\<close>

definition construct_proof ::
  "externs \<Rightarrow> Keys \<Rightarrow> (BlindSignature \<times> SecretKey) \<times> string \<Rightarrow> (dhke_error, Proof) outcome" where
  "construct_proof e keys = (\<lambda>((blinded_signature, r), s).
     and_then (ok_or (map_of keys (bs_amount blinded_signature)) (DhkeCustom ''Could not get proofs'')) (\<lambda>a.
     and_then (unblind_message e (bs_c blinded_signature) r a) (\<lambda>unblinded_signature.
     Ok \<lparr>amount = bs_amount blinded_signature, keyset_id = bs_keyset_id blinded_signature,
         secret = s, proof_c = unblinded_signature, witness = None,
         dleq = map_option (\<lambda>d. \<lparr>pdleq_e = dleq_e d, pdleq_s = dleq_s d, pdleq_r = r\<rparr>)
                  (bs_dleq blinded_signature)\<rparr>)))"

definition construct_proofs ::
  "externs \<Rightarrow> BlindSignature list \<Rightarrow> SecretKey list \<Rightarrow> string list \<Rightarrow> Keys
     \<Rightarrow> (dhke_error, Proof list) outcome" where
  "construct_proofs e promises rs secrets keys =
     (if length promises \<noteq> length rs \<or> length promises \<noteq> length secrets
      then Err (DhkeCustom ''Lengths of promises, rs, and secrets must be equal'')
      else try_map (construct_proof e keys) (zip (zip promises rs) secrets))"

section \<open>Signed mint requests\<close>

datatype nut20_error = SignatureMissing | Nut20InvalidSignature | Nut20NUT01

definition msg_to_sign :: "MintRequest \<Rightarrow> bytes" where
  "msg_to_sign r = as_bytes (mreq_quote r)
     @ concat (map (\<lambda>o'. as_bytes (pk_to_hex (blinded_secret o'))) (mreq_outputs r))"

definition mint_request_sign :: "externs \<Rightarrow> MintRequest \<Rightarrow> SecretKey \<Rightarrow> MintRequest" where
  "mint_request_sign e r sk =
     r\<lparr>mreq_signature := Some (sig_to_string e (sk_sign e sk (msg_to_sign r)))\<rparr>"

definition verify_signature ::
  "externs \<Rightarrow> MintRequest \<Rightarrow> PublicKey \<Rightarrow> (nut20_error, unit) outcome" where
  "verify_signature e r pubkey =
     and_then (ok_or (mreq_signature r) SignatureMissing) (\<lambda>s.
     and_then (ok_or (sig_from_str e s) Nut20InvalidSignature) (\<lambda>sig.
     ensure (pk_verify e pubkey (msg_to_sign r) sig) Nut20NUT01))"

section \<open>Counting proofs by keyset\<close>

lemma bump_fst: "fst ` set (bump i cs) = insert i (fst ` set cs)"
  by (induction i cs rule: bump.induct) auto

lemma fee_ppk_bump:
  assumes "\<forall>(j, n) \<in> set cs. unat n + 1 < 2 ^ 64"
  shows "fee_ppk f (bump i cs) = fee_ppk f cs + unat (the (f i))"
  using assms
proof (induction i cs rule: bump.induct)
  case (2 i j n cs)
  then have "unat (n + 1) = unat n + 1" by (simp add: unat_add_fits)
  with 2 show ?case by (simp add: fee_ppk_Cons)
qed (simp add: fee_ppk_def)

lemma bump_bound:
  assumes "\<forall>(j, n) \<in> set cs. unat n \<le> b" "b + 1 < 2 ^ 64"
  shows "\<forall>(j, n) \<in> set (bump i cs). unat n \<le> b + 1"
  using assms
proof (induction i cs rule: bump.induct)
  case (2 i j n cs)
  then have "unat (n + 1) = unat n + 1" by (simp add: unat_add_fits)
  with 2 show ?case by (fastforce split: if_splits)
qed simp

lemma count_by_keyset_aux:
  assumes "\<forall>(j, n) \<in> set cs. unat n \<le> b" "b + length ps < 2 ^ 64"
  shows "fee_ppk f (fold (\<lambda>p. bump (keyset_id p)) ps cs)
           = fee_ppk f cs + (\<Sum>p \<leftarrow> ps. unat (the (f (keyset_id p))))"
  using assms
proof (induction ps arbitrary: cs b)
  case (Cons p ps)
  have b: "\<forall>(j, n) \<in> set (bump (keyset_id p) cs). unat n \<le> b + 1" "b + 1 + length ps < 2 ^ 64"
    using Cons.prems bump_bound [of cs b] by auto
  have fits: "\<forall>(j, n) \<in> set cs. unat n + 1 < 2 ^ 64" using Cons.prems by fastforce
  show ?case using Cons.IH [OF b] fee_ppk_bump [OF fits] by simp
qed simp

lemma count_by_keyset_ids:
  "fst ` set (fold (\<lambda>p. bump (keyset_id p)) ps cs) = fst ` set cs \<union> keyset_id ` set ps"
  by (induction ps arbitrary: cs) (auto simp: bump_fst)

text \<open>The counts charge every proof its keyset's fee, and name exactly the proofs' keysets.\<close>

lemma count_by_keyset_fee:
  assumes "length ps < 2 ^ 64"
  shows "fee_ppk f (count_by_keyset ps) = (\<Sum>p \<leftarrow> ps. unat (the (f (keyset_id p))))"
    and "fst ` set (count_by_keyset ps) = keyset_id ` set ps"
  using count_by_keyset_aux [of "[]" 0 ps f] count_by_keyset_ids [of ps "[]"] assms
  by (simp_all add: count_by_keyset_def fee_ppk_def)

section \<open>Wallet and mint agree on proofs\<close>

text \<open>
  An honest round for one output: the wallet blinds its secret with the factor \<open>r\<close>, the mint signs
  the blinded message with the key for its amount and attaches a proof of equal logarithms.
\<close>

definition promised ::
  "externs \<Rightarrow> curve \<Rightarrow> Keys \<Rightarrow> (BlindSignature \<times> SecretKey) \<times> string \<Rightarrow> SecretKey \<Rightarrow> bool" where
  "promised e k keys = (\<lambda>((bs, r), s) mint_key.
     is_scalar k mint_key \<and> is_scalar k r
     \<and> map_of keys (bs_amount bs) = Some (sk_public_key e mint_key)
     \<and> (\<exists>B C' n. is_scalar k n \<and> blind_message e n (as_bytes s) (Some r) = Ok (B, r)
          \<and> sign_message e mint_key B = Ok C'
          \<and> blind_signature_new e n (bs_amount bs) C' (bs_keyset_id bs) B mint_key = Ok bs))"

lemma construct_proof_accepted:
  assumes "secp_laws e k" "promised e k keys ((bs, r), s) mint_key"
  obtains p where "construct_proof e keys ((bs, r), s) = Ok p"
    and "verify_message e mint_key (proof_c p) (as_bytes (secret p)) = Ok ()"
    and "proof_verify_dleq e p (sk_public_key e mint_key) = Ok ()"
    and "secret p = s" "amount p = bs_amount bs" "keyset_id p = bs_keyset_id bs"
proof -
  from assms(2) obtain B C' n d where
    sc: "is_scalar k mint_key" "is_scalar k r" "is_scalar k n"
    and key: "map_of keys (bs_amount bs) = Some (sk_public_key e mint_key)"
    and B: "blind_message e n (as_bytes s) (Some r) = Ok (B, r)"
    and C': "sign_message e mint_key B = Ok C'"
    and d: "calculate_dleq e n C' B mint_key = Ok d"
    and bs: "bs = \<lparr>bs_amount = bs_amount bs, bs_keyset_id = bs_keyset_id bs, bs_c = C', bs_dleq = Some d\<rparr>"
    by (auto simp: promised_def blind_signature_new_def)
  from bs have bs': "bs_c bs = C'" "bs_dleq bs = Some d"
    by (metis BlindSignature.select_convs(3), metis BlindSignature.select_convs(4))
  obtain y A C1 C where y: "hash_to_curve e (as_bytes s) = Ok y"
    and yB: "pk_combine e y (sk_public_key e r) = Some B" and pB: "is_point k B"
    and C1: "sign_message e mint_key B = Ok C1"
    and C: "unblind_message e C1 r (sk_public_key e mint_key) = Ok C"
    and v: "verify_message e mint_key C (as_bytes s) = Ok ()"
    and A: "pk_mul_tweak e (sk_public_key e mint_key) r = Some A" "pk_combine e C A = Some C1"
    by (rule blind_sign_unblind_verify [OF assms(1) sc(1) _ B]) (simp add: sc(2))
  have "C1 = C'" using C1 C' by simp
  have "verify_dleq e B C' (dleq_e d) (dleq_s d) (sk_public_key e mint_key) = Ok ()"
    by (rule calculated_dleq_verifies [OF assms(1) sc(3,1) pB C' d])
  then show thesis
    using y yB C v A key bs' \<open>C1 = C'\<close>
    by (intro that [of "\<lparr>amount = bs_amount bs, keyset_id = bs_keyset_id bs, secret = s,
          proof_c = C, witness = None,
          dleq = Some \<lparr>pdleq_e = dleq_e d, pdleq_s = dleq_s d, pdleq_r = r\<rparr>\<rparr>"])
       (simp_all add: construct_proof_def proof_verify_dleq_def)
qed

lemma construct_proofs_amounts:
  assumes "construct_proofs e promises rs secrets keys = Ok ps"
  shows "map amount ps = map bs_amount promises"
proof -
  have one: "construct_proof e keys x = Ok p \<Longrightarrow> amount p = bs_amount (fst (fst x))" for x p
    by (auto simp: construct_proof_def split: prod.splits)
  have len: "length promises = length rs" "length promises = length secrets"
    and run: "try_map (construct_proof e keys) (zip (zip promises rs) secrets) = Ok ps"
    using assms by (auto simp: construct_proofs_def split: if_splits)
  show ?thesis
    using len try_map_length [OF run] one [OF try_map_nth [OF run]] by (intro nth_equalityI) simp_all
qed

text \<open>
  When the mint signed the wallet's blinded messages, the wallet's construction of the proofs
  succeeds, and the mint verifies every proof with the key of its amount.
\<close>

theorem constructed_proofs_verify:
  assumes "secp_laws e k" "length promises = length secrets" "length rs = length secrets"
    and "list_all2 (promised e k keys) (zip (zip promises rs) secrets) mint_keys"
  shows "\<exists>ps. construct_proofs e promises rs secrets keys = Ok ps
           \<and> map secret ps = secrets \<and> map amount ps = map bs_amount promises
           \<and> list_all2 (\<lambda>p mk. verify_message e mk (proof_c p) (as_bytes (secret p)) = Ok ()
                          \<and> proof_verify_dleq e p (sk_public_key e mk) = Ok ()) ps mint_keys"
  using assms(2-)
proof (induction promises arbitrary: rs secrets mint_keys)
  case Nil
  then show ?case by (simp add: construct_proofs_def)
next
  case (Cons bs promises)
  then obtain r rs' s ss mk mks where eq: "rs = r # rs'" "secrets = s # ss" "mint_keys = mk # mks"
    by (cases rs; cases secrets) (auto simp: list_all2_Cons1)
  with Cons.prems obtain p where p: "construct_proof e keys ((bs, r), s) = Ok p"
    "verify_message e mk (proof_c p) (as_bytes (secret p)) = Ok ()"
    "proof_verify_dleq e p (sk_public_key e mk) = Ok ()" "secret p = s" "amount p = bs_amount bs"
    using construct_proof_accepted [OF assms(1), of keys bs r s mk] by auto
  from Cons.IH [of ss rs' mks] Cons.prems eq obtain ps where
    "construct_proofs e promises rs' ss keys = Ok ps" "map secret ps = ss"
    "map amount ps = map bs_amount promises"
    "list_all2 (\<lambda>p mk. verify_message e mk (proof_c p) (as_bytes (secret p)) = Ok ()
       \<and> proof_verify_dleq e p (sk_public_key e mk) = Ok ()) ps mks" by auto
  with p eq Cons.prems show ?case
    by (intro exI [of _ "p # ps"]) (simp add: construct_proofs_def)
qed

theorem constructed_proofs_verify_witness:
  "\<exists>ps. construct_proofs toy_externs
          [\<lparr>bs_amount = 8, bs_keyset_id = example_id, bs_c = [2, 4],
            bs_dleq = Some \<lparr>dleq_e = [1], dleq_s = [4]\<rparr>\<rparr>] [[2]] [''secret''] [(8, [2, 3])] = Ok ps
     \<and> map secret ps = [''secret''] \<and> map amount ps = [8]
     \<and> list_all2 (\<lambda>p mk. verify_message toy_externs mk (proof_c p) (as_bytes (secret p)) = Ok ()
                    \<and> proof_verify_dleq toy_externs p (sk_public_key toy_externs mk) = Ok ()) ps [[3]]"
  using constructed_proofs_verify [OF toy_secp_laws, where promises =
      "[\<lparr>bs_amount = 8, bs_keyset_id = example_id, bs_c = [2, 4],
         bs_dleq = Some \<lparr>dleq_e = [1], dleq_s = [4]\<rparr>\<rparr>]" and rs = "[[2]]" and
      secrets = "[''secret'']" and keys = "[(8, [2, 3])]" and mint_keys = "[[3]]"]
  by (force simp: promised_def toy_defs blind_message_def hash_to_curve_def
      hash_to_curve_from.simps sign_message_def blind_signature_new_def calculate_dleq_def hash_e_def)

section \<open>Signed mint requests\<close>

text \<open>What the protocol relies on of Schnorr signatures.\<close>

definition schnorr_laws :: "externs \<Rightarrow> bool" where
  "schnorr_laws e \<longleftrightarrow>
     (\<forall>sk digest. schnorr_verify e (schnorr_sign e digest sk) digest (tl (sk_public_key e sk)))
   \<and> (\<forall>s. sig_from_str e (sig_to_string e s) = Some s)"

lemma sign_then_verify:
  assumes "schnorr_laws e"
  shows "pk_verify e (sk_public_key e sk) msg (sk_sign e sk msg)"
    and "sig_from_str e (sig_to_string e s) = Some s"
  using assms by (simp_all add: schnorr_laws_def pk_verify_def sk_sign_def x_only_public_key_def)

lemma toy_schnorr_laws: "schnorr_laws toy_externs"
  by (simp add: schnorr_laws_def toy_externs_def)

text \<open>
  A mint request signed with a secret key verifies against that key's public key, and the
  signature still covers the quote and every blinded secret: it is checked over exactly those.
\<close>

theorem signed_mint_request_verifies:
  assumes "schnorr_laws e"
  shows "verify_signature e (mint_request_sign e r sk) (sk_public_key e sk) = Ok ()"
proof -
  have "msg_to_sign (mint_request_sign e r sk) = msg_to_sign r"
    by (simp add: msg_to_sign_def mint_request_sign_def)
  then show ?thesis
    using sign_then_verify [OF assms] by (simp add: verify_signature_def mint_request_sign_def)
qed

theorem signed_mint_request_verifies_witness:
  "verify_signature toy_externs
     (mint_request_sign toy_externs \<lparr>mreq_quote = ''q'', mreq_outputs = [], mreq_signature = None\<rparr> [3])
     [2, 3] = Ok ()"
  using signed_mint_request_verifies [OF toy_schnorr_laws, of
      "\<lparr>mreq_quote = ''q'', mreq_outputs = [], mreq_signature = None\<rparr>" "[3]"]
  by (simp add: toy_externs_def)

end
