(* ===== verification/Spending.thy ===== *)
theory Spending
  imports Tokens
begin

text \<open>
  Spending conditions: well-known secrets (\<^verbatim>\<open>crates/cashu/src/nuts/nut10.rs\<close>), pay-to-public-key
  with its tags and its request-wide signatures (\<^verbatim>\<open>nut11/mod.rs\<close>) and hash time locks
  (\<^verbatim>\<open>nut14/mod.rs\<close>). The clock is an argument. The lemmas characterise which witnesses each check
  accepts and show the round trip of conditions through their tags.
\<close>

section \<open>Well-known secrets\<close>

datatype serde_error = SerdeError

record Nut10Secret =
  n10_kind :: Kind
  n10_data :: SecretData

definition visit_seq :: "externs \<Rightarrow> json list \<Rightarrow> (serde_error, Nut10Secret) outcome" where
  "visit_seq e elems =
     (case elems of
        [] \<Rightarrow> Err SerdeError
      | k # rest \<Rightarrow>
          and_then (ok_or (json_kind e k) SerdeError) (\<lambda>kd.
          case rest of
            [] \<Rightarrow> Err SerdeError
          | d # extra \<Rightarrow>
              and_then (ok_or (json_secret_data e d) SerdeError) (\<lambda>sd.
              if extra \<noteq> [] then Err SerdeError
              else Ok \<lparr>n10_kind = kd, n10_data = sd\<rparr>)))"

text \<open>\<open>serde_json::from_str\<close> with the visitor above: anything but an array is an error.\<close>

definition nut10_try_from :: "externs \<Rightarrow> string \<Rightarrow> (serde_error, Nut10Secret) outcome" where
  "nut10_try_from e s =
     (case json_from_str e s of
        Some (JArray elems) \<Rightarrow> visit_seq e elems
      | _ \<Rightarrow> Err SerdeError)"

definition is_p2pk :: "externs \<Rightarrow> string \<Rightarrow> bool" where
  "is_p2pk e s = (case nut10_try_from e s of Ok n \<Rightarrow> n10_kind n = P2PK | _ \<Rightarrow> False)"

definition n10_tags :: "Nut10Secret \<Rightarrow> string list list option" where
  "n10_tags n = sd_tags (n10_data n)"

section \<open>Tags and conditions\<close>

datatype nut11_error =
    IncorrectSecretKind
  | InvalidSignature
  | UnknownSigFlag
  | SpendConditionsNotMet
  | P2PKPubkeyRequired
  | KindNotFound
  | InvalidHash
  | SignaturesNotProvided
  | DuplicateSignature
  | ParseInt
  | Nut11HexError hex_error
  | SerdeJsonError
  | Nut11Secp256k1
  | NUT01 nut01_error
  | Nut11Secret

datatype TagKind = TK_SigFlag | TK_NSigs | TK_Locktime | TK_Refund | TK_Pubkeys | TK_NSigsRefund
  | TK_Custom string

datatype SigFlag = SigInputs | SigAll

datatype Tag =
    Tag_SigFlag SigFlag
  | Tag_NSigs u64
  | Tag_LockTime u64
  | Tag_Refund "PublicKey list"
  | Tag_PubKeys "PublicKey list"
  | Tag_NSigsRefund u64
  | Tag_Custom string "string list"

record Conditions =
  locktime :: "u64 option"
  cond_pubkeys :: "PublicKey list option"
  cond_refund_keys :: "PublicKey list option"
  num_sigs :: "u64 option"
  sig_flag :: SigFlag
  num_sigs_refund :: "u64 option"

fun tagkind_to_string :: "TagKind \<Rightarrow> string" where
  "tagkind_to_string TK_SigFlag = ''sigflag''"
| "tagkind_to_string TK_NSigs = ''n_sigs''"
| "tagkind_to_string TK_Locktime = ''locktime''"
| "tagkind_to_string TK_Refund = ''refund''"
| "tagkind_to_string TK_Pubkeys = ''pubkeys''"
| "tagkind_to_string TK_NSigsRefund = ''n_sigs_refund''"
| "tagkind_to_string (TK_Custom t) = t"

definition tagkind_from :: "string \<Rightarrow> TagKind" where
  "tagkind_from t =
     (if t = ''sigflag'' then TK_SigFlag
      else if t = ''n_sigs'' then TK_NSigs
      else if t = ''locktime'' then TK_Locktime
      else if t = ''refund'' then TK_Refund
      else if t = ''pubkeys'' then TK_Pubkeys
      else if t = ''n_sigs_refund'' then TK_NSigsRefund
      else TK_Custom t)"

fun sigflag_to_string :: "SigFlag \<Rightarrow> string" where
  "sigflag_to_string SigAll = ''SIG_ALL''"
| "sigflag_to_string SigInputs = ''SIG_INPUTS''"

definition sigflag_from_str :: "string \<Rightarrow> (nut11_error, SigFlag) outcome" where
  "sigflag_from_str s =
     (if s = ''SIG_ALL'' then Ok SigAll
      else if s = ''SIG_INPUTS'' then Ok SigInputs
      else Err UnknownSigFlag)"

fun tag_kind :: "Tag \<Rightarrow> TagKind" where
  "tag_kind (Tag_SigFlag _) = TK_SigFlag"
| "tag_kind (Tag_NSigs _) = TK_NSigs"
| "tag_kind (Tag_LockTime _) = TK_Locktime"
| "tag_kind (Tag_Refund _) = TK_Refund"
| "tag_kind (Tag_PubKeys _) = TK_Pubkeys"
| "tag_kind (Tag_NSigsRefund _) = TK_NSigsRefund"
| "tag_kind (Tag_Custom t _) = TK_Custom t"

text \<open>
  \<open>str::parse::<u64>\<close>: an optional plus sign, then at least one decimal digit, and the value fits.
\<close>

definition is_digit :: "char \<Rightarrow> bool" where
  "is_digit ch \<longleftrightarrow> 48 \<le> (of_char ch :: nat) \<and> (of_char ch :: nat) \<le> 57"

definition digits_value :: "string \<Rightarrow> nat" where
  "digits_value s = foldl (\<lambda>n ch. n * 10 + (of_char ch - 48)) 0 s"

definition parse_u64 :: "string \<Rightarrow> u64 option" where
  "parse_u64 s =
     (let d = (case s of [] \<Rightarrow> [] | ch # r \<Rightarrow> if ch = CHR ''+'' then r else s) in
      if d \<noteq> [] \<and> list_all is_digit d \<and> digits_value d < 2 ^ 64
      then Some (of_nat (digits_value d)) else None)"

text \<open>\<open>tag[1]\<close> panics on a tag with only a name.\<close>

definition tag_value :: "string list \<Rightarrow> (nut11_error, string) outcome" where
  "tag_value rest = (case rest of [] \<Rightarrow> Panic | v # _ \<Rightarrow> Ok v)"

definition parse_pubkeys :: "externs \<Rightarrow> string list \<Rightarrow> (nut11_error, PublicKey list) outcome" where
  "parse_pubkeys e rest = try_map (\<lambda>p. map_err NUT01 (pk_from_hex e p)) rest"

definition tag_try_from :: "externs \<Rightarrow> string list \<Rightarrow> (nut11_error, Tag) outcome" where
  "tag_try_from e t =
     (case t of
        [] \<Rightarrow> Err KindNotFound
      | name # rest \<Rightarrow>
          (case tagkind_from name of
             TK_SigFlag \<Rightarrow> and_then (tag_value rest) (\<lambda>v.
               and_then (sigflag_from_str v) (\<lambda>f. Ok (Tag_SigFlag f)))
           | TK_NSigs \<Rightarrow> and_then (tag_value rest) (\<lambda>v.
               and_then (ok_or (parse_u64 v) ParseInt) (\<lambda>n. Ok (Tag_NSigs n)))
           | TK_Locktime \<Rightarrow> and_then (tag_value rest) (\<lambda>v.
               and_then (ok_or (parse_u64 v) ParseInt) (\<lambda>n. Ok (Tag_LockTime n)))
           | TK_Refund \<Rightarrow> and_then (parse_pubkeys e rest) (\<lambda>ks. Ok (Tag_Refund ks))
           | TK_Pubkeys \<Rightarrow> and_then (parse_pubkeys e rest) (\<lambda>ks. Ok (Tag_PubKeys ks))
           | TK_NSigsRefund \<Rightarrow> and_then (tag_value rest) (\<lambda>v.
               and_then (ok_or (parse_u64 v) ParseInt) (\<lambda>n. Ok (Tag_NSigsRefund n)))
           | TK_Custom nm \<Rightarrow> Ok (Tag_Custom nm rest)))"

fun tag_as_vec :: "Tag \<Rightarrow> string list" where
  "tag_as_vec (Tag_SigFlag f) = [tagkind_to_string TK_SigFlag, sigflag_to_string f]"
| "tag_as_vec (Tag_NSigs n) = [tagkind_to_string TK_NSigs, u64_to_string n]"
| "tag_as_vec (Tag_LockTime n) = [tagkind_to_string TK_Locktime, u64_to_string n]"
| "tag_as_vec (Tag_PubKeys ks) = tagkind_to_string TK_Pubkeys # map pk_to_hex ks"
| "tag_as_vec (Tag_Refund ks) = tagkind_to_string TK_Refund # map pk_to_hex ks"
| "tag_as_vec (Tag_NSigsRefund n) = [tagkind_to_string TK_NSigsRefund, u64_to_string n]"
| "tag_as_vec (Tag_Custom name vs) = name # vs"

definition conditions_to_tags :: "Conditions \<Rightarrow> string list list" where
  "conditions_to_tags cs =
       (case cond_pubkeys cs of Some ks \<Rightarrow> [tag_as_vec (Tag_PubKeys ks)] | None \<Rightarrow> [])
     @ (case locktime cs of Some l \<Rightarrow> [tag_as_vec (Tag_LockTime l)] | None \<Rightarrow> [])
     @ (case num_sigs cs of Some n \<Rightarrow> [tag_as_vec (Tag_NSigs n)] | None \<Rightarrow> [])
     @ (case cond_refund_keys cs of Some ks \<Rightarrow> [tag_as_vec (Tag_Refund ks)] | None \<Rightarrow> [])
     @ (case num_sigs_refund cs of Some n \<Rightarrow> [tag_as_vec (Tag_NSigsRefund n)] | None \<Rightarrow> [])
     @ [tag_as_vec (Tag_SigFlag (sig_flag cs))]"

text \<open>The hash map of tags by kind: a later tag replaces an earlier one of its kind.\<close>

definition tags_get :: "Tag list \<Rightarrow> TagKind \<Rightarrow> Tag option" where
  "tags_get ts kd = map_of (rev (map (\<lambda>t. (tag_kind t, t)) ts)) kd"

definition conditions_of_tags :: "Tag list \<Rightarrow> Conditions" where
  "conditions_of_tags ts = \<lparr>
     locktime = (case tags_get ts TK_Locktime of Some (Tag_LockTime l) \<Rightarrow> Some l | _ \<Rightarrow> None),
     cond_pubkeys = (case tags_get ts TK_Pubkeys of Some (Tag_PubKeys ks) \<Rightarrow> Some ks | _ \<Rightarrow> None),
     cond_refund_keys = (case tags_get ts TK_Refund of Some (Tag_Refund ks) \<Rightarrow> Some ks | _ \<Rightarrow> None),
     num_sigs = (case tags_get ts TK_NSigs of Some (Tag_NSigs n) \<Rightarrow> Some n | _ \<Rightarrow> None),
     sig_flag = (case tags_get ts TK_SigFlag of Some (Tag_SigFlag f) \<Rightarrow> f | _ \<Rightarrow> SigInputs),
     num_sigs_refund =
       (case tags_get ts TK_NSigsRefund of Some (Tag_NSigsRefund n) \<Rightarrow> Some n | _ \<Rightarrow> None)\<rparr>"

text \<open>A tag that does not parse makes the conversion panic (\<open>unwrap\<close>).\<close>

definition conditions_try_from :: "externs \<Rightarrow> string list list \<Rightarrow> (nut11_error, Conditions) outcome" where
  "conditions_try_from e tgs =
     and_then (try_map (\<lambda>t. unwrap (tag_try_from e t)) tgs) (\<lambda>ts. Ok (conditions_of_tags ts))"

section \<open>Counting signatures\<close>

text \<open>
  The body shared by the counting loops: a valid signature adds its key to the set of verified
  keys, and a second valid signature of a key is an error.
\<close>

definition add_verified ::
  "bool \<Rightarrow> PublicKey \<Rightarrow> PublicKey set \<Rightarrow> (nut11_error, PublicKey set) outcome" where
  "add_verified valid v verified =
     (if valid then if v \<in> verified then Err DuplicateSignature else Ok (insert v verified)
      else Ok verified)"

definition valid_signatures ::
  "externs \<Rightarrow> bytes \<Rightarrow> PublicKey list \<Rightarrow> Signature list \<Rightarrow> (nut11_error, nat) outcome" where
  "valid_signatures e msg pubkeys sigs =
     and_then (try_fold (\<lambda>verified pk.
                 try_fold (\<lambda>verified s. add_verified (pk_verify e pk msg s) pk verified) verified sigs)
               {} pubkeys) (\<lambda>verified.
     Ok (card verified))"

text \<open>The loops over signatures (as text) and keys of the two \<open>verify_p2pk\<close> functions.\<close>

definition verify_loop ::
  "externs \<Rightarrow> bytes \<Rightarrow> PublicKey list \<Rightarrow> string list \<Rightarrow> (nut11_error, PublicKey set) outcome" where
  "verify_loop e msg pubkeys sigs =
     try_fold (\<lambda>verified s.
       try_fold (\<lambda>verified v.
         and_then (ok_or (sig_from_str e s) Nut11Secp256k1) (\<lambda>sig.
         add_verified (pk_verify e v msg sig) v verified)) verified pubkeys) {} sigs"

text \<open>
  The loops over refund keys return as soon as enough keys have signed; \<open>True\<close> is that return.
\<close>

fun refund_keys_loop ::
  "(PublicKey \<Rightarrow> bool) \<Rightarrow> nat \<Rightarrow> PublicKey list \<Rightarrow> PublicKey set \<Rightarrow> bool \<times> PublicKey set" where
  "refund_keys_loop valid needed [] found = (False, found)"
| "refund_keys_loop valid needed (v # vs) found =
     (if valid v
      then if needed \<le> card (insert v found) then (True, insert v found)
           else refund_keys_loop valid needed vs (insert v found)
      else refund_keys_loop valid needed vs found)"

fun refund_loop ::
  "externs \<Rightarrow> bytes \<Rightarrow> PublicKey list \<Rightarrow> nat \<Rightarrow> string list \<Rightarrow> PublicKey set
     \<Rightarrow> (nut11_error, unit) outcome" where
  "refund_loop e msg refund needed [] found = Err SpendConditionsNotMet"
| "refund_loop e msg refund needed (s # ss) found =
     and_then (ok_or (sig_from_str e s) InvalidSignature) (\<lambda>sig.
     case refund_keys_loop (\<lambda>v. pk_verify e v msg sig) needed refund found of
       (True, _) \<Rightarrow> Ok ()
     | (False, found') \<Rightarrow> refund_loop e msg refund needed ss found')"

section \<open>Pay to public key\<close>

definition unwrap_or :: "'a option \<Rightarrow> 'a \<Rightarrow> 'a" where
  "unwrap_or x d = (case x of Some a \<Rightarrow> a | None \<Rightarrow> d)"

definition locktime_passed :: "u64 \<Rightarrow> Conditions \<Rightarrow> bool" where
  "locktime_passed now cs = (case locktime cs of Some l \<Rightarrow> l \<le> now | None \<Rightarrow> False)"

definition signing_keys ::
  "externs \<Rightarrow> Nut10Secret \<Rightarrow> Conditions \<Rightarrow> (nut11_error, PublicKey list) outcome" where
  "signing_keys e n cs =
     (if n10_kind n = P2PK
      then and_then (map_err NUT01 (pk_from_hex e (sd_data (n10_data n)))) (\<lambda>k.
           Ok (unwrap_or (cond_pubkeys cs) [] @ [k]))
      else Ok (unwrap_or (cond_pubkeys cs) []))"

definition verify_p2pk :: "externs \<Rightarrow> u64 \<Rightarrow> Proof \<Rightarrow> (nut11_error, unit) outcome" where
  "verify_p2pk e now p =
     and_then (map_err (\<lambda>_. SerdeJsonError) (nut10_try_from e (secret p))) (\<lambda>n.
     and_then (conditions_try_from e (unwrap_or (n10_tags n) [])) (\<lambda>cs.
     let msg = as_bytes (secret p) in
     and_then (ok_or (Option.bind (witness p) witness_signatures) SignaturesNotProvided) (\<lambda>sigs.
     if locktime_passed now cs
     then (case cond_refund_keys cs of
             Some refund \<Rightarrow>
               refund_loop e msg refund (unat (unwrap_or (num_sigs_refund cs) 1)) sigs {}
           | None \<Rightarrow> Ok ())
     else
       and_then (signing_keys e n cs) (\<lambda>pubkeys.
       and_then (verify_loop e msg pubkeys sigs) (\<lambda>verified.
       ensure (unat (unwrap_or (num_sigs cs) 1) \<le> card verified) SpendConditionsNotMet)))))"

definition sign_p2pk :: "externs \<Rightarrow> Proof \<Rightarrow> SecretKey \<Rightarrow> Proof" where
  "sign_p2pk e p sk =
     (let signatures = [sig_to_string e (sk_sign e sk (as_bytes (secret p)))] in
      p\<lparr>witness := Some (case witness p of
          Some w \<Rightarrow> add_signatures w signatures
        | None \<Rightarrow> add_signatures (P2PKWitness []) signatures)\<rparr>)"

definition blinded_sign_p2pk :: "externs \<Rightarrow> BlindedMessage \<Rightarrow> SecretKey \<Rightarrow> BlindedMessage" where
  "blinded_sign_p2pk e b sk =
     (let signatures = [sig_to_string e (sk_sign e sk (blinded_secret b))] in
      b\<lparr>bm_witness := Some (case bm_witness b of
          Some w \<Rightarrow> add_signatures w signatures
        | None \<Rightarrow> add_signatures (P2PKWitness []) signatures)\<rparr>)"

definition blinded_verify_p2pk ::
  "externs \<Rightarrow> BlindedMessage \<Rightarrow> PublicKey list \<Rightarrow> u64 \<Rightarrow> (nut11_error, unit) outcome" where
  "blinded_verify_p2pk e b pubkeys required_sigs =
     and_then (case bm_witness b of
         Some w \<Rightarrow> and_then (ok_or (witness_signatures w) SignaturesNotProvided) (\<lambda>sigs.
                   verify_loop e (blinded_secret b) pubkeys sigs)
       | None \<Rightarrow> Ok {}) (\<lambda>verified.
     ensure (unat required_sigs \<le> card verified) SpendConditionsNotMet)"

section \<open>Spending conditions\<close>

datatype SpendingConditions =
    P2PKConditions PublicKey "Conditions option"
  | HTLCConditions bytes "Conditions option"

definition conditions_new ::
  "u64 option \<Rightarrow> PublicKey list option \<Rightarrow> PublicKey list option \<Rightarrow> u64 option \<Rightarrow> SigFlag option
     \<Rightarrow> u64 option \<Rightarrow> (nut11_error, Conditions) outcome" where
  "conditions_new lt pks refund n flag nr =
     Ok \<lparr>locktime = lt, cond_pubkeys = pks, cond_refund_keys = refund, num_sigs = n,
         sig_flag = unwrap_or flag SigInputs, num_sigs_refund = nr\<rparr>"

definition new_htlc ::
  "externs \<Rightarrow> string \<Rightarrow> Conditions option \<Rightarrow> (nut11_error, SpendingConditions) outcome" where
  "new_htlc e preimage cs =
     and_then (map_err Nut11HexError (decode preimage)) (\<lambda>b. Ok (HTLCConditions (sha256 e b) cs))"

definition new_htlc_hash ::
  "externs \<Rightarrow> string \<Rightarrow> Conditions option \<Rightarrow> (nut11_error, SpendingConditions) outcome" where
  "new_htlc_hash e h cs =
     and_then (ok_or (sha256_from_str e h) InvalidHash) (\<lambda>b. Ok (HTLCConditions b cs))"

definition new_p2pk :: "PublicKey \<Rightarrow> Conditions option \<Rightarrow> SpendingConditions" where
  "new_p2pk pk cs = P2PKConditions pk cs"

fun sc_kind :: "SpendingConditions \<Rightarrow> Kind" where
  "sc_kind (P2PKConditions _ _) = P2PK"
| "sc_kind (HTLCConditions _ _) = HTLC"

fun sc_conditions :: "SpendingConditions \<Rightarrow> Conditions option" where
  "sc_conditions (P2PKConditions _ cs) = cs"
| "sc_conditions (HTLCConditions _ cs) = cs"

definition sc_num_sigs :: "SpendingConditions \<Rightarrow> u64 option" where
  "sc_num_sigs s = Option.bind (sc_conditions s) num_sigs"

definition sc_locktime :: "SpendingConditions \<Rightarrow> u64 option" where
  "sc_locktime s = Option.bind (sc_conditions s) locktime"

definition sc_refund_keys :: "SpendingConditions \<Rightarrow> PublicKey list option" where
  "sc_refund_keys s = Option.bind (sc_conditions s) cond_refund_keys"

text \<open>
  The keys go through a hash set, so their order is unspecified; the model keeps one occurrence
  of each.
\<close>

fun sc_pubkeys :: "SpendingConditions \<Rightarrow> PublicKey list option" where
  "sc_pubkeys (P2PKConditions pk cs) =
     Some (remdups (pk # (case cs of Some c \<Rightarrow> unwrap_or (cond_pubkeys c) [] | None \<Rightarrow> [])))"
| "sc_pubkeys (HTLCConditions _ cs) = Option.bind cs cond_pubkeys"

text \<open>\<open>.and_then(|t| t.clone().try_into().ok())\<close>\<close>

definition conditions_ok ::
  "externs \<Rightarrow> string list list option \<Rightarrow> ('e, Conditions option) outcome" where
  "conditions_ok e tgs =
     (case tgs of
        None \<Rightarrow> Ok None
      | Some ts \<Rightarrow> (case conditions_try_from e ts of
                      Ok cs \<Rightarrow> Ok (Some cs) | Err _ \<Rightarrow> Ok None | Panic \<Rightarrow> Panic))"

definition sc_try_from_nut10 ::
  "externs \<Rightarrow> Nut10Secret \<Rightarrow> (nut11_error, SpendingConditions) outcome" where
  "sc_try_from_nut10 e n =
     (case n10_kind n of
        P2PK \<Rightarrow> and_then (map_err NUT01 (pk_from_hex e (sd_data (n10_data n)))) (\<lambda>pk.
                and_then (conditions_ok e (n10_tags n)) (\<lambda>cs. Ok (P2PKConditions pk cs)))
      | HTLC \<Rightarrow> and_then (ok_or (sha256_from_str e (sd_data (n10_data n))) InvalidHash) (\<lambda>h.
                and_then (conditions_ok e (n10_tags n)) (\<lambda>cs. Ok (HTLCConditions h cs))))"

definition sc_try_from_secret ::
  "externs \<Rightarrow> string \<Rightarrow> (nut11_error, SpendingConditions) outcome" where
  "sc_try_from_secret e s =
     and_then (map_err (\<lambda>_. Nut11Secret) (nut10_try_from e s)) (sc_try_from_nut10 e)"

text \<open>\<open>nonce\<close> is the random nonce of the new secret.\<close>

fun nut10_from_conditions :: "string \<Rightarrow> SpendingConditions \<Rightarrow> Nut10Secret" where
  "nut10_from_conditions nonce (P2PKConditions pk cs) =
     \<lparr>n10_kind = P2PK, n10_data = \<lparr>sd_nonce = nonce, sd_data = pk_to_hex pk,
        sd_tags = map_option conditions_to_tags cs\<rparr>\<rparr>"
| "nut10_from_conditions nonce (HTLCConditions h cs) =
     \<lparr>n10_kind = HTLC, n10_data = \<lparr>sd_nonce = nonce, sd_data = encode h,
        sd_tags = map_option conditions_to_tags cs\<rparr>\<rparr>"

record EnforceSigFlag =
  esf_sig_flag :: SigFlag
  esf_pubkeys :: "PublicKey set"
  esf_sigs_required :: u64

definition enforce_step :: "externs \<Rightarrow> EnforceSigFlag \<Rightarrow> Proof \<Rightarrow> ('e, EnforceSigFlag) outcome" where
  "enforce_step e acc p =
     (case nut10_try_from e (secret p) of
        Ok n \<Rightarrow>
          (let acc1 = (if n10_kind n = P2PK
                       then (case pk_from_hex e (sd_data (n10_data n)) of
                               Ok k \<Rightarrow> acc\<lparr>esf_pubkeys := insert k (esf_pubkeys acc)\<rparr>
                             | _ \<Rightarrow> acc)
                       else acc) in
           and_then (conditions_ok e (n10_tags n)) (\<lambda>cs.
           case cs of
             None \<Rightarrow> Ok acc1
           | Some c \<Rightarrow> Ok \<lparr>
               esf_sig_flag = (if sig_flag c = SigAll then SigAll else esf_sig_flag acc1),
               esf_pubkeys = esf_pubkeys acc1 \<union> set (unwrap_or (cond_pubkeys c) []),
               esf_sigs_required = (case num_sigs c of
                   Some n \<Rightarrow> if esf_sigs_required acc1 < n then n else esf_sigs_required acc1
                 | None \<Rightarrow> esf_sigs_required acc1)\<rparr>))
      | _ \<Rightarrow> Ok acc)"

definition enforce_sig_flag :: "externs \<Rightarrow> Proof list \<Rightarrow> ('e, EnforceSigFlag) outcome" where
  "enforce_sig_flag e proofs =
     try_fold (enforce_step e)
       \<lparr>esf_sig_flag = SigInputs, esf_pubkeys = {}, esf_sigs_required = 1\<rparr> proofs"

section \<open>Request-wide signatures\<close>

definition swap_sig_all_msg :: "SwapRequest \<Rightarrow> string" where
  "swap_sig_all_msg r = concat (map secret (swap_inputs r))
     @ concat (map (\<lambda>b. pk_to_hex (blinded_secret b)) (swap_outputs r))"

definition melt_sig_all_msg :: "MeltRequest \<Rightarrow> string" where
  "melt_sig_all_msg r = concat (map secret (melt_inputs r))
     @ (case melt_outputs r of
          Some outs \<Rightarrow> concat (map (\<lambda>b. pk_to_hex (blinded_secret b)) outs)
        | None \<Rightarrow> [])
     @ melt_quote r"

text \<open>
  The checks below are written twice in the source, for swap and for melt requests, on the inputs
  of the request.
\<close>

definition first_input :: "Proof list \<Rightarrow> (nut11_error, Proof) outcome" where
  "first_input inputs = (case inputs of [] \<Rightarrow> Err SpendConditionsNotMet | p # _ \<Rightarrow> Ok p)"

definition get_sig_all_required_sigs ::
  "externs \<Rightarrow> Proof list \<Rightarrow> (nut11_error, u64 \<times> SpendingConditions) outcome" where
  "get_sig_all_required_sigs e inputs =
     and_then (first_input inputs) (\<lambda>p.
     and_then (sc_try_from_secret e (secret p)) (\<lambda>sc.
     case sc of
       P2PKConditions _ cs \<Rightarrow>
         and_then (ok_or cs IncorrectSecretKind) (\<lambda>c.
         if sig_flag c \<noteq> SigAll then Err IncorrectSecretKind
         else Ok (unwrap_or (num_sigs c) 1, sc))
     | _ \<Rightarrow> Err IncorrectSecretKind))"

definition match_conditions ::
  "externs \<Rightarrow> Nut10Secret \<Rightarrow> unit \<Rightarrow> Proof \<Rightarrow> (nut11_error, unit) outcome" where
  "match_conditions e first _ p =
     and_then (map_err (\<lambda>_. SerdeJsonError) (nut10_try_from e (secret p))) (\<lambda>n.
     and_then (ensure (sd_data (n10_data n) = sd_data (n10_data first)) SpendConditionsNotMet) (\<lambda>_.
     ensure (n10_tags n = n10_tags first) SpendConditionsNotMet))"

definition verify_matching_conditions ::
  "externs \<Rightarrow> Proof list \<Rightarrow> (nut11_error, unit) outcome" where
  "verify_matching_conditions e inputs =
     and_then (first_input inputs) (\<lambda>p.
     and_then (map_err (\<lambda>_. Nut11Secret) (nut10_try_from e (secret p))) (\<lambda>first.
     try_fold (match_conditions e first) () (drop 1 inputs)))"

definition get_valid_witness_signatures ::
  "externs \<Rightarrow> Proof list \<Rightarrow> (nut11_error, Signature list) outcome" where
  "get_valid_witness_signatures e inputs =
     and_then (first_input inputs) (\<lambda>p.
     and_then (ok_or (witness p) SignaturesNotProvided) (\<lambda>w.
     and_then (ok_or (witness_signatures w) SignaturesNotProvided) (\<lambda>sigs.
     try_map (\<lambda>s. ok_or (sig_from_str e s) Nut11Secp256k1) sigs)))"

definition can_sign_sig_all ::
  "externs \<Rightarrow> Proof list \<Rightarrow> SecretKey \<Rightarrow> (nut11_error, SpendingConditions \<times> PublicKey) outcome" where
  "can_sign_sig_all e inputs sk =
     and_then (get_sig_all_required_sigs e inputs) (\<lambda>(_, sc).
     let pubkey = sk_public_key e sk in
     and_then (ok_or (sc_pubkeys sc) P2PKPubkeyRequired) (\<lambda>authorized.
     if pubkey \<notin> set authorized then Err SpendConditionsNotMet else Ok (sc, pubkey)))"

definition add_first_signature :: "externs \<Rightarrow> Proof list \<Rightarrow> Signature \<Rightarrow> Proof list" where
  "add_first_signature e inputs s =
     (case inputs of
        [] \<Rightarrow> []
      | p # ps \<Rightarrow> p\<lparr>witness := Some (add_signatures (unwrap_or (witness p) (P2PKWitness []))
                                   [sig_to_string e s])\<rparr> # ps)"

definition sign_inputs ::
  "externs \<Rightarrow> Proof list \<Rightarrow> string \<Rightarrow> SecretKey \<Rightarrow> (nut11_error, Proof list) outcome" where
  "sign_inputs e inputs msg sk =
     and_then (can_sign_sig_all e inputs sk) (\<lambda>_.
     and_then (verify_matching_conditions e inputs) (\<lambda>_.
     Ok (add_first_signature e inputs (sk_sign e sk (as_bytes msg)))))"

definition verify_inputs :: "externs \<Rightarrow> Proof list \<Rightarrow> string \<Rightarrow> (nut11_error, unit) outcome" where
  "verify_inputs e inputs msg =
     and_then (get_sig_all_required_sigs e inputs) (\<lambda>(required_sigs, sc).
     and_then (verify_matching_conditions e inputs) (\<lambda>_.
     and_then (get_valid_witness_signatures e inputs) (\<lambda>sigs.
     and_then (ok_or (sc_pubkeys sc) P2PKPubkeyRequired) (\<lambda>pubkeys.
     and_then (valid_signatures e (as_bytes msg) pubkeys sigs) (\<lambda>valid_sigs.
     ensure (unat required_sigs \<le> valid_sigs) SpendConditionsNotMet)))))"

definition swap_sign_sig_all ::
  "externs \<Rightarrow> SwapRequest \<Rightarrow> SecretKey \<Rightarrow> (nut11_error, SwapRequest) outcome" where
  "swap_sign_sig_all e r sk =
     and_then (sign_inputs e (swap_inputs r) (swap_sig_all_msg r) sk) (\<lambda>inputs.
     Ok (r\<lparr>swap_inputs := inputs\<rparr>))"

definition swap_verify_sig_all :: "externs \<Rightarrow> SwapRequest \<Rightarrow> (nut11_error, unit) outcome" where
  "swap_verify_sig_all e r = verify_inputs e (swap_inputs r) (swap_sig_all_msg r)"

definition melt_sign_sig_all ::
  "externs \<Rightarrow> MeltRequest \<Rightarrow> SecretKey \<Rightarrow> (nut11_error, MeltRequest) outcome" where
  "melt_sign_sig_all e r sk =
     and_then (sign_inputs e (melt_inputs r) (melt_sig_all_msg r) sk) (\<lambda>inputs.
     Ok (r\<lparr>melt_inputs := inputs\<rparr>))"

definition melt_verify_sig_all :: "externs \<Rightarrow> MeltRequest \<Rightarrow> (nut11_error, unit) outcome" where
  "melt_verify_sig_all e r = verify_inputs e (melt_inputs r) (melt_sig_all_msg r)"

section \<open>Hash time locks\<close>

datatype nut14_error = HtlcIncorrectSecretKind | HtlcInvalidHash | HtlcPreimage
  | HtlcSignaturesNotProvided | HtlcSecp256k1 | NUT11 nut11_error | HtlcSerde

definition parse_signatures ::
  "externs \<Rightarrow> string list \<Rightarrow> (nut14_error, Signature list) outcome" where
  "parse_signatures e sigs = try_map (\<lambda>s. ok_or (sig_from_str e s) HtlcSecp256k1) sigs"

text \<open>
  The locktime branch: \<open>Ok True\<close> is the early \<open>return Ok(())\<close>, \<open>Ok False\<close> falls through to the
  checks of the keys and of the preimage.
\<close>

definition htlc_locktime ::
  "externs \<Rightarrow> u64 \<Rightarrow> Proof \<Rightarrow> Witness \<Rightarrow> Conditions \<Rightarrow> (nut14_error, bool) outcome" where
  "htlc_locktime e now p w cs =
     (case locktime cs of
        None \<Rightarrow> Ok False
      | Some l \<Rightarrow>
          if l < now \<and> cond_refund_keys cs = None then Ok True
          else (case cond_refund_keys cs of
                  None \<Rightarrow> Ok False
                | Some refund \<Rightarrow>
                    and_then (ok_or (witness_signatures w) HtlcSignaturesNotProvided) (\<lambda>strs.
                    and_then (parse_signatures e strs) (\<lambda>sigs.
                    and_then (map_err NUT11 (valid_signatures e (as_bytes (secret p)) refund sigs)) (\<lambda>n.
                    Ok (1 \<le> n))))))"

definition htlc_pubkeys ::
  "externs \<Rightarrow> Proof \<Rightarrow> string list option \<Rightarrow> Conditions \<Rightarrow> (nut14_error, unit) outcome" where
  "htlc_pubkeys e p witness_sigs cs =
     (case cond_pubkeys cs of
        None \<Rightarrow> Ok ()
      | Some pubkeys \<Rightarrow>
          and_then (ok_or witness_sigs HtlcSignaturesNotProvided) (\<lambda>strs.
          and_then (parse_signatures e strs) (\<lambda>sigs.
          and_then (map_err NUT11 (valid_signatures e (as_bytes (secret p)) pubkeys sigs)) (\<lambda>valid_sigs.
          ensure (unat (unwrap_or (num_sigs cs) 1) \<le> valid_sigs) HtlcIncorrectSecretKind))))"

definition htlc_preimage :: "externs \<Rightarrow> Nut10Secret \<Rightarrow> string \<Rightarrow> (nut14_error, unit) outcome" where
  "htlc_preimage e n preimage =
     (if n10_kind n \<noteq> HTLC then Err HtlcIncorrectSecretKind
      else and_then (ok_or (sha256_from_str e (sd_data (n10_data n))) HtlcInvalidHash) (\<lambda>hash_lock.
           ensure (hash_lock = sha256 e (as_bytes preimage)) HtlcPreimage))"

definition verify_htlc :: "externs \<Rightarrow> u64 \<Rightarrow> Proof \<Rightarrow> (nut14_error, unit) outcome" where
  "verify_htlc e now p =
     and_then (map_err (\<lambda>_. HtlcSerde) (nut10_try_from e (secret p))) (\<lambda>n.
     and_then (conditions_ok e (n10_tags n)) (\<lambda>conds.
     case witness p of
       Some (HTLCWitness preimage witness_sigs) \<Rightarrow>
         (case conds of
            None \<Rightarrow> htlc_preimage e n preimage
          | Some cs \<Rightarrow>
              and_then (htlc_locktime e now p (HTLCWitness preimage witness_sigs) cs) (\<lambda>finished.
              if finished then Ok ()
              else and_then (htlc_pubkeys e p witness_sigs cs) (\<lambda>_.
                   htlc_preimage e n preimage)))
     | _ \<Rightarrow> Err HtlcIncorrectSecretKind))"

definition add_preimage :: "Proof \<Rightarrow> string \<Rightarrow> Proof" where
  "add_preimage p preimage =
     p\<lparr>witness := Some (HTLCWitness preimage (Option.bind (witness p) witness_signatures))\<rparr>"

section \<open>What the signature counts are\<close>

text \<open>
  The keys of the valid pairs of key and signature, with repetition, and the set of keys with at
  least one valid signature.
\<close>

definition signers :: "externs \<Rightarrow> bytes \<Rightarrow> PublicKey list \<Rightarrow> Signature list \<Rightarrow> PublicKey list" where
  "signers e msg pubkeys sigs =
     concat (map (\<lambda>pk. map (\<lambda>_. pk) (filter (pk_verify e pk msg) sigs)) pubkeys)"

definition signer_set :: "externs \<Rightarrow> bytes \<Rightarrow> PublicKey list \<Rightarrow> Signature list \<Rightarrow> PublicKey set" where
  "signer_set e msg pubkeys sigs = {pk \<in> set pubkeys. \<exists>s \<in> set sigs. pk_verify e pk msg s}"

lemma set_signers [simp]: "set (signers e msg pks sigs) = signer_set e msg pks sigs"
  by (auto simp: signers_def signer_set_def)

lemma finite_signer_set [simp]: "finite (signer_set e msg pks sigs)"
  by (simp add: signer_set_def)

definition count_pair :: "PublicKey set \<Rightarrow> bool \<times> PublicKey \<Rightarrow> (nut11_error, PublicKey set) outcome" where
  "count_pair verified = (\<lambda>(valid, v). add_verified valid v verified)"

lemma count_pairs:
  "try_fold count_pair verified xs =
     (let ks = map snd (filter fst xs) in
      if distinct ks \<and> set ks \<inter> verified = {} then Ok (verified \<union> set ks) else Err DuplicateSignature)"
proof (induction xs arbitrary: verified)
  case (Cons x xs)
  then show ?case by (cases x) (auto simp: count_pair_def add_verified_def Let_def)
qed (simp add: Let_def)

lemma filter_pairs:
  "map snd (filter fst (concat (map (\<lambda>pk. map (\<lambda>s. (pk_verify e pk msg s, pk)) sigs) pks)))
     = signers e msg pks sigs"
  unfolding signers_def
proof (induction pks)
  case (Cons pk pks)
  have "map snd (filter fst (map (\<lambda>s. (pk_verify e pk msg s, pk)) sigs))
          = map (\<lambda>_. pk) (filter (pk_verify e pk msg) sigs)"
    by (induction sigs) auto
  with Cons show ?case by simp
qed simp

lemma signers_transposed:
  "mset (map snd (filter fst (concat (map (\<lambda>s. map (\<lambda>pk. (pk_verify e pk msg s, pk)) pks) sigs))))
     = mset (signers e msg pks sigs)"
proof (induction sigs)
  case Nil
  then show ?case by (induction pks) (simp_all add: signers_def)
next
  case (Cons s sigs)
  have one: "map snd (filter fst (map (\<lambda>pk. (pk_verify e pk msg s, pk)) ks))
        = filter (\<lambda>pk. pk_verify e pk msg s) ks" for ks
    by (induction ks) auto
  have split: "mset (signers e msg ks (s # sigs))
      = mset (filter (\<lambda>pk. pk_verify e pk msg s) ks) + mset (signers e msg ks sigs)" for ks
    by (induction ks) (auto simp: signers_def)
  show ?case using Cons one split by simp
qed

lemma valid_signatures_eq:
  "valid_signatures e msg pks sigs =
     (if distinct (signers e msg pks sigs) then Ok (card (signer_set e msg pks sigs))
      else Err DuplicateSignature)"
proof -
  have "try_fold (\<lambda>verified s. add_verified (pk_verify e pk msg s) pk verified) verified sigs
      = try_fold count_pair verified (map (\<lambda>s. (pk_verify e pk msg s, pk)) sigs)" for pk verified
    by (simp add: count_pair_def flip: try_fold_map)
  then have "try_fold (\<lambda>verified pk.
        try_fold (\<lambda>verified s. add_verified (pk_verify e pk msg s) pk verified) verified sigs) {} pks
      = try_fold count_pair {} (concat (map (\<lambda>pk. map (\<lambda>s. (pk_verify e pk msg s, pk)) sigs) pks))"
    by (simp add: try_fold_concat)
  then show ?thesis by (simp add: valid_signatures_def count_pairs filter_pairs Let_def)
qed

lemma verify_loop_pairs:
  assumes "\<forall>s \<in> set strs. sig_from_str e s \<noteq> None"
  shows "verify_loop e msg pks strs = try_fold count_pair {}
     (concat (map (\<lambda>s. map (\<lambda>pk. (pk_verify e pk msg s, pk)) pks) (map (the \<circ> sig_from_str e) strs)))"
proof -
  let ?body = "\<lambda>verified s. try_fold (\<lambda>verified v.
     and_then (ok_or (sig_from_str e s) Nut11Secp256k1) (\<lambda>sig.
     add_verified (pk_verify e v msg sig) v verified)) verified pks"
  have "try_fold ?body t strs = try_fold count_pair t
     (concat (map (\<lambda>s. map (\<lambda>pk. (pk_verify e pk msg s, pk)) pks) (map (the \<circ> sig_from_str e) strs)))" for t
    using assms
  proof (induction strs arbitrary: t)
    case (Cons s strs)
    then obtain sg where sg: "sig_from_str e s = Some sg" by auto
    have "?body t s = try_fold count_pair t (map (\<lambda>pk. (pk_verify e pk msg sg, pk)) pks)" for t
      by (simp add: sg count_pair_def flip: try_fold_map)
    with Cons sg show ?case by (simp add: try_fold_append)
  qed simp
  then show ?thesis by (simp add: verify_loop_def)
qed

lemma verify_loop_eq:
  assumes "\<forall>s \<in> set strs. sig_from_str e s \<noteq> None"
  shows "verify_loop e msg pks strs =
     (if distinct (signers e msg pks (map (the \<circ> sig_from_str e) strs))
      then Ok (signer_set e msg pks (map (the \<circ> sig_from_str e) strs))
      else Err DuplicateSignature)"
proof -
  let ?sigs = "map (the \<circ> sig_from_str e) strs"
  let ?ks = "map snd (filter fst (concat (map (\<lambda>s. map (\<lambda>pk. (pk_verify e pk msg s, pk)) pks) ?sigs)))"
  note eq = signers_transposed [of e msg pks ?sigs]
  have "distinct ?ks = distinct (signers e msg pks ?sigs)" using eq by (rule mset_eq_imp_distinct_iff)
  moreover have "set ?ks = signer_set e msg pks ?sigs"
    using mset_eq_setD [OF eq] unfolding set_signers .
  ultimately show ?thesis unfolding verify_loop_pairs [OF assms] count_pairs Let_def by simp
qed

lemma refund_keys_loop_spec:
  assumes "finite found" "card found < max 1 needed"
  shows "(fst (refund_keys_loop valid needed vs found)
            \<longleftrightarrow> max 1 needed \<le> card (found \<union> {v \<in> set vs. valid v}))
       \<and> (\<not> fst (refund_keys_loop valid needed vs found)
            \<longrightarrow> snd (refund_keys_loop valid needed vs found) = found \<union> {v \<in> set vs. valid v})"
  using assms
proof (induction valid needed vs found rule: refund_keys_loop.induct)
  case (1 valid needed found)
  then show ?case by (simp add: not_le less_max_iff_disj)
next
  case (2 valid needed v vs found)
  show ?case
  proof (cases "valid v")
    case True
    have un: "found \<union> {w \<in> set (v # vs). valid w} = insert v found \<union> {w \<in> set vs. valid w}"
      using True by auto
    have pos: "0 < card (insert v found)" using 2(3) by (simp add: card_gt_0_iff)
    show ?thesis
    proof (cases "needed \<le> card (insert v found)")
      case True
      have "card (insert v found) \<le> card (insert v found \<union> {w \<in> set vs. valid w})"
        using 2(3) by (intro card_mono) auto
      with True pos have "max 1 needed \<le> card (insert v found \<union> {w \<in> set vs. valid w})" by linarith
      with True \<open>valid v\<close> show ?thesis unfolding un by simp
    next
      case False
      then have "card (insert v found) < max 1 needed" by linarith
      with 2(1) [OF \<open>valid v\<close> False] 2(3) False \<open>valid v\<close> show ?thesis
        unfolding un by (simp del: Un_insert_left)
    qed
  next
    case False
    then have "{w \<in> set (v # vs). valid w} = {w \<in> set vs. valid w}" by auto
    with 2(2) [OF False 2(3,4)] False show ?thesis by simp
  qed
qed

lemma refund_loop_iff:
  assumes "\<forall>s \<in> set strs. sig_from_str e s \<noteq> None" "finite found" "card found < max 1 needed"
  shows "refund_loop e msg refund needed strs found = Ok () \<longleftrightarrow>
     max 1 needed \<le> card (found \<union> signer_set e msg refund (map (the \<circ> sig_from_str e) strs))"
  using assms
proof (induction strs arbitrary: found)
  case Nil
  then show ?case by (simp add: signer_set_def not_le less_max_iff_disj)
next
  case (Cons s strs)
  then obtain sg where sg: "sig_from_str e s = Some sg" by auto
  let ?sigs = "map (the \<circ> sig_from_str e) strs"
  let ?new = "found \<union> {v \<in> set refund. pk_verify e v msg sg}"
  have un: "found \<union> signer_set e msg refund (map (the \<circ> sig_from_str e) (s # strs))
      = ?new \<union> signer_set e msg refund ?sigs"
    using sg by (auto simp: signer_set_def)
  obtain hit found' where
    f: "refund_keys_loop (\<lambda>v. pk_verify e v msg sg) needed refund found = (hit, found')"
    by (cases "refund_keys_loop (\<lambda>v. pk_verify e v msg sg) needed refund found")
  note loop = refund_keys_loop_spec [OF Cons.prems(2,3), of "\<lambda>v. pk_verify e v msg sg" refund,
      unfolded f]
  show ?case
  proof (cases "max 1 needed \<le> card ?new")
    case True
    have "card ?new \<le> card (?new \<union> signer_set e msg refund ?sigs)"
      using Cons.prems(2) by (intro card_mono) auto
    with True loop sg f show ?thesis unfolding un by simp
  next
    case False
    with Cons.prems have "refund_loop e msg refund needed strs ?new = Ok () \<longleftrightarrow>
        max 1 needed \<le> card (?new \<union> signer_set e msg refund ?sigs)"
      by (intro Cons.IH) auto
    moreover from False loop have "\<not> hit" "found' = ?new" by simp_all
    ultimately show ?thesis using sg f unfolding un by simp
  qed
qed

section \<open>Conditions survive their tags\<close>

lemma is_digit_char: "d < 10 \<Longrightarrow> is_digit (char_of (48 + d :: nat))"
  by (simp add: is_digit_def)

lemma digits_of_props:
  "digits_of n \<noteq> []" "list_all is_digit (digits_of n)" "digits_value (digits_of n) = n"
proof (induction n rule: digits_of.induct)
  case (1 n)
  {
    case 1
    show ?case by (subst digits_of.simps) simp
  next
    case 2
    show ?case using 1 by (subst digits_of.simps) (auto simp: is_digit_char)
  next
    case 3
    show ?case using 1 by (subst digits_of.simps) (auto simp: digits_value_def)
  }
qed

lemma parse_u64_to_string [simp]: "parse_u64 (u64_to_string n) = Some n"
proof -
  obtain ch r where d: "digits_of (unat n) = ch # r"
    using digits_of_props(1) [of "unat n"] by (cases "digits_of (unat n)") auto
  then have "is_digit ch" using digits_of_props(2) [of "unat n"] by simp
  then have "ch \<noteq> CHR ''+''" by (auto simp: is_digit_def)
  with d have "(case digits_of (unat n) of [] \<Rightarrow> [] | ch # r \<Rightarrow>
      if ch = CHR ''+'' then r else digits_of (unat n)) = digits_of (unat n)" by simp
  then show ?thesis
    using digits_of_props [of "unat n"] unat_u64_less [of n]
    by (simp only: parse_u64_def u64_to_string_def Let_def) simp
qed

text \<open>What the library promises about the text form of a valid key.\<close>

definition key_text_ok :: "externs \<Rightarrow> PublicKey \<Rightarrow> bool" where
  "key_text_ok e k \<longleftrightarrow> length k = 33 \<and> secp_pk_from_str e (encode k) = Some k"

lemma pk_from_to_hex: "key_text_ok e k \<Longrightarrow> pk_from_hex e (pk_to_hex k) = Ok k"
  by (simp add: key_text_ok_def pk_from_hex_def pk_to_hex_def)

lemma parse_pubkeys_hex:
  "list_all (key_text_ok e) ks \<Longrightarrow> parse_pubkeys e (map pk_to_hex ks) = Ok ks"
  by (induction ks) (simp_all add: parse_pubkeys_def pk_from_to_hex)

fun tag_ok :: "externs \<Rightarrow> Tag \<Rightarrow> bool" where
  "tag_ok e (Tag_Refund ks) = list_all (key_text_ok e) ks"
| "tag_ok e (Tag_PubKeys ks) = list_all (key_text_ok e) ks"
| "tag_ok e (Tag_Custom name _) = (tagkind_from name = TK_Custom name)"
| "tag_ok e _ = True"

lemma tag_roundtrip: "tag_ok e t \<Longrightarrow> tag_try_from e (tag_as_vec t) = Ok t"
proof (cases t)
  case (Tag_SigFlag f)
  then show ?thesis
    by (cases f) (simp_all add: tag_try_from_def tagkind_from_def tag_value_def sigflag_from_str_def)
qed (simp_all add: tag_try_from_def tagkind_from_def tag_value_def parse_pubkeys_hex)

definition conditions_tag_list :: "Conditions \<Rightarrow> Tag list" where
  "conditions_tag_list cs =
       (case cond_pubkeys cs of Some ks \<Rightarrow> [Tag_PubKeys ks] | None \<Rightarrow> [])
     @ (case locktime cs of Some l \<Rightarrow> [Tag_LockTime l] | None \<Rightarrow> [])
     @ (case num_sigs cs of Some n \<Rightarrow> [Tag_NSigs n] | None \<Rightarrow> [])
     @ (case cond_refund_keys cs of Some ks \<Rightarrow> [Tag_Refund ks] | None \<Rightarrow> [])
     @ (case num_sigs_refund cs of Some n \<Rightarrow> [Tag_NSigsRefund n] | None \<Rightarrow> [])
     @ [Tag_SigFlag (sig_flag cs)]"

lemma conditions_to_tags_eq: "conditions_to_tags cs = map tag_as_vec (conditions_tag_list cs)"
  by (simp add: conditions_to_tags_def conditions_tag_list_def split: option.splits)

lemma conditions_of_tag_list: "conditions_of_tags (conditions_tag_list cs) = cs"
  by (cases cs) (auto simp: conditions_of_tags_def conditions_tag_list_def tags_get_def
      split: option.splits)

definition conditions_keys_ok :: "externs \<Rightarrow> Conditions \<Rightarrow> bool" where
  "conditions_keys_ok e cs \<longleftrightarrow> list_all (key_text_ok e) (unwrap_or (cond_pubkeys cs) [])
     \<and> list_all (key_text_ok e) (unwrap_or (cond_refund_keys cs) [])"

lemma conditions_tags_roundtrip:
  assumes "conditions_keys_ok e cs"
  shows "conditions_try_from e (conditions_to_tags cs) = Ok cs"
proof -
  have "list_all (tag_ok e) (conditions_tag_list cs)"
    using assms by (auto simp: conditions_tag_list_def conditions_keys_ok_def unwrap_or_def
        split: option.splits)
  then have "try_map (\<lambda>t. unwrap (tag_try_from e t)) (map tag_as_vec (conditions_tag_list cs))
      = Ok (conditions_tag_list cs)"
    by (auto simp: try_map_Ok_iff list_all2_conv_all_nth list_all_length tag_roundtrip)
  then show ?thesis
    by (auto simp: conditions_try_from_def conditions_to_tags_eq conditions_of_tag_list)
qed

text \<open>
  C26: Counting signatures is exact: the result is the number of distinct keys with a valid
  signature, and the call fails precisely when some key is counted twice.
\<close>

theorem valid_signatures_exact:
  "valid_signatures e msg pubkeys sigs =
     (if distinct (signers e msg pubkeys sigs) then Ok (card (signer_set e msg pubkeys sigs))
      else Err DuplicateSignature)"
  by (rule valid_signatures_eq)

lemma verify_p2pk_eq:
  assumes "nut10_try_from e (secret p) = Ok n"
    and "conditions_try_from e (unwrap_or (n10_tags n) []) = Ok cs"
    and "Option.bind (witness p) witness_signatures = Some strs"
    and "\<forall>s \<in> set strs. sig_from_str e s \<noteq> None"
    and "sigs = map (the \<circ> sig_from_str e) strs" and "msg = as_bytes (secret p)"
  shows "verify_p2pk e now p = Ok () \<longleftrightarrow>
     (if locktime_passed now cs
      then (case cond_refund_keys cs of
              None \<Rightarrow> True
            | Some refund \<Rightarrow> max 1 (unat (unwrap_or (num_sigs_refund cs) 1))
                               \<le> card (signer_set e msg refund sigs))
      else (\<exists>pubkeys. signing_keys e n cs = Ok pubkeys
              \<and> distinct (signers e msg pubkeys sigs)
              \<and> unat (unwrap_or (num_sigs cs) 1) \<le> card (signer_set e msg pubkeys sigs)))"
proof (cases "locktime_passed now cs")
  case True
  then show ?thesis
    using assms(1-3) refund_loop_iff [OF assms(4), of "{}"]
    by (simp add: verify_p2pk_def Let_def ensure_def assms(5,6) split: option.splits)
next
  case False
  have "verify_p2pk e now p = Ok () \<longleftrightarrow> (\<exists>pubkeys verified. signing_keys e n cs = Ok pubkeys
      \<and> verify_loop e msg pubkeys strs = Ok verified
      \<and> unat (unwrap_or (num_sigs cs) 1) \<le> card verified)"
    using assms(1-3,6) False by (auto simp: verify_p2pk_def Let_def)
  also have "\<dots> \<longleftrightarrow> (\<exists>pubkeys. signing_keys e n cs = Ok pubkeys
      \<and> distinct (signers e msg pubkeys sigs)
      \<and> unat (unwrap_or (num_sigs cs) 1) \<le> card (signer_set e msg pubkeys sigs))"
    unfolding verify_loop_eq [OF assms(4)] assms(5) by auto
  finally show ?thesis using False by simp
qed

text \<open>Signatures that do not parse: the refund loop stops at the first, the other one fails on any.\<close>

lemma refund_loop_prefix:
  "refund_loop e msg refund needed strs found = Ok () \<longleftrightarrow>
     (\<exists>k. list_all (\<lambda>s. sig_from_str e s \<noteq> None) (take k strs)
        \<and> refund_loop e msg refund needed (take k strs) found = Ok ())"
proof (induction strs arbitrary: found)
  case (Cons s strs)
  show ?case
  proof (cases "sig_from_str e s")
    case None
    then have "\<not> (list_all (\<lambda>s. sig_from_str e s \<noteq> None) (take k (s # strs))
        \<and> refund_loop e msg refund needed (take k (s # strs)) found = Ok ())" for k
      by (cases k) simp_all
    then show ?thesis using None by simp
  next
    case (Some sg)
    obtain hit found' where f: "refund_keys_loop (\<lambda>v. pk_verify e v msg sg) needed refund found = (hit, found')"
      by fastforce
    show ?thesis
    proof (cases hit)
      case True
      then show ?thesis using Some f by (auto intro!: exI [of _ "Suc 0"])
    next
      case False
      have "(\<exists>k. list_all (\<lambda>s. sig_from_str e s \<noteq> None) (take k (s # strs))
          \<and> refund_loop e msg refund needed (take k (s # strs)) found = Ok ())
        \<longleftrightarrow> (\<exists>k. list_all (\<lambda>s. sig_from_str e s \<noteq> None) (take k strs)
          \<and> refund_loop e msg refund needed (take k strs) found' = Ok ())" (is "?l \<longleftrightarrow> ?r")
      proof
        assume ?l
        then obtain k where "list_all (\<lambda>s. sig_from_str e s \<noteq> None) (take k (s # strs))"
          "refund_loop e msg refund needed (take k (s # strs)) found = Ok ()" by blast
        then show ?r using Some f False by (cases k) auto
      next
        assume ?r
        then obtain k where "list_all (\<lambda>s. sig_from_str e s \<noteq> None) (take k strs)"
          "refund_loop e msg refund needed (take k strs) found' = Ok ()" by blast
        then show ?l using Some f False by (intro exI [of _ "Suc k"]) simp
      qed
      then show ?thesis using Cons.IH [of found'] Some f False by simp
    qed
  qed
qed simp

lemma verify_loop_reads:
  assumes "verify_loop e msg pks strs = Ok verified" "pks \<noteq> []"
  shows "list_all (\<lambda>s. sig_from_str e s \<noteq> None) strs"
proof -
  obtain v vs where pks: "pks = v # vs" using assms(2) by (cases pks) auto
  let ?body = "\<lambda>verified s. try_fold (\<lambda>verified v.
     and_then (ok_or (sig_from_str e s) Nut11Secp256k1) (\<lambda>sig.
     add_verified (pk_verify e v msg sig) v verified)) verified pks"
  have "try_fold ?body t strs = Ok verified \<Longrightarrow> list_all (\<lambda>s. sig_from_str e s \<noteq> None) strs" for t
  proof (induction strs arbitrary: t)
    case (Cons s strs)
    then have "sig_from_str e s \<noteq> None" by (cases "sig_from_str e s") (simp_all add: pks)
    moreover from Cons.prems obtain t' where "try_fold ?body t' strs = Ok verified" by auto
    ultimately show ?case using Cons.IH by simp
  qed simp
  then show ?thesis using assms(1) unfolding verify_loop_def by blast
qed

lemma verify_loop_no_keys: "verify_loop e msg [] strs = Ok {}"
  unfolding verify_loop_def by (induction strs) simp_all

lemma verify_loop_Ok_iff:
  "verify_loop e msg pks strs = Ok verified \<longleftrightarrow>
     (pks = [] \<or> list_all (\<lambda>s. sig_from_str e s \<noteq> None) strs)
     \<and> distinct (signers e msg pks (map (the \<circ> sig_from_str e) strs))
     \<and> verified = signer_set e msg pks (map (the \<circ> sig_from_str e) strs)"
proof (cases "pks = [] \<or> list_all (\<lambda>s. sig_from_str e s \<noteq> None) strs")
  case True
  show ?thesis
  proof (cases "pks = []")
    case True
    then show ?thesis by (auto simp: verify_loop_no_keys signers_def signer_set_def)
  next
    case False
    with True have "\<forall>s \<in> set strs. sig_from_str e s \<noteq> None" by (simp add: list_all_iff)
    from verify_loop_eq [OF this] True show ?thesis by auto
  qed
next
  case False
  then show ?thesis using verify_loop_reads by blast
qed

text \<open>
  C23: A proof locked to public keys is accepted exactly when its secret and its conditions parse, a
  witness with a list of signatures is there, and: before the locktime, the required number of
  distinct keys (the key of the secret and the tagged keys) signed the secret, every signature parses
  and no key is counted twice; after the locktime, enough distinct refund keys (always at least one)
  signed among the signatures before the first that does not parse, or there are no refund keys. So a
  proof without a witness is refused even after its locktime, with or without refund keys.
\<close>

theorem verify_p2pk_iff:
  "verify_p2pk e now p = Ok () \<longleftrightarrow>
     (\<exists>n cs strs. nut10_try_from e (secret p) = Ok n
        \<and> conditions_try_from e (unwrap_or (n10_tags n) []) = Ok cs
        \<and> Option.bind (witness p) witness_signatures = Some strs
        \<and> (if locktime_passed now cs
           then (case cond_refund_keys cs of
                   None \<Rightarrow> True
                 | Some refund \<Rightarrow> \<exists>k. list_all (\<lambda>s. sig_from_str e s \<noteq> None) (take k strs)
                     \<and> max 1 (unat (unwrap_or (num_sigs_refund cs) 1))
                         \<le> card (signer_set e (as_bytes (secret p)) refund (map (the \<circ> sig_from_str e) (take k strs))))
           else (\<exists>pubkeys. signing_keys e n cs = Ok pubkeys
                   \<and> (pubkeys = [] \<or> list_all (\<lambda>s. sig_from_str e s \<noteq> None) strs)
                   \<and> distinct (signers e (as_bytes (secret p)) pubkeys (map (the \<circ> sig_from_str e) strs))
                   \<and> unat (unwrap_or (num_sigs cs) 1)
                       \<le> card (signer_set e (as_bytes (secret p)) pubkeys (map (the \<circ> sig_from_str e) strs)))))"
proof -
  let ?msg = "as_bytes (secret p)"
  have refund: "refund_loop e ?msg refund needed strs {} = Ok () \<longleftrightarrow>
      (\<exists>k. list_all (\<lambda>s. sig_from_str e s \<noteq> None) (take k strs)
         \<and> max 1 needed \<le> card (signer_set e ?msg refund (map (the \<circ> sig_from_str e) (take k strs))))"
    for refund needed strs
    unfolding refund_loop_prefix [of _ _ _ _ strs]
    using refund_loop_iff [of _ e "{}" needed ?msg refund] by (auto simp: list_all_iff)
  have "verify_p2pk e now p = Ok () \<longleftrightarrow>
     (\<exists>n cs strs. nut10_try_from e (secret p) = Ok n
        \<and> conditions_try_from e (unwrap_or (n10_tags n) []) = Ok cs
        \<and> Option.bind (witness p) witness_signatures = Some strs
        \<and> (if locktime_passed now cs
           then (case cond_refund_keys cs of
                   None \<Rightarrow> True
                 | Some refund \<Rightarrow> refund_loop e ?msg refund (unat (unwrap_or (num_sigs_refund cs) 1)) strs {} = Ok ())
           else (\<exists>pubkeys verified. signing_keys e n cs = Ok pubkeys \<and> verify_loop e ?msg pubkeys strs = Ok verified
                   \<and> unat (unwrap_or (num_sigs cs) 1) \<le> card verified)))"
    by (auto simp: verify_p2pk_def Let_def split: if_splits option.splits)
  then show ?thesis unfolding refund verify_loop_Ok_iff by (simp only: conj_assoc ex_simps simp_thms)
qed

text \<open>A secret of each kind, read by a parser that knows only it.\<close>

definition demo_externs :: "Kind \<Rightarrow> string \<Rightarrow> string list list option \<Rightarrow> externs" where
  "demo_externs kd d tgs = toy_externs\<lparr>
     json_from_str := (\<lambda>_. Some (JArray [JString [], JObject []])),
     json_kind := (\<lambda>_. Some kd),
     json_secret_data := (\<lambda>_. Some \<lparr>sd_nonce = [], sd_data = d, sd_tags = tgs\<rparr>)\<rparr>"

definition demo_proof :: "Witness option \<Rightarrow> Proof" where
  "demo_proof w = \<lparr>amount = 8, keyset_id = example_id, secret = ''demo'', proof_c = [2, 3],
     witness = w, dleq = None\<rparr>"

lemma demo_nut10 [simp]:
  "nut10_try_from (demo_externs kd d tgs) s =
     Ok \<lparr>n10_kind = kd, n10_data = \<lparr>sd_nonce = [], sd_data = d, sd_tags = tgs\<rparr>\<rparr>"
  by (simp add: nut10_try_from_def visit_seq_def demo_externs_def)

lemma demo_fields [simp]:
  "sha256 (demo_externs kd d tgs) m = [1]"
  "sig_from_str (demo_externs kd d tgs) s = ok (decode s)"
  "secp_pk_from_str (demo_externs kd d tgs) s = ok (decode s)"
  "sha256_from_str (demo_externs kd d tgs) s = ok (decode s)"
  "schnorr_verify (demo_externs kd d tgs) sig dg key = (sig = key @ dg)"
  "sk_public_key (demo_externs kd d tgs) sk = 2 # sk"
  by (simp_all add: demo_externs_def toy_externs_def)

definition demo_key :: PublicKey where
  "demo_key = 2 # replicate 32 7"

definition demo_conditions :: Conditions where
  "demo_conditions = \<lparr>locktime = Some 10, cond_pubkeys = None, cond_refund_keys = Some [demo_key],
     num_sigs = None, sig_flag = SigInputs, num_sigs_refund = None\<rparr>"

lemma demo_conditions_ok:
  "conditions_try_from (demo_externs kd d tgs) (conditions_to_tags demo_conditions) = Ok demo_conditions"
  by (rule conditions_tags_roundtrip)
     (simp add: conditions_keys_ok_def demo_conditions_def unwrap_or_def key_text_ok_def demo_key_def)

theorem verify_p2pk_iff_witness:
  "verify_p2pk (demo_externs P2PK [] (Some (conditions_to_tags demo_conditions))) 20
     (demo_proof (Some (P2PKWitness [encode (replicate 32 7 @ [1])]))) = Ok ()
   \<and> verify_p2pk (demo_externs P2PK [] (Some (conditions_to_tags demo_conditions))) 20 (demo_proof None) \<noteq> Ok ()"
proof
  let ?e = "demo_externs P2PK [] (Some (conditions_to_tags demo_conditions))" and ?s = "encode (replicate 32 7 @ [1])"
  have "signer_set ?e (as_bytes ''demo'') [demo_key] [replicate 32 7 @ [1]] = {demo_key}"
    by (auto simp: signer_set_def pk_verify_def x_only_public_key_def demo_key_def)
  then show "verify_p2pk ?e 20 (demo_proof (Some (P2PKWitness [?s]))) = Ok ()"
    unfolding verify_p2pk_iff using demo_conditions_ok
    by (intro exI [of _ "\<lparr>n10_kind = P2PK, n10_data = \<lparr>sd_nonce = [], sd_data = [], sd_tags = Some (conditions_to_tags demo_conditions)\<rparr>\<rparr>"]
        exI [of _ demo_conditions] exI [of _ "[?s]"])
      (auto simp: demo_proof_def n10_tags_def unwrap_or_def locktime_passed_def demo_conditions_def word_le_nat_alt
        intro!: exI [of _ "Suc 0"])
  show "verify_p2pk ?e 20 (demo_proof None) \<noteq> Ok ()" unfolding verify_p2pk_iff by (simp add: demo_proof_def)
qed

text \<open>
  C34: Conditions survive their tags: writing conditions as tags and reading the tags back gives
  the same conditions, for any keys whose text form the library reads back.
\<close>

theorem conditions_roundtrip:
  "conditions_keys_ok e cs \<Longrightarrow> conditions_try_from e (conditions_to_tags cs) = Ok cs"
  by (rule conditions_tags_roundtrip)

theorem conditions_roundtrip_witness:
  "conditions_try_from toy_externs (conditions_to_tags demo_conditions) = Ok demo_conditions"
  by (rule conditions_roundtrip)
     (simp add: conditions_keys_ok_def demo_conditions_def unwrap_or_def key_text_ok_def demo_key_def
       toy_externs_def)

text \<open>
  A secret with one tag that does not parse makes the check of the proof panic instead of
  returning an error, before any signature is looked at.
\<close>

theorem malformed_tag_panics:
  assumes "nut10_try_from e (secret p) = Ok n" "n10_tags n = Some tgs"
    and "\<exists>t \<in> set tgs. \<forall>tag. tag_try_from e t \<noteq> Ok tag"
  shows "verify_p2pk e now p = Panic"
proof -
  have "try_map (\<lambda>t. unwrap (tag_try_from e t)) tgs = (Panic :: (nut11_error, Tag list) outcome)"
    using assms(3)
  proof (induction tgs)
    case (Cons t tgs)
    then show ?case by (cases "tag_try_from e t") auto
  qed simp
  with assms(1,2) show ?thesis
    by (simp add: verify_p2pk_def conditions_try_from_def unwrap_or_def)
qed

theorem malformed_tag_panics_witness:
  "verify_p2pk (demo_externs P2PK [] (Some [[''n_sigs'', ''two'']])) 0 (demo_proof None) = Panic"
  by (rule malformed_tag_panics [OF demo_nut10, where tgs = "[[''n_sigs'', ''two'']]"])
     (simp_all add: n10_tags_def tag_try_from_def tagkind_from_def tag_value_def parse_u64_def
       is_digit_def)

section \<open>Hash time locks\<close>

lemma valid_signatures_Ok:
  "valid_signatures e msg pks sigs = Ok m \<Longrightarrow> m = card (signer_set e msg pks sigs)"
  by (simp add: valid_signatures_eq split: if_splits)

text \<open>
  C24: A hash-locked proof that is accepted was unlocked in one of three ways: the locktime passed
  and there are no refund keys; a refund key signed; or the preimage hashes to the lock and, where
  the conditions name keys, the required number of distinct keys signed.
\<close>

theorem verify_htlc_sound:
  assumes "verify_htlc e now p = Ok ()"
  shows "\<exists>n conds preimage strs.
      nut10_try_from e (secret p) = Ok n
    \<and> conditions_ok e (n10_tags n) = (Ok conds :: (nut14_error, Conditions option) outcome)
    \<and> witness p = Some (HTLCWitness preimage strs)
    \<and> ((\<exists>cs l. conds = Some cs \<and> locktime cs = Some l \<and> l < now \<and> cond_refund_keys cs = None)
      \<or> (\<exists>cs refund sigs. conds = Some cs \<and> locktime cs \<noteq> None \<and> cond_refund_keys cs = Some refund
           \<and> parse_signatures e (unwrap_or strs []) = Ok sigs
           \<and> signer_set e (as_bytes (secret p)) refund sigs \<noteq> {})
      \<or> (n10_kind n = HTLC
           \<and> sha256_from_str e (sd_data (n10_data n)) = Some (sha256 e (as_bytes preimage))
           \<and> (\<forall>cs pubkeys. conds = Some cs \<and> cond_pubkeys cs = Some pubkeys \<longrightarrow>
                (\<exists>sigs. parse_signatures e (unwrap_or strs []) = Ok sigs
                   \<and> unat (unwrap_or (num_sigs cs) 1)
                       \<le> card (signer_set e (as_bytes (secret p)) pubkeys sigs)))))"
proof -
  from assms obtain n conds where n: "nut10_try_from e (secret p) = Ok n"
    and conds: "conditions_ok e (n10_tags n) = (Ok conds :: (nut14_error, Conditions option) outcome)"
    by (auto simp: verify_htlc_def)
  from assms n conds obtain preimage strs where w: "witness p = Some (HTLCWitness preimage strs)"
    by (auto simp: verify_htlc_def split: option.splits Witness.splits)
  have pre: "htlc_preimage e n preimage = Ok () \<Longrightarrow> n10_kind n = HTLC
      \<and> sha256_from_str e (sd_data (n10_data n)) = Some (sha256 e (as_bytes preimage))"
    by (auto simp: htlc_preimage_def split: if_splits)
  show ?thesis
  proof (cases conds)
    case None
    with assms n conds w have "htlc_preimage e n preimage = Ok ()" by (simp add: verify_htlc_def)
    with n conds w pre None show ?thesis by blast
  next
    case (Some cs)
    with assms n conds w obtain fin where
      fin: "htlc_locktime e now p (HTLCWitness preimage strs) cs = Ok fin"
      and rest: "\<not> fin \<Longrightarrow> htlc_pubkeys e p strs cs = Ok () \<and> htlc_preimage e n preimage = Ok ()"
      by (auto simp: verify_htlc_def split: if_splits)
    show ?thesis
    proof (cases fin)
      case True
      with fin have "(\<exists>l. locktime cs = Some l \<and> l < now \<and> cond_refund_keys cs = None)
          \<or> (\<exists>refund sigs. locktime cs \<noteq> None \<and> cond_refund_keys cs = Some refund
             \<and> parse_signatures e (unwrap_or strs []) = Ok sigs
             \<and> signer_set e (as_bytes (secret p)) refund sigs \<noteq> {})"
        by (auto simp: htlc_locktime_def unwrap_or_def card_gt_0_iff Suc_le_eq
            dest!: valid_signatures_Ok split: option.splits if_splits)
      with n conds w Some show ?thesis by blast
    next
      case False
      from rest [OF this] have "cond_pubkeys cs = Some pubkeys \<Longrightarrow>
          \<exists>sigs. parse_signatures e (unwrap_or strs []) = Ok sigs
            \<and> unat (unwrap_or (num_sigs cs) 1) \<le> card (signer_set e (as_bytes (secret p)) pubkeys sigs)"
        for pubkeys
        by (auto simp: htlc_pubkeys_def unwrap_or_def dest!: valid_signatures_Ok)
      with n conds w Some pre rest [OF False] show ?thesis by blast
    qed
  qed
qed

text \<open>
  C40: The refund path of a hash lock does not look at the clock: a valid signature of a refund key
  unlocks the proof at any time, before the locktime too, and with any preimage.
\<close>

theorem htlc_refund_ignores_locktime:
  assumes "nut10_try_from e (secret p) = Ok n"
    and "conditions_try_from e (unwrap_or (n10_tags n) []) = Ok cs" "n10_tags n \<noteq> None"
    and "locktime cs = Some l" "cond_refund_keys cs = Some refund"
    and "witness p = Some (HTLCWitness preimage (Some strs))" "parse_signatures e strs = Ok sigs"
    and "distinct (signers e (as_bytes (secret p)) refund sigs)"
    and "signer_set e (as_bytes (secret p)) refund sigs \<noteq> {}"
  shows "verify_htlc e now p = Ok ()"
proof -
  have "conditions_ok e (n10_tags n) = (Ok (Some cs) :: (nut14_error, Conditions option) outcome)"
    using assms(2,3) by (auto simp: conditions_ok_def unwrap_or_def)
  moreover have "1 \<le> card (signer_set e (as_bytes (secret p)) refund sigs)"
    using assms(9) by (simp add: Suc_le_eq card_gt_0_iff)
  ultimately show ?thesis
    using assms by (auto simp: verify_htlc_def htlc_locktime_def valid_signatures_eq)
qed

text \<open>A hash-locked proof with a refund key, its locktime far ahead and a wrong preimage.\<close>

definition demo_htlc_externs :: externs where
  "demo_htlc_externs = demo_externs HTLC (encode [9]) (Some (conditions_to_tags demo_conditions))"

definition demo_htlc_proof :: Proof where
  "demo_htlc_proof = demo_proof (Some (HTLCWitness ''wrong'' (Some [encode (replicate 32 7 @ [1])])))"

lemma demo_htlc_signers:
  "signers demo_htlc_externs (as_bytes ''demo'') [demo_key] [replicate 32 7 @ [1]] = [demo_key]"
  by (simp add: signers_def pk_verify_def x_only_public_key_def demo_key_def demo_htlc_externs_def)

lemma demo_htlc_facts:
  "nut10_try_from demo_htlc_externs s = Ok \<lparr>n10_kind = HTLC, n10_data = \<lparr>sd_nonce = [],
     sd_data = encode [9], sd_tags = Some (conditions_to_tags demo_conditions)\<rparr>\<rparr>"
  "conditions_try_from demo_htlc_externs (conditions_to_tags demo_conditions) = Ok demo_conditions"
  "parse_signatures demo_htlc_externs [encode b] = Ok [b]"
  by (simp_all add: demo_htlc_externs_def demo_conditions_ok parse_signatures_def)

theorem htlc_refund_ignores_locktime_witness:
  "verify_htlc demo_htlc_externs 5 demo_htlc_proof = Ok ()"
  by (rule htlc_refund_ignores_locktime [OF demo_htlc_facts(1), where cs = demo_conditions and
        refund = "[demo_key]" and sigs = "[replicate 32 7 @ [1]]" and l = 10 and preimage = "''wrong''"
        and strs = "[encode (replicate 32 7 @ [1])]"])
     (use demo_htlc_signers demo_htlc_facts(2,3) in
       \<open>simp_all add: n10_tags_def unwrap_or_def demo_htlc_proof_def demo_proof_def
          demo_conditions_def flip: set_signers\<close>)

lemma demo_htlc_accepted: "verify_htlc demo_htlc_externs 5 demo_htlc_proof = Ok ()"
proof -
  have "set (signers demo_htlc_externs (as_bytes ''demo'') [demo_key] [replicate 32 7 @ [1]]) = {demo_key}"
    by (simp only: demo_htlc_signers list.set)
  then show ?thesis
    using demo_htlc_signers demo_htlc_facts
    by (auto simp: verify_htlc_def htlc_locktime_def valid_signatures_eq conditions_ok_def
        n10_tags_def demo_htlc_proof_def demo_proof_def demo_conditions_def)
qed

theorem verify_htlc_sound_witness:
  "\<exists>n conds preimage strs.
      nut10_try_from demo_htlc_externs (secret demo_htlc_proof) = Ok n
    \<and> conditions_ok demo_htlc_externs (n10_tags n)
        = (Ok conds :: (nut14_error, Conditions option) outcome)
    \<and> witness demo_htlc_proof = Some (HTLCWitness preimage strs)"
  using verify_htlc_sound [OF demo_htlc_accepted] by blast

text \<open>
  Signatures are checked against the x coordinate of a key only, so where a lock lists both
  keys with the same x coordinate, one signature counts as two signers.
\<close>

theorem one_signature_two_signers:
  assumes "pk_verify e (2 # x) msg s"
  shows "valid_signatures e msg [2 # x, 3 # x] [s] = Ok 2"
proof -
  have "pk_verify e (3 # x) msg s" using assms by (simp add: pk_verify_def x_only_public_key_def)
  with assms have "signers e msg [2 # x, 3 # x] [s] = [2 # x, 3 # x]" by (simp add: signers_def)
  moreover from this have "signer_set e msg [2 # x, 3 # x] [s] = {2 # x, 3 # x}"
    by (metis set_signers list.set)
  ultimately show ?thesis by (simp add: valid_signatures_eq)
qed

theorem one_signature_two_signers_witness:
  "valid_signatures toy_externs [] [2 # [4], 3 # [4]] [[4, 1]] = Ok 2"
  by (rule one_signature_two_signers)
     (simp add: pk_verify_def x_only_public_key_def toy_externs_def)

section \<open>Request-wide signatures\<close>

lemma first_input_Ok: "first_input inputs = Ok p \<longleftrightarrow> (\<exists>ps. inputs = p # ps)"
  by (cases inputs) (auto simp: first_input_def)

lemma get_sig_all_required_sigs_Ok:
  assumes "get_sig_all_required_sigs e inputs = Ok (req, sc)"
  obtains p ps pk cs where "inputs = p # ps" "sc_try_from_secret e (secret p) = Ok sc"
    and "sc = P2PKConditions pk (Some cs)" "sig_flag cs = SigAll" "req = unwrap_or (num_sigs cs) 1"
proof -
  from assms obtain p ps sc' where inputs: "inputs = p # ps"
    and sc': "sc_try_from_secret e (secret p) = Ok sc'"
    by (auto simp: get_sig_all_required_sigs_def first_input_Ok)
  show thesis
  proof (cases sc')
    case (P2PKConditions pk cs)
    with assms inputs sc' that show thesis
      by (auto simp: get_sig_all_required_sigs_def first_input_def split: if_splits)
  qed (use assms inputs sc' in \<open>auto simp: get_sig_all_required_sigs_def first_input_def\<close>)
qed

text \<open>
  C25: An accepted request-wide signature means that the first input is locked to public keys with
  the all-inputs flag, every input has the same data and tags as the first, and the required number
  of distinct keys among the lock's keys signed the concatenation of the input secrets and the
  blinded outputs.
\<close>

theorem swap_sig_all_sound:
  assumes "swap_verify_sig_all e r = Ok ()"
  shows "\<exists>first n pk cs sigs.
      hd (swap_inputs r) = first \<and> swap_inputs r \<noteq> []
    \<and> nut10_try_from e (secret first) = Ok n
    \<and> sc_try_from_nut10 e n = Ok (P2PKConditions pk (Some cs)) \<and> sig_flag cs = SigAll
    \<and> (\<forall>p \<in> set (swap_inputs r). \<exists>m. nut10_try_from e (secret p) = Ok m
         \<and> sd_data (n10_data m) = sd_data (n10_data n) \<and> n10_tags m = n10_tags n)
    \<and> get_valid_witness_signatures e (swap_inputs r) = Ok sigs
    \<and> unat (unwrap_or (num_sigs cs) 1)
        \<le> card (signer_set e (as_bytes (swap_sig_all_msg r))
                  (pk # unwrap_or (cond_pubkeys cs) []) sigs)"
proof -
  from assms obtain req sc pks sigs valid_sigs where
    req: "get_sig_all_required_sigs e (swap_inputs r) = Ok (req, sc)"
    and match: "verify_matching_conditions e (swap_inputs r) = Ok ()"
    and sigs: "get_valid_witness_signatures e (swap_inputs r) = Ok sigs"
    and pks: "sc_pubkeys sc = Some pks"
    and valid: "valid_signatures e (as_bytes (swap_sig_all_msg r)) pks sigs = Ok valid_sigs"
    and enough: "unat req \<le> valid_sigs"
    by (auto simp: swap_verify_sig_all_def verify_inputs_def)
  from req obtain p ps n pk cs where
    inputs: "swap_inputs r = p # ps" and n: "nut10_try_from e (secret p) = Ok n"
    and sc: "sc_try_from_nut10 e n = Ok sc" "sc = P2PKConditions pk (Some cs)"
    and flag: "sig_flag cs = SigAll" and r: "req = unwrap_or (num_sigs cs) 1"
    by (rule get_sig_all_required_sigs_Ok) (auto simp: sc_try_from_secret_def)
  have "\<forall>q \<in> set (swap_inputs r). \<exists>m. nut10_try_from e (secret q) = Ok m
         \<and> sd_data (n10_data m) = sd_data (n10_data n) \<and> n10_tags m = n10_tags n"
    using match inputs n
    by (auto simp: verify_matching_conditions_def first_input_Ok match_conditions_def [abs_def]
        try_fold_unit_Ok_iff)
  moreover have "set pks = set (pk # unwrap_or (cond_pubkeys cs) [])"
    using pks sc(2) by (auto split: if_splits)
  then have "signer_set e m pks sigs = signer_set e m (pk # unwrap_or (cond_pubkeys cs) []) sigs" for m
    by (simp only: signer_set_def)
  moreover have "valid_sigs = card (signer_set e (as_bytes (swap_sig_all_msg r)) pks sigs)"
    using valid by (rule valid_signatures_Ok)
  ultimately show ?thesis
    using inputs n sc flag sigs enough r by auto
qed

text \<open>
  The signed message of a swap leaves out the amounts and keysets of the outputs: replacing
  the outputs by others with the same blinded secrets does not change whether the request is
  accepted.
\<close>

theorem sig_all_ignores_amounts:
  assumes "map blinded_secret outs = map blinded_secret (swap_outputs r)"
  shows "swap_verify_sig_all e (r\<lparr>swap_outputs := outs\<rparr>) = swap_verify_sig_all e r"
proof -
  have "map (\<lambda>b. pk_to_hex (blinded_secret b)) outs
      = map (\<lambda>b. pk_to_hex (blinded_secret b)) (swap_outputs r)"
    using arg_cong [OF assms, of "map pk_to_hex"] by (simp add: comp_def)
  then show ?thesis by (simp add: swap_verify_sig_all_def swap_sig_all_msg_def)
qed

definition demo_output :: "Amount \<Rightarrow> BlindedMessage" where
  "demo_output a = \<lparr>bm_amount = a, bm_keyset_id = example_id, blinded_secret = [2, 1], bm_witness = None\<rparr>"

theorem sig_all_ignores_amounts_witness:
  "swap_verify_sig_all toy_externs
       (\<lparr>swap_inputs = [], swap_outputs = [demo_output 1]\<rparr>\<lparr>swap_outputs := [demo_output 64]\<rparr>)
     = swap_verify_sig_all toy_externs \<lparr>swap_inputs = [], swap_outputs = [demo_output 1]\<rparr>"
  by (rule sig_all_ignores_amounts) (simp add: demo_output_def)

lemma verify_matching_add_signature:
  "verify_matching_conditions e (add_first_signature e inputs s) = verify_matching_conditions e inputs"
  "get_sig_all_required_sigs e (add_first_signature e inputs s) = get_sig_all_required_sigs e inputs"
  by (cases inputs; simp add: add_first_signature_def verify_matching_conditions_def
      get_sig_all_required_sigs_def first_input_def)+

lemma swap_msg_add_signature:
  "swap_sig_all_msg (r\<lparr>swap_inputs := add_first_signature e (swap_inputs r) s\<rparr>) = swap_sig_all_msg r"
  by (cases "swap_inputs r") (simp_all add: swap_sig_all_msg_def add_first_signature_def)

lemma signers_single: "distinct pks \<Longrightarrow> distinct (signers e msg pks [s])"
proof (induction pks)
  case (Cons pk pks)
  then show ?case by (auto simp: signers_def)
qed (simp add: signers_def)

lemma swap_sign_verifies:
  assumes "schnorr_laws e" "swap_sign_sig_all e r sk = Ok r'"
    and "witness (hd (swap_inputs r)) = None"
    and "get_sig_all_required_sigs e (swap_inputs r) = Ok (1, sc)"
  shows "swap_verify_sig_all e r' = Ok ()"
proof -
  let ?msg = "as_bytes (swap_sig_all_msg r)"
  let ?s = "sk_sign e sk ?msg"
  from assms(4) obtain p ps pk cs where inputs: "swap_inputs r = p # ps"
    and sc: "sc = P2PKConditions pk (Some cs)"
    by (rule get_sig_all_required_sigs_Ok) auto
  obtain pks where pks: "sc_pubkeys sc = Some pks" "distinct pks" using sc by auto
  from assms(2,4) pks have key: "sk_public_key e sk \<in> set pks"
    and match: "verify_matching_conditions e (swap_inputs r) = Ok ()"
    and r': "r' = r\<lparr>swap_inputs := add_first_signature e (swap_inputs r) ?s\<rparr>"
    by (auto simp: swap_sign_sig_all_def sign_inputs_def can_sign_sig_all_def Let_def split: if_splits)
  have sigs: "get_valid_witness_signatures e (add_first_signature e (swap_inputs r) ?s) = Ok [?s]"
    using assms(3) inputs sign_then_verify(2) [OF assms(1)]
    by (simp add: get_valid_witness_signatures_def add_first_signature_def first_input_def
        unwrap_or_def)
  have "sk_public_key e sk \<in> signer_set e ?msg pks [?s]"
    using key sign_then_verify(1) [OF assms(1)] by (simp add: signer_set_def)
  then have "1 \<le> card (signer_set e ?msg pks [?s])"
    by (metis One_nat_def Suc_leI card_gt_0_iff empty_iff finite_signer_set)
  then have "valid_signatures e ?msg pks [?s] = Ok (card (signer_set e ?msg pks [?s]))"
    by (simp add: valid_signatures_eq signers_single pks(2))
  with \<open>1 \<le> card (signer_set e ?msg pks [?s])\<close> show ?thesis
    unfolding r' swap_verify_sig_all_def verify_inputs_def swap_msg_add_signature
    using assms(4) match sigs pks(1) by (simp add: verify_matching_add_signature)
qed

text \<open>
  A swap request that needs one signature and is signed by a key of its lock verifies.
\<close>

theorem swap_sign_then_verify:
  assumes "schnorr_laws e" "swap_sign_sig_all e r sk = Ok r'"
    and "witness (hd (swap_inputs r)) = None"
    and "get_sig_all_required_sigs e (swap_inputs r) = Ok (1, sc)"
  shows "swap_verify_sig_all e r' = Ok ()"
  using assms by (rule swap_sign_verifies)

text \<open>One input locked to a key with the all-inputs flag.\<close>

definition demo_sig_all_conditions :: Conditions where
  "demo_sig_all_conditions = \<lparr>locktime = None, cond_pubkeys = None, cond_refund_keys = None,
     num_sigs = None, sig_flag = SigAll, num_sigs_refund = None\<rparr>"

definition demo_sig_all_externs :: externs where
  "demo_sig_all_externs =
     demo_externs P2PK (encode demo_key) (Some (conditions_to_tags demo_sig_all_conditions))"

definition demo_swap :: "Witness option \<Rightarrow> SwapRequest" where
  "demo_swap w = \<lparr>swap_inputs = [demo_proof w], swap_outputs = [demo_output 1]\<rparr>"

definition demo_signed_swap :: SwapRequest where
  "demo_signed_swap = demo_swap (Some (P2PKWitness [encode (replicate 32 7 @ [1])]))"

lemma demo_sig_all_facts:
  "schnorr_laws demo_sig_all_externs"
  "get_sig_all_required_sigs demo_sig_all_externs (swap_inputs (demo_swap w))
     = Ok (1, P2PKConditions demo_key (Some demo_sig_all_conditions))"
  "verify_matching_conditions demo_sig_all_externs (swap_inputs (demo_swap w)) = Ok ()"
proof -
  have "conditions_try_from demo_sig_all_externs (conditions_to_tags demo_sig_all_conditions)
      = Ok demo_sig_all_conditions"
    by (rule conditions_tags_roundtrip)
       (simp add: conditions_keys_ok_def demo_sig_all_conditions_def unwrap_or_def)
  moreover have "pk_from_hex demo_sig_all_externs (encode demo_key) = Ok demo_key"
    by (simp add: pk_from_hex_def demo_sig_all_externs_def demo_key_def)
  ultimately show "get_sig_all_required_sigs demo_sig_all_externs (swap_inputs (demo_swap w))
     = Ok (1, P2PKConditions demo_key (Some demo_sig_all_conditions))"
    by (auto simp: get_sig_all_required_sigs_def first_input_def demo_swap_def sc_try_from_secret_def
        sc_try_from_nut10_def conditions_ok_def n10_tags_def demo_sig_all_externs_def
        demo_sig_all_conditions_def unwrap_or_def)
qed (simp_all add: schnorr_laws_def demo_sig_all_externs_def demo_externs_def toy_externs_def
      verify_matching_conditions_def first_input_def demo_swap_def nut10_try_from_def visit_seq_def)

lemma demo_signs: "swap_sign_sig_all demo_sig_all_externs (demo_swap None) (replicate 32 7) = Ok demo_signed_swap"
  using demo_sig_all_facts(2,3) [of None]
  by (auto simp: swap_sign_sig_all_def sign_inputs_def can_sign_sig_all_def demo_signed_swap_def
      add_first_signature_def demo_swap_def demo_proof_def unwrap_or_def sk_sign_def
      demo_sig_all_externs_def demo_externs_def toy_externs_def demo_key_def Let_def
      demo_sig_all_conditions_def)

theorem swap_sign_then_verify_witness:
  "swap_verify_sig_all demo_sig_all_externs demo_signed_swap = Ok ()"
  by (rule swap_sign_then_verify [OF demo_sig_all_facts(1) demo_signs _ demo_sig_all_facts(2)])
     (simp add: demo_swap_def demo_proof_def)

lemma demo_signed_verifies: "swap_verify_sig_all demo_sig_all_externs demo_signed_swap = Ok ()"
  by (rule swap_sign_verifies [OF demo_sig_all_facts(1) demo_signs _ demo_sig_all_facts(2)])
     (simp add: demo_swap_def demo_proof_def)

theorem swap_sig_all_sound_witness:
  "\<exists>n pk cs. nut10_try_from demo_sig_all_externs (secret (hd (swap_inputs demo_signed_swap))) = Ok n
     \<and> sc_try_from_nut10 demo_sig_all_externs n = Ok (P2PKConditions pk (Some cs)) \<and> sig_flag cs = SigAll"
  using swap_sig_all_sound [OF demo_signed_verifies] by blast

section \<open>Proofs that ask for signatures of their own only\<close>

text \<open>When no input asks for a signature over the whole request, none is enforced.\<close>

lemma enforce_sig_inputs:
  assumes "\<forall>p \<in> set ps. \<exists>n tags cs. nut10_try_from e (secret p) = Ok n \<and> n10_tags n = Some tags
     \<and> conditions_try_from e tags = Ok cs \<and> sig_flag cs = SigInputs"
  obtains f where "enforce_sig_flag e ps = (Ok f :: ('x, EnforceSigFlag) outcome)" "esf_sig_flag f = SigInputs"
proof -
  have "\<exists>f. try_fold (enforce_step e) acc ps = (Ok f :: ('x, EnforceSigFlag) outcome) \<and> esf_sig_flag f = SigInputs"
    if "esf_sig_flag acc = SigInputs" for acc
    using assms that
  proof (induction ps arbitrary: acc)
    case (Cons p ps)
    then obtain n tags cs where p: "nut10_try_from e (secret p) = Ok n" "n10_tags n = Some tags"
      "conditions_try_from e tags = Ok cs" "sig_flag cs = SigInputs" by auto
    then obtain acc' where "enforce_step e acc p = (Ok acc' :: ('x, EnforceSigFlag) outcome)" "esf_sig_flag acc' = SigInputs"
      using Cons.prems(2) by (simp add: enforce_step_def conditions_ok_def Let_def split: outcome.splits)
    then show ?case using Cons.IH [of acc'] Cons.prems(1) by auto
  qed simp
  from this [of "\<lparr>esf_sig_flag = SigInputs, esf_pubkeys = {}, esf_sigs_required = 1\<rparr>"]
  show thesis using that unfolding enforce_sig_flag_def by auto
qed

end
