(* ===== verification/MintDb.thy ===== *)
theory MintDb
  imports Tokens
begin

text \<open>
  The mint's database: state transitions (\<^verbatim>\<open>crates/cdk-common/src/state.rs\<close>), its records
  (\<^verbatim>\<open>crates/cdk-common/src/mint.rs\<close>) and the SQL operations
  (\<^verbatim>\<open>crates/cdk-sql-common/src/mint/mod.rs\<close>). A transaction is a function from the database to
  the database; the operations below run inside one, and a caller that gets an error keeps the
  old database. Columns that are \<open>NOT NULL\<close>, keys, foreign keys and the \<open>CHECK\<close> on melt states
  are those of the schema under \<^verbatim>\<open>src/mint/migrations\<close>. The locale \<open>proof_store\<close> is what the
  operations of the mint rely on of the table of proofs; it is interpreted on this table.
\<close>

section \<open>State transitions\<close>

datatype MeltQuoteState = MQ_Unpaid | MQ_Paid | MQ_Pending | MQ_Unknown | MQ_Failed

datatype state_error =
    TransitionPending
  | AlreadySpent
  | InvalidTransition State State
  | AlreadyPaid
  | InvalidMeltQuoteTransition MeltQuoteState MeltQuoteState

definition check_state_transition :: "State \<Rightarrow> State \<Rightarrow> (state_error, unit) outcome" where
  "check_state_transition current new =
     (let valid = (case current of
            Unspent \<Rightarrow> new = Pending \<or> new = Spent
          | Pending \<Rightarrow> new = Unspent \<or> new = Spent
          | _ \<Rightarrow> False) in
      if \<not> valid then Err (case current of
            Pending \<Rightarrow> TransitionPending
          | Spent \<Rightarrow> AlreadySpent
          | _ \<Rightarrow> InvalidTransition current new)
      else Ok ())"

definition check_melt_quote_state_transition ::
  "MeltQuoteState \<Rightarrow> MeltQuoteState \<Rightarrow> (state_error, unit) outcome" where
  "check_melt_quote_state_transition current new =
     (let valid = (case current of
            MQ_Unpaid \<Rightarrow> new = MQ_Pending \<or> new = MQ_Failed
          | MQ_Pending \<Rightarrow> new = MQ_Unpaid \<or> new = MQ_Paid \<or> new = MQ_Failed
          | MQ_Failed \<Rightarrow> new = MQ_Pending \<or> new = MQ_Unpaid
          | MQ_Paid \<Rightarrow> False
          | MQ_Unknown \<Rightarrow> True) in
      if \<not> valid then Err (case current of
            MQ_Pending \<Rightarrow> TransitionPending
          | MQ_Paid \<Rightarrow> AlreadyPaid
          | _ \<Rightarrow> InvalidMeltQuoteTransition current new)
      else Ok ())"

section \<open>Records\<close>

type_synonym Uuid = nat

datatype Operation = OpMint Uuid | OpMelt Uuid | OpSwap Uuid

fun op_id :: "Operation \<Rightarrow> Uuid" where
  "op_id (OpMint i) = i"
| "op_id (OpMelt i) = i"
| "op_id (OpSwap i) = i"

datatype OperationKind = KindSwap | KindMint | KindMelt

datatype SwapSagaState = SagaSetupComplete | SagaSigned

record Saga =
  saga_operation_id :: Uuid
  saga_operation_kind :: OperationKind
  saga_state :: SwapSagaState
  saga_blinded_secrets :: "PublicKey list"
  saga_input_ys :: "PublicKey list"
  saga_created_at :: u64
  saga_updated_at :: u64

definition saga_new_swap ::
  "u64 \<Rightarrow> Uuid \<Rightarrow> SwapSagaState \<Rightarrow> PublicKey list \<Rightarrow> PublicKey list \<Rightarrow> Saga" where
  "saga_new_swap now i st bs yl = \<lparr>saga_operation_id = i, saga_operation_kind = KindSwap,
     saga_state = st, saga_blinded_secrets = bs, saga_input_ys = yl,
     saga_created_at = now, saga_updated_at = now\<rparr>"

datatype PaymentIdentifier =
    Label string
  | OfferId string
  | PaymentHash bytes
  | Bolt12PaymentHash bytes
  | PaymentId bytes
  | CustomId string

datatype payment_error =
    InvoiceAlreadyPaid
  | InvoicePaymentPending
  | PayUnsupportedUnit
  | UnsupportedPaymentOption
  | PayUnknownPaymentState
  | PayAmountMismatch
  | PayLightning
  | PayHex hex_error
  | PayInvalidHash

definition payment_identifier_new ::
  "string \<Rightarrow> string \<Rightarrow> (payment_error, PaymentIdentifier) outcome" where
  "payment_identifier_new kd ident =
     (let k = to_lowercase kd;
          hash32 = (\<lambda>f. and_then (map_err PayHex (decode ident)) (\<lambda>b.
                        and_then (to_array 32 b PayInvalidHash) (\<lambda>a. Ok (f a)))) in
      if k = ''label'' then Ok (Label ident)
      else if k = ''offer_id'' then Ok (OfferId ident)
      else if k = ''payment_hash'' then hash32 PaymentHash
      else if k = ''bolt12_payment_hash'' then hash32 Bolt12PaymentHash
      else if k = ''custom'' then Ok (CustomId ident)
      else if k = ''payment_id'' then hash32 PaymentId
      else Err UnsupportedPaymentOption)"

fun payment_identifier_kind :: "PaymentIdentifier \<Rightarrow> string" where
  "payment_identifier_kind (Label _) = ''label''"
| "payment_identifier_kind (OfferId _) = ''offer_id''"
| "payment_identifier_kind (PaymentHash _) = ''payment_hash''"
| "payment_identifier_kind (Bolt12PaymentHash _) = ''bolt12_payment_hash''"
| "payment_identifier_kind (PaymentId _) = ''payment_id''"
| "payment_identifier_kind (CustomId _) = ''custom''"

fun payment_identifier_string :: "PaymentIdentifier \<Rightarrow> string" where
  "payment_identifier_string (Label l) = l"
| "payment_identifier_string (OfferId o') = o'"
| "payment_identifier_string (PaymentHash h) = encode h"
| "payment_identifier_string (Bolt12PaymentHash h) = encode h"
| "payment_identifier_string (PaymentId h) = encode h"
| "payment_identifier_string (CustomId c) = c"

datatype PaymentMethod = Bolt11 | Bolt12 | CustomMethod string

record IncomingPayment =
  pay_amount :: Amount
  pay_time :: u64
  pay_payment_id :: string

record Issuance =
  iss_amount :: Amount
  iss_time :: u64

record MintQuote =
  mq_id :: QuoteId
  mq_amount :: "Amount option"
  mq_unit :: CurrencyUnit
  mq_request :: string
  mq_expiry :: u64
  mq_request_lookup_id :: PaymentIdentifier
  mq_pubkey :: "PublicKey option"
  mq_created_time :: u64
  mq_amount_paid :: Amount
  mq_amount_issued :: Amount
  mq_payments :: "IncomingPayment list"
  mq_payment_method :: PaymentMethod
  mq_issuance :: "Issuance list"

datatype MintQuoteState = MintUnpaid | MintPaid | MintIssued

definition mint_quote_state :: "MintQuote \<Rightarrow> MintQuoteState" where
  "mint_quote_state q =
     (if mq_amount_paid q = 0 \<and> mq_amount_issued q = 0 then MintUnpaid
      else if mq_amount_issued q < mq_amount_paid q then MintPaid
      else MintIssued)"

definition amount_mintable :: "MintQuote \<Rightarrow> ('e, Amount) outcome" where
  "amount_mintable q = amount_sub (mq_amount_paid q) (mq_amount_issued q)"

definition increment_amount_paid :: "MintQuote \<Rightarrow> Amount \<Rightarrow> (amount_error, MintQuote) outcome" where
  "increment_amount_paid q a =
     and_then (ok_or (checked_add (mq_amount_paid q) a) AmountOverflow) (\<lambda>s.
     Ok (q\<lparr>mq_amount_paid := s\<rparr>))"

definition increment_amount_issued :: "MintQuote \<Rightarrow> Amount \<Rightarrow> (amount_error, MintQuote) outcome" where
  "increment_amount_issued q a =
     and_then (ok_or (checked_add (mq_amount_issued q) a) AmountOverflow) (\<lambda>s.
     Ok (q\<lparr>mq_amount_issued := s\<rparr>))"

definition payment_ids :: "MintQuote \<Rightarrow> string list" where
  "payment_ids q = map pay_payment_id (mq_payments q)"

datatype MeltOptions = Mpp Amount | Amountless Amount

fun amount_msat :: "MeltOptions \<Rightarrow> Amount" where
  "amount_msat (Mpp a) = a"
| "amount_msat (Amountless a) = a"

text \<open>The text of an invoice or of an offer.\<close>

datatype MeltPaymentRequest = PayBolt11 string | PayBolt12 string

fun payment_request_string :: "MeltPaymentRequest \<Rightarrow> string" where
  "payment_request_string (PayBolt11 bolt11) = bolt11"
| "payment_request_string (PayBolt12 offer) = offer"

text \<open>A row of the table of melt quotes; the lookup identifier is two text columns.\<close>

record MeltQuoteRow =
  ml_unit :: CurrencyUnit
  ml_amount :: Amount
  ml_request :: MeltPaymentRequest
  ml_fee_reserve :: Amount
  ml_state :: MeltQuoteState
  ml_expiry :: u64
  ml_payment_preimage :: "string option"
  ml_lookup_id :: "string option"
  ml_lookup_kind :: "string option"
  ml_created_time :: u64
  ml_paid_time :: "u64 option"
  ml_payment_method :: PaymentMethod
  ml_options :: "MeltOptions option"

record MeltQuote =
  mlq_id :: QuoteId
  mlq_unit :: CurrencyUnit
  mlq_amount :: Amount
  mlq_request :: MeltPaymentRequest
  mlq_fee_reserve :: Amount
  mlq_state :: MeltQuoteState
  mlq_expiry :: u64
  mlq_payment_preimage :: "string option"
  mlq_request_lookup_id :: "PaymentIdentifier option"
  mlq_created_time :: u64
  mlq_paid_time :: "u64 option"
  mlq_payment_method :: PaymentMethod
  mlq_options :: "MeltOptions option"

definition melt_quote_new ::
  "QuoteId \<Rightarrow> u64 \<Rightarrow> MeltPaymentRequest \<Rightarrow> CurrencyUnit \<Rightarrow> Amount \<Rightarrow> Amount \<Rightarrow> u64 \<Rightarrow> PaymentIdentifier option
     \<Rightarrow> MeltOptions option \<Rightarrow> PaymentMethod \<Rightarrow> MeltQuote" where
  "melt_quote_new q now request u a fee_reserve expiry lookup options meth =
     \<lparr>mlq_id = q, mlq_unit = u, mlq_amount = a, mlq_request = request, mlq_fee_reserve = fee_reserve,
      mlq_state = MQ_Unpaid, mlq_expiry = expiry, mlq_payment_preimage = None, mlq_request_lookup_id = lookup,
      mlq_created_time = now, mlq_paid_time = None, mlq_payment_method = meth, mlq_options = options\<rparr>"

text \<open>\<open>fresh\<close> is the random identifier that is taken when none is given.\<close>

definition mint_quote_new ::
  "QuoteId \<Rightarrow> QuoteId option \<Rightarrow> string \<Rightarrow> CurrencyUnit \<Rightarrow> Amount option \<Rightarrow> u64 \<Rightarrow> PaymentIdentifier
     \<Rightarrow> PublicKey option \<Rightarrow> Amount \<Rightarrow> Amount \<Rightarrow> PaymentMethod \<Rightarrow> u64 \<Rightarrow> IncomingPayment list \<Rightarrow> Issuance list \<Rightarrow> MintQuote" where
  "mint_quote_new fresh q request u a expiry lookup pubkey paid issued meth now payments issuance =
     \<lparr>mq_id = (case q of Some i \<Rightarrow> i | None \<Rightarrow> fresh), mq_amount = a, mq_unit = u, mq_request = request, mq_expiry = expiry,
      mq_request_lookup_id = lookup, mq_pubkey = pubkey, mq_created_time = now, mq_amount_paid = paid,
      mq_amount_issued = issued, mq_payments = payments, mq_payment_method = meth, mq_issuance = issuance\<rparr>"

record MintKeySetInfo =
  mki_id :: Id
  mki_unit :: CurrencyUnit
  mki_active :: bool
  mki_valid_from :: u64
  mki_derivation_path :: "u32 list"
  mki_derivation_path_index :: "u32 option"
  mki_max_order :: u8
  mki_amounts :: "u64 list"
  mki_input_fee_ppk :: u64
  mki_final_expiry :: "u64 option"

section \<open>Tables\<close>

record ProofRow =
  pr_proof :: Proof
  pr_state :: State
  pr_quote_id :: "QuoteId option"
  pr_created_time :: u64
  pr_operation :: Operation

record SigRow =
  sr_amount :: Amount
  sr_keyset_id :: Id
  sr_c :: "PublicKey option"
  sr_dleq :: "BlindSignatureDleq option"
  sr_quote_id :: "QuoteId option"
  sr_created_time :: u64
  sr_signed_time :: "u64 option"
  sr_operation :: "Operation option"

record MeltRequestRow =
  mrr_inputs_amount :: Amount
  mrr_inputs_fee :: Amount

record MintDb =
  proof_tbl :: "(PublicKey \<times> ProofRow) list"
  sig_tbl :: "(PublicKey \<times> SigRow) list"
  saga_tbl :: "(Uuid \<times> Saga) list"
  mint_quote_tbl :: "(QuoteId \<times> MintQuote) list"
  payment_tbl :: "(string \<times> (QuoteId \<times> Amount \<times> u64)) list"
  issued_tbl :: "(QuoteId \<times> Amount \<times> u64) list"
  melt_quote_tbl :: "(QuoteId \<times> MeltQuoteRow) list"
  melt_request_tbl :: "(QuoteId \<times> MeltRequestRow) list"
  keyset_tbl :: "(Id \<times> MintKeySetInfo) list"

datatype db_error =
    DbDatabase
  | DbDuplicate
  | DbAmountOverflow
  | DbNUT00 dhke_error
  | ProofNotFound
  | AttemptUpdateSpentProof
  | AttemptRemoveSpentProof
  | QuoteNotFound
  | InvalidStateTransition state_error
  | DbConversion
  | DbInternal string

definition state_to_db_error :: "state_error \<Rightarrow> db_error" where
  "state_to_db_error e = (case e of AlreadySpent \<Rightarrow> AttemptUpdateSpentProof | _ \<Rightarrow> InvalidStateTransition e)"

text \<open>A \<open>NOT NULL\<close> amount column rejects an amount beyond \<open>i64\<close>, whose conversion is null.\<close>

definition not_null :: "Amount \<Rightarrow> (db_error, unit) outcome" where
  "not_null a = ensure (to_i64 a \<noteq> None) DbDatabase"

text \<open>Reading a number back fails when the stored integer is negative.\<close>

definition read_amount :: "Amount \<Rightarrow> (db_error, Amount) outcome" where
  "read_amount a = ok_or (to_i64 a) DbConversion"

section \<open>Proofs\<close>

definition insert_proof ::
  "externs \<Rightarrow> u64 \<Rightarrow> QuoteId option \<Rightarrow> Operation \<Rightarrow> MintDb \<Rightarrow> Proof \<Rightarrow> (db_error, MintDb) outcome" where
  "insert_proof e now quote oper db p =
     and_then (map_err DbNUT00 (proof_y e p)) (\<lambda>y.
     and_then (not_null (amount p)) (\<lambda>_.
     and_then (insert_row DbDuplicate y
         \<lparr>pr_proof = p\<lparr>dleq := None\<rparr>, pr_state = Unspent, pr_quote_id = quote,
          pr_created_time = now, pr_operation = oper\<rparr> (proof_tbl db)) (\<lambda>t.
     Ok (db\<lparr>proof_tbl := t\<rparr>))))"

definition add_proofs ::
  "externs \<Rightarrow> u64 \<Rightarrow> Proof list \<Rightarrow> QuoteId option \<Rightarrow> Operation \<Rightarrow> MintDb \<Rightarrow> (db_error, MintDb) outcome" where
  "add_proofs e now proofs quote oper db =
     and_then (map_err DbNUT00 (proof_ys e proofs)) (\<lambda>yl.
     and_then (case select_in yl (proof_tbl db) of
         (_, row) # _ \<Rightarrow> if pr_state row = Spent then Err AttemptUpdateSpentProof else Err DbDuplicate
       | [] \<Rightarrow> Ok ()) (\<lambda>_.
     try_fold (insert_proof e now quote oper) db proofs))"

definition get_current_states :: "PublicKey list \<Rightarrow> MintDb \<Rightarrow> (PublicKey \<times> State) list" where
  "get_current_states yl db = map (\<lambda>(y, r). (y, pr_state r)) (select_in yl (proof_tbl db))"

definition update_proofs_states ::
  "PublicKey list \<Rightarrow> State \<Rightarrow> MintDb \<Rightarrow> (db_error, State option list \<times> MintDb) outcome" where
  "update_proofs_states yl new_state db =
     (let current = get_current_states yl db in
      and_then (ensure (length current = length yl) ProofNotFound) (\<lambda>_.
      and_then (map_err state_to_db_error
          (try_fold (\<lambda>_ (_, s). check_state_transition s new_state) () current)) (\<lambda>_.
      Ok (take_each current yl,
          db\<lparr>proof_tbl := update_where (\<lambda>y _. y \<in> set yl) (\<lambda>r. r\<lparr>pr_state := new_state\<rparr>)
                            (proof_tbl db)\<rparr>))))"

definition remove_proofs :: "PublicKey list \<Rightarrow> MintDb \<Rightarrow> (db_error, MintDb) outcome" where
  "remove_proofs yl db =
     (if yl = [] then Ok db
      else let matches = (\<lambda>y r. y \<in> set yl \<and> pr_state r \<noteq> Spent);
               total_deleted = length (filter (\<lambda>(y, r). matches y r) (proof_tbl db)) in
           and_then (ensure (total_deleted = length yl) AttemptRemoveSpentProof) (\<lambda>_.
           Ok (db\<lparr>proof_tbl := delete_where matches (proof_tbl db)\<rparr>)))"

definition get_proof_ys_by_quote_id ::
  "externs \<Rightarrow> QuoteId \<Rightarrow> MintDb \<Rightarrow> (db_error, PublicKey list) outcome" where
  "get_proof_ys_by_quote_id e q db =
     map_err DbNUT00 (proof_ys e (map (pr_proof \<circ> snd)
       (filter (\<lambda>(_, r). pr_quote_id r = Some q) (proof_tbl db))))"

definition get_proofs_by_ys :: "PublicKey list \<Rightarrow> MintDb \<Rightarrow> Proof option list" where
  "get_proofs_by_ys yl db = take_each (map (\<lambda>(y, r). (y, pr_proof r)) (select_in yl (proof_tbl db))) yl"

definition get_proofs_states :: "PublicKey list \<Rightarrow> MintDb \<Rightarrow> State option list" where
  "get_proofs_states yl db = take_each (get_current_states yl db) yl"

section \<open>Blinded messages and signatures\<close>

definition insert_blinded_message ::
  "u64 \<Rightarrow> QuoteId option \<Rightarrow> Operation \<Rightarrow> MintDb \<Rightarrow> BlindedMessage \<Rightarrow> (db_error, MintDb) outcome" where
  "insert_blinded_message now quote oper db m =
     and_then (not_null (bm_amount m)) (\<lambda>_.
     and_then (insert_row DbDuplicate (blinded_secret m)
         \<lparr>sr_amount = bm_amount m, sr_keyset_id = bm_keyset_id m, sr_c = None, sr_dleq = None,
          sr_quote_id = quote, sr_created_time = now, sr_signed_time = None, sr_operation = Some oper\<rparr>
         (sig_tbl db)) (\<lambda>t.
     Ok (db\<lparr>sig_tbl := t\<rparr>)))"

definition add_blinded_messages ::
  "u64 \<Rightarrow> QuoteId option \<Rightarrow> BlindedMessage list \<Rightarrow> Operation \<Rightarrow> MintDb \<Rightarrow> (db_error, MintDb) outcome" where
  "add_blinded_messages now quote msgs oper db =
     try_fold (insert_blinded_message now quote oper) db msgs"

definition delete_blinded_messages :: "PublicKey list \<Rightarrow> MintDb \<Rightarrow> (db_error, MintDb) outcome" where
  "delete_blinded_messages bs db =
     (if bs = [] then Ok db
      else Ok (db\<lparr>sig_tbl := delete_where (\<lambda>b r. b \<in> set bs \<and> sr_c r = None) (sig_tbl db)\<rparr>))"

text \<open>
  The loop of \<open>add_blind_signatures\<close> consumes the rows selected before it, so a message listed
  twice is inserted the second time and violates the key.
\<close>

definition add_blind_signature ::
  "u64 \<Rightarrow> QuoteId option \<Rightarrow> (PublicKey \<times> SigRow) list \<times> (PublicKey \<times> SigRow) list
     \<Rightarrow> PublicKey \<times> BlindSignature
     \<Rightarrow> (db_error, (PublicKey \<times> SigRow) list \<times> (PublicKey \<times> SigRow) list) outcome" where
  "add_blind_signature now quote = (\<lambda>(existing, t) (message, s).
     case map_of existing message of
       None \<Rightarrow>
         and_then (insert_row DbDuplicate message
             \<lparr>sr_amount = bs_amount s, sr_keyset_id = bs_keyset_id s, sr_c = Some (bs_c s),
              sr_dleq = bs_dleq s, sr_quote_id = quote, sr_created_time = now,
              sr_signed_time = Some now, sr_operation = None\<rparr> t) (\<lambda>t'.
         Ok (existing, t'))
     | Some row \<Rightarrow>
         (case sr_c row of
            None \<Rightarrow>
              Ok (delete_where (\<lambda>b _. b = message) existing,
                  update_where (\<lambda>b _. b = message)
                    (\<lambda>r. r\<lparr>sr_c := Some (bs_c s), sr_dleq := bs_dleq s, sr_signed_time := Some now,
                          sr_amount := bs_amount s\<rparr>) t)
          | Some _ \<Rightarrow> Err DbDuplicate))"

definition add_blind_signatures ::
  "u64 \<Rightarrow> PublicKey list \<Rightarrow> BlindSignature list \<Rightarrow> QuoteId option \<Rightarrow> MintDb \<Rightarrow> (db_error, MintDb) outcome" where
  "add_blind_signatures now msgs sigs quote db =
     and_then (ensure (length msgs = length sigs)
         (DbInternal ''Mismatched array lengths for blinded messages and blind signatures'')) (\<lambda>_.
     and_then (try_fold (add_blind_signature now quote)
         (select_in msgs (sig_tbl db), sig_tbl db) (zip msgs sigs)) (\<lambda>(existing, t).
     if existing \<noteq> [] then Err (DbInternal ''Did not check all existing rows'')
     else Ok (db\<lparr>sig_tbl := t\<rparr>)))"

definition row_to_blind_signature :: "SigRow \<Rightarrow> PublicKey \<Rightarrow> (db_error, BlindSignature) outcome" where
  "row_to_blind_signature r sig_c =
     and_then (read_amount (sr_amount r)) (\<lambda>a.
     Ok \<lparr>bs_amount = a, bs_keyset_id = sr_keyset_id r, bs_c = sig_c, bs_dleq = sr_dleq r\<rparr>)"

definition get_blind_signatures ::
  "PublicKey list \<Rightarrow> MintDb \<Rightarrow> (db_error, BlindSignature option list) outcome" where
  "get_blind_signatures bs db =
     and_then (try_map (\<lambda>(b, r). case sr_c r of
           Some sig_c \<Rightarrow> and_then (row_to_blind_signature r sig_c) (\<lambda>s. Ok (b, s))
         | None \<Rightarrow> Err DbConversion)
        (filter (\<lambda>(b, r). sr_c r \<noteq> None) (select_in bs (sig_tbl db)))) (\<lambda>rows.
     Ok (take_each rows bs))"

definition get_blind_signatures_where ::
  "(SigRow \<Rightarrow> bool) \<Rightarrow> MintDb \<Rightarrow> (db_error, BlindSignature list) outcome" where
  "get_blind_signatures_where P db =
     try_map (\<lambda>(_, r). case sr_c r of Some sig_c \<Rightarrow> row_to_blind_signature r sig_c | None \<Rightarrow> Err DbConversion)
       (filter (\<lambda>(_, r). P r \<and> sr_c r \<noteq> None) (sig_tbl db))"

definition get_blind_signatures_for_quote :: "QuoteId \<Rightarrow> MintDb \<Rightarrow> (db_error, BlindSignature list) outcome" where
  "get_blind_signatures_for_quote q = get_blind_signatures_where (\<lambda>r. sr_quote_id r = Some q)"

definition get_blind_signatures_for_keyset :: "Id \<Rightarrow> MintDb \<Rightarrow> (db_error, BlindSignature list) outcome" where
  "get_blind_signatures_for_keyset i = get_blind_signatures_where (\<lambda>r. sr_keyset_id r = i)"

definition get_proofs_by_keyset_id :: "Id \<Rightarrow> MintDb \<Rightarrow> Proof list \<times> State option list" where
  "get_proofs_by_keyset_id i db =
     (let rows = filter (\<lambda>(_, r). keyset_id (pr_proof r) = i) (proof_tbl db) in
      (map (pr_proof \<circ> snd) rows, map (Some \<circ> pr_state \<circ> snd) rows))"

section \<open>Sagas\<close>

definition get_saga :: "Uuid \<Rightarrow> MintDb \<Rightarrow> Saga option" where
  "get_saga i db = map_of (saga_tbl db) i"

definition add_saga :: "u64 \<Rightarrow> Saga \<Rightarrow> MintDb \<Rightarrow> (db_error, MintDb) outcome" where
  "add_saga now saga db =
     and_then (insert_row DbDuplicate (saga_operation_id saga) (saga\<lparr>saga_updated_at := now\<rparr>)
         (saga_tbl db)) (\<lambda>t.
     Ok (db\<lparr>saga_tbl := t\<rparr>))"

definition update_saga :: "u64 \<Rightarrow> Uuid \<Rightarrow> SwapSagaState \<Rightarrow> MintDb \<Rightarrow> (db_error, MintDb) outcome" where
  "update_saga now i st db =
     Ok (db\<lparr>saga_tbl := update_where (\<lambda>j _. j = i)
               (\<lambda>s. s\<lparr>saga_state := st, saga_updated_at := now\<rparr>) (saga_tbl db)\<rparr>)"

definition delete_saga :: "Uuid \<Rightarrow> MintDb \<Rightarrow> (db_error, MintDb) outcome" where
  "delete_saga i db = Ok (db\<lparr>saga_tbl := delete_where (\<lambda>j _. j = i) (saga_tbl db)\<rparr>)"

definition get_incomplete_sagas :: "OperationKind \<Rightarrow> MintDb \<Rightarrow> Saga list" where
  "get_incomplete_sagas kd db =
     sort_key saga_created_at (map snd (filter (\<lambda>(_, s). saga_operation_kind s = kd) (saga_tbl db)))"

section \<open>Mint quotes\<close>

definition quote_payments :: "QuoteId \<Rightarrow> MintDb \<Rightarrow> IncomingPayment list" where
  "quote_payments q db =
     map (\<lambda>(pid, (_, a, t)). \<lparr>pay_amount = a, pay_time = t, pay_payment_id = pid\<rparr>)
       (filter (\<lambda>(_, (q', _)). q' = q) (payment_tbl db))"

definition quote_issuance :: "QuoteId \<Rightarrow> MintDb \<Rightarrow> Issuance list" where
  "quote_issuance q db =
     map (\<lambda>(_, a, t). \<lparr>iss_amount = a, iss_time = t\<rparr>) (filter (\<lambda>(q', _). q' = q) (issued_tbl db))"

definition with_history :: "MintDb \<Rightarrow> MintQuote \<Rightarrow> MintQuote" where
  "with_history db q =
     q\<lparr>mq_payments := quote_payments (mq_id q) db, mq_issuance := quote_issuance (mq_id q) db\<rparr>"

text \<open>A new quote starts with nothing paid and nothing issued: the insert leaves both columns out.\<close>

definition add_mint_quote :: "MintQuote \<Rightarrow> MintDb \<Rightarrow> (db_error, MintDb) outcome" where
  "add_mint_quote q db =
     (if \<exists>(_, q') \<in> set (mint_quote_tbl db).
           payment_identifier_string (mq_request_lookup_id q')
             = payment_identifier_string (mq_request_lookup_id q)
      then Err DbDuplicate
      else and_then (insert_row DbDuplicate (mq_id q)
             (q\<lparr>mq_amount := Option.bind (mq_amount q) to_i64, mq_amount_paid := 0, mq_amount_issued := 0\<rparr>)
             (mint_quote_tbl db)) (\<lambda>t.
           Ok (db\<lparr>mint_quote_tbl := t\<rparr>)))"

definition get_mint_quote :: "QuoteId \<Rightarrow> MintDb \<Rightarrow> MintQuote option" where
  "get_mint_quote q db = map_option (with_history db) (map_of (mint_quote_tbl db) q)"

definition get_mint_quotes :: "MintDb \<Rightarrow> MintQuote list" where
  "get_mint_quotes db = map (with_history db \<circ> snd) (mint_quote_tbl db)"

definition get_mint_quote_by_request :: "string \<Rightarrow> MintDb \<Rightarrow> MintQuote option" where
  "get_mint_quote_by_request r db =
     (case filter (\<lambda>(_, q). mq_request q = r) (mint_quote_tbl db) of
        [] \<Rightarrow> None | (_, q) # _ \<Rightarrow> Some (with_history db q))"

definition get_mint_quote_by_request_lookup_id :: "PaymentIdentifier \<Rightarrow> MintDb \<Rightarrow> MintQuote option" where
  "get_mint_quote_by_request_lookup_id pid db =
     (case filter (\<lambda>(_, q).
              payment_identifier_string (mq_request_lookup_id q) = payment_identifier_string pid
            \<and> payment_identifier_kind (mq_request_lookup_id q) = payment_identifier_kind pid)
            (mint_quote_tbl db) of
        [] \<Rightarrow> None | (_, q) # _ \<Rightarrow> Some (with_history db q))"

definition increment_mint_quote_amount_paid ::
  "u64 \<Rightarrow> QuoteId \<Rightarrow> Amount \<Rightarrow> string \<Rightarrow> MintDb \<Rightarrow> (db_error, Amount \<times> MintDb) outcome" where
  "increment_mint_quote_amount_paid now q amount_paid payment_id db =
     and_then (ensure (amount_paid \<noteq> 0) DbDuplicate) (\<lambda>_.
     and_then (ensure (map_of (payment_tbl db) payment_id = None) DbDuplicate) (\<lambda>_.
     let current = (case map_of (mint_quote_tbl db) q of Some r \<Rightarrow> mq_amount_paid r | None \<Rightarrow> 0) in
     and_then (ok_or (checked_add current amount_paid) DbAmountOverflow) (\<lambda>new_paid.
     and_then (ensure (map_of (mint_quote_tbl db) q = None \<or> to_i64 new_paid \<noteq> None) DbDatabase) (\<lambda>_.
     and_then (not_null amount_paid) (\<lambda>_.
     and_then (ensure (map_of (mint_quote_tbl db) q \<noteq> None) DbDatabase) (\<lambda>_.
     and_then (insert_row DbDuplicate payment_id (q, amount_paid, now) (payment_tbl db)) (\<lambda>pt.
     Ok (new_paid, db\<lparr>mint_quote_tbl := update_where (\<lambda>j _. j = q) (\<lambda>r. r\<lparr>mq_amount_paid := new_paid\<rparr>)
                                          (mint_quote_tbl db),
                      payment_tbl := pt\<rparr>))))))))"

definition increment_mint_quote_amount_issued ::
  "u64 \<Rightarrow> QuoteId \<Rightarrow> Amount \<Rightarrow> MintDb \<Rightarrow> (db_error, Amount \<times> MintDb) outcome" where
  "increment_mint_quote_amount_issued now q amount_issued db =
     and_then (ok_or (map_of (mint_quote_tbl db) q) QuoteNotFound) (\<lambda>r.
     and_then (ok_or (checked_add (mq_amount_issued r) amount_issued) DbAmountOverflow) (\<lambda>new_issued.
     and_then (ok_or (checked_sub (mq_amount_paid r) new_issued) (DbInternal ''Over-issued not allowed'')) (\<lambda>_.
     and_then (not_null new_issued) (\<lambda>_.
     and_then (not_null amount_issued) (\<lambda>_.
     Ok (new_issued, db\<lparr>mint_quote_tbl := update_where (\<lambda>j _. j = q)
                                            (\<lambda>r. r\<lparr>mq_amount_issued := new_issued\<rparr>) (mint_quote_tbl db),
                        issued_tbl := issued_tbl db @ [(q, amount_issued, now)]\<rparr>))))))"

section \<open>Melt quotes and melt requests\<close>

text \<open>The states the schema's \<open>CHECK\<close> allows.\<close>

definition melt_state_allowed :: "MeltQuoteState \<Rightarrow> (db_error, unit) outcome" where
  "melt_state_allowed s = ensure (s = MQ_Unpaid \<or> s = MQ_Pending \<or> s = MQ_Paid) DbDatabase"

definition add_melt_quote :: "MeltQuote \<Rightarrow> MintDb \<Rightarrow> (db_error, MintDb) outcome" where
  "add_melt_quote q db =
     and_then (not_null (mlq_amount q)) (\<lambda>_.
     and_then (not_null (mlq_fee_reserve q)) (\<lambda>_.
     and_then (melt_state_allowed (mlq_state q)) (\<lambda>_.
     let lookup = map_option payment_identifier_string (mlq_request_lookup_id q) in
     and_then (ensure (\<not> (\<exists>(_, r) \<in> set (melt_quote_tbl db). ml_lookup_id r \<noteq> None \<and> ml_lookup_id r = lookup))
        DbDuplicate) (\<lambda>_.
     and_then (insert_row DbDuplicate (mlq_id q)
         \<lparr>ml_unit = mlq_unit q, ml_amount = mlq_amount q, ml_request = mlq_request q,
          ml_fee_reserve = mlq_fee_reserve q, ml_state = mlq_state q, ml_expiry = mlq_expiry q,
          ml_payment_preimage = mlq_payment_preimage q, ml_lookup_id = lookup,
          ml_lookup_kind = map_option payment_identifier_kind (mlq_request_lookup_id q),
          ml_created_time = mlq_created_time q, ml_paid_time = mlq_paid_time q,
          ml_payment_method = mlq_payment_method q, ml_options = mlq_options q\<rparr> (melt_quote_tbl db)) (\<lambda>t.
     Ok (db\<lparr>melt_quote_tbl := t\<rparr>))))))"

text \<open>
  \<open>sql_row_to_melt_quote\<close> reads fourteen columns by position; \<open>kind_column\<close> is the one in the
  position of the identifier's kind. \<open>invoice_hash\<close> stands for parsing the column of the request as an
  invoice and taking its payment hash.
\<close>

definition row_to_melt_quote ::
  "(MeltPaymentRequest \<Rightarrow> string option) \<Rightarrow> QuoteId \<Rightarrow> MeltQuoteRow \<Rightarrow> string option \<Rightarrow> (db_error, MeltQuote) outcome" where
  "row_to_melt_quote invoice_hash q r kind_column =
     (let lookup = (case ml_lookup_id r of Some i \<Rightarrow> Some i | None \<Rightarrow> invoice_hash (ml_request r)) in
      and_then (case (kind_column, lookup) of
          (Some kd, Some i) \<Rightarrow> and_then (map_err (\<lambda>_. DbConversion) (payment_identifier_new kd i)) (\<lambda>p. Ok (Some p))
        | _ \<Rightarrow> Ok None) (\<lambda>pid.
      Ok \<lparr>mlq_id = q, mlq_unit = ml_unit r, mlq_amount = ml_amount r, mlq_request = ml_request r,
          mlq_fee_reserve = ml_fee_reserve r, mlq_state = ml_state r, mlq_expiry = ml_expiry r,
          mlq_payment_preimage = ml_payment_preimage r, mlq_request_lookup_id = pid,
          mlq_created_time = ml_created_time r, mlq_paid_time = ml_paid_time r,
          mlq_payment_method = ml_payment_method r, mlq_options = ml_options r\<rparr>))"

definition read_melt_quote ::
  "(MeltPaymentRequest \<Rightarrow> string option) \<Rightarrow> QuoteId \<Rightarrow> (MeltQuoteRow \<Rightarrow> string option) \<Rightarrow> MintDb
     \<Rightarrow> (db_error, MeltQuote option) outcome" where
  "read_melt_quote invoice_hash q kind_column db =
     (case map_of (melt_quote_tbl db) q of
        None \<Rightarrow> Ok None
      | Some r \<Rightarrow> and_then (row_to_melt_quote invoice_hash q r (kind_column r)) (\<lambda>m. Ok (Some m)))"

text \<open>
  The query of the database reads the kind; the query inside a transaction selects the identifier
  in its place.
\<close>

definition get_melt_quote ::
  "(MeltPaymentRequest \<Rightarrow> string option) \<Rightarrow> QuoteId \<Rightarrow> MintDb \<Rightarrow> (db_error, MeltQuote option) outcome" where
  "get_melt_quote invoice_hash q db = read_melt_quote invoice_hash q ml_lookup_kind db"

definition get_melt_quotes ::
  "(MeltPaymentRequest \<Rightarrow> string option) \<Rightarrow> MintDb \<Rightarrow> (db_error, MeltQuote list) outcome" where
  "get_melt_quotes invoice_hash db =
     try_map (\<lambda>(q, r). row_to_melt_quote invoice_hash q r (ml_lookup_kind r)) (melt_quote_tbl db)"

definition tx_get_melt_quote ::
  "(MeltPaymentRequest \<Rightarrow> string option) \<Rightarrow> QuoteId \<Rightarrow> MintDb \<Rightarrow> (db_error, MeltQuote option) outcome" where
  "tx_get_melt_quote invoice_hash q db = read_melt_quote invoice_hash q ml_lookup_id db"

definition update_melt_quote_request_lookup_id ::
  "QuoteId \<Rightarrow> PaymentIdentifier \<Rightarrow> MintDb \<Rightarrow> (db_error, MintDb) outcome" where
  "update_melt_quote_request_lookup_id q pid db =
     Ok (db\<lparr>melt_quote_tbl := update_where (\<lambda>j _. j = q)
        (\<lambda>r. r\<lparr>ml_lookup_id := Some (payment_identifier_string pid),
              ml_lookup_kind := Some (payment_identifier_kind pid)\<rparr>) (melt_quote_tbl db)\<rparr>)"

definition delete_melt_request :: "QuoteId \<Rightarrow> MintDb \<Rightarrow> (db_error, MintDb) outcome" where
  "delete_melt_request q db =
     Ok (db\<lparr>melt_request_tbl := delete_where (\<lambda>j _. j = q) (melt_request_tbl db),
            sig_tbl := delete_where (\<lambda>_ r. sr_quote_id r = Some q \<and> sr_c r = None) (sig_tbl db)\<rparr>)"

definition update_melt_quote_state ::
  "(MeltPaymentRequest \<Rightarrow> string option) \<Rightarrow> u64 \<Rightarrow> QuoteId \<Rightarrow> MeltQuoteState \<Rightarrow> string option \<Rightarrow> MintDb
     \<Rightarrow> (db_error, (MeltQuoteState \<times> MeltQuote) \<times> MintDb) outcome" where
  "update_melt_quote_state invoice_hash now q st payment_proof db =
     and_then (ok_or (case map_of (melt_quote_tbl db) q of
         Some r \<Rightarrow> if ml_state r \<noteq> st then Some r else None | None \<Rightarrow> None) QuoteNotFound) (\<lambda>r.
     and_then (row_to_melt_quote invoice_hash q r (ml_lookup_kind r)) (\<lambda>quote.
     and_then (map_err state_to_db_error (check_melt_quote_state_transition (ml_state r) st)) (\<lambda>_.
     and_then (melt_state_allowed st) (\<lambda>_.
     let db1 = db\<lparr>melt_quote_tbl := update_where (\<lambda>j _. j = q)
                   (\<lambda>r. if st = MQ_Paid
                        then r\<lparr>ml_state := st, ml_paid_time := Some now, ml_payment_preimage := payment_proof\<rparr>
                        else r\<lparr>ml_state := st\<rparr>) (melt_quote_tbl db)\<rparr> in
     and_then (if st = MQ_Unpaid \<or> st = MQ_Failed then delete_melt_request q db1 else Ok db1) (\<lambda>db2.
     Ok ((ml_state r, quote\<lparr>mlq_state := st\<rparr>), db2))))))"

definition add_melt_request ::
  "QuoteId \<Rightarrow> Amount \<Rightarrow> Amount \<Rightarrow> MintDb \<Rightarrow> (db_error, MintDb) outcome" where
  "add_melt_request q inputs_amount inputs_fee db =
     and_then (not_null inputs_amount) (\<lambda>_.
     and_then (not_null inputs_fee) (\<lambda>_.
     and_then (insert_row DbDuplicate q
        \<lparr>mrr_inputs_amount = inputs_amount, mrr_inputs_fee = inputs_fee\<rparr> (melt_request_tbl db)) (\<lambda>t.
     and_then (ensure (map_of (melt_quote_tbl db) q \<noteq> None) DbDatabase) (\<lambda>_.
     Ok (db\<lparr>melt_request_tbl := t\<rparr>)))))"

record MeltRequestInfo =
  mri_inputs_amount :: Amount
  mri_inputs_fee :: Amount
  mri_change_outputs :: "BlindedMessage list"

definition get_melt_request_and_blinded_messages ::
  "QuoteId \<Rightarrow> MintDb \<Rightarrow> (db_error, MeltRequestInfo option) outcome" where
  "get_melt_request_and_blinded_messages q db =
     (case map_of (melt_request_tbl db) q of
        None \<Rightarrow> Ok None
      | Some r \<Rightarrow>
          and_then (try_map (\<lambda>(b, s). and_then (read_amount (sr_amount s)) (\<lambda>a.
                Ok \<lparr>bm_amount = a, bm_keyset_id = sr_keyset_id s, blinded_secret = b, bm_witness = None\<rparr>))
              (filter (\<lambda>(_, s). sr_quote_id s = Some q \<and> sr_c s = None) (sig_tbl db))) (\<lambda>outs.
          Ok (Some \<lparr>mri_inputs_amount = mrr_inputs_amount r, mri_inputs_fee = mrr_inputs_fee r,
                    mri_change_outputs = outs\<rparr>)))"

section \<open>Keysets\<close>

definition add_keyset_info :: "MintKeySetInfo \<Rightarrow> MintDb \<Rightarrow> (db_error, MintDb) outcome" where
  "add_keyset_info k db =
     (if mki_id k \<in> keys_of (keyset_tbl db)
      then Ok (db\<lparr>keyset_tbl := update_where (\<lambda>i _. i = mki_id k) (\<lambda>_. k) (keyset_tbl db)\<rparr>)
      else Ok (db\<lparr>keyset_tbl := keyset_tbl db @ [(mki_id k, k)]\<rparr>))"

definition set_active_keyset :: "CurrencyUnit \<Rightarrow> Id \<Rightarrow> MintDb \<Rightarrow> (db_error, MintDb) outcome" where
  "set_active_keyset u i db =
     Ok (db\<lparr>keyset_tbl :=
        update_where (\<lambda>j k. unit_to_string (mki_unit k) = unit_to_string u \<and> j = i) (\<lambda>k. k\<lparr>mki_active := True\<rparr>)
          (update_where (\<lambda>_ k. unit_to_string (mki_unit k) = unit_to_string u) (\<lambda>k. k\<lparr>mki_active := False\<rparr>)
             (keyset_tbl db))\<rparr>)"

definition get_active_keyset_id :: "CurrencyUnit \<Rightarrow> MintDb \<Rightarrow> Id option" where
  "get_active_keyset_id u db =
     (case filter (\<lambda>(_, k). mki_active k \<and> unit_to_string (mki_unit k) = unit_to_string u) (keyset_tbl db) of
        [] \<Rightarrow> None | (i, _) # _ \<Rightarrow> Some i)"

definition get_keyset_info :: "Id \<Rightarrow> MintDb \<Rightarrow> MintKeySetInfo option" where
  "get_keyset_info i db = map_of (keyset_tbl db) i"

definition get_keyset_infos :: "MintDb \<Rightarrow> MintKeySetInfo list" where
  "get_keyset_infos db = map snd (keyset_tbl db)"

section \<open>The table of proofs\<close>

definition proof_state :: "MintDb \<Rightarrow> PublicKey \<Rightarrow> State option" where
  "proof_state db y = map_option pr_state (map_of (proof_tbl db) y)"

text \<open>
  What the mint relies on of a store of proofs: added proofs were not there and are unspent, a
  state change applies to all the named proofs and only along allowed transitions, and removal
  takes exactly the named proofs and no spent one.
\<close>

locale proof_store =
  fixes ok_db :: "'db \<Rightarrow> bool"
    and state_of :: "'db \<Rightarrow> PublicKey \<Rightarrow> State option"
    and ys_of :: "'p list \<Rightarrow> PublicKey list \<Rightarrow> bool"
    and add :: "'p list \<Rightarrow> 'db \<Rightarrow> (db_error, 'db) outcome"
    and update :: "PublicKey list \<Rightarrow> State \<Rightarrow> 'db \<Rightarrow> (db_error, State option list \<times> 'db) outcome"
    and remove :: "PublicKey list \<Rightarrow> 'db \<Rightarrow> (db_error, 'db) outcome"
  assumes add_Ok: "ok_db db \<Longrightarrow> add ps db = Ok db' \<Longrightarrow> ok_db db' \<and> (\<exists>yl. ys_of ps yl \<and> distinct yl
        \<and> (\<forall>y \<in> set yl. state_of db y = None)
        \<and> (\<forall>y. state_of db' y = (if y \<in> set yl then Some Unspent else state_of db y)))"
    and update_Ok: "ok_db db \<Longrightarrow> update yl s db = Ok (olds, db') \<Longrightarrow> ok_db db'
        \<and> distinct yl \<and> olds = map (state_of db) yl
        \<and> (\<forall>y \<in> set yl. \<exists>old. state_of db y = Some old \<and> check_state_transition old s = Ok ())
        \<and> (\<forall>y. state_of db' y = (if y \<in> set yl then Some s else state_of db y))"
    and remove_Ok: "ok_db db \<Longrightarrow> remove yl db = Ok db' \<Longrightarrow> ok_db db' \<and> distinct yl
        \<and> (\<forall>y \<in> set yl. state_of db y \<noteq> None \<and> state_of db y \<noteq> Some Spent)
        \<and> (\<forall>y. state_of db' y = (if y \<in> set yl then None else state_of db y))"
begin

text \<open>A spent proof stays spent, whatever is done to the store.\<close>

lemma spent_stays:
  assumes "ok_db db" "state_of db y = Some Spent"
  shows "add ps db = Ok db' \<Longrightarrow> state_of db' y = Some Spent"
    and "update yl s db = Ok (olds, db') \<Longrightarrow> state_of db' y = Some Spent"
    and "remove yl db = Ok db' \<Longrightarrow> state_of db' y = Some Spent"
proof -
  show "state_of db' y = Some Spent" if "add ps db = Ok db'"
    using add_Ok [OF assms(1) that] assms(2) by auto
  show "state_of db' y = Some Spent" if "update yl s db = Ok (olds, db')"
  proof -
    note u = update_Ok [OF assms(1) that]
    have "y \<notin> set yl" using u assms(2) by (auto simp: check_state_transition_def)
    with u assms(2) show ?thesis by simp
  qed
  show "state_of db' y = Some Spent" if "remove yl db = Ok db'"
    using remove_Ok [OF assms(1) that] assms(2) by auto
qed

text \<open>
  Reserving: adding proofs and marking them pending succeeds only on proofs that were unknown, so
  two reservations never share a proof.
\<close>

lemma reserve:
  assumes "ok_db db" "add ps db = Ok db1" "ys_of ps yl" "update yl Pending db1 = Ok (olds, db2)"
    and "\<And>yl'. ys_of ps yl' \<Longrightarrow> yl' = yl"
  shows "ok_db db2" "distinct yl" "\<forall>y \<in> set yl. state_of db y = None"
    "\<forall>y. state_of db2 y = (if y \<in> set yl then Some Pending else state_of db y)"
proof -
  from add_Ok [OF assms(1,2)] assms(5) have a: "ok_db db1" "\<forall>y \<in> set yl. state_of db y = None"
    "\<forall>y. state_of db1 y = (if y \<in> set yl then Some Unspent else state_of db y)" by auto
  from update_Ok [OF a(1) assms(4)] a show "ok_db db2" "distinct yl"
    "\<forall>y \<in> set yl. state_of db y = None"
    "\<forall>y. state_of db2 y = (if y \<in> set yl then Some Pending else state_of db y)" by auto
qed

text \<open>Undoing a reservation restores every state.\<close>

lemma reserve_undo:
  assumes "ok_db db2" "remove yl db2 = Ok db3"
    and "\<forall>y \<in> set yl. state_of db y = None"
    and "\<forall>y. state_of db2 y = (if y \<in> set yl then Some Pending else state_of db y)"
  shows "state_of db3 y = state_of db y"
  using remove_Ok [OF assms(1,2)] assms(3,4) by auto

end

section \<open>The proof operations meet the interface\<close>

definition proof_row :: "u64 \<Rightarrow> QuoteId option \<Rightarrow> Operation \<Rightarrow> Proof \<Rightarrow> ProofRow" where
  "proof_row now quote oper p = \<lparr>pr_proof = p\<lparr>dleq := None\<rparr>, pr_state = Unspent, pr_quote_id = quote,
     pr_created_time = now, pr_operation = oper\<rparr>"

lemma insert_proof_Ok_iff:
  "insert_proof e now quote oper db p = Ok db' \<longleftrightarrow>
     (\<exists>y. proof_y e p = Ok y \<and> to_i64 (amount p) \<noteq> None \<and> y \<notin> keys_of (proof_tbl db)
        \<and> db' = db\<lparr>proof_tbl := proof_tbl db @ [(y, proof_row now quote oper p)]\<rparr>)"
  by (auto simp: insert_proof_def not_null_def insert_row_def proof_row_def)

lemma insert_proofs_Ok:
  assumes "try_fold (insert_proof e now quote oper) db ps = Ok db'" "proof_ys e ps = Ok yl"
  shows "distinct yl \<and> set yl \<inter> keys_of (proof_tbl db) = {}
    \<and> (\<forall>p \<in> set ps. to_i64 (amount p) \<noteq> None)
    \<and> db' = db\<lparr>proof_tbl := proof_tbl db @ zip yl (map (proof_row now quote oper) ps)\<rparr>"
  using assms
proof (induction ps arbitrary: db yl)
  case Nil
  then show ?case by (simp add: proof_ys_def)
next
  case (Cons p ps)
  then obtain y zl where y: "proof_y e p = Ok y" "proof_ys e ps = Ok zl" "yl = y # zl"
    by (auto simp: proof_ys_def)
  let ?db1 = "db\<lparr>proof_tbl := proof_tbl db @ [(y, proof_row now quote oper p)]\<rparr>"
  from Cons.prems y have ins: "y \<notin> keys_of (proof_tbl db)" "to_i64 (amount p) \<noteq> None"
    "try_fold (insert_proof e now quote oper) ?db1 ps = Ok db'"
    by (auto simp: insert_proof_Ok_iff)
  from Cons.IH [OF ins(3) y(2)] ins(1,2) y(3) show ?case by auto
qed

lemma add_proofs_Ok:
  assumes "add_proofs e now ps quote oper db = Ok db'"
  obtains yl where "proof_ys e ps = Ok yl" "distinct yl" "set yl \<inter> keys_of (proof_tbl db) = {}"
    and "\<forall>p \<in> set ps. to_i64 (amount p) \<noteq> None"
    and "db' = db\<lparr>proof_tbl := proof_tbl db @ zip yl (map (proof_row now quote oper) ps)\<rparr>"
proof -
  from assms obtain yl where "proof_ys e ps = Ok yl"
    "try_fold (insert_proof e now quote oper) db ps = Ok db'"
    by (auto simp: add_proofs_def)
  with insert_proofs_Ok that show thesis by blast
qed

lemma proof_ys_length: "proof_ys e ps = Ok yl \<Longrightarrow> length yl = length ps"
  unfolding proof_ys_def by (rule try_map_length)

lemma added_rows_lookup:
  assumes "length yl = length ps" "distinct yl"
  shows "map_option pr_state (map_of (t @ zip yl (map (proof_row now quote oper) ps)) y)
     = (case map_of t y of Some r \<Rightarrow> Some (pr_state r)
        | None \<Rightarrow> if y \<in> set yl then Some Unspent else None)"
proof -
  have "map_option pr_state (map_of (zip yl (map (proof_row now quote oper) ps)) y)
      = (if y \<in> set yl then Some Unspent else None)"
    using assms by (induction yl ps rule: list_induct2) (auto simp: proof_row_def)
  then show ?thesis by (auto simp: map_add_def split: option.splits)
qed

definition set_states :: "PublicKey list \<Rightarrow> State \<Rightarrow> MintDb \<Rightarrow> MintDb" where
  "set_states yl s db = db\<lparr>proof_tbl := update_where (\<lambda>y _. y \<in> set yl) (\<lambda>r. r\<lparr>pr_state := s\<rparr>)
     (proof_tbl db)\<rparr>"

lemma current_states_lookup:
  "map_of (get_current_states yl db) y = (if y \<in> set yl then proof_state db y else None)"
proof -
  have "map_of (map (\<lambda>(y, r). (y, pr_state r)) t) y = map_option pr_state (map_of t y)"
    for t :: "(PublicKey \<times> ProofRow) list"
    by (induction t) auto
  then show ?thesis by (simp add: get_current_states_def proof_state_def select_in_lookup)
qed

lemma try_fold_pairs_Ok_iff:
  "try_fold (\<lambda>_ (k, s). f s) () xs = Ok () \<longleftrightarrow> (\<forall>(k, s) \<in> set xs. f s = Ok ())"
  by (induction xs) auto

lemma update_proofs_states_Ok_iff:
  assumes "keyed (proof_tbl db)"
  shows "update_proofs_states yl s db = Ok (olds, db') \<longleftrightarrow>
     distinct yl \<and> set yl \<subseteq> keys_of (proof_tbl db)
   \<and> (\<forall>y \<in> set yl. check_state_transition (the (proof_state db y)) s = Ok ())
   \<and> olds = map (proof_state db) yl \<and> db' = set_states yl s db"
proof -
  have len: "length (get_current_states yl db) = length yl
      \<longleftrightarrow> distinct yl \<and> set yl \<subseteq> keys_of (proof_tbl db)"
    using select_in_length [OF assms] by (simp add: get_current_states_def)
  have lookup: "distinct yl \<Longrightarrow> take_each (get_current_states yl db) yl = map (proof_state db) yl"
    by (simp add: take_each_distinct current_states_lookup)
  have keyed: "keyed (get_current_states yl db)"
  proof -
    have "map fst (get_current_states yl db) = map fst (select_in yl (proof_tbl db))"
      by (simp add: get_current_states_def case_prod_unfold)
    then show ?thesis using select_in_keyed [OF assms] by simp
  qed
  have mem: "(k, st) \<in> set (get_current_states yl db) \<longleftrightarrow> k \<in> set yl \<and> proof_state db k = Some st" for k st
    unfolding map_of_eq_Some_iff [OF keyed, symmetric] current_states_lookup by simp
  have checks: "(\<forall>(k, st) \<in> set (get_current_states yl db). check_state_transition st s = Ok ())
      \<longleftrightarrow> (\<forall>y \<in> set yl. check_state_transition (the (proof_state db y)) s = Ok ())"
    if "set yl \<subseteq> keys_of (proof_tbl db)"
  proof -
    have "proof_state db y \<noteq> None" if "y \<in> set yl" for y
      using subsetD [OF \<open>set yl \<subseteq> keys_of (proof_tbl db)\<close> that]
      by (simp add: proof_state_def map_of_None_keys)
    then have "(\<forall>k st. k \<in> set yl \<and> proof_state db k = Some st \<longrightarrow> check_state_transition st s = Ok ())
        \<longleftrightarrow> (\<forall>y \<in> set yl. check_state_transition (the (proof_state db y)) s = Ok ())" by fastforce
    then show ?thesis by (simp add: split_paired_Ball_Sigma Ball_def mem split: prod.splits)
  qed
  show ?thesis
    unfolding update_proofs_states_def Let_def
    using len checks lookup by (auto simp: try_fold_pairs_Ok_iff set_states_def)
qed

lemma set_states_lookup:
  assumes "set yl \<subseteq> keys_of (proof_tbl db)"
  shows "proof_state (set_states yl s db) y = (if y \<in> set yl then Some s else proof_state db y)"
proof (cases "y \<in> set yl")
  case True
  with assms have "y \<in> keys_of (proof_tbl db)" by (rule subsetD)
  then obtain r where "map_of (proof_tbl db) y = Some r" unfolding keys_of_iff by blast
  with True show ?thesis by (simp add: proof_state_def set_states_def update_where_lookup)
next
  case False
  then show ?thesis
    by (cases "map_of (proof_tbl db) y") (simp_all add: proof_state_def set_states_def update_where_lookup)
qed

definition drop_proofs :: "PublicKey list \<Rightarrow> MintDb \<Rightarrow> MintDb" where
  "drop_proofs yl db = db\<lparr>proof_tbl := delete_where (\<lambda>y r. y \<in> set yl \<and> pr_state r \<noteq> Spent) (proof_tbl db)\<rparr>"

lemma remove_proofs_Ok_iff:
  assumes "keyed (proof_tbl db)"
  shows "remove_proofs yl db = Ok db' \<longleftrightarrow>
     distinct yl \<and> (\<forall>y \<in> set yl. proof_state db y \<noteq> None \<and> proof_state db y \<noteq> Some Spent)
   \<and> db' = drop_proofs yl db"
proof (cases "yl = []")
  case True
  have "delete_where (\<lambda>y r. False) t = t" for t :: "(PublicKey \<times> ProofRow) list"
    by (simp add: delete_where_def case_prod_unfold)
  with True show ?thesis by (auto simp: remove_proofs_def drop_proofs_def)
next
  case False
  let ?t = "delete_where (\<lambda>_ r. pr_state r = Spent) (proof_tbl db)"
  have sel: "filter (\<lambda>(y, r). y \<in> set yl \<and> pr_state r \<noteq> Spent) (proof_tbl db) = select_in yl ?t"
    by (simp add: select_in_def delete_where_def case_prod_unfold conj_commute)
  note kt = delete_where_keyed [OF assms]
  have keys: "y \<in> keys_of ?t \<longleftrightarrow> proof_state db y \<noteq> None \<and> proof_state db y \<noteq> Some Spent" for y
    by (auto simp: keys_of_iff proof_state_def delete_where_lookup [OF assms] split: option.splits)
  from False show ?thesis
    unfolding remove_proofs_def Let_def sel
    using select_in_length [OF kt, of yl] keys by (auto simp: drop_proofs_def subset_iff)
qed

lemma drop_proofs_lookup:
  assumes "keyed (proof_tbl db)" "\<forall>y \<in> set yl. proof_state db y \<noteq> Some Spent"
  shows "proof_state (drop_proofs yl db) y = (if y \<in> set yl then None else proof_state db y)"
  using assms by (auto simp: proof_state_def drop_proofs_def delete_where_lookup split: option.splits)

interpretation mint: proof_store "\<lambda>db. keyed (proof_tbl db)" proof_state
  "\<lambda>ps yl. proof_ys e ps = Ok yl" "\<lambda>ps. add_proofs e now ps quote oper"
  update_proofs_states remove_proofs for e now quote oper
proof
  fix db ps db'
  assume k: "keyed (proof_tbl db)" and "add_proofs e now ps quote oper db = Ok db'"
  from this(2) obtain yl where yl: "proof_ys e ps = Ok yl" "distinct yl"
    "set yl \<inter> keys_of (proof_tbl db) = {}"
    and db': "db' = db\<lparr>proof_tbl := proof_tbl db @ zip yl (map (proof_row now quote oper) ps)\<rparr>"
    by (rule add_proofs_Ok)
  have len: "length yl = length ps" using yl(1) by (rule proof_ys_length)
  have fst: "map fst (zip yl (map (proof_row now quote oper) ps)) = yl" using len by simp
  have "keyed (proof_tbl db')" using k yl(2,3) len fst unfolding db' by (auto simp: keys_of_def)
  moreover have "\<forall>y \<in> set yl. proof_state db y = None"
    using yl(3) by (auto simp: proof_state_def map_of_None_keys)
  moreover have "proof_state db' y = (if y \<in> set yl then Some Unspent else proof_state db y)" for y
  proof -
    have "proof_state db' y = (case map_of (proof_tbl db) y of Some r \<Rightarrow> Some (pr_state r)
        | None \<Rightarrow> if y \<in> set yl then Some Unspent else None)"
      unfolding db' proof_state_def using added_rows_lookup [OF len yl(2)] by simp
    moreover have "map_of (proof_tbl db) y = None" if "y \<in> set yl"
      using yl(3) that by (auto simp: map_of_None_keys)
    ultimately show ?thesis by (cases "map_of (proof_tbl db) y") (auto simp: proof_state_def)
  qed
  ultimately show "keyed (proof_tbl db') \<and> (\<exists>yl. proof_ys e ps = Ok yl \<and> distinct yl
        \<and> (\<forall>y \<in> set yl. proof_state db y = None)
        \<and> (\<forall>y. proof_state db' y = (if y \<in> set yl then Some Unspent else proof_state db y)))"
    using yl by blast
next
  fix db yl s olds db'
  assume k: "keyed (proof_tbl db)" and "update_proofs_states yl s db = Ok (olds, db')"
  then have u: "distinct yl" "set yl \<subseteq> keys_of (proof_tbl db)" "olds = map (proof_state db) yl"
    "\<forall>y \<in> set yl. check_state_transition (the (proof_state db y)) s = Ok ()" "db' = set_states yl s db"
    by (simp_all add: update_proofs_states_Ok_iff [OF k])
  have some: "\<exists>old. proof_state db y = Some old" if "y \<in> set yl" for y
    using subsetD [OF u(2) that] by (auto simp: proof_state_def keys_of_iff)
  from k u(5) have "keyed (proof_tbl db')" by (simp add: set_states_def)
  moreover have "\<forall>y \<in> set yl. \<exists>old. proof_state db y = Some old \<and> check_state_transition old s = Ok ()"
    using some u(4) by fastforce
  moreover note set_states_lookup [OF u(2)]
  ultimately show "keyed (proof_tbl db') \<and> distinct yl \<and> olds = map (proof_state db) yl
        \<and> (\<forall>y \<in> set yl. \<exists>old. proof_state db y = Some old \<and> check_state_transition old s = Ok ())
        \<and> (\<forall>y. proof_state db' y = (if y \<in> set yl then Some s else proof_state db y))"
    using u by simp
next
  fix db yl db'
  assume k: "keyed (proof_tbl db)" and "remove_proofs yl db = Ok db'"
  then have r: "distinct yl" "\<forall>y \<in> set yl. proof_state db y \<noteq> None \<and> proof_state db y \<noteq> Some Spent"
    "db' = drop_proofs yl db"
    by (simp_all add: remove_proofs_Ok_iff [OF k])
  with k show "keyed (proof_tbl db') \<and> distinct yl
        \<and> (\<forall>y \<in> set yl. proof_state db y \<noteq> None \<and> proof_state db y \<noteq> Some Spent)
        \<and> (\<forall>y. proof_state db' y = (if y \<in> set yl then None else proof_state db y))"
    using drop_proofs_lookup [OF k, of yl] by (simp add: drop_proofs_def delete_where_keyed)
qed

text \<open>An operation on the table of proofs, run in a transaction of its own.\<close>

datatype proof_op =
    AddProofs "Proof list" "QuoteId option" Operation
  | UpdateStates "PublicKey list" State
  | RemoveProofs "PublicKey list"

fun run_proof_op :: "externs \<Rightarrow> u64 \<Rightarrow> proof_op \<Rightarrow> MintDb \<Rightarrow> MintDb" where
  "run_proof_op e now (AddProofs ps q oper) db =
     (case add_proofs e now ps q oper db of Ok db' \<Rightarrow> db' | _ \<Rightarrow> db)"
| "run_proof_op e now (UpdateStates yl s) db =
     (case update_proofs_states yl s db of Ok (_, db') \<Rightarrow> db' | _ \<Rightarrow> db)"
| "run_proof_op e now (RemoveProofs yl) db =
     (case remove_proofs yl db of Ok db' \<Rightarrow> db' | _ \<Rightarrow> db)"

lemma run_proof_op_spent:
  assumes "keyed (proof_tbl db)" "proof_state db y = Some Spent"
  shows "keyed (proof_tbl (run_proof_op e now oper db)) \<and> proof_state (run_proof_op e now oper db) y = Some Spent"
proof (cases oper)
  case (AddProofs ps q p)
  show ?thesis
  proof (cases "add_proofs e now ps q p db")
    case (Ok db')
    with mint.add_Ok [OF assms(1) Ok] mint.spent_stays(1) [OF assms Ok] AddProofs show ?thesis by simp
  qed (simp_all add: AddProofs assms)
next
  case (UpdateStates yl s)
  show ?thesis
  proof (cases "update_proofs_states yl s db")
    case (Ok r)
    then have upd: "update_proofs_states yl s db = Ok (fst r, snd r)" by simp
    from mint.update_Ok [OF assms(1) upd] mint.spent_stays(2) [OF assms upd] UpdateStates Ok
    show ?thesis by (simp add: case_prod_unfold)
  qed (simp_all add: UpdateStates assms)
next
  case (RemoveProofs yl)
  show ?thesis
  proof (cases "remove_proofs yl db")
    case (Ok db')
    with mint.remove_Ok [OF assms(1) Ok] mint.spent_stays(3) [OF assms Ok] RemoveProofs show ?thesis by simp
  qed (simp_all add: RemoveProofs assms)
qed

text \<open>
  C3: A spent proof is spent for good: no sequence of additions, state changes and removals, by
  any operations and whether they succeed or fail, gives it another state.
\<close>

theorem spent_forever:
  assumes "keyed (proof_tbl db)" "proof_state db y = Some Spent"
  shows "proof_state (fold (run_proof_op e now) ops db) y = Some Spent"
  using assms by (induction ops arbitrary: db) (auto simp: run_proof_op_spent)

definition empty_db :: MintDb where
  "empty_db = \<lparr>proof_tbl = [], sig_tbl = [], saga_tbl = [], mint_quote_tbl = [], payment_tbl = [],
     issued_tbl = [], melt_quote_tbl = [], melt_request_tbl = [], keyset_tbl = []\<rparr>"

definition toy_proof :: "string \<Rightarrow> Proof" where
  "toy_proof s = \<lparr>amount = 8, keyset_id = example_id, secret = s, proof_c = [2, 3], witness = None, dleq = None\<rparr>"

definition spent_db :: MintDb where
  "spent_db = empty_db\<lparr>proof_tbl := [([2, 1], (proof_row 0 None (OpSwap 0) (toy_proof ''x''))\<lparr>pr_state := Spent\<rparr>)]\<rparr>"

theorem spent_forever_witness:
  "proof_state (fold (run_proof_op toy_externs 0) [RemoveProofs [[2, 1]], UpdateStates [[2, 1]] Unspent] spent_db)
     [2, 1] = Some Spent"
  by (rule spent_forever) (simp_all add: spent_db_def empty_db_def proof_state_def)

end
