(* ===== verification/Errors.thy ===== *)
theory Errors
  imports Spending MintDb
begin

text \<open>
  Errors of the mint (\<^verbatim>\<open>crates/cdk-common/src/error.rs\<close>): the error type of its operations, the
  conversions from the errors of the database, of the amounts and of the protocol, the codes that
  go over the wire, and the error a wallet reads back from a code. The type has the variants that
  the modelled operations return or that the conversions mention.
\<close>

datatype nut00_error = Nut00DHKE dhke_error | Nut00Amount amount_error

datatype Error =
    E_KeysetUnknown Id
  | E_UnsupportedUnit
  | E_PaymentFailed
  | E_RequestAlreadyPaid
  | E_InvalidPaymentRequest
  | E_InvoiceAmountUndefined
  | E_AmountOverflow
  | E_SignatureMissingOrInvalid
  | E_InternalMultiPartMeltQuote
  | E_MppUnitMethodNotSupported CurrencyUnit PaymentMethod
  | E_ClearAuthRequired
  | E_BlindAuthRequired
  | E_ClearAuthFailed
  | E_BlindAuthFailed
  | E_AmountlessInvoiceNotSupported CurrencyUnit PaymentMethod
  | E_DuplicatePaymentId
  | E_PubkeyRequired
  | E_InvalidPaymentMethod
  | E_AmountUndefined
  | E_UnsupportedPaymentMethod
  | E_Bolt12parse
  | E_MintingDisabled
  | E_UnknownQuote
  | E_ExpiredQuote u64 u64
  | E_AmountOutofLimitRange Amount Amount Amount
  | E_UnpaidQuote
  | E_PendingQuote
  | E_IssuedQuote
  | E_PaidQuote
  | E_UnknownPaymentState
  | E_MeltingDisabled
  | E_UnknownKeySet
  | E_BlindedMessageAlreadySigned
  | E_InactiveKeyset
  | E_TransactionUnbalanced u64 u64 u64
  | E_DuplicateInputs
  | E_DuplicateOutputs
  | E_MultipleUnits
  | E_UnitMismatch
  | E_TokenAlreadySpent
  | E_TokenPending
  | E_Internal
  | E_DuplicateSignatureError
  | E_UnknownErrorResponse string
  | E_InsufficientFunds
  | E_IncorrectQuoteAmount
  | E_InvoiceDescriptionUnsupported
  | E_Utf8ParseError
  | E_AmountError amount_error
  | E_DHKE dhke_error
  | E_NUT00 nut00_error
  | E_NUT03 amount_error
  | E_NUT04 amount_error
  | E_NUT05 amount_error
  | E_NUT11 nut11_error
  | E_NUT12 nut12_error
  | E_NUT14 nut14_error
  | E_NUT20 nut20_error
  | E_Database db_error
  | E_Payment payment_error

definition from_db :: "db_error \<Rightarrow> Error" where
  "from_db d = (case d of
       InvalidStateTransition TransitionPending \<Rightarrow> E_TokenPending
     | InvalidStateTransition AlreadySpent \<Rightarrow> E_TokenAlreadySpent
     | _ \<Rightarrow> E_Database d)"

definition from_fee :: "fee_error \<Rightarrow> Error" where
  "from_fee x = (case x of KeysetUnknown i \<Rightarrow> E_KeysetUnknown i | FeeOverflow \<Rightarrow> E_AmountOverflow)"

section \<open>Codes on the wire\<close>

datatype ErrorCode =
    C_TokenAlreadySpent
  | C_TokenPending
  | C_QuoteNotPaid
  | C_QuoteExpired
  | C_QuotePending
  | C_KeysetNotFound
  | C_KeysetInactive
  | C_BlindedMessageAlreadySigned
  | C_UnsupportedUnit
  | C_TokensAlreadyIssued
  | C_MintingDisabled
  | C_InvoiceAlreadyPaid
  | C_TokenNotVerified
  | C_LightningError
  | C_TransactionUnbalanced
  | C_AmountOutofLimitRange
  | C_WitnessMissingOrInvalid
  | C_DuplicateInputs
  | C_DuplicateOutputs
  | C_MultipleUnits
  | C_UnitMismatch
  | C_ClearAuthRequired
  | C_ClearAuthFailed
  | C_BlindAuthRequired
  | C_BlindAuthFailed
  | C_DuplicateSignature
  | C_Unknown "16 word"

fun from_code :: "16 word \<Rightarrow> ErrorCode" where
  "from_code c =
     (if c = 10002 then C_BlindedMessageAlreadySigned
      else if c = 10003 then C_TokenNotVerified
      else if c = 11001 then C_TokenAlreadySpent
      else if c = 11002 then C_TransactionUnbalanced
      else if c = 11005 then C_UnsupportedUnit
      else if c = 11006 then C_AmountOutofLimitRange
      else if c = 11007 then C_DuplicateInputs
      else if c = 11008 then C_DuplicateOutputs
      else if c = 11009 then C_MultipleUnits
      else if c = 11010 then C_UnitMismatch
      else if c = 11012 then C_TokenPending
      else if c = 12001 then C_KeysetNotFound
      else if c = 12002 then C_KeysetInactive
      else if c = 20000 then C_LightningError
      else if c = 20001 then C_QuoteNotPaid
      else if c = 20002 then C_TokensAlreadyIssued
      else if c = 20003 then C_MintingDisabled
      else if c = 20005 then C_QuotePending
      else if c = 20006 then C_InvoiceAlreadyPaid
      else if c = 20007 then C_QuoteExpired
      else if c = 20008 then C_WitnessMissingOrInvalid
      else if c = 20009 then C_DuplicateSignature
      else if c = 30001 then C_ClearAuthRequired
      else if c = 30002 then C_ClearAuthFailed
      else if c = 31001 then C_BlindAuthRequired
      else if c = 31002 then C_BlindAuthFailed
      else C_Unknown c)"

fun to_code :: "ErrorCode \<Rightarrow> 16 word" where
  "to_code C_BlindedMessageAlreadySigned = 10002"
| "to_code C_TokenNotVerified = 10003"
| "to_code C_TokenAlreadySpent = 11001"
| "to_code C_TransactionUnbalanced = 11002"
| "to_code C_UnsupportedUnit = 11005"
| "to_code C_AmountOutofLimitRange = 11006"
| "to_code C_DuplicateInputs = 11007"
| "to_code C_DuplicateOutputs = 11008"
| "to_code C_MultipleUnits = 11009"
| "to_code C_UnitMismatch = 11010"
| "to_code C_TokenPending = 11012"
| "to_code C_KeysetNotFound = 12001"
| "to_code C_KeysetInactive = 12002"
| "to_code C_LightningError = 20000"
| "to_code C_QuoteNotPaid = 20001"
| "to_code C_TokensAlreadyIssued = 20002"
| "to_code C_MintingDisabled = 20003"
| "to_code C_QuotePending = 20005"
| "to_code C_InvoiceAlreadyPaid = 20006"
| "to_code C_QuoteExpired = 20007"
| "to_code C_WitnessMissingOrInvalid = 20008"
| "to_code C_DuplicateSignature = 20009"
| "to_code C_ClearAuthRequired = 30001"
| "to_code C_ClearAuthFailed = 30002"
| "to_code C_BlindAuthRequired = 31001"
| "to_code C_BlindAuthFailed = 31002"
| "to_code (C_Unknown c) = c"

definition map_nut11_error :: "nut11_error \<Rightarrow> ErrorCode" where
  "map_nut11_error x = (case x of
       SignaturesNotProvided \<Rightarrow> C_WitnessMissingOrInvalid
     | InvalidSignature \<Rightarrow> C_WitnessMissingOrInvalid
     | DuplicateSignature \<Rightarrow> C_DuplicateSignature
     | _ \<Rightarrow> C_Unknown 9999)"

text \<open>The code of the response to an error; its detail is the error's text.\<close>

definition error_response_code :: "Error \<Rightarrow> ErrorCode" where
  "error_response_code err = (case err of
       E_TokenAlreadySpent \<Rightarrow> C_TokenAlreadySpent
     | E_UnsupportedUnit \<Rightarrow> C_UnsupportedUnit
     | E_PaymentFailed \<Rightarrow> C_LightningError
     | E_RequestAlreadyPaid \<Rightarrow> C_InvoiceAlreadyPaid
     | E_TransactionUnbalanced _ _ _ \<Rightarrow> C_TransactionUnbalanced
     | E_MintingDisabled \<Rightarrow> C_MintingDisabled
     | E_BlindedMessageAlreadySigned \<Rightarrow> C_BlindedMessageAlreadySigned
     | E_InsufficientFunds \<Rightarrow> C_TransactionUnbalanced
     | E_AmountOutofLimitRange _ _ _ \<Rightarrow> C_AmountOutofLimitRange
     | E_ExpiredQuote _ _ \<Rightarrow> C_QuoteExpired
     | E_PendingQuote \<Rightarrow> C_QuotePending
     | E_TokenPending \<Rightarrow> C_TokenPending
     | E_ClearAuthRequired \<Rightarrow> C_ClearAuthRequired
     | E_ClearAuthFailed \<Rightarrow> C_ClearAuthFailed
     | E_BlindAuthRequired \<Rightarrow> C_BlindAuthRequired
     | E_BlindAuthFailed \<Rightarrow> C_BlindAuthFailed
     | E_NUT20 _ \<Rightarrow> C_WitnessMissingOrInvalid
     | E_DuplicateInputs \<Rightarrow> C_DuplicateInputs
     | E_DuplicateOutputs \<Rightarrow> C_DuplicateOutputs
     | E_MultipleUnits \<Rightarrow> C_MultipleUnits
     | E_UnitMismatch \<Rightarrow> C_UnitMismatch
     | E_UnpaidQuote \<Rightarrow> C_QuoteNotPaid
     | E_NUT11 x \<Rightarrow> map_nut11_error x
     | E_DuplicateSignatureError \<Rightarrow> C_DuplicateSignature
     | _ \<Rightarrow> C_Unknown 9999)"

text \<open>The error a wallet makes of a response, \<open>shown\<close> being the text of the whole response.\<close>

definition error_from_response :: "string \<Rightarrow> ErrorCode \<Rightarrow> Error" where
  "error_from_response shown code = (case code of
       C_TokenAlreadySpent \<Rightarrow> E_TokenAlreadySpent
     | C_QuoteNotPaid \<Rightarrow> E_UnpaidQuote
     | C_QuotePending \<Rightarrow> E_PendingQuote
     | C_QuoteExpired \<Rightarrow> E_ExpiredQuote 0 0
     | C_KeysetNotFound \<Rightarrow> E_UnknownKeySet
     | C_KeysetInactive \<Rightarrow> E_InactiveKeyset
     | C_BlindedMessageAlreadySigned \<Rightarrow> E_BlindedMessageAlreadySigned
     | C_UnsupportedUnit \<Rightarrow> E_UnsupportedUnit
     | C_TransactionUnbalanced \<Rightarrow> E_TransactionUnbalanced 0 0 0
     | C_MintingDisabled \<Rightarrow> E_MintingDisabled
     | C_InvoiceAlreadyPaid \<Rightarrow> E_RequestAlreadyPaid
     | C_TokenNotVerified \<Rightarrow> E_DHKE TokenNotVerified
     | C_LightningError \<Rightarrow> E_PaymentFailed
     | C_AmountOutofLimitRange \<Rightarrow> E_AmountOutofLimitRange 0 0 0
     | C_TokenPending \<Rightarrow> E_TokenPending
     | C_WitnessMissingOrInvalid \<Rightarrow> E_SignatureMissingOrInvalid
     | C_DuplicateInputs \<Rightarrow> E_DuplicateInputs
     | C_DuplicateOutputs \<Rightarrow> E_DuplicateOutputs
     | C_MultipleUnits \<Rightarrow> E_MultipleUnits
     | C_UnitMismatch \<Rightarrow> E_UnitMismatch
     | C_ClearAuthRequired \<Rightarrow> E_ClearAuthRequired
     | C_BlindAuthRequired \<Rightarrow> E_BlindAuthRequired
     | C_DuplicateSignature \<Rightarrow> E_DuplicateSignatureError
     | _ \<Rightarrow> E_UnknownErrorResponse shown)"

text \<open>What a wallet makes of the error of a mint, over the number on the wire.\<close>

definition over_the_wire :: "string \<Rightarrow> Error \<Rightarrow> Error" where
  "over_the_wire shown err = error_from_response shown (from_code (to_code (error_response_code err)))"

text \<open>
  Codes survive their numbers, and a wallet recovers from the number the errors a spender can
  act on: spent, pending and duplicate inputs, duplicate or already signed outputs, mixed units.
  An unknown or inactive keyset and a proof that does not verify are lost: they reach the wallet
  as an unknown response, although there is a code that it would read as that very error.
\<close>

theorem wire_errors:
  "to_code (from_code c) = c
   \<and> (\<forall>err \<in> {E_TokenAlreadySpent, E_TokenPending, E_DuplicateInputs, E_DuplicateOutputs,
         E_MultipleUnits, E_UnitMismatch, E_BlindedMessageAlreadySigned}. over_the_wire shown err = err)
   \<and> (\<forall>err \<in> {E_UnknownKeySet, E_InactiveKeyset, E_DHKE TokenNotVerified}.
         over_the_wire shown err = E_UnknownErrorResponse shown
       \<and> (\<exists>code. from_code (to_code code) = code \<and> error_from_response shown code = err))"
proof (intro conjI ballI)
  show "to_code (from_code c) = c" by simp
next
  fix err
  assume "err \<in> {E_TokenAlreadySpent, E_TokenPending, E_DuplicateInputs, E_DuplicateOutputs,
         E_MultipleUnits, E_UnitMismatch, E_BlindedMessageAlreadySigned}"
  then show "over_the_wire shown err = err"
    by (elim insertE emptyE; hypsubst)
       (simp_all add: over_the_wire_def error_from_response_def error_response_code_def)
next
  fix err assume err: "err \<in> {E_UnknownKeySet, E_InactiveKeyset, E_DHKE TokenNotVerified}"
  then show "over_the_wire shown err = E_UnknownErrorResponse shown"
    by (elim insertE emptyE; hypsubst)
       (simp_all add: over_the_wire_def error_from_response_def error_response_code_def)
  have "from_code (to_code code) = code" if "code \<in> {C_KeysetNotFound, C_KeysetInactive, C_TokenNotVerified}" for code
    using that by auto
  moreover have "\<exists>code \<in> {C_KeysetNotFound, C_KeysetInactive, C_TokenNotVerified}. error_from_response shown code = err"
    using err by (auto simp: error_from_response_def)
  ultimately show "\<exists>code. from_code (to_code code) = code \<and> error_from_response shown code = err" by blast
qed

theorem wire_errors_witness:
  "over_the_wire ''x'' E_TokenPending = E_TokenPending
   \<and> over_the_wire ''x'' E_InactiveKeyset = E_UnknownErrorResponse ''x''"
  using wire_errors [of 0 "''x''"] by simp

section \<open>Operations on the committed database\<close>

text \<open>An operation on a state, which most often is the committed database, and the next one when it succeeds.\<close>

type_synonym ('s, 'a) stateful = "'s \<Rightarrow> (Error, 'a) outcome \<times> 's"

type_synonym 'a action = "(MintDb, 'a) stateful"

definition then_do :: "('s, 'a) stateful \<Rightarrow> ('a \<Rightarrow> ('s, 'b) stateful) \<Rightarrow> ('s, 'b) stateful" where
  "then_do f g db = (case f db of
      (Ok a, db') \<Rightarrow> g a db' | (Err x, db') \<Rightarrow> (Err x, db') | (Panic, db') \<Rightarrow> (Panic, db'))"

definition pure :: "(Error, 'a) outcome \<Rightarrow> ('s, 'a) stateful" where
  "pure m db = (m, db)"

text \<open>A transaction: its changes are committed when it ends well and dropped otherwise.\<close>

definition in_transaction :: "(MintDb \<Rightarrow> (Error, 'a \<times> MintDb) outcome) \<Rightarrow> 'a action" where
  "in_transaction f db = (case f db of Ok (a, db') \<Rightarrow> (Ok a, db') | Err x \<Rightarrow> (Err x, db) | Panic \<Rightarrow> (Panic, db))"

lemma then_do_Ok:
  assumes "then_do f g db = (Ok b, db')"
  obtains a db1 where "f db = (Ok a, db1)" "g a db1 = (Ok b, db')"
  using assms by (auto simp: then_do_def split: prod.splits outcome.splits)

lemma pure_Ok [simp]: "pure m db = (Ok a, db') \<longleftrightarrow> m = Ok a \<and> db' = db"
  by (auto simp: pure_def)

lemma in_transaction_Ok [simp]: "in_transaction f db = (Ok a, db') \<longleftrightarrow> f db = Ok (a, db')"
  by (auto simp: in_transaction_def split: outcome.splits prod.splits)

lemma in_transaction_not_Ok: "in_transaction f db = (r, db') \<Longrightarrow> \<not> is_ok r \<Longrightarrow> db' = db"
  by (auto simp: in_transaction_def split: outcome.splits prod.splits)

end
