(* ===== verification/Signatory.thy ===== *)
theory Signatory
  imports Errors "HOL-Library.AList"
begin

text \<open>
  The signatory (\<^verbatim>\<open>crates/cdk-signatory/src\<close>): it derives the key pairs of a keyset from the
  master key, keeps the keysets of the database in memory, signs blinded messages and verifies
  proofs, and rotates keysets. Key derivation (BIP 32) is a parameter. Maps with unspecified
  iteration order are association lists.
\<close>

section \<open>Key derivation\<close>

type_synonym Xpriv = bytes
type_synonym DerivationPath = "u32 list"

record hd_wallet =
  hd_derive :: "Xpriv \<Rightarrow> DerivationPath \<Rightarrow> Xpriv option"
  hd_private_key :: "Xpriv \<Rightarrow> SecretKey"

text \<open>\<open>ChildNumber::from_hardened_idx(i).expect(..)\<close>\<close>

definition hardened :: "u32 \<Rightarrow> ('e, u32) outcome" where
  "hardened i = (if i < 2 ^ 31 then Ok (i + 2 ^ 31) else Panic)"

definition derivation_index :: "CurrencyUnit \<Rightarrow> u32 option" where
  "derivation_index u = (case u of
      Sat \<Rightarrow> Some 0 | Msat \<Rightarrow> Some 1 | Usd \<Rightarrow> Some 2 | Eur \<Rightarrow> Some 3 | Auth \<Rightarrow> Some 4 | _ \<Rightarrow> None)"

definition derivation_path_from_unit ::
  "CurrencyUnit \<Rightarrow> u32 \<Rightarrow> ('e, DerivationPath option) outcome" where
  "derivation_path_from_unit u index =
     (case derivation_index u of
        None \<Rightarrow> Ok None
      | Some unit_index \<Rightarrow>
          and_then (hardened 0) (\<lambda>a.
          and_then (hardened unit_index) (\<lambda>b.
          and_then (hardened index) (\<lambda>c. Ok (Some [a, b, c])))))"

record MintKeyPair =
  kp_public_key :: PublicKey
  kp_secret_key :: SecretKey

type_synonym MintKeys = "(Amount \<times> MintKeyPair) list"

record MintKeySet =
  mk_id :: Id
  mk_unit :: CurrencyUnit
  mk_keys :: MintKeys
  mk_final_expiry :: "u64 option"

text \<open>Insertion into a \<open>BTreeMap\<close>, an association list in the order of its keys.\<close>

fun btree_insert :: "'k::linorder \<Rightarrow> 'v \<Rightarrow> ('k \<times> 'v) list \<Rightarrow> ('k \<times> 'v) list" where
  "btree_insert k v [] = [(k, v)]"
| "btree_insert k v ((j, w) # m) =
     (if k < j then (k, v) # (j, w) # m
      else if k = j then (k, v) # m
      else (j, w) # btree_insert k v m)"

definition public_keys :: "MintKeys \<Rightarrow> Keys" where
  "public_keys keys = map (\<lambda>(a, kp). (a, kp_public_key kp)) keys"

definition derive_key ::
  "externs \<Rightarrow> hd_wallet \<Rightarrow> Xpriv \<Rightarrow> MintKeys \<Rightarrow> nat \<times> u64 \<Rightarrow> ('e, MintKeys) outcome" where
  "derive_key e bip xpriv m = (\<lambda>(i, amt).
     and_then (hardened (of_nat i)) (\<lambda>c.
     and_then (expect (hd_derive bip xpriv [c])) (\<lambda>x.
     let sk = hd_private_key bip x in
     Ok (btree_insert amt \<lparr>kp_public_key = sk_public_key e sk, kp_secret_key = sk\<rparr> m))))"

definition generate ::
  "externs \<Rightarrow> hd_wallet \<Rightarrow> Xpriv \<Rightarrow> CurrencyUnit \<Rightarrow> u64 list \<Rightarrow> u64 option \<Rightarrow> KeySetVersion
     \<Rightarrow> ('e, MintKeySet) outcome" where
  "generate e bip xpriv u amts expiry v =
     and_then (try_fold (derive_key e bip xpriv) [] (List.enumerate 0 amts)) (\<lambda>keys.
     and_then (unwrap (case v of
         Version00 \<Rightarrow> v1_from_keys (sha256 e) (public_keys keys)
       | Version01 \<Rightarrow> v2_from_data (sha256 e) (public_keys keys) u expiry)) (\<lambda>i.
     Ok \<lparr>mk_id = i, mk_unit = u, mk_keys = keys, mk_final_expiry = expiry\<rparr>))"

definition generate_from_xpriv ::
  "externs \<Rightarrow> hd_wallet \<Rightarrow> Xpriv \<Rightarrow> u64 list \<Rightarrow> CurrencyUnit \<Rightarrow> DerivationPath \<Rightarrow> u64 option
     \<Rightarrow> KeySetVersion \<Rightarrow> ('e, MintKeySet) outcome" where
  "generate_from_xpriv e bip xpriv amts u path expiry v =
     and_then (expect (hd_derive bip xpriv path)) (\<lambda>x. generate e bip x u amts expiry v)"

definition create_new_keyset ::
  "externs \<Rightarrow> hd_wallet \<Rightarrow> u64 \<Rightarrow> Xpriv \<Rightarrow> DerivationPath \<Rightarrow> u32 option \<Rightarrow> CurrencyUnit \<Rightarrow> u64 list
     \<Rightarrow> u64 \<Rightarrow> u64 option \<Rightarrow> ('e, MintKeySet \<times> MintKeySetInfo) outcome" where
  "create_new_keyset e bip now xpriv path path_index u amts input_fee_ppk expiry =
     and_then (expect (hd_derive bip xpriv path)) (\<lambda>x.
     and_then (generate e bip x u amts expiry Version00) (\<lambda>ks.
     Ok (ks, \<lparr>mki_id = mk_id ks, mki_unit = mk_unit ks, mki_active = True, mki_valid_from = now,
              mki_derivation_path = path, mki_derivation_path_index = path_index, mki_max_order = 0,
              mki_amounts = amts, mki_input_fee_ppk = input_fee_ppk,
              mki_final_expiry = mk_final_expiry ks\<rparr>)))"

section \<open>The signatory\<close>

record DbSignatory =
  sg_keysets :: "(Id \<times> (MintKeySetInfo \<times> MintKeySet)) list"
  sg_active_keysets :: "(CurrencyUnit \<times> Id) list"
  sg_custom_paths :: "(CurrencyUnit \<times> DerivationPath) list"
  sg_xpriv :: Xpriv

record RotateKeyArguments =
  rk_unit :: CurrencyUnit
  rk_amounts :: "u64 list"
  rk_input_fee_ppk :: u64

record SignatoryKeySet =
  sks_id :: Id
  sks_unit :: CurrencyUnit
  sks_active :: bool
  sks_keys :: Keys
  sks_amounts :: "u64 list"
  sks_input_fee_ppk :: u64
  sks_final_expiry :: "u64 option"

definition signatory_keyset :: "MintKeySetInfo \<times> MintKeySet \<Rightarrow> SignatoryKeySet" where
  "signatory_keyset = (\<lambda>(info, key). \<lparr>sks_id = mki_id info, sks_unit = mk_unit key,
     sks_active = mki_active info, sks_keys = public_keys (mk_keys key),
     sks_amounts = mki_amounts info, sks_input_fee_ppk = mki_input_fee_ppk info,
     sks_final_expiry = mk_final_expiry key\<rparr>)"

definition keyset_of_signatory :: "SignatoryKeySet \<Rightarrow> KeySet" where
  "keyset_of_signatory k = \<lparr>ks_id = sks_id k, ks_unit = sks_unit k, ks_keys = sks_keys k,
     ks_final_expiry = sks_final_expiry k\<rparr>"

definition info_of_signatory :: "SignatoryKeySet \<Rightarrow> MintKeySetInfo" where
  "info_of_signatory k = \<lparr>mki_id = sks_id k, mki_unit = sks_unit k, mki_active = sks_active k,
     mki_valid_from = 0, mki_derivation_path = [], mki_derivation_path_index = None,
     mki_max_order = 0, mki_amounts = sks_amounts k, mki_input_fee_ppk = sks_input_fee_ppk k,
     mki_final_expiry = sks_final_expiry k\<rparr>"

definition get_active_keysets :: "MintDb \<Rightarrow> (CurrencyUnit \<times> Id) list" where
  "get_active_keysets db =
     fold (\<lambda>(i, k). AList.update (mki_unit k) i) (filter (\<lambda>(_, k). mki_active k) (keyset_tbl db)) []"

definition generate_keyset ::
  "externs \<Rightarrow> hd_wallet \<Rightarrow> Xpriv \<Rightarrow> MintKeySetInfo \<Rightarrow> ('e, MintKeySet) outcome" where
  "generate_keyset e bip xpriv k =
     generate_from_xpriv e bip xpriv (mki_amounts k) (mki_unit k) (mki_derivation_path k)
       (mki_final_expiry k) (version (mki_id k))"

definition reload_step ::
  "externs \<Rightarrow> hd_wallet \<Rightarrow> (CurrencyUnit \<times> Id) list \<Rightarrow> DbSignatory \<Rightarrow> MintKeySetInfo
     \<Rightarrow> (Error, DbSignatory) outcome" where
  "reload_step e bip db_active_keysets sg info =
     (let i = mki_id info in
      and_then (generate_keyset e bip (sg_xpriv sg) info) (\<lambda>keyset.
      let info' = info\<lparr>mki_active := (map_of db_active_keysets (mki_unit info) = Some i)\<rparr> in
      Ok (sg\<lparr>sg_active_keysets := (if mki_active info'
                 then AList.update (mki_unit info') i (sg_active_keysets sg)
                 else sg_active_keysets sg),
             sg_keysets := AList.update i (info', keyset) (sg_keysets sg)\<rparr>)))"

definition reload_keys_from_db ::
  "externs \<Rightarrow> hd_wallet \<Rightarrow> MintDb \<Rightarrow> DbSignatory \<Rightarrow> (Error, DbSignatory) outcome" where
  "reload_keys_from_db e bip db sg =
     try_fold (reload_step e bip (get_active_keysets db))
       (sg\<lparr>sg_keysets := [], sg_active_keysets := []\<rparr>) (get_keyset_infos db)"

definition sign_one ::
  "externs \<Rightarrow> DbSignatory \<Rightarrow> SecretKey \<Rightarrow> BlindedMessage \<Rightarrow> (Error, BlindSignature) outcome" where
  "sign_one e sg r m =
     and_then (ok_or (map_of (sg_keysets sg) (bm_keyset_id m)) E_UnknownKeySet) (\<lambda>(info, key).
     and_then (ensure (mki_active info) E_InactiveKeyset) (\<lambda>_.
     and_then (ok_or (map_of (mk_keys key) (bm_amount m)) E_UnknownKeySet) (\<lambda>key_pair.
     and_then (map_err E_DHKE (sign_message e (kp_secret_key key_pair) (blinded_secret m))) (\<lambda>c.
     map_err E_NUT12 (blind_signature_new e r (bm_amount m) c (bm_keyset_id m) (blinded_secret m)
                        (kp_secret_key key_pair))))))"

text \<open>
  Each signature takes fresh randomness for its proof of equal logarithms. The values drawn are the
  list \<open>rs\<close>, one for each message; with a list that is too short there are fewer signatures than
  messages, which the database operation that stores them refuses.
\<close>

definition blind_sign ::
  "externs \<Rightarrow> DbSignatory \<Rightarrow> SecretKey list \<Rightarrow> BlindedMessage list \<Rightarrow> (Error, BlindSignature list) outcome" where
  "blind_sign e sg rs msgs = try_map (\<lambda>(m, r). sign_one e sg r m) (zip msgs rs)"

definition verify_one :: "externs \<Rightarrow> DbSignatory \<Rightarrow> Proof \<Rightarrow> (Error, unit) outcome" where
  "verify_one e sg p =
     and_then (ok_or (map_of (sg_keysets sg) (keyset_id p)) E_UnknownKeySet) (\<lambda>(_, key).
     and_then (ok_or (map_of (mk_keys key) (amount p)) E_UnknownKeySet) (\<lambda>key_pair.
     map_err E_DHKE (verify_message e (kp_secret_key key_pair) (proof_c p) (as_bytes (secret p)))))"

definition signatory_verify_proofs :: "externs \<Rightarrow> DbSignatory \<Rightarrow> Proof list \<Rightarrow> (Error, unit) outcome" where
  "signatory_verify_proofs e sg proofs = try_fold (\<lambda>_. verify_one e sg) () proofs"

definition signatory_keysets :: "DbSignatory \<Rightarrow> SignatoryKeySet list" where
  "signatory_keysets sg = map (signatory_keyset \<circ> snd) (sg_keysets sg)"

text \<open>\<open>path_index + 1\<close> on \<open>u32\<close> panics on overflow where checks are on and wraps otherwise.\<close>

definition add_one :: "bool \<Rightarrow> u32 \<Rightarrow> ('e, u32) outcome" where
  "add_one overflow_checks i =
     (case checked_add i 1 of Some j \<Rightarrow> Ok j | None \<Rightarrow> if overflow_checks then Panic else Ok 0)"

definition path_for ::
  "(CurrencyUnit \<times> DerivationPath) list \<Rightarrow> CurrencyUnit \<Rightarrow> u32 \<Rightarrow> (Error, DerivationPath) outcome" where
  "path_for custom_paths u index =
     (case map_of custom_paths u of
        Some path \<Rightarrow> Ok path
      | None \<Rightarrow> and_then (derivation_path_from_unit u index) (\<lambda>p. ok_or p E_UnsupportedUnit))"

definition rotate_keyset ::
  "bool \<Rightarrow> externs \<Rightarrow> hd_wallet \<Rightarrow> u64 \<Rightarrow> RotateKeyArguments \<Rightarrow> DbSignatory \<Rightarrow> MintDb
     \<Rightarrow> (Error, SignatoryKeySet \<times> DbSignatory \<times> MintDb) outcome" where
  "rotate_keyset overflow_checks e bip now args sg db =
     and_then (case get_active_keyset_id (rk_unit args) db of
         Some current \<Rightarrow>
           and_then (ok_or (get_keyset_info current db) E_UnknownKeySet) (\<lambda>k.
           add_one overflow_checks (case mki_derivation_path_index k of Some i \<Rightarrow> i | None \<Rightarrow> 1))
       | None \<Rightarrow> Ok 1) (\<lambda>path_index.
     and_then (path_for (sg_custom_paths sg) (rk_unit args) path_index) (\<lambda>path.
     and_then (create_new_keyset e bip now (sg_xpriv sg) path (Some path_index) (rk_unit args)
         (rk_amounts args) (rk_input_fee_ppk args) None) (\<lambda>(keyset, info).
     and_then (map_err from_db (add_keyset_info info db)) (\<lambda>db1.
     and_then (map_err from_db (set_active_keyset (rk_unit args) (mki_id info) db1)) (\<lambda>db2.
     and_then (reload_keys_from_db e bip db2 sg) (\<lambda>sg'.
     Ok (signatory_keyset (info, keyset), sg', db2)))))))"

section \<open>Starting the signatory\<close>

text \<open>The keysets of each unit, in the order the units first occur.\<close>

definition group_by_unit :: "MintKeySetInfo list \<Rightarrow> (CurrencyUnit \<times> MintKeySetInfo list) list" where
  "group_by_unit infos =
     map (\<lambda>u. (u, filter (\<lambda>k. mki_unit k = u) infos)) (remdups (map mki_unit infos))"

text \<open>Descending by index, the keysets without an index last; the sort is stable.\<close>

definition sort_by_index :: "MintKeySetInfo list \<Rightarrow> MintKeySetInfo list" where
  "sort_by_index = sort_key (\<lambda>k. case mki_derivation_path_index k of
     Some i \<Rightarrow> - int (unat i) | None \<Rightarrow> 1)"

type_synonym init_state = "MintDb \<times> (Id \<times> MintKeySet) list \<times> CurrencyUnit list"

definition init_unit ::
  "bool \<Rightarrow> externs \<Rightarrow> hd_wallet \<Rightarrow> u64 \<Rightarrow> Xpriv \<Rightarrow> (CurrencyUnit \<times> (u64 \<times> u8)) list
     \<Rightarrow> (CurrencyUnit \<times> DerivationPath) list \<Rightarrow> init_state \<Rightarrow> CurrencyUnit \<times> MintKeySetInfo list
     \<Rightarrow> (Error, init_state) outcome" where
  "init_unit overflow_checks e bip now xpriv supported_units custom_paths =
   (\<lambda>(db, active_keysets, active_units) (u, infos).
     let sorted = sort_by_index infos;
         indexed = filter (\<lambda>k. mki_derivation_path_index k \<noteq> None) sorted in
     and_then (expect (case sorted of k # _ \<Rightarrow> Some k | [] \<Rightarrow> None)) (\<lambda>highest.
     case map_of supported_units u of
       None \<Rightarrow> Ok (db, active_keysets, active_units)
     | Some (input_fee_ppk, max_order) \<Rightarrow>
         if indexed \<noteq> [] \<and> mki_input_fee_ppk highest = input_fee_ppk
            \<and> length (mki_amounts highest) = unat max_order
         then let i = mki_id highest in
           and_then (generate_from_xpriv e bip xpriv (mki_amounts highest) (mki_unit highest)
               (mki_derivation_path highest) (mki_final_expiry highest) Version00) (\<lambda>keyset.
           and_then (map_err from_db (add_keyset_info (highest\<lparr>mki_active := True\<rparr>) db)) (\<lambda>db1.
           and_then (map_err from_db (set_active_keyset u i db1)) (\<lambda>db2.
           Ok (db2, AList.update i keyset active_keysets, active_units @ [u]))))
         else
           and_then (if indexed = [] then Ok 1
               else add_one overflow_checks (case mki_derivation_path_index highest of Some i \<Rightarrow> i | None \<Rightarrow> 0))
             (\<lambda>path_index.
           and_then (path_for custom_paths u path_index) (\<lambda>path.
           and_then (create_new_keyset e bip now xpriv path (Some path_index) u (mki_amounts highest)
               input_fee_ppk None) (\<lambda>(keyset, info).
           and_then (map_err from_db (add_keyset_info info db)) (\<lambda>db1.
           and_then (map_err from_db (set_active_keyset u (mki_id info) db1)) (\<lambda>db2.
           Ok (db2, AList.update (mki_id info) keyset active_keysets, active_units @ [u]))))))))"

definition init_keysets ::
  "bool \<Rightarrow> externs \<Rightarrow> hd_wallet \<Rightarrow> u64 \<Rightarrow> Xpriv \<Rightarrow> (CurrencyUnit \<times> (u64 \<times> u8)) list
     \<Rightarrow> (CurrencyUnit \<times> DerivationPath) list \<Rightarrow> MintDb \<Rightarrow> (Error, init_state) outcome" where
  "init_keysets overflow_checks e bip now xpriv supported_units custom_paths db =
     (let infos = get_keyset_infos db in
      if infos = [] then Ok (db, [], [])
      else
        and_then (map_err from_db
            (try_fold (\<lambda>d k. add_keyset_info (k\<lparr>mki_active := False\<rparr>) d) db infos)) (\<lambda>db1.
        try_fold (init_unit overflow_checks e bip now xpriv supported_units custom_paths)
          (db1, [], []) (group_by_unit infos)))"

text \<open>\<open>(0..max_order).map(|i| 2_u64.pow(i))\<close>: with overflow checks an order above 64 panics.\<close>

definition order_amounts :: "bool \<Rightarrow> u8 \<Rightarrow> ('e, u64 list) outcome" where
  "order_amounts overflow_checks max_order =
     (if overflow_checks \<and> 64 < unat max_order then Panic
      else Ok (map (\<lambda>i. 2 ^ i) [0 ..< unat max_order]))"

definition new_unit ::
  "bool \<Rightarrow> externs \<Rightarrow> hd_wallet \<Rightarrow> u64 \<Rightarrow> Xpriv \<Rightarrow> (CurrencyUnit \<times> DerivationPath) list \<Rightarrow> CurrencyUnit list
     \<Rightarrow> MintDb \<Rightarrow> CurrencyUnit \<times> (u64 \<times> u8) \<Rightarrow> (Error, MintDb) outcome" where
  "new_unit overflow_checks e bip now xpriv custom_paths active_units db = (\<lambda>(u, (input_fee, max_order)).
     if u \<in> set active_units then Ok db
     else
       and_then (path_for custom_paths u 0) (\<lambda>path.
       and_then (order_amounts overflow_checks max_order) (\<lambda>amts.
       and_then (create_new_keyset e bip now xpriv path (Some 0) u amts input_fee None) (\<lambda>(keyset, info).
       and_then (map_err from_db (add_keyset_info info db)) (\<lambda>db1.
       map_err from_db (set_active_keyset u (mki_id info) db1))))))"

definition signatory_new ::
  "bool \<Rightarrow> externs \<Rightarrow> hd_wallet \<Rightarrow> u64 \<Rightarrow> Xpriv \<Rightarrow> (CurrencyUnit \<times> (u64 \<times> u8)) list
     \<Rightarrow> (CurrencyUnit \<times> DerivationPath) list \<Rightarrow> MintDb \<Rightarrow> (Error, DbSignatory \<times> MintDb) outcome" where
  "signatory_new overflow_checks e bip now xpriv supported_units custom_paths db =
     and_then (init_keysets overflow_checks e bip now xpriv supported_units custom_paths db)
       (\<lambda>(db1, _, active_units).
     let supported = (if Auth \<in> fst ` set supported_units then supported_units
                      else supported_units @ [(Auth, (0, 1))]) in
     and_then (try_fold (new_unit overflow_checks e bip now xpriv custom_paths active_units) db1 supported) (\<lambda>db2.
     and_then (reload_keys_from_db e bip db2
         \<lparr>sg_keysets = [], sg_active_keysets = [], sg_custom_paths = custom_paths, sg_xpriv = xpriv\<rparr>) (\<lambda>sg.
     Ok (sg, db2))))"

section \<open>Key pairs\<close>

lemma btree_insert_lookup [simp]: "map_of (btree_insert k v m) = (map_of m)(k \<mapsto> v)"
  by (induction k v m rule: btree_insert.induct) auto

text \<open>Every public key of a keyset is the one of its secret key.\<close>

definition key_pairs_ok :: "externs \<Rightarrow> MintKeySet \<Rightarrow> bool" where
  "key_pairs_ok e ks \<longleftrightarrow> (\<forall>(a, kp) \<in> set (mk_keys ks). kp_public_key kp = sk_public_key e (kp_secret_key kp))"

lemma btree_insert_set: "set (btree_insert k v m) \<subseteq> insert (k, v) (set m)"
  by (induction k v m rule: btree_insert.induct) auto

lemma generate_key_pairs:
  assumes "generate e bip x u amts expiry v = (Ok ks :: ('e, MintKeySet) outcome)"
  shows "key_pairs_ok e ks" "mk_unit ks = u" "mk_final_expiry ks = expiry"
proof -
  let ?I = "\<lambda>m. \<forall>(a, kp) \<in> set m. kp_public_key kp = sk_public_key e (kp_secret_key kp)"
  from assms obtain keys i where
    run: "try_fold (derive_key e bip x) [] (List.enumerate 0 amts) = (Ok keys :: ('e, MintKeys) outcome)"
    and ks: "ks = \<lparr>mk_id = i, mk_unit = u, mk_keys = keys, mk_final_expiry = expiry\<rparr>"
    by (auto simp: generate_def)
  have "?I keys"
  proof (rule try_fold_invariant [OF run, where I = ?I])
    fix s p s'
    assume "?I s" "derive_key e bip x s p = (Ok s' :: ('e, MintKeys) outcome)"
    then show "?I s'"
      using btree_insert_set by (fastforce simp: derive_key_def Let_def split: prod.splits)
  qed simp
  then show "key_pairs_ok e ks" "mk_unit ks = u" "mk_final_expiry ks = expiry"
    by (simp_all add: key_pairs_ok_def ks)
qed

section \<open>Signatures are honoured\<close>

text \<open>An output of a wallet: its blinded message is the secret blinded with the factor.\<close>

definition blinds :: "externs \<Rightarrow> curve \<Rightarrow> BlindedMessage \<Rightarrow> string \<Rightarrow> SecretKey \<Rightarrow> bool" where
  "blinds e k m s r \<longleftrightarrow> is_scalar k r \<and> blind_message e r (as_bytes s) (Some r) = Ok (blinded_secret m, r)"

definition scalar_keys :: "curve \<Rightarrow> MintKeySet \<Rightarrow> bool" where
  "scalar_keys k ks \<longleftrightarrow> (\<forall>(a, kp) \<in> set (mk_keys ks). is_scalar k (kp_secret_key kp))"

lemma public_keys_lookup:
  "map_of (public_keys keys) a = map_option kp_public_key (map_of keys a)"
  by (induction keys) (auto simp: public_keys_def)

lemma signed_output_verifies:
  assumes "secp_laws e k" "map_of (sg_keysets sg) (bm_keyset_id m) = Some (info, key)"
    and "key_pairs_ok e key" "scalar_keys k key" "is_scalar k n" "blinds e k m s r"
    and "sign_one e sg n m = Ok bs"
  obtains p where "construct_proof e (public_keys (mk_keys key)) ((bs, r), s) = Ok p"
    and "amount p = bm_amount m" "verify_one e sg p = Ok ()"
proof -
  from assms(2,7) obtain kp c where kp: "map_of (mk_keys key) (bm_amount m) = Some kp"
    and c: "sign_message e (kp_secret_key kp) (blinded_secret m) = Ok c"
    and bs: "blind_signature_new e n (bm_amount m) c (bm_keyset_id m) (blinded_secret m)
               (kp_secret_key kp) = Ok bs"
    by (auto simp: sign_one_def)
  have "(bm_amount m, kp) \<in> set (mk_keys key)" using kp by (rule map_of_SomeD)
  with assms(3,4) have "kp_public_key kp = sk_public_key e (kp_secret_key kp)" "is_scalar k (kp_secret_key kp)"
    by (auto simp: key_pairs_ok_def scalar_keys_def)
  moreover from bs have bs': "bs_amount bs = bm_amount m" "bs_keyset_id bs = bm_keyset_id m"
    by (auto simp: blind_signature_new_def)
  moreover have "blind_message e n (as_bytes s) (Some r) = Ok (blinded_secret m, r)"
    using assms(6) by (simp add: blinds_def blind_message_def)
  ultimately have "promised e k (public_keys (mk_keys key)) ((bs, r), s) (kp_secret_key kp)"
    using kp c bs assms(5,6) by (auto simp: promised_def public_keys_lookup blinds_def)
  from construct_proof_accepted [OF assms(1) this] obtain p where
    "construct_proof e (public_keys (mk_keys key)) ((bs, r), s) = Ok p"
    "verify_message e (kp_secret_key kp) (proof_c p) (as_bytes (secret p)) = Ok ()"
    "amount p = bm_amount m" "keyset_id p = bm_keyset_id m" using bs' by auto
  then show thesis using that assms(2) kp by (simp add: verify_one_def)
qed

text \<open>
  C27: The signatory honours its signatures: the proofs a wallet makes of the signatures on its
  outputs, with the public keys of the keyset, have the amounts of the outputs and are accepted.
\<close>

theorem signatures_honoured:
  assumes "secp_laws e k" "map_of (sg_keysets sg) i = Some (info, key)"
    and "key_pairs_ok e key" "scalar_keys k key" "length ns = length msgs" "\<forall>n \<in> set ns. is_scalar k n"
    and "\<forall>m \<in> set msgs. bm_keyset_id m = i"
    and "length ss = length msgs" "length rs = length msgs"
    and "\<forall>j < length msgs. blinds e k (msgs ! j) (ss ! j) (rs ! j)"
    and "blind_sign e sg ns msgs = Ok sigs"
  shows "\<exists>ps. construct_proofs e sigs rs ss (public_keys (mk_keys key)) = Ok ps
           \<and> map amount ps = map bm_amount msgs \<and> signatory_verify_proofs e sg ps = Ok ()"
  using assms(5-)
proof (induction msgs arbitrary: ns ss rs sigs)
  case Nil
  then show ?case by (simp add: construct_proofs_def blind_sign_def signatory_verify_proofs_def)
next
  case (Cons m msgs)
  then obtain n ns' s ss' r rs' where eq: "ns = n # ns'" "ss = s # ss'" "rs = r # rs'"
    by (auto simp: length_Suc_conv)
  with Cons.prems obtain bs sigs' where sigs: "sigs = bs # sigs'" "sign_one e sg n m = Ok bs"
    "blind_sign e sg ns' msgs = Ok sigs'" by (auto simp: blind_sign_def)
  have "blinds e k m s r" using Cons.prems eq by force
  with Cons.prems eq sigs(2) obtain p where p: "construct_proof e (public_keys (mk_keys key)) ((bs, r), s) = Ok p"
    "amount p = bm_amount m" "verify_one e sg p = Ok ()"
    using signed_output_verifies [OF assms(1) _ assms(3,4), of sg m info n s r bs] assms(2) by auto
  have "\<forall>j < length msgs. blinds e k (msgs ! j) (ss' ! j) (rs' ! j)" using Cons.prems eq by force
  with Cons.IH [of ns' ss' rs' sigs'] Cons.prems eq sigs(3) obtain ps where
    "construct_proofs e sigs' rs' ss' (public_keys (mk_keys key)) = Ok ps"
    "map amount ps = map bm_amount msgs" "signatory_verify_proofs e sg ps = Ok ()" by auto
  with p eq sigs(1) Cons.prems show ?case
    by (intro exI [of _ "p # ps"])
       (auto simp: construct_proofs_def signatory_verify_proofs_def split: if_splits)
qed

definition demo_sign_keyset :: MintKeySet where
  "demo_sign_keyset = \<lparr>mk_id = example_id, mk_unit = Sat,
     mk_keys = [(8, \<lparr>kp_public_key = [2, 3], kp_secret_key = [3]\<rparr>)], mk_final_expiry = None\<rparr>"

definition demo_sign_info :: MintKeySetInfo where
  "demo_sign_info = \<lparr>mki_id = example_id, mki_unit = Sat, mki_active = True, mki_valid_from = 0,
     mki_derivation_path = [], mki_derivation_path_index = Some 0, mki_max_order = 0,
     mki_amounts = [8], mki_input_fee_ppk = 0, mki_final_expiry = None\<rparr>"

definition demo_signer :: DbSignatory where
  "demo_signer = \<lparr>sg_keysets = [(example_id, (demo_sign_info, demo_sign_keyset))],
     sg_active_keysets = [(Sat, example_id)], sg_custom_paths = [], sg_xpriv = []\<rparr>"

definition demo_message :: BlindedMessage where
  "demo_message = \<lparr>bm_amount = 8, bm_keyset_id = example_id, blinded_secret = [2, 3], bm_witness = None\<rparr>"

lemma demo_signer_signs: "blind_sign toy_externs demo_signer [[1]] [demo_message]
    = Ok [\<lparr>bs_amount = 8, bs_keyset_id = example_id, bs_c = [2, 4],
           bs_dleq = Some \<lparr>dleq_e = [1], dleq_s = [4]\<rparr>\<rparr>]"
  by (simp add: blind_sign_def sign_one_def demo_signer_def demo_sign_info_def demo_sign_keyset_def
      demo_message_def toy_defs sign_message_def blind_signature_new_def calculate_dleq_def hash_e_def)

theorem signatures_honoured_witness:
  "\<exists>ps. construct_proofs toy_externs [\<lparr>bs_amount = 8, bs_keyset_id = example_id, bs_c = [2, 4],
           bs_dleq = Some \<lparr>dleq_e = [1], dleq_s = [4]\<rparr>\<rparr>] [[2]] [''secret'']
           (public_keys (mk_keys demo_sign_keyset)) = Ok ps
     \<and> map amount ps = [8] \<and> signatory_verify_proofs toy_externs demo_signer ps = Ok ()"
  using signatures_honoured [OF toy_secp_laws _ _ _ _ _ _ _ _ _ demo_signer_signs, where i = example_id and
      info = demo_sign_info and key = demo_sign_keyset and ss = "[''secret'']" and rs = "[[2]]"]
  by (simp add: demo_signer_def demo_message_def key_pairs_ok_def scalar_keys_def blinds_def
      demo_sign_keyset_def toy_defs blind_message_def hash_to_curve_def hash_to_curve_from.simps)

section \<open>Reloading\<close>

text \<open>Without a failing database, reloading yields exactly the keysets of the database.\<close>

lemma reload_lookup:
  assumes "try_fold (reload_step e bip act) sg infos = Ok sg'" "distinct (map mki_id infos)"
  shows "sg_xpriv sg' = sg_xpriv sg \<and> sg_custom_paths sg' = sg_custom_paths sg
    \<and> (\<forall>i. map_of (sg_keysets sg') i =
        (case map_of (map (\<lambda>k. (mki_id k, k)) infos) i of
           None \<Rightarrow> map_of (sg_keysets sg) i
         | Some k \<Rightarrow> map_option (\<lambda>ks. (k\<lparr>mki_active := (map_of act (mki_unit k) = Some i)\<rparr>, ks))
             (ok (generate_keyset e bip (sg_xpriv sg) k :: (Error, MintKeySet) outcome))))
    \<and> (\<forall>k \<in> set infos. is_ok (generate_keyset e bip (sg_xpriv sg) k :: (Error, MintKeySet) outcome))"
  using assms
proof (induction infos arbitrary: sg)
  case Nil
  then show ?case by simp
next
  case (Cons k infos)
  from Cons.prems(1) obtain s1 where s1: "reload_step e bip act sg k = Ok s1"
    and rest: "try_fold (reload_step e bip act) s1 infos = Ok sg'" by auto
  from s1 obtain ks where ks: "generate_keyset e bip (sg_xpriv sg) k = (Ok ks :: (Error, MintKeySet) outcome)"
    by (auto simp: reload_step_def Let_def)
  let ?k = "k\<lparr>mki_active := (map_of act (mki_unit k) = Some (mki_id k))\<rparr>"
  from s1 ks have s1': "sg_xpriv s1 = sg_xpriv sg" "sg_custom_paths s1 = sg_custom_paths sg"
    "sg_keysets s1 = AList.update (mki_id k) (?k, ks) (sg_keysets sg)"
    by (auto simp: reload_step_def Let_def)
  have "map_of (map (\<lambda>k. (mki_id k, k)) infos) (mki_id k) = None"
    using Cons.prems(2) by (auto simp: map_of_eq_None_iff)
  with Cons.IH [OF rest] Cons.prems(2) s1' ks show ?case
    by (auto simp: update_conv' split: option.splits)
qed

lemma reload_total:
  assumes "\<forall>k \<in> set (get_keyset_infos db). is_ok (generate_keyset e bip (sg_xpriv sg) k :: (Error, MintKeySet) outcome)"
  shows "\<exists>sg'. reload_keys_from_db e bip db sg = Ok sg'"
proof -
  have "\<exists>sg'. try_fold (reload_step e bip act) s infos = Ok sg'"
    if "\<forall>k \<in> set infos. is_ok (generate_keyset e bip (sg_xpriv s) k :: (Error, MintKeySet) outcome)"
    for infos s and act :: "(CurrencyUnit \<times> Id) list"
    using that
  proof (induction infos arbitrary: s)
    case (Cons k infos)
    then obtain ks where "generate_keyset e bip (sg_xpriv s) k = (Ok ks :: (Error, MintKeySet) outcome)"
      by (auto simp: is_ok_iff)
    then obtain s1 where "reload_step e bip act s k = Ok s1" "sg_xpriv s1 = sg_xpriv s"
      by (auto simp: reload_step_def Let_def)
    with Cons show ?case by auto
  qed simp
  with assms show ?thesis by (simp add: reload_keys_from_db_def)
qed

section \<open>Rotation\<close>

text \<open>The rows of the table of keysets are stored under their own identifier.\<close>

definition keyset_rows_ok :: "MintDb \<Rightarrow> bool" where
  "keyset_rows_ok db \<longleftrightarrow> keyed (keyset_tbl db) \<and> (\<forall>(i, k) \<in> set (keyset_tbl db). mki_id k = i)"

lemma keyset_rows_ids: "keyset_rows_ok db \<Longrightarrow> map mki_id (get_keyset_infos db) = map fst (keyset_tbl db)"
  by (auto simp: keyset_rows_ok_def get_keyset_infos_def)

lemma keyset_rows_lookup:
  assumes "keyset_rows_ok db"
  shows "map_of (map (\<lambda>k. (mki_id k, k)) (get_keyset_infos db)) i = map_of (keyset_tbl db) i"
proof -
  have "map ((\<lambda>k. (mki_id k, k)) \<circ> snd) (keyset_tbl db) = keyset_tbl db"
    by (rule map_idI) (use assms in \<open>auto simp: keyset_rows_ok_def\<close>)
  then show ?thesis by (simp add: get_keyset_infos_def)
qed

lemma add_keyset_info_rows:
  assumes "keyset_rows_ok db" "add_keyset_info k db = Ok db'"
  shows "keyset_rows_ok db'"
    and "map_of (keyset_tbl db') i = (if i = mki_id k then Some k else map_of (keyset_tbl db) i)"
proof -
  have rows: "keyed (keyset_tbl db)" "\<And>i k. (i, k) \<in> set (keyset_tbl db) \<Longrightarrow> mki_id k = i"
    using assms(1) by (auto simp: keyset_rows_ok_def)
  have "keyed (keyset_tbl db')"
    using assms(2) rows(1) by (auto simp: add_keyset_info_def keys_of_def split: if_splits)
  moreover have "\<forall>(i, k) \<in> set (keyset_tbl db'). mki_id k = i"
    using assms(2) rows(2) by (auto simp: add_keyset_info_def update_where_def split: if_splits)
  ultimately show "keyset_rows_ok db'" by (simp add: keyset_rows_ok_def)
  show "map_of (keyset_tbl db') i = (if i = mki_id k then Some k else map_of (keyset_tbl db) i)"
  proof (cases "mki_id k \<in> keys_of (keyset_tbl db)")
    case True
    then obtain v where v: "map_of (keyset_tbl db) (mki_id k) = Some v" unfolding keys_of_iff by blast
    from True assms(2) have "keyset_tbl db' = update_where (\<lambda>i _. i = mki_id k) (\<lambda>_. k) (keyset_tbl db)"
      by (auto simp: add_keyset_info_def)
    with v show ?thesis by (cases "map_of (keyset_tbl db) i") (auto simp: update_where_lookup)
  next
    case False
    then have "map_of (keyset_tbl db) (mki_id k) = None" by (simp add: map_of_None_keys)
    moreover from False assms(2) have "keyset_tbl db' = keyset_tbl db @ [(mki_id k, k)]"
      by (auto simp: add_keyset_info_def)
    ultimately show ?thesis by (cases "map_of (keyset_tbl db) i") (auto simp: map_add_def)
  qed
qed

lemma set_active_keyset_rows:
  assumes "keyset_rows_ok db" "set_active_keyset u i db = Ok db'"
  shows "keyset_rows_ok db'"
    and "map_of (keyset_tbl db') j = map_option (\<lambda>k.
        if unit_to_string (mki_unit k) = unit_to_string u then k\<lparr>mki_active := (j = i)\<rparr> else k)
        (map_of (keyset_tbl db) j)"
proof -
  from assms(2) have t: "keyset_tbl db' = update_where
      (\<lambda>j k. unit_to_string (mki_unit k) = unit_to_string u \<and> j = i) (\<lambda>k. k\<lparr>mki_active := True\<rparr>)
        (update_where (\<lambda>_ k. unit_to_string (mki_unit k) = unit_to_string u) (\<lambda>k. k\<lparr>mki_active := False\<rparr>)
          (keyset_tbl db))"
    by (auto simp: set_active_keyset_def)
  have "\<forall>(j, k) \<in> set (keyset_tbl db'). mki_id k = j"
    using assms(1) unfolding t update_where_def keyset_rows_ok_def by auto
  moreover have "keyed (keyset_tbl db')" using assms(1) by (simp add: t keyset_rows_ok_def)
  ultimately show "keyset_rows_ok db'" by (simp add: keyset_rows_ok_def)
  show "map_of (keyset_tbl db') j = map_option (\<lambda>k.
        if unit_to_string (mki_unit k) = unit_to_string u then k\<lparr>mki_active := (j = i)\<rparr> else k)
        (map_of (keyset_tbl db) j)"
    unfolding t update_where_lookup by (cases "map_of (keyset_tbl db) j") auto
qed

text \<open>A unit whose active keysets all have one identifier is mapped to it.\<close>

lemma active_keysets_unique:
  assumes "(i, k) \<in> set (keyset_tbl db)" "mki_active k" "mki_unit k = u"
    and "\<And>j l. (j, l) \<in> set (keyset_tbl db) \<Longrightarrow> mki_active l \<Longrightarrow> mki_unit l = u \<Longrightarrow> j = i"
  shows "map_of (get_active_keysets db) u = Some i"
proof -
  have gen: "map_of (fold (\<lambda>(i, k). AList.update (mki_unit k) i) rows m) u
      = (if \<exists>(j, l) \<in> set rows. mki_unit l = u then Some i else map_of m u)"
    if "\<forall>(j, l) \<in> set rows. mki_unit l = u \<longrightarrow> j = i"
    for rows :: "(Id \<times> MintKeySetInfo) list" and m
    using that
  proof (induction rows arbitrary: m)
    case (Cons r rows)
    obtain j l where r: "r = (j, l)" by (cases r)
    from Cons.prems have "\<forall>(j, l) \<in> set rows. mki_unit l = u \<longrightarrow> j = i" by simp
    note IH = Cons.IH [OF this, of "AList.update (mki_unit l) j m"]
    show ?case using IH Cons.prems r by (cases "mki_unit l = u") (simp_all add: update_conv')
  qed simp
  let ?rows = "filter (\<lambda>(_, k). mki_active k) (keyset_tbl db)"
  have "\<forall>(j, l) \<in> set ?rows. mki_unit l = u \<longrightarrow> j = i"
    using assms(4) by (simp add: case_prod_unfold) (metis prod.collapse)
  moreover have "(i, k) \<in> set ?rows" using assms(1,2) by simp
  then have "\<exists>(j, l) \<in> set ?rows. mki_unit l = u" using assms(3) by fast
  ultimately show ?thesis unfolding get_active_keysets_def by (simp only: gen if_True)
qed

text \<open>What the signatory holds after loading a database.\<close>

abbreviation derived :: "externs \<Rightarrow> hd_wallet \<Rightarrow> Xpriv \<Rightarrow> MintKeySetInfo \<Rightarrow> MintKeySet option" where
  "derived e bip x k \<equiv> ok (generate_keyset e bip x k :: (Error, MintKeySet) outcome)"

lemma derived_active [simp]: "generate_keyset e bip x (k\<lparr>mki_active := b\<rparr>) = generate_keyset e bip x k"
  by (simp add: generate_keyset_def)

lemma reload_Ok:
  assumes "keyset_rows_ok db" "reload_keys_from_db e bip db sg = Ok sg'"
  shows "sg_xpriv sg' = sg_xpriv sg" "sg_custom_paths sg' = sg_custom_paths sg"
    and "map_of (sg_keysets sg') i = (case map_of (keyset_tbl db) i of
        None \<Rightarrow> None
      | Some k \<Rightarrow> map_option
          (\<lambda>ks. (k\<lparr>mki_active := (map_of (get_active_keysets db) (mki_unit k) = Some i)\<rparr>, ks))
          (derived e bip (sg_xpriv sg) k))"
    and "map_of (keyset_tbl db) i = Some k \<Longrightarrow> derived e bip (sg_xpriv sg) k \<noteq> None"
proof -
  have "distinct (map mki_id (get_keyset_infos db))"
    using assms(1) by (simp add: keyset_rows_ids) (simp add: keyset_rows_ok_def)
  note load = reload_lookup [OF assms(2) [unfolded reload_keys_from_db_def] this,
      unfolded keyset_rows_lookup [OF assms(1)]]
  from load show "sg_xpriv sg' = sg_xpriv sg" "sg_custom_paths sg' = sg_custom_paths sg"
    "map_of (sg_keysets sg') i = (case map_of (keyset_tbl db) i of
        None \<Rightarrow> None
      | Some k \<Rightarrow> map_option
          (\<lambda>ks. (k\<lparr>mki_active := (map_of (get_active_keysets db) (mki_unit k) = Some i)\<rparr>, ks))
          (derived e bip (sg_xpriv sg) k))"
    by (simp_all split: option.split)
  assume "map_of (keyset_tbl db) i = Some k"
  then have "(i, k) \<in> set (keyset_tbl db)" by (rule map_of_SomeD)
  then have "k \<in> set (get_keyset_infos db)" by (force simp: get_keyset_infos_def)
  with load show "derived e bip (sg_xpriv sg) k \<noteq> None" by (auto simp: is_ok_iff)
qed

lemma reload_again:
  assumes "sg_xpriv sg' = sg_xpriv sg" "sg_custom_paths sg' = sg_custom_paths sg"
  shows "reload_keys_from_db e bip db sg' = reload_keys_from_db e bip db sg"
proof -
  have "sg'\<lparr>sg_keysets := [], sg_active_keysets := []\<rparr> = sg\<lparr>sg_keysets := [], sg_active_keysets := []\<rparr>"
    using assms by (cases sg, cases sg') simp
  then show ?thesis by (simp add: reload_keys_from_db_def)
qed

lemma rotate_keyset_Ok:
  assumes "rotate_keyset oc e bip now args sg db = Ok (ks, sg', db')"
  obtains info keyset db1 where "add_keyset_info info db = Ok db1"
    "set_active_keyset (rk_unit args) (mki_id info) db1 = Ok db'"
    "reload_keys_from_db e bip db' sg = Ok sg'" "ks = signatory_keyset (info, keyset)"
    "mki_unit info = rk_unit args" "mki_amounts info = rk_amounts args" "mki_input_fee_ppk info = rk_input_fee_ppk args"
proof -
  from assms obtain path_index path keyset info db1 where
    cr: "create_new_keyset e bip now (sg_xpriv sg) path (Some path_index) (rk_unit args)
         (rk_amounts args) (rk_input_fee_ppk args) None = (Ok (keyset, info) :: (Error, _) outcome)"
    and rest: "add_keyset_info info db = Ok db1"
    "set_active_keyset (rk_unit args) (mki_id info) db1 = Ok db'"
    "reload_keys_from_db e bip db' sg = Ok sg'" "ks = signatory_keyset (info, keyset)"
    by (auto simp: rotate_keyset_def)
  from cr have "mki_unit info = rk_unit args" "mki_amounts info = rk_amounts args" "mki_input_fee_ppk info = rk_input_fee_ppk args"
    by (auto simp: create_new_keyset_def dest: generate_key_pairs)
  with rest that show thesis by blast
qed

lemma rotate_active:
  assumes "keyset_rows_ok db" "rotate_keyset oc e bip now args sg db = Ok (ks, sg', db')"
    and "map_of (sg_keysets sg') i = Some (info, key)" "mki_unit info = rk_unit args"
  shows "mki_active info \<longleftrightarrow> i = sks_id ks"
proof -
  from rotate_keyset_Ok [OF assms(2)] obtain new keyset db1 where
    r: "add_keyset_info new db = Ok db1" "set_active_keyset (rk_unit args) (mki_id new) db1 = Ok db'"
    "reload_keys_from_db e bip db' sg = Ok sg'" "ks = signatory_keyset (new, keyset)"
    and unit: "mki_unit new = rk_unit args" by blast
  note a = add_keyset_info_rows [OF assms(1) r(1)]
  note b = set_active_keyset_rows [OF a(1) r(2)]
  have id: "sks_id ks = mki_id new" by (simp add: r(4) signatory_keyset_def)
  have "map_of (get_active_keysets db') (rk_unit args) = Some (mki_id new)"
  proof (rule active_keysets_unique)
    show "(mki_id new, new\<lparr>mki_active := True\<rparr>) \<in> set (keyset_tbl db')"
      by (rule map_of_SomeD) (simp add: a(2) b(2) unit)
    fix j l assume "(j, l) \<in> set (keyset_tbl db')" "mki_active l" "mki_unit l = rk_unit args"
    moreover from this(1) b(1) have "map_of (keyset_tbl db') j = Some l"
      by (simp add: keyset_rows_ok_def map_of_is_SomeI)
    ultimately obtain k where "l = k\<lparr>mki_active := (j = mki_id new)\<rparr>"
      unfolding b(2) by (auto split: if_splits) metis
    with \<open>mki_active l\<close> show "j = mki_id new" by simp
  qed (simp_all add: unit)
  with assms(3,4) id reload_Ok(3) [OF b(1) r(3), of i] show ?thesis
    by (auto split: option.splits)
qed

lemma rotate_keeps_keys:
  assumes "keyset_rows_ok db" "reload_keys_from_db e bip db sg = Ok sg"
    and "rotate_keyset oc e bip now args sg db = Ok (ks, sg', db')" "i \<noteq> sks_id ks"
  shows "map_option snd (map_of (sg_keysets sg') i) = map_option snd (map_of (sg_keysets sg) i)"
proof -
  from rotate_keyset_Ok [OF assms(3)] obtain new keyset db1 where
    r: "add_keyset_info new db = Ok db1" "set_active_keyset (rk_unit args) (mki_id new) db1 = Ok db'"
    "reload_keys_from_db e bip db' sg = Ok sg'" "ks = signatory_keyset (new, keyset)" by blast
  note a = add_keyset_info_rows [OF assms(1) r(1)]
  note b = set_active_keyset_rows [OF a(1) r(2)]
  have "i \<noteq> mki_id new" using assms(4) by (simp add: r(4) signatory_keyset_def)
  with reload_Ok(3) [OF b(1) r(3), of i] reload_Ok(3) [OF assms(1,2), of i] show ?thesis
    by (cases "map_of (keyset_tbl db) i") (simp_all add: a(2) b(2) option.map_comp comp_def)
qed

text \<open>
  C28: After a rotation the signatory holds the new keyset, in the unit, with the amounts and with the
  fee that were asked for; it is active and no other keyset of that unit is. Rotation leaves every
  other keyset's keys as they were, so proofs of older keysets verify exactly as before; the
  signatory is again in step with the database.
\<close>

theorem rotate_keyset_effect:
  assumes "keyset_rows_ok db" "reload_keys_from_db e bip db sg = Ok sg"
    and "rotate_keyset oc e bip now args sg db = Ok (ks, sg', db')"
  shows "(\<exists>info key. map_of (sg_keysets sg') (sks_id ks) = Some (info, key) \<and> mki_unit info = rk_unit args
         \<and> mki_amounts info = rk_amounts args \<and> mki_input_fee_ppk info = rk_input_fee_ppk args \<and> mki_active info)
    \<and> (\<forall>i info key. map_of (sg_keysets sg') i = Some (info, key) \<and> mki_unit info = rk_unit args
         \<longrightarrow> (mki_active info \<longleftrightarrow> i = sks_id ks))
    \<and> (\<forall>p. keyset_id p \<noteq> sks_id ks \<longrightarrow> verify_one e sg' p = verify_one e sg p)
    \<and> keyset_rows_ok db' \<and> reload_keys_from_db e bip db' sg' = Ok sg'"
proof (intro conjI allI impI)
  from rotate_keyset_Ok [OF assms(3)] obtain new keyset db1 where
    r: "add_keyset_info new db = Ok db1" "set_active_keyset (rk_unit args) (mki_id new) db1 = Ok db'"
    "reload_keys_from_db e bip db' sg = Ok sg'" "ks = signatory_keyset (new, keyset)"
    and new: "mki_unit new = rk_unit args" "mki_amounts new = rk_amounts args" "mki_input_fee_ppk new = rk_input_fee_ppk args"
    by blast
  note a = add_keyset_info_rows [OF assms(1) r(1)]
  note b = set_active_keyset_rows [OF a(1) r(2)]
  show "keyset_rows_ok db'" by (rule b(1))
  show "reload_keys_from_db e bip db' sg' = Ok sg'"
    using reload_again [OF reload_Ok(1,2) [OF b(1) r(3)]] r(3) by simp
  have k: "map_of (keyset_tbl db') (sks_id ks) = Some (new\<lparr>mki_active := True\<rparr>)"
    by (simp add: a(2) b(2) r(4) signatory_keyset_def new(1))
  with reload_Ok(3,4) [OF b(1) r(3), of "sks_id ks"] obtain act key where
    entry: "map_of (sg_keysets sg') (sks_id ks) = Some (new\<lparr>mki_active := act\<rparr>, key)" by auto
  with rotate_active [OF assms(1,3) entry] new
  show "\<exists>info key. map_of (sg_keysets sg') (sks_id ks) = Some (info, key) \<and> mki_unit info = rk_unit args
      \<and> mki_amounts info = rk_amounts args \<and> mki_input_fee_ppk info = rk_input_fee_ppk args \<and> mki_active info" by auto
next
  fix i info key
  assume "map_of (sg_keysets sg') i = Some (info, key) \<and> mki_unit info = rk_unit args"
  then show "mki_active info \<longleftrightarrow> i = sks_id ks" using rotate_active [OF assms(1,3)] by blast
next
  fix p :: Proof assume "keyset_id p \<noteq> sks_id ks"
  from rotate_keeps_keys [OF assms this] show "verify_one e sg' p = verify_one e sg p"
    by (cases "map_of (sg_keysets sg) (keyset_id p)"; cases "map_of (sg_keysets sg') (keyset_id p)")
       (auto simp: verify_one_def)
qed

text \<open>
  With a custom derivation path, rotation does not change the keys: for the same amounts the
  path does not depend on the rotation index, so the rotated keyset has the identifier and the
  keys of the keyset it replaces.
\<close>

theorem rotate_custom_path_same_keys:
  assumes "map_of (sg_custom_paths sg) (rk_unit args) = Some path"
    and "mki_derivation_path k = path" "mki_amounts k = rk_amounts args" "mki_unit k = rk_unit args"
    and "mki_final_expiry k = None" "version (mki_id k) = Version00"
    and "derived e bip (sg_xpriv sg) k = Some old" "mk_id old = mki_id k"
    and "rotate_keyset oc e bip now args sg db = Ok (ks, sg', db')"
  shows "sks_id ks = mki_id k \<and> sks_keys ks = public_keys (mk_keys old)"
proof -
  from assms(9,1) obtain path_index keyset info where
    cr: "create_new_keyset e bip now (sg_xpriv sg) path (Some path_index) (rk_unit args)
         (rk_amounts args) (rk_input_fee_ppk args) None = (Ok (keyset, info) :: (Error, _) outcome)"
    and ks: "ks = signatory_keyset (info, keyset)"
    by (auto simp: rotate_keyset_def path_for_def)
  from cr assms(2-7) have "keyset = old" "mki_id info = mk_id keyset"
    by (auto simp: create_new_keyset_def generate_keyset_def generate_from_xpriv_def)
  with assms(8) ks show ?thesis by (simp add: signatory_keyset_def)
qed

text \<open>A signatory with one keyset, in step with its database.\<close>

definition demo_sig_externs :: externs where
  "demo_sig_externs = toy_externs\<lparr>sha256 := (\<lambda>b. take 32 (b @ replicate 32 0))\<rparr>"

definition demo_wallet :: hd_wallet where
  "demo_wallet = \<lparr>hd_derive = (\<lambda>x p. Some (x @ map ucast p)), hd_private_key = (\<lambda>x. x)\<rparr>"

definition demo_keyset_id :: Id where
  "demo_keyset_id = \<lparr>version = Version00, id_bytes = V1 [2, 9, 0, 0, 0, 0, 0]\<rparr>"

definition demo_info :: MintKeySetInfo where
  "demo_info = \<lparr>mki_id = demo_keyset_id, mki_unit = Sat, mki_active = True, mki_valid_from = 0,
     mki_derivation_path = [], mki_derivation_path_index = Some 0, mki_max_order = 0,
     mki_amounts = [1], mki_input_fee_ppk = 0, mki_final_expiry = None\<rparr>"

definition demo_keyset :: MintKeySet where
  "demo_keyset = \<lparr>mk_id = demo_keyset_id, mk_unit = Sat,
     mk_keys = [(1, \<lparr>kp_public_key = [2, 9, 0], kp_secret_key = [9, 0]\<rparr>)], mk_final_expiry = None\<rparr>"

definition demo_signatory :: "(CurrencyUnit \<times> DerivationPath) list \<Rightarrow> DbSignatory" where
  "demo_signatory paths = \<lparr>sg_keysets = [(demo_keyset_id, (demo_info, demo_keyset))],
     sg_active_keysets = [(Sat, demo_keyset_id)], sg_custom_paths = paths, sg_xpriv = [9]\<rparr>"

definition demo_keys_db :: MintDb where
  "demo_keys_db = empty_db\<lparr>keyset_tbl := [(demo_keyset_id, demo_info)]\<rparr>"

definition demo_args :: RotateKeyArguments where
  "demo_args = \<lparr>rk_unit = Sat, rk_amounts = [1], rk_input_fee_ppk = 100\<rparr>"

definition demo_id_of :: "PublicKey \<Rightarrow> Id" where
  "demo_id_of pk = \<lparr>version = Version00, id_bytes = V1 (take 7 (take 32 (pk @ replicate 32 0)))\<rparr>"

definition demo_generated :: "DerivationPath \<Rightarrow> MintKeySet" where
  "demo_generated path = (let sk = 9 # map ucast path @ [0] in
     \<lparr>mk_id = demo_id_of (2 # sk), mk_unit = Sat,
      mk_keys = [(1, \<lparr>kp_public_key = 2 # sk, kp_secret_key = sk\<rparr>)], mk_final_expiry = None\<rparr>)"

lemma demo_id:
  "v1_from_keys (sha256 demo_sig_externs) [(1, pk)] = Ok (demo_id_of pk)"
  by (subst v1_from_keys_eq) (simp_all add: demo_sig_externs_def pubkeys_concat_def demo_id_of_def)

lemma demo_derive:
  "derive_key demo_sig_externs demo_wallet x [] (0, 1)
     = Ok [(1, \<lparr>kp_public_key = 2 # x @ [0], kp_secret_key = x @ [0]\<rparr>)]"
  by (simp add: derive_key_def hardened_def demo_wallet_def demo_sig_externs_def toy_externs_def)

lemma demo_generate:
  "generate_from_xpriv demo_sig_externs demo_wallet [9] [1] Sat path None Version00
     = Ok (demo_generated path)"
proof -
  have "hd_derive demo_wallet [9] path = Some (9 # map ucast path)" by (simp add: demo_wallet_def)
  then show ?thesis
    using demo_id [of "2 # (9 # map ucast path) @ [0]"]
    by (simp add: generate_from_xpriv_def generate_def demo_derive demo_generated_def Let_def public_keys_def)
qed

lemma demo_in_step:
  "reload_keys_from_db demo_sig_externs demo_wallet demo_keys_db (demo_signatory paths) = Ok (demo_signatory paths)"
  by (simp add: reload_keys_from_db_def reload_step_def demo_signatory_def demo_keys_db_def demo_info_def
      generate_keyset_def get_keyset_infos_def get_active_keysets_def demo_keyset_id_def demo_generate
      demo_generated_def demo_id_of_def demo_keyset_def Let_def numeral_eq_Suc)

lemma demo_rows: "keyset_rows_ok demo_keys_db"
  by (simp add: keyset_rows_ok_def demo_keys_db_def demo_info_def)

lemma demo_create:
  "create_new_keyset demo_sig_externs demo_wallet now [9] path pidx Sat [1] 100 None
     = Ok (demo_generated path, demo_info\<lparr>mki_id := mk_id (demo_generated path), mki_valid_from := now,
         mki_derivation_path := path, mki_derivation_path_index := pidx, mki_input_fee_ppk := 100\<rparr>)"
  using demo_generate [of path]
  by (auto simp: create_new_keyset_def generate_from_xpriv_def demo_info_def demo_generated_def Let_def)

lemma demo_rotates:
  assumes "path_for paths Sat 1 = Ok path"
  shows "\<exists>ks sg' db'. rotate_keyset True demo_sig_externs demo_wallet 0 demo_args (demo_signatory paths) demo_keys_db
     = Ok (ks, sg', db') \<and> sks_id ks = mk_id (demo_generated path)"
proof -
  let ?new = "demo_info\<lparr>mki_id := mk_id (demo_generated path), mki_valid_from := 0,
         mki_derivation_path := path, mki_derivation_path_index := Some 1, mki_input_fee_ppk := 100\<rparr>"
  let ?P = "\<lambda>k. mki_amounts k = [1] \<and> mki_unit k = Sat \<and> mki_final_expiry k = None \<and> version (mki_id k) = Version00"
  have idx: "add_one True 0 = (Ok 1 :: (Error, u32) outcome)"
    by (simp add: add_one_def checked_add_def)
  have "?P demo_info" "?P ?new"
    by (simp_all add: demo_info_def demo_keyset_id_def demo_generated_def demo_id_of_def Let_def)
  moreover have "\<exists>db1. add_keyset_info ?new demo_keys_db = Ok db1" by (simp add: add_keyset_info_def)
  then obtain db1 where db1: "add_keyset_info ?new demo_keys_db = Ok db1" ..
  have "\<exists>db2. set_active_keyset Sat (mki_id ?new) db1 = Ok db2" by (simp add: set_active_keyset_def)
  then obtain db2 where db2: "set_active_keyset Sat (mki_id ?new) db1 = Ok db2" ..
  ultimately have "\<forall>k \<in> set (get_keyset_infos db2). ?P k"
    using db1 db2 by (auto simp: add_keyset_info_def set_active_keyset_def update_where_def
        demo_keys_db_def get_keyset_infos_def split: if_splits)
  then have "\<exists>sg'. reload_keys_from_db demo_sig_externs demo_wallet db2 (demo_signatory paths) = Ok sg'"
    by (intro reload_total) (simp add: demo_generate generate_keyset_def demo_signatory_def)
  then obtain sg' where "reload_keys_from_db demo_sig_externs demo_wallet db2 (demo_signatory paths) = Ok sg'" ..
  with db1 db2 assms idx show ?thesis
    by (simp add: rotate_keyset_def demo_args_def demo_signatory_def demo_create signatory_keyset_def)
       (simp add: get_active_keyset_id_def get_keyset_info_def demo_keys_db_def demo_info_def)
qed

theorem rotate_keyset_effect_witness:
  "\<exists>ks sg' db'. rotate_keyset True demo_sig_externs demo_wallet 0 demo_args (demo_signatory []) demo_keys_db
       = Ok (ks, sg', db')
     \<and> (\<exists>info key. map_of (sg_keysets sg') (sks_id ks) = Some (info, key) \<and> mki_unit info = Sat \<and> mki_active info)
     \<and> (\<forall>p. keyset_id p = demo_keyset_id
          \<longrightarrow> verify_one demo_sig_externs sg' p = verify_one demo_sig_externs (demo_signatory []) p)"
proof -
  let ?path = "[2147483648, 2147483648, 2147483649] :: u32 list"
  have "path_for [] Sat 1 = Ok ?path"
    by (simp add: path_for_def derivation_path_from_unit_def derivation_index_def hardened_def)
  from demo_rotates [OF this] obtain ks sg' db' where
    r: "rotate_keyset True demo_sig_externs demo_wallet 0 demo_args (demo_signatory []) demo_keys_db
       = Ok (ks, sg', db')" "sks_id ks = mk_id (demo_generated ?path)" by blast
  moreover have "mk_id (demo_generated ?path) \<noteq> demo_keyset_id"
    by (simp add: demo_generated_def demo_id_of_def demo_keyset_id_def Let_def)
  ultimately show ?thesis using rotate_keyset_effect [OF demo_rows demo_in_step r(1)]
    by (intro exI [of _ ks] exI [of _ sg'] exI [of _ db']) (auto simp: demo_args_def)
qed

theorem rotate_custom_path_same_keys_witness:
  "\<exists>ks sg' db'. rotate_keyset True demo_sig_externs demo_wallet 0 demo_args (demo_signatory [(Sat, [])])
       demo_keys_db = Ok (ks, sg', db')
     \<and> sks_id ks = demo_keyset_id \<and> sks_keys ks = public_keys (mk_keys demo_keyset)"
proof -
  have "path_for [(Sat, [])] Sat 1 = Ok []" by (simp add: path_for_def)
  from demo_rotates [OF this] obtain ks sg' db' where
    r: "rotate_keyset True demo_sig_externs demo_wallet 0 demo_args (demo_signatory [(Sat, [])]) demo_keys_db
       = Ok (ks, sg', db')" by blast
  have "demo_generated [] = demo_keyset"
    by (simp add: demo_generated_def demo_id_of_def demo_keyset_def demo_keyset_id_def Let_def numeral_eq_Suc)
  then have "derived demo_sig_externs demo_wallet [9] demo_info = Some demo_keyset"
    using demo_generate [of "[]"] by (simp add: generate_keyset_def demo_info_def demo_keyset_id_def)
  then have "sks_id ks = mki_id demo_info \<and> sks_keys ks = public_keys (mk_keys demo_keyset)"
    by (intro rotate_custom_path_same_keys [OF _ _ _ _ _ _ _ _ r, where path = "[]"])
       (simp_all add: demo_signatory_def demo_info_def demo_args_def demo_keyset_id_def demo_keyset_def)
  with r show ?thesis by (auto simp: demo_info_def)
qed

end
