(* ===== verification/MintVerify.thy ===== *)
theory MintVerify
  imports Signatory
begin

text \<open>
  The checks a mint makes of a request before it touches its records
  (\<^verbatim>\<open>crates/cdk/src/mint/verification.rs\<close> and the fee, signing and verification functions of
  \<^verbatim>\<open>crates/cdk/src/mint/mod.rs\<close>): distinct inputs and outputs, known and active keysets of one unit,
  spending conditions and signatures of the inputs, and that outputs plus fee equal inputs. The
  mint keeps a snapshot of its signatory's keysets. A set iterated in unspecified order is the
  list of its elements in the order of the request.
\<close>

section \<open>The mint\<close>

record Mint =
  mint_signatory :: DbSignatory
  mint_keysets :: "SignatoryKeySet list"

definition mint_keyset_info :: "Mint \<Rightarrow> Id \<Rightarrow> MintKeySetInfo option" where
  "mint_keyset_info m i = map_option info_of_signatory (List.find (\<lambda>k. sks_id k = i) (mint_keysets m))"

definition keyset_pubkeys :: "Mint \<Rightarrow> Id \<Rightarrow> (Error, KeySet list) outcome" where
  "keyset_pubkeys m i =
     and_then (ok_or (List.find (\<lambda>k. sks_id k = i) (mint_keysets m)) E_UnknownKeySet) (\<lambda>k.
     Ok [keyset_of_signatory k])"

definition pubkeys :: "Mint \<Rightarrow> KeySet list" where
  "pubkeys m = map keyset_of_signatory (filter (\<lambda>k. sks_active k \<and> sks_unit k \<noteq> Auth) (mint_keysets m))"

definition keysets :: "Mint \<Rightarrow> KeySetInfo list" where
  "keysets m = map (\<lambda>k. \<lparr>info_id = sks_id k, info_unit = sks_unit k, info_active = sks_active k,
       info_input_fee_ppk = sks_input_fee_ppk k, info_final_expiry = sks_final_expiry k\<rparr>)
     (filter (\<lambda>k. sks_unit k \<noteq> Auth) (mint_keysets m))"

definition mint_rotate_keyset ::
  "bool \<Rightarrow> externs \<Rightarrow> hd_wallet \<Rightarrow> u64 \<Rightarrow> CurrencyUnit \<Rightarrow> u8 \<Rightarrow> u64 \<Rightarrow> Mint \<Rightarrow> MintDb
     \<Rightarrow> (Error, MintKeySetInfo \<times> Mint \<times> MintDb) outcome" where
  "mint_rotate_keyset overflow_checks e bip now u max_order input_fee_ppk m db =
     and_then (order_amounts overflow_checks max_order) (\<lambda>amts.
     and_then (rotate_keyset overflow_checks e bip now
         \<lparr>rk_unit = u, rk_amounts = amts, rk_input_fee_ppk = input_fee_ppk\<rparr> (mint_signatory m) db)
       (\<lambda>(result, sg, db').
     Ok (info_of_signatory result, \<lparr>mint_signatory = sg, mint_keysets = signatory_keysets sg\<rparr>, db')))"

definition fee_step_of ::
  "Mint \<Rightarrow> (Id \<times> u64) list \<times> (Id \<times> u64) list \<Rightarrow> Proof
     \<Rightarrow> (Error, (Id \<times> u64) list \<times> (Id \<times> u64) list) outcome" where
  "fee_step_of m = (\<lambda>(per_keyset, fees) p.
     and_then (if map_of fees (keyset_id p) = None
         then and_then (ok_or (mint_keyset_info m (keyset_id p)) E_UnknownKeySet) (\<lambda>k.
              Ok (AList.update (keyset_id p) (mki_input_fee_ppk k) fees))
         else Ok fees) (\<lambda>fees'.
     Ok (bump (keyset_id p) per_keyset, fees')))"

definition get_proofs_fee :: "bool \<Rightarrow> Mint \<Rightarrow> Proof list \<Rightarrow> (Error, Amount) outcome" where
  "get_proofs_fee overflow_checks m proofs =
     and_then (try_fold (fee_step_of m) ([], []) proofs) (\<lambda>(per_keyset, fees).
     map_err from_fee (calculate_fee overflow_checks per_keyset (map_of fees)))"

definition check_conditions :: "externs \<Rightarrow> u64 \<Rightarrow> Proof \<Rightarrow> (Error, unit) outcome" where
  "check_conditions e now p =
     (case nut10_try_from e (secret p) of
        Ok n \<Rightarrow> (case n10_kind n of
            P2PK \<Rightarrow> map_err E_NUT11 (verify_p2pk e now p)
          | HTLC \<Rightarrow> map_err E_NUT14 (verify_htlc e now p))
      | Err _ \<Rightarrow> Ok ()
      | Panic \<Rightarrow> Panic)"

definition verify_proofs :: "externs \<Rightarrow> u64 \<Rightarrow> Mint \<Rightarrow> Proof list \<Rightarrow> (Error, unit) outcome" where
  "verify_proofs e now m proofs =
     and_then (try_map (check_conditions e now) proofs) (\<lambda>_.
     signatory_verify_proofs e (mint_signatory m) proofs)"

section \<open>Verification\<close>

record Verification =
  ver_amount :: Amount
  ver_unit :: "CurrencyUnit option"

definition check_inputs_unique :: "externs \<Rightarrow> Proof list \<Rightarrow> (Error, unit) outcome" where
  "check_inputs_unique e inputs =
     and_then (map_err (E_NUT00 \<circ> Nut00DHKE) (proof_ys e inputs)) (\<lambda>yl.
     ensure (card (set yl) = length inputs) E_DuplicateInputs)"

definition check_outputs_unique :: "BlindedMessage list \<Rightarrow> (Error, unit) outcome" where
  "check_outputs_unique outputs =
     ensure (card (set (map blinded_secret outputs)) = length outputs) E_DuplicateOutputs"

text \<open>The units of the keysets of a request must be one unit.\<close>

definition one_unit :: "CurrencyUnit list \<Rightarrow> (Error, CurrencyUnit) outcome" where
  "one_unit units = (case remdups units of [u] \<Rightarrow> Ok u | _ \<Rightarrow> Err E_MultipleUnits)"

definition verify_outputs_keyset :: "Mint \<Rightarrow> BlindedMessage list \<Rightarrow> (Error, CurrencyUnit) outcome" where
  "verify_outputs_keyset m outputs =
     and_then (try_map (\<lambda>i. case mint_keyset_info m i of
           Some k \<Rightarrow> if mki_active k then Ok (mki_unit k) else Err E_InactiveKeyset
         | None \<Rightarrow> Err E_UnknownKeySet) (remdups (map bm_keyset_id outputs))) one_unit"

definition verify_inputs_keyset :: "Mint \<Rightarrow> Proof list \<Rightarrow> (Error, CurrencyUnit) outcome" where
  "verify_inputs_keyset m inputs =
     and_then (try_map (\<lambda>i. case mint_keyset_info m i of
           Some k \<Rightarrow> Ok (mki_unit k)
         | None \<Rightarrow> Err E_UnknownKeySet) (remdups (map keyset_id inputs))) one_unit"

definition check_output_already_signed :: "BlindedMessage list \<Rightarrow> MintDb \<Rightarrow> (Error, unit) outcome" where
  "check_output_already_signed outputs db =
     and_then (map_err from_db (get_blind_signatures (map blinded_secret outputs) db)) (\<lambda>sigs.
     ensure (\<forall>s \<in> set sigs. s = None) E_BlindedMessageAlreadySigned)"

definition verify_outputs :: "Mint \<Rightarrow> BlindedMessage list \<Rightarrow> MintDb \<Rightarrow> (Error, Verification) outcome" where
  "verify_outputs m outputs db =
     (if outputs = [] then Ok \<lparr>ver_amount = 0, ver_unit = None\<rparr>
      else
        and_then (check_outputs_unique outputs) (\<lambda>_.
        and_then (check_output_already_signed outputs db) (\<lambda>_.
        and_then (verify_outputs_keyset m outputs) (\<lambda>u.
        and_then (map_err E_AmountError (try_sum (map bm_amount outputs))) (\<lambda>a.
        Ok \<lparr>ver_amount = a, ver_unit = Some u\<rparr>)))))"

definition mint_verify_inputs :: "externs \<Rightarrow> u64 \<Rightarrow> Mint \<Rightarrow> Proof list \<Rightarrow> (Error, Verification) outcome" where
  "mint_verify_inputs e now m inputs =
     and_then (check_inputs_unique e inputs) (\<lambda>_.
     and_then (verify_inputs_keyset m inputs) (\<lambda>u.
     and_then (map_err (E_NUT00 \<circ> Nut00Amount) (total_amount inputs)) (\<lambda>a.
     and_then (verify_proofs e now m inputs) (\<lambda>_.
     Ok \<lparr>ver_amount = a, ver_unit = Some u\<rparr>))))"

definition verify_transaction_balanced ::
  "bool \<Rightarrow> Mint \<Rightarrow> Verification \<Rightarrow> Proof list \<Rightarrow> BlindedMessage list \<Rightarrow> MintDb \<Rightarrow> (Error, unit) outcome" where
  "verify_transaction_balanced overflow_checks m input_verification inputs outputs db =
     and_then (verify_outputs m outputs db) (\<lambda>output_verification.
     and_then (ensure (ver_unit output_verification = ver_unit input_verification) E_UnitMismatch) (\<lambda>_.
     and_then (get_proofs_fee overflow_checks m inputs) (\<lambda>fees.
     and_then (ok_or (checked_sub (ver_amount input_verification) fees) E_AmountOverflow) (\<lambda>rest.
     ensure (ver_amount output_verification = rest)
       (E_TransactionUnbalanced (ver_amount input_verification) (ver_amount output_verification) fees)))))"

section \<open>What the checks establish\<close>

lemma check_inputs_unique_Ok_iff:
  "check_inputs_unique e inputs = Ok () \<longleftrightarrow> (\<exists>yl. proof_ys e inputs = Ok yl \<and> distinct yl)"
proof -
  have "card (set yl) = length inputs \<longleftrightarrow> distinct yl" if "proof_ys e inputs = Ok yl" for yl
    using proof_ys_length [OF that] card_distinct distinct_card by metis
  then show ?thesis by (auto simp: check_inputs_unique_def)
qed

lemma check_outputs_unique_Ok_iff:
  "check_outputs_unique outputs = Ok () \<longleftrightarrow> distinct (map blinded_secret outputs)"
  unfolding check_outputs_unique_def ensure_Ok_iff
  by (metis card_distinct distinct_card length_map)

lemma one_unit_Ok: "one_unit units = Ok u \<Longrightarrow> units \<noteq> [] \<and> set units = {u}"
  unfolding one_unit_def
  by (metis (no_types, lifting) list.case(1) list.case(2) list.exhaust list.set(1) list.simps(15) outcome.distinct(1)
      outcome.inject(1) remdups_eq_nil_iff set_remdups)

text \<open>The fee of a list of proofs: the sum of the fees of their keysets, per thousand, rounded up.\<close>

definition fee_of :: "Mint \<Rightarrow> Proof list \<Rightarrow> nat" where
  "fee_of m ps = ((\<Sum>p \<leftarrow> ps. unat (mki_input_fee_ppk (the (mint_keyset_info m (keyset_id p))))) + 999) div 1000"

lemma fee_steps:
  assumes "try_fold (fee_step_of m) (counts, fees) ps = Ok (counts', fees')"
    and "\<forall>i f. map_of fees i = Some f \<longrightarrow> (\<exists>k. mint_keyset_info m i = Some k \<and> f = mki_input_fee_ppk k)"
  shows "counts' = fold (\<lambda>p. bump (keyset_id p)) ps counts
    \<and> (\<forall>p \<in> set ps. mint_keyset_info m (keyset_id p) \<noteq> None)
    \<and> (\<forall>i f. map_of fees' i = Some f \<longrightarrow> (\<exists>k. mint_keyset_info m i = Some k \<and> f = mki_input_fee_ppk k))
    \<and> (\<forall>p \<in> set ps. map_of fees' (keyset_id p) \<noteq> None)
    \<and> (\<forall>i. map_of fees i \<noteq> None \<longrightarrow> map_of fees' i \<noteq> None)"
  using assms
proof (induction ps arbitrary: counts fees)
  case (Cons p ps)
  from Cons.prems(1) obtain fees1 where
    f1: "fees1 = (case map_of fees (keyset_id p) of Some _ \<Rightarrow> fees
       | None \<Rightarrow> AList.update (keyset_id p) (mki_input_fee_ppk (the (mint_keyset_info m (keyset_id p)))) fees)"
    and known: "map_of fees (keyset_id p) = None \<longrightarrow> mint_keyset_info m (keyset_id p) \<noteq> None"
    and run: "try_fold (fee_step_of m) (bump (keyset_id p) counts, fees1) ps = Ok (counts', fees')"
    by (auto simp: fee_step_of_def split: if_splits option.splits)
  have inv: "\<forall>i f. map_of fees1 i = Some f \<longrightarrow> (\<exists>k. mint_keyset_info m i = Some k \<and> f = mki_input_fee_ppk k)"
    using Cons.prems(2) f1 known by (auto simp: update_conv' split: option.splits if_splits)
  have here: "map_of fees1 (keyset_id p) \<noteq> None" "\<forall>i. map_of fees i \<noteq> None \<longrightarrow> map_of fees1 i \<noteq> None"
    using f1 by (auto simp: update_conv' split: option.splits)
  from here(1) obtain y where "map_of fees1 (keyset_id p) = Some y" by blast
  with inv have "mint_keyset_info m (keyset_id p) \<noteq> None" by blast
  with Cons.IH [OF run inv] here show ?case by auto
qed simp

lemma fee_fold_checked:
  "try_fold (fee_step True kf) s pcs = Ok r \<Longrightarrow> unat r = unat s + fee_ppk kf pcs"
proof (induction pcs arbitrary: s)
  case (Cons p pcs)
  obtain i n where p: "p = (i, n)" by (cases p)
  from Cons.prems p obtain u where step: "fee_step True kf s (i, n) = Ok u"
    and run: "try_fold (fee_step True kf) u pcs = Ok r" by auto
  from step obtain f t where f: "kf i = Some f" and t: "checked_mul f n = Some t"
    and u: "checked_add s t = Some u"
    by (auto simp: fee_step_def mul_unchecked_def split: option.splits)
  from Cons.IH [OF run] t u f p show ?case
    by (simp add: fee_ppk_Cons checked_mul_Some_iff checked_add_Some_iff)
qed (simp add: fee_ppk_def)

lemma get_proofs_fee_value:
  assumes "get_proofs_fee True m ps = Ok f" "length ps < 2 ^ 64"
  shows "unat f = fee_of m ps"
proof -
  from assms(1) obtain counts fees where
    st: "try_fold (fee_step_of m) ([], []) ps = Ok (counts, fees)"
    and c: "calculate_fee True counts (map_of fees) = Ok f"
    by (auto simp: get_proofs_fee_def)
  from fee_steps [OF st] have counts: "counts = count_by_keyset ps"
    and fees: "\<forall>p \<in> set ps. map_of fees (keyset_id p) \<noteq> None"
      "\<forall>i f. map_of fees i = Some f \<longrightarrow> (\<exists>k. mint_keyset_info m i = Some k \<and> f = mki_input_fee_ppk k)"
    by (auto simp: count_by_keyset_def)
  have "(\<Sum>p \<leftarrow> ps. unat (the (map_of fees (keyset_id p))))
      = (\<Sum>p \<leftarrow> ps. unat (mki_input_fee_ppk (the (mint_keyset_info m (keyset_id p)))))"
    using fees by (intro arg_cong [where f = sum_list] map_cong) force+
  moreover from c obtain r s where "try_fold (fee_step True (map_of fees)) 0 counts = Ok r"
    "checked_add r 999 = Some s" "f = s div 1000" by (auto simp: calculate_fee_def)
  ultimately show ?thesis
    using fee_fold_checked [of "map_of fees" 0 counts r] count_by_keyset_fee(1) [OF assms(2), of "map_of fees"]
    by (simp add: counts fee_of_def checked_add_Some_iff unat_div)
qed


text \<open>What a request that passes the checks looks like.\<close>

lemma verify_inputs_Ok:
  assumes "mint_verify_inputs e now m inputs = Ok v"
  shows "\<exists>yl. proof_ys e inputs = Ok yl \<and> distinct yl"
    and "unat (ver_amount v) = total (map amount inputs)" "ver_unit v \<noteq> None" "inputs \<noteq> []"
    and "\<forall>p \<in> set inputs. verify_one e (mint_signatory m) p = Ok () \<and> check_conditions e now p = Ok ()"
proof -
  from assms obtain u a cs where run: "check_inputs_unique e inputs = Ok ()"
    "verify_inputs_keyset m inputs = Ok u" "total_amount inputs = Ok a"
    and c: "try_map (check_conditions e now) inputs = Ok cs"
    and s: "signatory_verify_proofs e (mint_signatory m) inputs = Ok ()"
    and v: "v = \<lparr>ver_amount = a, ver_unit = Some u\<rparr>"
    by (auto simp: mint_verify_inputs_def verify_proofs_def)
  show "\<exists>yl. proof_ys e inputs = Ok yl \<and> distinct yl" using run(1) check_inputs_unique_Ok_iff by blast
  show "unat (ver_amount v) = total (map amount inputs)" "ver_unit v \<noteq> None"
    using run(3) v by (simp_all add: total_amount_def try_sum_Ok_iff)
  show "inputs \<noteq> []" using run(2) by (auto simp: verify_inputs_keyset_def one_unit_def)
  have "check_conditions e now p = Ok ()" if "p \<in> set inputs" for p
    using c that by (auto simp: try_map_Ok_iff list_all2_conv_all_nth in_set_conv_nth)
  with s show "\<forall>p \<in> set inputs. verify_one e (mint_signatory m) p = Ok () \<and> check_conditions e now p = Ok ()"
    by (simp add: signatory_verify_proofs_def try_fold_unit_Ok_iff)
qed

lemma verify_outputs_Ok:
  assumes "verify_outputs m outputs db = Ok v"
  shows "distinct (map blinded_secret outputs)" "unat (ver_amount v) = total (map bm_amount outputs)"
    and "\<forall>x \<in> set outputs. \<exists>k. mint_keyset_info m (bm_keyset_id x) = Some k \<and> mki_active k
           \<and> Some (mki_unit k) = ver_unit v"
proof -
  have "distinct (map blinded_secret outputs) \<and> unat (ver_amount v) = total (map bm_amount outputs)
    \<and> (\<forall>x \<in> set outputs. \<exists>k. mint_keyset_info m (bm_keyset_id x) = Some k \<and> mki_active k
           \<and> Some (mki_unit k) = ver_unit v)"
  proof (cases "outputs = []")
    case True
    with assms show ?thesis by (auto simp: verify_outputs_def total_def)
  next
    case False
    with assms obtain u a us where o: "check_outputs_unique outputs = Ok ()"
      "try_sum (map bm_amount outputs) = Ok a" "v = \<lparr>ver_amount = a, ver_unit = Some u\<rparr>"
      and us: "try_map (\<lambda>i. case mint_keyset_info m i of
           Some k \<Rightarrow> if mki_active k then Ok (mki_unit k) else Err E_InactiveKeyset
         | None \<Rightarrow> Err E_UnknownKeySet) (remdups (map bm_keyset_id outputs)) = Ok us" "one_unit us = Ok u"
      by (auto simp: verify_outputs_def verify_outputs_keyset_def)
    have "\<exists>k. mint_keyset_info m i = Some k \<and> mki_active k \<and> mki_unit k = u"
      if i: "i \<in> set (remdups (map bm_keyset_id outputs))" for i
    proof -
      from i obtain j where j: "j < length (remdups (map bm_keyset_id outputs))"
        "i = remdups (map bm_keyset_id outputs) ! j" unfolding in_set_conv_nth by blast
      from try_map_nth [OF us(1) j(1)] obtain k where
        "mint_keyset_info m i = Some k" "mki_active k" "mki_unit k = us ! j"
        unfolding j(2) [symmetric] by (auto split: option.splits if_splits)
      moreover have "us ! j \<in> set us" using try_map_length [OF us(1)] j(1) by simp
      ultimately show ?thesis using one_unit_Ok [OF us(2)] by auto
    qed
    then show ?thesis using o check_outputs_unique_Ok_iff by (auto simp: try_sum_Ok_iff)
  qed
  then show "distinct (map blinded_secret outputs)" "unat (ver_amount v) = total (map bm_amount outputs)"
    "\<forall>x \<in> set outputs. \<exists>k. mint_keyset_info m (bm_keyset_id x) = Some k \<and> mki_active k
           \<and> Some (mki_unit k) = ver_unit v" by simp_all
qed

lemma balanced_Ok:
  assumes "verify_transaction_balanced True m v inputs outputs db = Ok ()" "length inputs < 2 ^ 64"
  shows "unat (ver_amount v) = total (map bm_amount outputs) + fee_of m inputs"
    and "distinct (map blinded_secret outputs)"
proof -
  from assms(1) obtain w f r where "verify_outputs m outputs db = Ok w"
    and f: "get_proofs_fee True m inputs = Ok f" "checked_sub (ver_amount v) f = Some r" "ver_amount w = r"
    by (auto simp: verify_transaction_balanced_def)
  from verify_outputs_Ok [OF this(1)] f get_proofs_fee_value [OF f(1) assms(2)]
  show "unat (ver_amount v) = total (map bm_amount outputs) + fee_of m inputs"
    "distinct (map blinded_secret outputs)"
    by (simp_all add: checked_sub_Some_iff)
qed

text \<open>Signatures are for the amounts asked for.\<close>

lemma blind_sign_amounts:
  assumes "blind_sign e sg rs msgs = Ok sigs"
  shows "map bs_amount sigs = take (length sigs) (map bm_amount msgs)"
  using assms
proof (induction msgs arbitrary: rs sigs)
  case (Cons m msgs)
  then show ?case
    by (cases rs) (auto simp: blind_sign_def sign_one_def blind_signature_new_def)
qed (simp add: blind_sign_def)

lemma blind_sign_keysets:
  assumes "blind_sign e sg rs msgs = Ok sigs"
  shows "map bs_keyset_id sigs = take (length sigs) (map bm_keyset_id msgs)"
  using assms
proof (induction msgs arbitrary: rs sigs)
  case (Cons m msgs)
  then show ?case
    by (cases rs) (auto simp: blind_sign_def sign_one_def blind_signature_new_def)
qed (simp add: blind_sign_def)

text \<open>A mint with one keyset that has one key.\<close>

definition demo_mint :: Mint where
  "demo_mint = \<lparr>mint_signatory = demo_signer, mint_keysets = signatory_keysets demo_signer\<rparr>"

lemma demo_info_lookup:
  "mint_keyset_info demo_mint i = (if i = example_id then Some \<lparr>mki_id = example_id, mki_unit = Sat,
     mki_active = True, mki_valid_from = 0, mki_derivation_path = [], mki_derivation_path_index = None,
     mki_max_order = 0, mki_amounts = [8], mki_input_fee_ppk = 0, mki_final_expiry = None\<rparr> else None)"
  by (simp add: mint_keyset_info_def demo_mint_def signatory_keysets_def demo_signer_def
      signatory_keyset_def demo_sign_info_def demo_sign_keyset_def info_of_signatory_def)

lemma demo_outputs:
  assumes "sig_tbl db = []"
  shows "verify_outputs demo_mint [demo_message] db = Ok \<lparr>ver_amount = 8, ver_unit = Some Sat\<rparr>"
  using assms
  by (simp add: verify_outputs_def check_outputs_unique_def ensure_def check_output_already_signed_def
      get_blind_signatures_def select_in_def verify_outputs_keyset_def demo_message_def
      demo_info_lookup one_unit_def try_sum_def checked_add_def)

end
