(* ===== verification/MintValue.thy ===== *)
theory MintValue
  imports MintDb
begin

text \<open>
  The value in the mint's tables: what was redeemed (the amounts of the spent proofs) and what was
  promised (the amounts of the signed blinded messages), and how each operation of
  \<^verbatim>\<open>crates/cdk-sql-common/src/mint/mod.rs\<close> on proofs and on blinded messages changes them. Only
  marking proofs spent raises the one and only storing signatures raises the other.
\<close>

definition spent_amount :: "PublicKey \<times> ProofRow \<Rightarrow> nat" where
  "spent_amount = (\<lambda>(_, r). if pr_state r = Spent then unat (amount (pr_proof r)) else 0)"

definition spent_value :: "MintDb \<Rightarrow> nat" where
  "spent_value db = sum_list (map spent_amount (proof_tbl db))"

definition signed_amount :: "PublicKey \<times> SigRow \<Rightarrow> nat" where
  "signed_amount = (\<lambda>(_, r). if sr_c r \<noteq> None then unat (sr_amount r) else 0)"

definition signed_value :: "MintDb \<Rightarrow> nat" where
  "signed_value db = sum_list (map signed_amount (sig_tbl db))"

section \<open>Proofs\<close>

lemma added_rows_spent: "sum_list (map spent_amount (zip yl (map (proof_row now quote oper) ps))) = 0"
  by (auto simp: spent_amount_def proof_row_def dest!: set_zip_rightD)

lemma add_proofs_spent_value:
  assumes "add_proofs e now ps quote oper db = Ok db'"
  shows "spent_value db' = spent_value db"
  using assms
proof (rule add_proofs_Ok)
  fix yl assume "db' = db\<lparr>proof_tbl := proof_tbl db @ zip yl (map (proof_row now quote oper) ps)\<rparr>"
  then show ?thesis using added_rows_spent [of yl now quote oper ps] by (simp add: spent_value_def)
qed

text \<open>The amount stored for a proof.\<close>

definition stored_amount :: "MintDb \<Rightarrow> PublicKey \<Rightarrow> nat" where
  "stored_amount db y = (case map_of (proof_tbl db) y of Some r \<Rightarrow> unat (amount (pr_proof r)) | None \<Rightarrow> 0)"

lemma selected_amounts:
  fixes t :: "(PublicKey \<times> ProofRow) list"
  assumes "keyed t" "distinct yl" "set yl \<subseteq> keys_of t"
  shows "(\<Sum>(y, r) \<leftarrow> t. if y \<in> set yl then unat (amount (pr_proof r)) else 0)
    = (\<Sum>y \<leftarrow> yl. case map_of t y of Some r \<Rightarrow> unat (amount (pr_proof r)) | None \<Rightarrow> 0)"
proof -
  let ?f = "\<lambda>y. case map_of t y of Some r \<Rightarrow> unat (amount (pr_proof r)) | None \<Rightarrow> 0"
  have row: "unat (amount (pr_proof r)) = ?f y" if "(y, r) \<in> set t" for y r
    using map_of_is_SomeI [OF assms(1) that] by simp
  have "(\<Sum>(y, r) \<leftarrow> t. if y \<in> set yl then unat (amount (pr_proof r)) else 0)
      = (\<Sum>(y, r) \<leftarrow> t. if y \<in> set yl then ?f y else 0)"
    using row by (intro arg_cong [where f = sum_list] map_cong) auto
  also have "\<dots> = (\<Sum>y \<leftarrow> map fst t. if y \<in> set yl then ?f y else 0)"
    by (simp add: case_prod_unfold comp_def)
  also have "\<dots> = (\<Sum>y \<in> keys_of t. if y \<in> set yl then ?f y else 0)"
    by (simp only: sum_list_distinct_conv_sum_set [OF assms(1)] keys_of_def set_map)
  also have "\<dots> = (\<Sum>y \<in> set yl. ?f y)"
    using assms(3) by (simp add: sum.If_cases Int_absorb1 keys_of_def)
  also have "\<dots> = (\<Sum>y \<leftarrow> yl. ?f y)" using assms(2) by (simp add: sum_list_distinct_conv_sum_set)
  finally show ?thesis .
qed

lemma marked_amount:
  assumes "\<forall>(y, r) \<in> set t. y \<in> set yl \<longrightarrow> pr_state r \<noteq> Spent"
  shows "sum_list (map spent_amount (update_where (\<lambda>y _. y \<in> set yl) (\<lambda>r. r\<lparr>pr_state := s\<rparr>) t))
      = sum_list (map spent_amount t)
        + (\<Sum>(y, r) \<leftarrow> t. if s = Spent \<and> y \<in> set yl then unat (amount (pr_proof r)) else 0)"
  using assms by (induction t) (auto simp: update_where_def spent_amount_def)

lemma update_spent_value:
  assumes "keyed (proof_tbl db)" "update_proofs_states yl s db = Ok (olds, db')"
  shows "spent_value db' = spent_value db + (if s = Spent then \<Sum>y \<leftarrow> yl. stored_amount db y else 0)"
proof -
  note u = assms(2) [unfolded update_proofs_states_Ok_iff [OF assms(1)]]
  have "\<forall>(y, r) \<in> set (proof_tbl db). y \<in> set yl \<longrightarrow> pr_state r \<noteq> Spent"
  proof (safe)
    fix y r assume "(y, r) \<in> set (proof_tbl db)" "y \<in> set yl" "pr_state r = Spent"
    then have "proof_state db y = Some Spent"
      using map_of_is_SomeI [OF assms(1)] by (simp add: proof_state_def)
    with u \<open>y \<in> set yl\<close> show False by (force simp: check_state_transition_def)
  qed
  from marked_amount [OF this, of s] u selected_amounts [OF assms(1), of yl] show ?thesis
    by (auto simp: spent_value_def set_states_def stored_amount_def [abs_def])
qed

lemma remove_spent_value:
  assumes "keyed (proof_tbl db)" "remove_proofs yl db = Ok db'"
  shows "spent_value db' = spent_value db"
proof -
  have "sum_list (map spent_amount (delete_where (\<lambda>y r. y \<in> set yl \<and> pr_state r \<noteq> Spent) t))
      = sum_list (map spent_amount t)" for t
    by (induction t) (auto simp: delete_where_def spent_amount_def split: if_splits)
  with assms(2) show ?thesis
    by (simp add: remove_proofs_Ok_iff [OF assms(1)] spent_value_def drop_proofs_def)
qed

text \<open>Stored amounts: additions and removals touch only their own proofs, state changes none.\<close>

lemma add_proofs_stored:
  assumes "add_proofs e now ps quote oper db = Ok db'" "proof_ys e ps = Ok yl"
  shows "map (stored_amount db') yl = map (\<lambda>p. unat (amount p)) ps"
    and "y \<in> keys_of (proof_tbl db) \<Longrightarrow> stored_amount db' y = stored_amount db y"
    and "keys_of (proof_tbl db') = keys_of (proof_tbl db) \<union> set yl"
proof -
  from assms obtain yl' where a: "proof_ys e ps = Ok yl'" "distinct yl'" "set yl' \<inter> keys_of (proof_tbl db) = {}"
    "db' = db\<lparr>proof_tbl := proof_tbl db @ zip yl' (map (proof_row now quote oper) ps)\<rparr>"
    using add_proofs_Ok by metis
  with assms(2) have yl: "distinct yl" "set yl \<inter> keys_of (proof_tbl db) = {}"
    and t: "proof_tbl db' = proof_tbl db @ zip yl (map (proof_row now quote oper) ps)" by auto
  have len: "length yl = length ps" using assms(2) by (rule proof_ys_length)
  show "map (stored_amount db') yl = map (\<lambda>p. unat (amount p)) ps"
  proof (rule nth_equalityI)
    fix j assume "j < length (map (stored_amount db') yl)"
    then have j: "j < length yl" by simp
    have "map_of (zip yl (map (proof_row now quote oper) ps)) (yl ! j) = Some (proof_row now quote oper (ps ! j))"
      using j len yl(1) by (simp add: map_of_zip_nth)
    moreover have "map_of (proof_tbl db) (yl ! j) = None"
      using yl(2) nth_mem [OF j] by (auto simp: map_of_None_keys)
    ultimately show "map (stored_amount db') yl ! j = map (\<lambda>p. unat (amount p)) ps ! j"
      using j len by (simp add: stored_amount_def t map_add_def proof_row_def)
  qed (simp add: len)
  show "keys_of (proof_tbl db') = keys_of (proof_tbl db) \<union> set yl"
    using len by (simp add: t keys_of_def image_Un flip: set_map)
  assume "y \<in> keys_of (proof_tbl db)"
  then obtain r where "map_of (proof_tbl db) y = Some r" unfolding keys_of_iff by blast
  moreover have "y \<notin> set yl" using \<open>y \<in> keys_of (proof_tbl db)\<close> yl(2) by blast
  then have "map_of (zip yl (map (proof_row now quote oper) ps)) y = None" using len by simp
  ultimately show "stored_amount db' y = stored_amount db y" by (simp add: stored_amount_def t map_add_def)
qed

lemma set_states_stored [simp]:
  "stored_amount (set_states yl s db) y = stored_amount db y"
  "keys_of (proof_tbl (set_states yl s db)) = keys_of (proof_tbl db)"
  by (simp_all add: stored_amount_def set_states_def update_where_lookup keys_of_iff set_eq_iff
      split: option.splits)

lemma drop_proofs_stored:
  assumes "keyed (proof_tbl db)" "y \<notin> set yl"
  shows "stored_amount (drop_proofs yl db) y = stored_amount db y"
    and "y \<in> keys_of (proof_tbl (drop_proofs yl db)) \<longleftrightarrow> y \<in> keys_of (proof_tbl db)"
  using assms
  by (cases "map_of (proof_tbl db) y"; simp add: stored_amount_def drop_proofs_def delete_where_lookup keys_of_iff)+

section \<open>Blinded messages\<close>

definition message_row :: "u64 \<Rightarrow> QuoteId option \<Rightarrow> Operation \<Rightarrow> BlindedMessage \<Rightarrow> SigRow" where
  "message_row now quote oper m = \<lparr>sr_amount = bm_amount m, sr_keyset_id = bm_keyset_id m, sr_c = None,
     sr_dleq = None, sr_quote_id = quote, sr_created_time = now, sr_signed_time = None,
     sr_operation = Some oper\<rparr>"

lemma insert_blinded_message_Ok:
  assumes "insert_blinded_message now quote oper db m = Ok db'"
  shows "blinded_secret m \<notin> keys_of (sig_tbl db)"
    "db' = db\<lparr>sig_tbl := sig_tbl db @ [(blinded_secret m, message_row now quote oper m)]\<rparr>"
  using assms by (auto simp: insert_blinded_message_def insert_row_def message_row_def split: if_splits)

lemma add_blinded_messages_Ok:
  assumes "add_blinded_messages now quote msgs oper db = Ok db'"
  shows "distinct (map blinded_secret msgs)"
    and "set (map blinded_secret msgs) \<inter> keys_of (sig_tbl db) = {}"
    and "db' = db\<lparr>sig_tbl := sig_tbl db @ map (\<lambda>m. (blinded_secret m, message_row now quote oper m)) msgs\<rparr>"
proof -
  have "distinct (map blinded_secret msgs) \<and> set (map blinded_secret msgs) \<inter> keys_of (sig_tbl db) = {}
    \<and> db' = db\<lparr>sig_tbl := sig_tbl db @ map (\<lambda>m. (blinded_secret m, message_row now quote oper m)) msgs\<rparr>"
    using assms unfolding add_blinded_messages_def
  proof (induction msgs arbitrary: db)
    case (Cons m msgs)
    from Cons.prems obtain db1 where i: "insert_blinded_message now quote oper db m = Ok db1"
      and run: "try_fold (insert_blinded_message now quote oper) db1 msgs = Ok db'" by auto
    from insert_blinded_message_Ok [OF i] Cons.IH [OF run] show ?case by auto
  qed simp
  then show "distinct (map blinded_secret msgs)" "set (map blinded_secret msgs) \<inter> keys_of (sig_tbl db) = {}"
    "db' = db\<lparr>sig_tbl := sig_tbl db @ map (\<lambda>m. (blinded_secret m, message_row now quote oper m)) msgs\<rparr>"
    by simp_all
qed

lemma add_blinded_messages_value:
  assumes "add_blinded_messages now quote msgs oper db = Ok db'"
  shows "signed_value db' = signed_value db" "keyed (sig_tbl db) \<Longrightarrow> keyed (sig_tbl db')"
    "proof_tbl db' = proof_tbl db"
proof -
  note a = add_blinded_messages_Ok [OF assms]
  have "sum_list (map signed_amount (map (\<lambda>m. (blinded_secret m, message_row now quote oper m)) msgs)) = 0"
    by (simp add: signed_amount_def message_row_def)
  then show "signed_value db' = signed_value db" by (simp add: a(3) signed_value_def)
  show "proof_tbl db' = proof_tbl db" by (simp add: a(3))
  assume "keyed (sig_tbl db)"
  then show "keyed (sig_tbl db')" using a(1,2) by (auto simp: a(3) keys_of_def comp_def)
qed

lemma delete_blinded_messages_value:
  assumes "delete_blinded_messages bs db = Ok db'"
  shows "signed_value db' = signed_value db" "keyed (sig_tbl db) \<Longrightarrow> keyed (sig_tbl db')"
    "proof_tbl db' = proof_tbl db"
proof -
  have v: "sum_list (map signed_amount (delete_where (\<lambda>b r. b \<in> set bs \<and> sr_c r = None) t))
      = sum_list (map signed_amount t)" for t
    by (induction t) (auto simp: delete_where_def signed_amount_def split: if_splits)
  from assms show "signed_value db' = signed_value db" "proof_tbl db' = proof_tbl db"
    by (auto simp: delete_blinded_messages_def signed_value_def v split: if_splits)
  assume "keyed (sig_tbl db)"
  with assms show "keyed (sig_tbl db')"
    by (auto simp: delete_blinded_messages_def delete_where_keyed split: if_splits)
qed

section \<open>Signatures\<close>

text \<open>The rows selected before the loop and not yet consumed are those of the table.\<close>

definition rows_agree :: "(PublicKey \<times> SigRow) list \<Rightarrow> (PublicKey \<times> SigRow) list \<Rightarrow> bool" where
  "rows_agree existing t \<longleftrightarrow> keyed existing \<and> keyed t
     \<and> (\<forall>b r. map_of existing b = Some r \<longrightarrow> map_of t b = Some r)"

lemma signed_amount_update:
  assumes "keyed t" "map_of t b = Some r" "sr_c r = None" "sr_c (f r) \<noteq> None"
  shows "sum_list (map signed_amount (update_where (\<lambda>b' _. b' = b) f t))
    = sum_list (map signed_amount t) + unat (sr_amount (f r))"
  using assms
proof (induction t)
  case (Cons x t)
  obtain b' r' where x: "x = (b', r')" by (cases x)
  show ?case
  proof (cases "b' = b")
    case True
    with Cons.prems x have "b \<notin> fst ` set t" "r' = r" by auto
    then have "update_where (\<lambda>b' _. b' = b) f t = t"
      unfolding update_where_def by (intro map_idI) (auto simp: rev_image_eqI)
    with True x \<open>r' = r\<close> Cons.prems show ?thesis by (simp add: update_where_def signed_amount_def)
  next
    case False
    with Cons x show ?thesis by (simp add: update_where_def)
  qed
qed simp

lemma add_blind_signature_step:
  assumes "add_blind_signature now quote (existing, t) (b, s) = Ok (existing', t')"
    and "rows_agree existing t"
  shows "rows_agree existing' t'
    \<and> sum_list (map signed_amount t') = sum_list (map signed_amount t) + unat (bs_amount s)"
proof (cases "map_of existing b")
  case None
  with assms obtain r where t': "t' = t @ [(b, r)]" "existing' = existing" "b \<notin> keys_of t"
    and r: "sr_c r \<noteq> None" "sr_amount r = bs_amount s"
    by (auto simp: add_blind_signature_def insert_row_def split: if_splits)
  from assms(2) t' have "rows_agree existing' t'"
    by (auto simp: rows_agree_def keys_of_def map_add_def split: option.splits)
  with t' r show ?thesis by (simp add: signed_amount_def)
next
  case (Some r)
  let ?f = "\<lambda>r. r\<lparr>sr_c := Some (bs_c s), sr_dleq := bs_dleq s, sr_signed_time := Some now, sr_amount := bs_amount s\<rparr>"
  from Some assms(1) have c: "sr_c r = None" and ex: "existing' = delete_where (\<lambda>b' _. b' = b) existing"
    and t': "t' = update_where (\<lambda>b' _. b' = b) ?f t"
    by (auto simp: add_blind_signature_def split: option.splits)
  from assms(2) Some have k: "keyed existing" "keyed t" "map_of t b = Some r"
    by (auto simp: rows_agree_def)
  have "rows_agree existing' t'"
    unfolding rows_agree_def
  proof (intro conjI allI impI)
    show "keyed existing'" using k(1) by (simp add: ex delete_where_keyed)
    show "keyed t'" using k(2) by (simp add: t')
    fix b' r' assume "map_of existing' b' = Some r'"
    then have "b' \<noteq> b" "map_of existing b' = Some r'"
      by (auto simp: ex delete_where_lookup [OF k(1)] split: option.splits if_splits)
    with assms(2) show "map_of t' b' = Some r'" by (simp add: t' update_where_lookup rows_agree_def)
  qed
  with signed_amount_update [OF k(2,3) c, of ?f] show ?thesis by (simp add: t')
qed

lemma add_blind_signatures_fold:
  assumes "try_fold (add_blind_signature now quote) (existing, t) (zip msgs sigs) = Ok (existing', t')"
    and "rows_agree existing t" "length msgs = length sigs"
  shows "keyed t' \<and> sum_list (map signed_amount t')
    = sum_list (map signed_amount t) + (\<Sum>s \<leftarrow> sigs. unat (bs_amount s))"
  using assms(3,1,2)
proof (induction msgs sigs arbitrary: existing t rule: list_induct2)
  case Nil
  then show ?case by (simp add: rows_agree_def)
next
  case (Cons b msgs s sigs)
  from Cons.prems(1) obtain ex1 t1 where
    st: "add_blind_signature now quote (existing, t) (b, s) = Ok (ex1, t1)"
    and rest: "try_fold (add_blind_signature now quote) (ex1, t1) (zip msgs sigs) = Ok (existing', t')"
    by auto
  from add_blind_signature_step [OF st Cons.prems(2)] Cons.IH [OF rest] show ?case by simp
qed

lemma add_blind_signatures_value:
  assumes "add_blind_signatures now msgs sigs quote db = Ok db'" "keyed (sig_tbl db)"
  shows "signed_value db' = signed_value db + total (map bs_amount sigs)"
    "keyed (sig_tbl db')" "proof_tbl db' = proof_tbl db"
proof -
  from assms(1) obtain existing t where len: "length msgs = length sigs"
    and run: "try_fold (add_blind_signature now quote) (select_in msgs (sig_tbl db), sig_tbl db) (zip msgs sigs)
       = Ok (existing, t)"
    and db': "db' = db\<lparr>sig_tbl := t\<rparr>"
    by (auto simp: add_blind_signatures_def split: if_splits)
  have "rows_agree (select_in msgs (sig_tbl db)) (sig_tbl db)"
    using assms(2) by (auto simp: rows_agree_def select_in_keyed select_in_lookup split: if_splits)
  from add_blind_signatures_fold [OF run this len]
  show "signed_value db' = signed_value db + total (map bs_amount sigs)"
    "keyed (sig_tbl db')" "proof_tbl db' = proof_tbl db"
    by (simp_all add: db' signed_value_def total_def comp_def)
qed

end
