(* ===== verification/SwapSaga.thy ===== *)
theory SwapSaga
  imports MintVerify MintValue
begin

text \<open>
  Swaps (\<^verbatim>\<open>crates/cdk/src/mint/swap\<close>): the request handler, the saga of setup, signing and
  finalisation with its compensating action, and the recovery of incomplete sagas at start
  (\<^verbatim>\<open>crates/cdk/src/mint/start_up_check.rs\<close>). Every database call that begins, writes,
  commits or rolls back may fail; which do is a predicate on the call sites. Reads inside a transaction
  do not fail, and a commit that fails has not committed. An operation returns its outcome and the database as committed. The
  notifications a mint publishes are not part of the state.
\<close>

section \<open>Database calls that fail\<close>

datatype site =
    BeginSetup | AddInputs | MarkPending | AddOutputs | AddSagaRow | CommitSetup | RollbackSetup
  | BeginFinal | AddSignatures | MarkSpent | DeleteSagaRow | CommitFinal | RollbackFinal
  | BeginUndo | DeleteOutputs | RemoveInputs | CommitUndo
  | BeginCleanup | CleanupSaga | CommitCleanup | RollbackCleanup

type_synonym faults = "site \<Rightarrow> bool"

abbreviation no_faults :: faults where
  "no_faults \<equiv> \<lambda>_. False"

definition db_call :: "faults \<Rightarrow> site \<Rightarrow> (db_error, 'a) outcome \<Rightarrow> (db_error, 'a) outcome" where
  "db_call fails s m = (if fails s then Err DbDatabase else m)"

text \<open>An error after \<open>tx.rollback().await?\<close>: a rollback that fails has its own error.\<close>

definition rolled_back :: "faults \<Rightarrow> site \<Rightarrow> Error \<Rightarrow> (Error, 'a) outcome" where
  "rolled_back fails s err = Err (if fails s then from_db DbDatabase else err)"

definition or_rollback ::
  "faults \<Rightarrow> site \<Rightarrow> (db_error \<Rightarrow> Error) \<Rightarrow> (db_error, 'a) outcome \<Rightarrow> (Error, 'a) outcome" where
  "or_rollback fails s h m = (case m of Ok a \<Rightarrow> Ok a | Err d \<Rightarrow> rolled_back fails s (h d) | Panic \<Rightarrow> Panic)"

section \<open>The saga\<close>

record RemoveSwapSetup =
  rss_blinded_secrets :: "PublicKey list"
  rss_input_ys :: "PublicKey list"

record SetupComplete =
  setup_messages :: "BlindedMessage list"
  setup_ys :: "PublicKey list"

record Signed =
  signed_messages :: "BlindedMessage list"
  signed_ys :: "PublicKey list"
  signed_signatures :: "BlindSignature list"

record 'd SwapSaga =
  swap_compensations :: "RemoveSwapSetup list"
  swap_operation :: Operation
  swap_data :: 'd

definition swap_saga_new :: "Uuid \<Rightarrow> unit SwapSaga" where
  "swap_saga_new i = \<lparr>swap_compensations = [], swap_operation = OpSwap i, swap_data = ()\<rparr>"

text \<open>What a request runs with: third-party code, overflow checks, the clock, failing calls.\<close>

record runtime =
  rt_externs :: externs
  rt_overflow_checks :: bool
  rt_now :: u64
  rt_faults :: faults

definition execute :: "faults \<Rightarrow> RemoveSwapSetup \<Rightarrow> MintDb \<Rightarrow> (Error, MintDb) outcome" where
  "execute fails c db =
     (if rss_blinded_secrets c = [] \<and> rss_input_ys c = [] then Ok db
      else map_err from_db (
        and_then (db_call fails BeginUndo (Ok ())) (\<lambda>_.
        and_then (if rss_blinded_secrets c = [] then Ok db
            else db_call fails DeleteOutputs (delete_blinded_messages (rss_blinded_secrets c) db)) (\<lambda>db1.
        and_then (if rss_input_ys c = [] then Ok db1
            else db_call fails RemoveInputs (remove_proofs (rss_input_ys c) db1)) (\<lambda>db2.
        db_call fails CommitUndo (Ok db2))))))"

definition run_compensation :: "faults \<Rightarrow> RemoveSwapSetup \<Rightarrow> MintDb \<Rightarrow> MintDb" where
  "run_compensation fails c db = (case execute fails c db of Ok db' \<Rightarrow> db' | _ \<Rightarrow> db)"

definition compensate_all :: "faults \<Rightarrow> 'd SwapSaga \<Rightarrow> MintDb \<Rightarrow> MintDb" where
  "compensate_all fails saga db =
     (if swap_compensations saga = [] then db
      else let db1 = fold (run_compensation fails) (swap_compensations saga) db in
        if fails BeginCleanup then db1
        else case db_call fails CleanupSaga (delete_saga (op_id (swap_operation saga)) db1) of
               Ok db2 \<Rightarrow> if fails CommitCleanup then db1 else db2
             | _ \<Rightarrow> db1)"

fun check_forbidden :: "State option list \<Rightarrow> Error option" where
  "check_forbidden [] = None"
| "check_forbidden (None # states) = check_forbidden states"
| "check_forbidden (Some s # states) =
     (if s = Pending then Some E_TokenPending
      else if s = Spent then Some E_TokenAlreadySpent
      else check_forbidden states)"

definition spent_error :: "db_error \<Rightarrow> Error" where
  "spent_error d = (if d = AttemptUpdateSpentProof \<or> d = AttemptRemoveSpentProof then E_TokenAlreadySpent
     else from_db d)"

definition setup_tx ::
  "runtime \<Rightarrow> Mint \<Rightarrow> Operation \<Rightarrow> Proof list \<Rightarrow> BlindedMessage list \<Rightarrow> QuoteId option \<Rightarrow> Verification
     \<Rightarrow> MintDb \<Rightarrow> (Error, PublicKey list \<times> MintDb) outcome" where
  "setup_tx rt m oper inputs outputs quote input_verification db =
    (let fails = rt_faults rt in
     and_then (map_err from_db (db_call fails BeginSetup (Ok ()))) (\<lambda>_.
     and_then (verify_transaction_balanced (rt_overflow_checks rt) m input_verification inputs outputs db) (\<lambda>_.
     and_then (or_rollback fails RollbackSetup
         (\<lambda>d. if d = DbDuplicate then E_TokenPending
              else if d = AttemptUpdateSpentProof then E_TokenAlreadySpent else E_Database d)
         (db_call fails AddInputs (add_proofs (rt_externs rt) (rt_now rt) inputs quote oper db))) (\<lambda>db1.
     and_then (map_err (E_NUT00 \<circ> Nut00DHKE) (proof_ys (rt_externs rt) inputs)) (\<lambda>yl.
     and_then (or_rollback fails RollbackSetup spent_error
         (db_call fails MarkPending (update_proofs_states yl Pending db1))) (\<lambda>(states, db2).
     and_then (if length yl \<noteq> length states then rolled_back fails RollbackSetup E_Internal else Ok ()) (\<lambda>_.
     and_then (case check_forbidden states of
         Some err \<Rightarrow> rolled_back fails RollbackSetup err | None \<Rightarrow> Ok ()) (\<lambda>_.
     and_then (or_rollback fails RollbackSetup
         (\<lambda>d. if d = DbDuplicate then E_DuplicateOutputs else E_Database d)
         (db_call fails AddOutputs (add_blinded_messages (rt_now rt) quote outputs oper db2))) (\<lambda>db3.
     and_then (or_rollback fails RollbackSetup from_db
         (db_call fails AddSagaRow (add_saga (rt_now rt)
            (saga_new_swap (rt_now rt) (op_id oper) SagaSetupComplete (map blinded_secret outputs) yl) db3))) (\<lambda>db4.
     map_err from_db (db_call fails CommitSetup (Ok (yl, db4)))))))))))))"

definition setup_swap ::
  "runtime \<Rightarrow> Mint \<Rightarrow> unit SwapSaga \<Rightarrow> Proof list \<Rightarrow> BlindedMessage list \<Rightarrow> QuoteId option \<Rightarrow> Verification
     \<Rightarrow> SetupComplete SwapSaga action" where
  "setup_swap rt m saga inputs outputs quote input_verification db =
     (case setup_tx rt m (swap_operation saga) inputs outputs quote input_verification db of
        Ok (yl, db') \<Rightarrow>
          (Ok \<lparr>swap_compensations = \<lparr>rss_blinded_secrets = map blinded_secret outputs, rss_input_ys = yl\<rparr>
                                     # swap_compensations saga,
               swap_operation = swap_operation saga,
               swap_data = \<lparr>setup_messages = outputs, setup_ys = yl\<rparr>\<rparr>, db')
      | Err x \<Rightarrow> (Err x, db)
      | Panic \<Rightarrow> (Panic, db))"

definition sign_outputs ::
  "runtime \<Rightarrow> Mint \<Rightarrow> SecretKey list \<Rightarrow> SetupComplete SwapSaga \<Rightarrow> Signed SwapSaga action" where
  "sign_outputs rt m rs saga db =
     (case blind_sign (rt_externs rt) (mint_signatory m) rs (setup_messages (swap_data saga)) of
        Ok sigs \<Rightarrow>
          (Ok \<lparr>swap_compensations = swap_compensations saga, swap_operation = swap_operation saga,
               swap_data = \<lparr>signed_messages = setup_messages (swap_data saga),
                            signed_ys = setup_ys (swap_data saga), signed_signatures = sigs\<rparr>\<rparr>, db)
      | Err x \<Rightarrow> (Err x, compensate_all (rt_faults rt) saga db)
      | Panic \<Rightarrow> (Panic, db))"

text \<open>A call of the final transaction that fails: roll back, compensate, return the error.\<close>

definition or_compensate ::
  "faults \<Rightarrow> Signed SwapSaga \<Rightarrow> MintDb \<Rightarrow> (db_error \<Rightarrow> Error) \<Rightarrow> (db_error, 'a) outcome
     \<Rightarrow> ('a \<Rightarrow> (Error, 'b) outcome \<times> MintDb) \<Rightarrow> (Error, 'b) outcome \<times> MintDb" where
  "or_compensate fails saga db h m k = (case m of
       Ok a \<Rightarrow> k a
     | Err d \<Rightarrow> if fails RollbackFinal then (Err (from_db DbDatabase), db)
                else (Err (h d), compensate_all fails saga db)
     | Panic \<Rightarrow> (Panic, db))"

definition finalize :: "runtime \<Rightarrow> Signed SwapSaga \<Rightarrow> BlindSignature list action" where
  "finalize rt saga db =
    (let fails = rt_faults rt; d = swap_data saga in
     if fails BeginFinal then (Err (from_db DbDatabase), db)
     else
       or_compensate fails saga db from_db
         (db_call fails AddSignatures (add_blind_signatures (rt_now rt)
            (map blinded_secret (signed_messages d)) (signed_signatures d) None db)) (\<lambda>db1.
       or_compensate fails saga db spent_error
         (db_call fails MarkSpent (update_proofs_states (signed_ys d) Spent db1)) (\<lambda>(_, db2).
       let db3 = (case db_call fails DeleteSagaRow (delete_saga (op_id (swap_operation saga)) db2) of
                    Ok db' \<Rightarrow> db' | _ \<Rightarrow> db2) in
       if fails CommitFinal then (Err (from_db DbDatabase), db)
       else (Ok (signed_signatures d), db3))))"

section \<open>The request handler\<close>

definition validate_sig_flag :: "externs \<Rightarrow> SwapRequest \<Rightarrow> (Error, unit) outcome" where
  "validate_sig_flag e req =
     and_then (enforce_sig_flag e (swap_inputs req)) (\<lambda>flag.
     if esf_sig_flag flag = SigAll then map_err E_NUT11 (swap_verify_sig_all e req) else Ok ())"

definition swap_checks :: "runtime \<Rightarrow> Mint \<Rightarrow> SwapRequest \<Rightarrow> (Error, Verification) outcome" where
  "swap_checks rt m req =
     and_then (map_err E_NUT03 (swap_input_amount req)) (\<lambda>_.
     and_then (map_err E_NUT03 (swap_output_amount req)) (\<lambda>_.
     and_then (mint_verify_inputs (rt_externs rt) (rt_now rt) m (swap_inputs req)) (\<lambda>v.
     and_then (validate_sig_flag (rt_externs rt) req) (\<lambda>_. Ok v))))"

definition process_swap_request ::
  "runtime \<Rightarrow> Mint \<Rightarrow> Uuid \<Rightarrow> SecretKey list \<Rightarrow> SwapRequest \<Rightarrow> BlindSignature list action" where
  "process_swap_request rt m i rs req =
     then_do (pure (swap_checks rt m req)) (\<lambda>input_verification.
     then_do (setup_swap rt m (swap_saga_new i) (swap_inputs req) (swap_outputs req) None input_verification) (\<lambda>s1.
     then_do (sign_outputs rt m rs s1) (\<lambda>s2.
     finalize rt s2)))"

section \<open>Recovery at start\<close>

text \<open>The calls that fail may differ from saga to saga.\<close>

fun recover_sagas :: "(Uuid \<Rightarrow> faults) \<Rightarrow> Saga list \<Rightarrow> unit action" where
  "recover_sagas fails [] db = (Ok (), db)"
| "recover_sagas fails (saga # sagas) db =
    (let f = fails (saga_operation_id saga) in
     case execute f \<lparr>rss_blinded_secrets = saga_blinded_secrets saga, rss_input_ys = saga_input_ys saga\<rparr> db of
       Ok db1 \<Rightarrow>
         if f BeginCleanup then (Err (from_db DbDatabase), db1)
         else (case db_call f CleanupSaga (delete_saga (saga_operation_id saga) db1) of
                 Ok db2 \<Rightarrow> if f CommitCleanup then (Err (from_db DbDatabase), db1)
                           else recover_sagas fails sagas db2
               | Err _ \<Rightarrow> if f RollbackCleanup then (Err (from_db DbDatabase), db1)
                          else recover_sagas fails sagas db1
               | Panic \<Rightarrow> (Panic, db1))
     | Err _ \<Rightarrow> recover_sagas fails sagas db
     | Panic \<Rightarrow> (Panic, db))"

definition recover_from_incomplete_sagas :: "(Uuid \<Rightarrow> faults) \<Rightarrow> unit action" where
  "recover_from_incomplete_sagas fails db = recover_sagas fails (get_incomplete_sagas KindSwap db) db"

section \<open>Steps inverted\<close>

lemma db_call_Ok_iff [simp]: "db_call fails s m = Ok a \<longleftrightarrow> \<not> fails s \<and> m = Ok a"
  by (simp add: db_call_def)

lemma rolled_back_not_Ok [simp]: "rolled_back fails s err \<noteq> Ok a"
  by (simp add: rolled_back_def)

lemma or_rollback_Ok_iff [simp]: "or_rollback fails s h m = Ok a \<longleftrightarrow> m = Ok a"
  by (cases m) (simp_all add: or_rollback_def)

lemma setup_tx_Ok:
  assumes "setup_tx rt m oper inputs outputs quote v db = Ok (yl, db')"
  obtains db1 olds db2 db3 where
    "verify_transaction_balanced (rt_overflow_checks rt) m v inputs outputs db = Ok ()"
    "add_proofs (rt_externs rt) (rt_now rt) inputs quote oper db = Ok db1"
    "proof_ys (rt_externs rt) inputs = Ok yl" "update_proofs_states yl Pending db1 = Ok (olds, db2)"
    "add_blinded_messages (rt_now rt) quote outputs oper db2 = Ok db3"
    "add_saga (rt_now rt) (saga_new_swap (rt_now rt) (op_id oper) SagaSetupComplete
        (map blinded_secret outputs) yl) db3 = Ok db'"
  using assms by (auto simp: setup_tx_def Let_def split: if_splits option.splits)

lemma setup_swap_Ok:
  assumes "setup_swap rt m saga inputs outputs quote v db = (Ok s, db')"
  shows "setup_tx rt m (swap_operation saga) inputs outputs quote v db = Ok (setup_ys (swap_data s), db')"
    "setup_messages (swap_data s) = outputs" "swap_operation s = swap_operation saga"
    "swap_compensations s = \<lparr>rss_blinded_secrets = map blinded_secret outputs,
       rss_input_ys = setup_ys (swap_data s)\<rparr> # swap_compensations saga"
  using assms by (auto simp: setup_swap_def split: outcome.splits)

lemma setup_swap_not_Ok:
  "setup_swap rt m saga inputs outputs quote v db = (r, db') \<Longrightarrow> \<not> is_ok r \<Longrightarrow> db' = db"
  by (auto simp: setup_swap_def split: outcome.splits)

lemma finalize_Ok:
  assumes "finalize rt saga db = (Ok sigs, db')"
  obtains db1 olds db2 where "sigs = signed_signatures (swap_data saga)"
    "add_blind_signatures (rt_now rt) (map blinded_secret (signed_messages (swap_data saga))) sigs None db = Ok db1"
    "update_proofs_states (signed_ys (swap_data saga)) Spent db1 = Ok (olds, db2)"
    "db' = db2 \<or> delete_saga (op_id (swap_operation saga)) db2 = Ok db'"
  using assms
  by (auto simp: finalize_def or_compensate_def Let_def split: outcome.splits if_splits)

lemma finalize_not_Ok:
  "finalize rt saga db = (r, db') \<Longrightarrow> \<not> is_ok r \<Longrightarrow> db' = db \<or> db' = compensate_all (rt_faults rt) saga db"
  by (auto simp: finalize_def or_compensate_def Let_def split: outcome.splits if_splits)

lemma sign_outputs_Ok:
  assumes "sign_outputs rt m rs s db = (Ok s', db')"
  shows "db' = db" "swap_compensations s' = swap_compensations s" "swap_operation s' = swap_operation s"
    "signed_messages (swap_data s') = setup_messages (swap_data s)"
    "signed_ys (swap_data s') = setup_ys (swap_data s)"
    "blind_sign (rt_externs rt) (mint_signatory m) rs (setup_messages (swap_data s))
       = Ok (signed_signatures (swap_data s'))"
  using assms by (auto simp: sign_outputs_def split: outcome.splits)

lemma sign_outputs_not_Ok:
  "sign_outputs rt m rs s db = (r, db') \<Longrightarrow> \<not> is_ok r \<Longrightarrow> db' = db \<or> db' = compensate_all (rt_faults rt) s db"
  by (auto simp: sign_outputs_def split: outcome.splits)

section \<open>Undoing\<close>

text \<open>
  What undoing may do to the database: the value of both tables stays, spent proofs stay spent,
  and proofs outside \<open>Y\<close> are untouched.
\<close>

definition releases :: "PublicKey set \<Rightarrow> MintDb \<Rightarrow> MintDb \<Rightarrow> bool" where
  "releases Y db db' \<longleftrightarrow> keyed (proof_tbl db') \<and> keyed (sig_tbl db')
     \<and> spent_value db' = spent_value db \<and> signed_value db' = signed_value db
     \<and> (\<forall>y. proof_state db y = Some Spent \<longrightarrow> proof_state db' y = Some Spent)
     \<and> (\<forall>y. y \<notin> Y \<longrightarrow> stored_amount db' y = stored_amount db y
            \<and> (y \<in> keys_of (proof_tbl db') \<longleftrightarrow> y \<in> keys_of (proof_tbl db)))"

abbreviation tables_ok :: "MintDb \<Rightarrow> bool" where
  "tables_ok db \<equiv> keyed (proof_tbl db) \<and> keyed (sig_tbl db)"

lemma releases_refl: "tables_ok db \<Longrightarrow> releases Y db db"
  by (simp add: releases_def)

lemma releases_trans: "releases Y db db' \<Longrightarrow> releases Y db' db'' \<Longrightarrow> releases Y db db''"
  by (simp add: releases_def)

lemma releases_mono: "releases Y db db' \<Longrightarrow> Y \<subseteq> Z \<Longrightarrow> releases Z db db'"
  by (auto simp: releases_def)

lemma releases_tables: "releases Y db db' \<Longrightarrow> tables_ok db'"
  by (simp add: releases_def)

lemma delete_saga_same:
  assumes "delete_saga i db = Ok db'"
  shows "proof_tbl db' = proof_tbl db" "sig_tbl db' = sig_tbl db"
  using assms by (auto simp: delete_saga_def)

text \<open>Facts about the two tables carry over to a database with the same tables.\<close>

lemma same_tables:
  assumes "proof_tbl db' = proof_tbl db"
  shows "proof_state db' = proof_state db" "spent_value db' = spent_value db"
    "stored_amount db' = stored_amount db" "sig_tbl db' = sig_tbl db \<Longrightarrow> signed_value db' = signed_value db"
  using assms by (simp_all add: proof_state_def [abs_def] spent_value_def stored_amount_def [abs_def] signed_value_def)

lemma remove_proofs_releases:
  assumes "tables_ok db" "remove_proofs yl db = Ok db'"
  shows "releases (set yl) db db'"
proof -
  have db': "db' = drop_proofs yl db" using assms by (simp add: remove_proofs_Ok_iff)
  have sp: "proof_state db' y = Some Spent" if "proof_state db y = Some Spent" for y
    using mint.spent_stays(3) [OF _ that assms(2)] assms(1) by simp
  have out: "stored_amount db' y = stored_amount db y" "y \<in> keys_of (proof_tbl db') \<longleftrightarrow> y \<in> keys_of (proof_tbl db)"
    if "y \<notin> set yl" for y
    unfolding db' using drop_proofs_stored [of db y yl] assms(1) that by simp_all
  have sig: "sig_tbl db' = sig_tbl db" by (simp add: db' drop_proofs_def)
  have "keyed (proof_tbl db')" unfolding db' using assms(1) by (simp add: drop_proofs_def delete_where_keyed)
  moreover have "spent_value db' = spent_value db" using remove_spent_value assms by blast
  ultimately show ?thesis
    unfolding releases_def using sp out assms(1) sig by (simp add: signed_value_def)
qed

lemma execute_releases:
  assumes "tables_ok db" "execute fails c db = Ok db'"
  shows "releases (set (rss_input_ys c)) db db'"
proof (cases "rss_blinded_secrets c = [] \<and> rss_input_ys c = []")
  case True
  with assms show ?thesis by (simp add: execute_def releases_refl)
next
  case False
  with assms(2) obtain db1 where
    d: "(if rss_blinded_secrets c = [] then Ok db
         else delete_blinded_messages (rss_blinded_secrets c) db) = Ok db1"
    and r: "(if rss_input_ys c = [] then Ok db1 else remove_proofs (rss_input_ys c) db1) = Ok db'"
    by (auto simp: execute_def split: if_splits)
  from d assms(1) have t1: "tables_ok db1" and p1: "proof_tbl db1 = proof_tbl db"
    and v1: "signed_value db1 = signed_value db"
    using delete_blinded_messages_value [of "rss_blinded_secrets c" db db1] by (auto split: if_splits)
  have "releases (set (rss_input_ys c)) db1 db'"
    using r t1 remove_proofs_releases [of db1 "rss_input_ys c" db'] releases_refl [of db1]
    by (auto split: if_splits)
  then show ?thesis by (simp add: releases_def same_tables [OF p1] p1 v1)
qed

lemma run_compensation_releases:
  "tables_ok db \<Longrightarrow> releases (set (rss_input_ys c)) db (run_compensation fails c db)"
  by (auto simp: run_compensation_def execute_releases releases_refl split: outcome.splits)

lemma delete_saga_releases:
  assumes "releases Y db db1" "delete_saga i db1 = Ok db2"
  shows "releases Y db db2"
proof -
  note t = delete_saga_same [OF assms(2)]
  from assms(1) show ?thesis
    unfolding releases_def same_tables(1-3) [OF t(1)] same_tables(4) [OF t] t .
qed

lemma compensate_all_releases:
  assumes "tables_ok db" "\<forall>c \<in> set (swap_compensations saga). set (rss_input_ys c) \<subseteq> Y"
  shows "releases Y db (compensate_all fails saga db)"
proof -
  have run: "releases Y db (fold (run_compensation fails) cs db)"
    if "tables_ok db" "\<forall>c \<in> set cs. set (rss_input_ys c) \<subseteq> Y" for cs db
    using that
  proof (induction cs arbitrary: db)
    case (Cons c cs)
    then have c: "releases Y db (run_compensation fails c db)"
      using releases_mono [OF run_compensation_releases] by simp
    with Cons.IH [OF releases_tables [OF c]] Cons.prems(2) show ?case
      using releases_trans by (metis fold_simps(2) list.set_intros(2))
  qed (simp add: releases_refl)
  show ?thesis
    using run [OF assms] delete_saga_releases assms(1)
    by (auto simp: compensate_all_def Let_def releases_refl split: outcome.splits)
qed

lemma recover_sagas_releases:
  assumes "tables_ok db" "recover_sagas fails sagas db = (r, db')"
  shows "releases UNIV db db'"
  using assms
proof (induction fails sagas db arbitrary: r db' rule: recover_sagas.induct)
  case (1 fails db)
  then show ?case by (simp add: releases_refl)
next
  case (2 fails saga sagas db)
  let ?f = "fails (saga_operation_id saga)"
  let ?c = "\<lparr>rss_blinded_secrets = saga_blinded_secrets saga, rss_input_ys = saga_input_ys saga\<rparr>"
  show ?case
  proof (cases "execute ?f ?c db")
    case (Ok db1)
    have rel: "releases UNIV db db1"
      using releases_mono [OF execute_releases [OF "2.prems"(1) Ok]] by simp
    note t1 = releases_tables [OF rel]
    show ?thesis
    proof (cases "db_call ?f CleanupSaga (delete_saga (saga_operation_id saga) db1)")
      case del: (Ok db2)
      then have rel2: "releases UNIV db db2" using delete_saga_releases [OF rel] by auto
      show ?thesis
      proof (cases "?f BeginCleanup \<or> ?f CommitCleanup")
        case True
        with "2.prems"(2) Ok del rel show ?thesis by (auto simp: Let_def db_call_def split: if_splits)
      next
        case False
        with "2.prems"(2) Ok del have "recover_sagas fails sagas db2 = (r, db')"
          by (auto simp: Let_def db_call_def)
        from "2.IH"(1) [OF refl Ok _ del _ releases_tables [OF rel2] this] False
        show ?thesis using releases_trans [OF rel2] by simp
      qed
    next
      case del: (Err d)
      show ?thesis
      proof (cases "?f BeginCleanup \<or> ?f RollbackCleanup")
        case True
        with "2.prems"(2) Ok del rel show ?thesis by (auto simp: Let_def db_call_def split: if_splits)
      next
        case False
        with "2.prems"(2) Ok del have "recover_sagas fails sagas db1 = (r, db')"
          by (auto simp: Let_def db_call_def split: if_splits)
        from "2.IH"(2) [OF refl Ok _ del _ t1 this] False show ?thesis using releases_trans [OF rel] by simp
      qed
    next
      case Panic
      with "2.prems"(2) Ok rel show ?thesis by (auto simp: Let_def db_call_def split: if_splits)
    qed
  next
    case (Err x)
    with "2.prems"(2) have "recover_sagas fails sagas db = (r, db')" by (simp add: Let_def)
    from "2.IH"(3) [OF refl Err "2.prems"(1) this] show ?thesis .
  next
    case Panic
    with "2.prems" show ?thesis by (simp add: Let_def releases_refl)
  qed
qed

lemma add_saga_same:
  assumes "add_saga now saga db = Ok db'"
  shows "proof_tbl db' = proof_tbl db" "sig_tbl db' = sig_tbl db"
  using assms by (auto simp: add_saga_def)

text \<open>What a setup that commits leaves behind.\<close>

lemma setup_tx_effect:
  assumes "tables_ok db" "setup_tx rt m oper inputs outputs quote v db = Ok (yl, db')"
  shows "tables_ok db'" "spent_value db' = spent_value db" "signed_value db' = signed_value db"
    and "proof_state db' y = (if y \<in> set yl then Some Pending else proof_state db y)"
    and "distinct yl" "set yl \<inter> keys_of (proof_tbl db) = {}"
    and "map (stored_amount db') yl = map (\<lambda>p. unat (amount p)) inputs"
    and "y \<in> keys_of (proof_tbl db) \<Longrightarrow> stored_amount db' y = stored_amount db y"
    and "keys_of (proof_tbl db') = keys_of (proof_tbl db) \<union> set yl"
proof -
  from assms(2) obtain db1 olds db2 db3 where
    a: "add_proofs (rt_externs rt) (rt_now rt) inputs quote oper db = Ok db1"
    and ys: "proof_ys (rt_externs rt) inputs = Ok yl"
    and u: "update_proofs_states yl Pending db1 = Ok (olds, db2)"
    and b: "add_blinded_messages (rt_now rt) quote outputs oper db2 = Ok db3"
    and c: "add_saga (rt_now rt) (saga_new_swap (rt_now rt) (op_id oper) SagaSetupComplete
        (map blinded_secret outputs) yl) db3 = Ok db'" by (rule setup_tx_Ok)
  from assms(1) have k: "keyed (proof_tbl db)" "keyed (sig_tbl db)" by auto
  note r = mint.reserve [OF k(1) a ys u]
  from r ys have r': "keyed (proof_tbl db2)" "distinct yl" "\<forall>y \<in> set yl. proof_state db y = None"
    "\<forall>y. proof_state db2 y = (if y \<in> set yl then Some Pending else proof_state db y)" by auto
  from mint.add_Ok [OF k(1) a] have k1: "keyed (proof_tbl db1)" by blast
  have db2: "db2 = set_states yl Pending db1" using u by (simp add: update_proofs_states_Ok_iff [OF k1])
  have sig1: "sig_tbl db1 = sig_tbl db" using a by (rule add_proofs_Ok) simp
  have sig2: "sig_tbl db2 = sig_tbl db" by (simp add: db2 set_states_def sig1)
  note m = add_blinded_messages_value [OF b]
  note s = add_saga_same [OF c]
  have p: "proof_tbl db' = proof_tbl db2" using s m(3) by simp
  note same = same_tables(1-3) [OF p]
  show "tables_ok db'" using r'(1) p m(2) sig2 s k(2) by simp
  show "spent_value db' = spent_value db"
    using update_spent_value [OF k1 u] add_proofs_spent_value [OF a] by (simp add: same)
  show "signed_value db' = signed_value db"
    using m(1) sig2 s by (simp add: signed_value_def)
  show "proof_state db' y = (if y \<in> set yl then Some Pending else proof_state db y)"
    using r'(4) by (simp add: same)
  show "distinct yl" by (rule r'(2))
  show "set yl \<inter> keys_of (proof_tbl db) = {}"
    using r'(3) by (auto simp: proof_state_def map_of_None_keys)
  note st = add_proofs_stored [OF a ys]
  have so: "stored_amount db' = stored_amount db1" using db2 by (simp add: same fun_eq_iff)
  show "map (stored_amount db') yl = map (\<lambda>p. unat (amount p)) inputs" using st(1) by (simp add: so)
  show "y \<in> keys_of (proof_tbl db) \<Longrightarrow> stored_amount db' y = stored_amount db y" using st(2) by (simp add: so)
  show "keys_of (proof_tbl db') = keys_of (proof_tbl db) \<union> set yl" using st(3) by (simp add: p db2)
qed

text \<open>What a finalisation that commits does.\<close>

lemma finalize_effect:
  assumes "tables_ok db" "finalize rt saga db = (Ok sigs, db')"
  defines "yl \<equiv> signed_ys (swap_data saga)"
  shows "tables_ok db'" "spent_value db' = spent_value db + (\<Sum>y \<leftarrow> yl. stored_amount db y)"
    and "signed_value db' = signed_value db + total (map bs_amount sigs)"
    and "proof_state db' y = (if y \<in> set yl then Some Spent else proof_state db y)"
    and "distinct yl" "\<forall>y \<in> set yl. proof_state db y \<noteq> Some Spent \<and> proof_state db y \<noteq> None"
    and "stored_amount db' y = stored_amount db y" "keys_of (proof_tbl db') = keys_of (proof_tbl db)"
    and "length (signed_messages (swap_data saga)) = length sigs"
proof -
  from assms(2) obtain db1 olds db2 where
    a: "add_blind_signatures (rt_now rt) (map blinded_secret (signed_messages (swap_data saga))) sigs None db = Ok db1"
    and u: "update_proofs_states yl Spent db1 = Ok (olds, db2)"
    and d: "db' = db2 \<or> delete_saga (op_id (swap_operation saga)) db2 = Ok db'"
    unfolding yl_def by (rule finalize_Ok)
  from assms(1) have k: "keyed (proof_tbl db)" "keyed (sig_tbl db)" by auto
  note s = add_blind_signatures_value [OF a k(2)]
  have k1: "keyed (proof_tbl db1)" using s(3) k(1) by simp
  note m = mint.update_Ok [OF k1 u]
  have db2: "db2 = set_states yl Spent db1" using u by (simp add: update_proofs_states_Ok_iff [OF k1])
  have t: "proof_tbl db' = proof_tbl db2" "sig_tbl db' = sig_tbl db2" using d delete_saga_same by blast+
  note same = same_tables(1-3) [OF t(1)] and base = same_tables(1-3) [OF s(3)]
  have sig: "sig_tbl db2 = sig_tbl db1" by (simp add: db2 set_states_def)
  show "tables_ok db'" using m s(2) t sig by simp
  show "spent_value db' = spent_value db + (\<Sum>y \<leftarrow> yl. stored_amount db y)"
    using update_spent_value [OF k1 u] by (simp add: same base)
  show "signed_value db' = signed_value db + total (map bs_amount sigs)"
    using s(1) t(2) sig by (simp add: signed_value_def)
  show "proof_state db' y = (if y \<in> set yl then Some Spent else proof_state db y)" using m by (simp add: same base)
  show "distinct yl" using m by simp
  show "\<forall>y \<in> set yl. proof_state db y \<noteq> Some Spent \<and> proof_state db y \<noteq> None"
  proof
    fix y assume "y \<in> set yl"
    with m obtain old where "proof_state db1 y = Some old" "check_state_transition old Spent = Ok ()" by blast
    then show "proof_state db y \<noteq> Some Spent \<and> proof_state db y \<noteq> None"
      by (auto simp: base check_state_transition_def)
  qed
  show "stored_amount db' y = stored_amount db y" by (simp add: same db2 base)
  show "keys_of (proof_tbl db') = keys_of (proof_tbl db)" by (simp add: t(1) db2 s(3))
  show "length (signed_messages (swap_data saga)) = length sigs"
    using a by (auto simp: add_blind_signatures_def)
qed

section \<open>Interleaved swaps, crashes and recovery\<close>

text \<open>
  Requests run concurrently: each is between its steps while others take theirs, a crash loses all
  of them, and recovery runs when none is in progress. The history lists the swaps that returned
  signatures; \<open>w_spent\<close> and \<open>w_issued\<close> are the value that operations other than swaps have spent and
  signed, which swaps do not change. Any database call of any step may fail, and the mint's keysets may differ from step
  to step.
\<close>

datatype phase = AfterSetup "SetupComplete SwapSaga" | AfterSigning "Signed SwapSaga"

record swap_run =
  run_request :: SwapRequest
  run_fee :: Amount
  run_phase :: phase

record world =
  w_db :: MintDb
  w_live :: "swap_run list"
  w_done :: "swap_run list"
  w_spent :: nat
  w_issued :: nat

inductive swap_step :: "world \<Rightarrow> world \<Rightarrow> bool" where
  Start: "swap_checks rt m req = Ok v
    \<Longrightarrow> setup_swap rt m (swap_saga_new i) (swap_inputs req) (swap_outputs req) None v (w_db w) = (Ok s, db')
    \<Longrightarrow> get_proofs_fee (rt_overflow_checks rt) m (swap_inputs req) = Ok f
    \<Longrightarrow> swap_step w (w\<lparr>w_db := db', w_live := \<lparr>run_request = req, run_fee = f, run_phase = AfterSetup s\<rparr> # w_live w\<rparr>)"
| Sign: "w_live w = xs @ l # zs \<Longrightarrow> run_phase l = AfterSetup s
    \<Longrightarrow> sign_outputs rt m rs s (w_db w) = (Ok s', db')
    \<Longrightarrow> swap_step w (w\<lparr>w_db := db', w_live := xs @ l\<lparr>run_phase := AfterSigning s'\<rparr> # zs\<rparr>)"
| Sign_fails: "w_live w = xs @ l # zs \<Longrightarrow> run_phase l = AfterSetup s
    \<Longrightarrow> sign_outputs rt m rs s (w_db w) = (r, db') \<Longrightarrow> \<not> is_ok r
    \<Longrightarrow> swap_step w (w\<lparr>w_db := db', w_live := xs @ zs\<rparr>)"
| Finish: "w_live w = xs @ l # zs \<Longrightarrow> run_phase l = AfterSigning s
    \<Longrightarrow> finalize rt s (w_db w) = (Ok sigs, db')
    \<Longrightarrow> swap_step w (w\<lparr>w_db := db', w_live := xs @ zs, w_done := l # w_done w\<rparr>)"
| Finish_fails: "w_live w = xs @ l # zs \<Longrightarrow> run_phase l = AfterSigning s
    \<Longrightarrow> finalize rt s (w_db w) = (r, db') \<Longrightarrow> \<not> is_ok r
    \<Longrightarrow> swap_step w (w\<lparr>w_db := db', w_live := xs @ zs\<rparr>)"
| Crash: "swap_step w (w\<lparr>w_live := []\<rparr>)"
| Recover: "w_live w = [] \<Longrightarrow> recover_from_incomplete_sagas fails (w_db w) = (r, db')
    \<Longrightarrow> swap_step w (w\<lparr>w_db := db'\<rparr>)"

definition run_ys :: "swap_run \<Rightarrow> PublicKey list" where
  "run_ys l = (case run_phase l of AfterSetup s \<Rightarrow> setup_ys (swap_data s) | AfterSigning s \<Rightarrow> signed_ys (swap_data s))"

definition run_in :: "swap_run \<Rightarrow> nat" where
  "run_in l = total (map amount (swap_inputs (run_request l)))"

definition run_out :: "swap_run \<Rightarrow> nat" where
  "run_out l = total (map bm_amount (swap_outputs (run_request l)))"

text \<open>A request in progress: its undo names its own inputs, and its outputs are the request's.\<close>

definition run_ok :: "swap_run \<Rightarrow> bool" where
  "run_ok l \<longleftrightarrow> run_in l = run_out l + unat (run_fee l)
     \<and> (case run_phase l of
          AfterSetup s \<Rightarrow> setup_messages (swap_data s) = swap_outputs (run_request l)
            \<and> (\<forall>c \<in> set (swap_compensations s). set (rss_input_ys c) \<subseteq> set (run_ys l))
        | AfterSigning s \<Rightarrow> signed_messages (swap_data s) = swap_outputs (run_request l)
            \<and> (\<forall>c \<in> set (swap_compensations s). set (rss_input_ys c) \<subseteq> set (run_ys l))
            \<and> map bs_amount (signed_signatures (swap_data s))
               = take (length (signed_signatures (swap_data s))) (map bm_amount (swap_outputs (run_request l))))"

definition holds_inputs :: "MintDb \<Rightarrow> swap_run \<Rightarrow> bool" where
  "holds_inputs db l \<longleftrightarrow> set (run_ys l) \<subseteq> keys_of (proof_tbl db)
     \<and> map (stored_amount db) (run_ys l) = map (\<lambda>p. unat (amount p)) (swap_inputs (run_request l))"

definition world_inv :: "world \<Rightarrow> bool" where
  "world_inv w \<longleftrightarrow> tables_ok (w_db w)
     \<and> spent_value (w_db w) = (\<Sum>l \<leftarrow> w_done w. run_in l) + w_spent w
     \<and> signed_value (w_db w) = (\<Sum>l \<leftarrow> w_done w. run_out l) + w_issued w
     \<and> (\<forall>l \<in> set (w_live w). run_ok l \<and> holds_inputs (w_db w) l)
     \<and> distinct (concat (map run_ys (w_live w)))
     \<and> (\<forall>l \<in> set (w_done w). run_in l = run_out l + unat (run_fee l)
          \<and> (\<forall>y \<in> set (run_ys l). proof_state (w_db w) y = Some Spent))
     \<and> distinct (concat (map run_ys (w_done w)))"

text \<open>Undoing one request in progress leaves the others their inputs.\<close>

lemma holds_inputs_releases:
  assumes "releases Y db db'" "Y \<inter> set (run_ys l) = {}" "holds_inputs db l"
  shows "holds_inputs db' l"
proof -
  from assms(1,2) have "stored_amount db' y = stored_amount db y \<and> (y \<in> keys_of (proof_tbl db') \<longleftrightarrow> y \<in> keys_of (proof_tbl db))"
    if "y \<in> set (run_ys l)" for y
    using that unfolding releases_def by blast
  with assms(3) show ?thesis unfolding holds_inputs_def by (metis (no_types, lifting) map_eq_conv subset_iff)
qed

lemma world_inv_release:
  assumes "world_inv w" "releases Y (w_db w) db'" "set live \<subseteq> set (w_live w)"
    and "distinct (concat (map run_ys live))" "\<forall>l \<in> set live. Y \<inter> set (run_ys l) = {}"
  shows "world_inv (w\<lparr>w_db := db', w_live := live\<rparr>)"
proof -
  have "holds_inputs db' l" if "l \<in> set live" for l
  proof (rule holds_inputs_releases [OF assms(2)])
    show "Y \<inter> set (run_ys l) = {}" using assms(5) that by blast
    show "holds_inputs (w_db w) l" using assms(1,3) that by (auto simp: world_inv_def)
  qed
  moreover have "\<forall>l \<in> set live. run_ok l" using assms(1,3) by (auto simp: world_inv_def)
  ultimately show ?thesis using assms(1,2,4) by (simp add: world_inv_def releases_def)
qed

lemma live_disjoint:
  assumes "distinct (concat (map run_ys (xs @ l # zs)))"
  shows "distinct (concat (map run_ys (xs @ zs)))" "\<forall>k \<in> set (xs @ zs). set (run_ys l) \<inter> set (run_ys k) = {}"
  using assms by (auto simp: distinct_append)

lemma balanced_Ok_fee:
  assumes "verify_transaction_balanced oc m v inputs outputs db = Ok ()" "get_proofs_fee oc m inputs = Ok f"
  shows "unat (ver_amount v) = total (map bm_amount outputs) + unat f"
proof -
  from assms obtain w r where w: "verify_outputs m outputs db = Ok w"
    and r: "checked_sub (ver_amount v) f = Some r" "ver_amount w = r"
    by (auto simp: verify_transaction_balanced_def)
  from verify_outputs_Ok(2) [OF w] r show ?thesis by (simp add: checked_sub_Some_iff)
qed

lemma proof_state_keys: "proof_state db y = Some s \<Longrightarrow> y \<in> keys_of (proof_tbl db)"
  by (auto simp: proof_state_def keys_of_iff)

lemma inv_start:
  assumes "world_inv w" "swap_checks rt m req = Ok v"
    and "setup_swap rt m (swap_saga_new i) (swap_inputs req) (swap_outputs req) None v (w_db w) = (Ok s, db')"
    and "get_proofs_fee (rt_overflow_checks rt) m (swap_inputs req) = Ok f"
  shows "world_inv (w\<lparr>w_db := db', w_live := \<lparr>run_request = req, run_fee = f, run_phase = AfterSetup s\<rparr> # w_live w\<rparr>)"
proof -
  let ?l = "\<lparr>run_request = req, run_fee = f, run_phase = AfterSetup s\<rparr>" and ?db = "w_db w"
  note st = setup_swap_Ok [OF assms(3)]
  have t: "tables_ok ?db" using assms(1) by (simp add: world_inv_def)
  note eff = setup_tx_effect [OF t st(1)]
  have ys: "run_ys ?l = setup_ys (swap_data s)" by (simp add: run_ys_def)
  from st(1) have bal: "verify_transaction_balanced (rt_overflow_checks rt) m v (swap_inputs req) (swap_outputs req) ?db = Ok ()"
    by (rule setup_tx_Ok)
  have "run_in ?l = run_out ?l + unat (run_fee ?l)"
    using balanced_Ok_fee [OF bal assms(4)] assms(2) verify_inputs_Ok(2)
    by (auto simp: swap_checks_def run_in_def run_out_def)
  then have "run_ok ?l" using st ys by (simp add: run_ok_def swap_saga_new_def)
  moreover have "holds_inputs db' ?l" using eff(7,9) ys by (simp add: holds_inputs_def)
  moreover have live: "holds_inputs db' l" "set (run_ys l) \<inter> set (run_ys ?l) = {}" if "l \<in> set (w_live w)" for l
  proof -
    have h: "holds_inputs ?db l" using assms(1) that by (simp add: world_inv_def)
    then have "stored_amount db' y = stored_amount ?db y" if "y \<in> set (run_ys l)" for y
      using eff(8) that by (auto simp: holds_inputs_def)
    with h show "holds_inputs db' l"
      using eff(9) by (auto simp: holds_inputs_def cong: map_cong)
    show "set (run_ys l) \<inter> set (run_ys ?l) = {}" using h eff(6) ys by (auto simp: holds_inputs_def)
  qed
  moreover have "proof_state db' y = Some Spent" if "proof_state ?db y = Some Spent" for y
    using eff(4,6) that proof_state_keys [OF that] by auto
  ultimately show ?thesis
    using assms(1) eff(1-3,5) ys unfolding world_inv_def by auto
qed

lemma inv_sign:
  assumes "world_inv w" "w_live w = xs @ l # zs" "run_phase l = AfterSetup s"
    and "sign_outputs rt m rs s (w_db w) = (Ok s', db')"
  shows "world_inv (w\<lparr>w_db := db', w_live := xs @ l\<lparr>run_phase := AfterSigning s'\<rparr> # zs\<rparr>)"
proof -
  let ?l = "l\<lparr>run_phase := AfterSigning s'\<rparr>"
  note sg = sign_outputs_Ok [OF assms(4)]
  have l: "run_ok l" "holds_inputs (w_db w) l" using assms(1,2) by (simp_all add: world_inv_def)
  have ys: "run_ys ?l = run_ys l" using assms(3) sg by (simp add: run_ys_def)
  have "run_in ?l = run_in l" "run_out ?l = run_out l" by (simp_all add: run_in_def run_out_def)
  then have "run_ok ?l"
    using l(1) assms(3) sg ys blind_sign_amounts [OF sg(6)] by (simp add: run_ok_def)
  moreover have "holds_inputs db' ?l" using l(2) ys sg(1) by (simp add: holds_inputs_def)
  ultimately show ?thesis using assms(1,2) ys sg(1) by (auto simp: world_inv_def)
qed

lemma inv_finish:
  assumes "world_inv w" "w_live w = xs @ l # zs" "run_phase l = AfterSigning s"
    and "finalize rt s (w_db w) = (Ok sigs, db')"
  shows "world_inv (w\<lparr>w_db := db', w_live := xs @ zs, w_done := l # w_done w\<rparr>)"
proof -
  let ?db = "w_db w"
  have t: "tables_ok ?db" and l: "run_ok l" "holds_inputs ?db l"
    using assms(1,2) by (simp_all add: world_inv_def)
  note eff = finalize_effect [OF t assms(4)]
  have ys: "run_ys l = signed_ys (swap_data s)" using assms(3) by (simp add: run_ys_def)
  from assms(4) have sigs: "sigs = signed_signatures (swap_data s)" by (rule finalize_Ok)
  have "map bs_amount sigs = map bm_amount (swap_outputs (run_request l))"
    using l(1) assms(3) eff(9) by (simp add: run_ok_def sigs)
  then have sv: "signed_value db' = signed_value ?db + run_out l" using eff(3) by (simp add: run_out_def)
  have "(\<Sum>y \<leftarrow> run_ys l. stored_amount ?db y) = run_in l"
    using l(2) by (simp add: holds_inputs_def run_in_def total_def comp_def)
  then have pv: "spent_value db' = spent_value ?db + run_in l" using eff(2) ys by simp
  have so: "stored_amount db' = stored_amount ?db" by (rule ext) (rule eff(7))
  have live: "holds_inputs db' k" if "k \<in> set (xs @ zs)" for k
    using assms(1,2) that by (auto simp: world_inv_def holds_inputs_def so eff(8))
  have done1: "proof_state db' y = Some Spent" if "k \<in> set (w_done w)" "y \<in> set (run_ys k)" for k y
    using assms(1) that eff(4) by (auto simp: world_inv_def)
  have disj: "set (run_ys l) \<inter> set (run_ys k) = {}" if "k \<in> set (w_done w)" for k
    using assms(1) that eff(6) ys by (fastforce simp: world_inv_def)
  have "distinct (concat (map run_ys (l # w_done w)))"
    using assms(1) disj eff(5) ys by (auto simp: world_inv_def)
  moreover have "\<forall>y \<in> set (run_ys l). proof_state db' y = Some Spent" using eff(4) ys by simp
  ultimately show ?thesis
    using assms(1,2) eff(1) sv pv live done1 l(1) live_disjoint [of xs l zs]
    unfolding world_inv_def by (auto simp: run_ok_def)
qed

lemma inv_undo:
  assumes "world_inv w" "w_live w = xs @ l # zs"
    and "db' = w_db w \<or> (\<exists>Y. releases Y (w_db w) db' \<and> Y \<subseteq> set (run_ys l))"
  shows "world_inv (w\<lparr>w_db := db', w_live := xs @ zs\<rparr>)"
proof -
  have "tables_ok (w_db w)" "distinct (concat (map run_ys (xs @ l # zs)))"
    using assms(1,2) by (auto simp: world_inv_def)
  moreover from this assms(3) obtain Y where "releases Y (w_db w) db'" "Y \<subseteq> set (run_ys l)"
    using releases_refl by blast
  ultimately show ?thesis
  proof (intro world_inv_release [OF assms(1), of Y])
    assume d: "distinct (concat (map run_ys (xs @ l # zs)))" and Y: "Y \<subseteq> set (run_ys l)"
    show "distinct (concat (map run_ys (xs @ zs)))" by (rule live_disjoint(1) [OF d])
    show "\<forall>k \<in> set (xs @ zs). Y \<inter> set (run_ys k) = {}" using live_disjoint(2) [OF d] Y by blast
  qed (auto simp: assms(2))
qed

lemma swap_step_inv: "swap_step w w' \<Longrightarrow> world_inv w \<Longrightarrow> world_inv w'"
proof (induction rule: swap_step.induct)
  case (Start rt m req v i w s db' f)
  then show ?case by (intro inv_start)
next
  case (Sign w xs l zs s rt m rs s' db')
  then show ?case by (intro inv_sign)
next
  case (Sign_fails w xs l zs s rt m rs r db')
  have "tables_ok (w_db w)" "run_ok l" using Sign_fails by (simp_all add: world_inv_def)
  then have "releases (set (run_ys l)) (w_db w) (compensate_all (rt_faults rt) s (w_db w))"
    using Sign_fails(2) by (intro compensate_all_releases) (simp_all add: run_ok_def)
  then show ?case
    using inv_undo [OF Sign_fails(5,1)] sign_outputs_not_Ok [OF Sign_fails(3,4)] by blast
next
  case (Finish w xs l zs s rt sigs db')
  then show ?case by (intro inv_finish)
next
  case (Finish_fails w xs l zs s rt r db')
  have "tables_ok (w_db w)" "run_ok l" using Finish_fails by (simp_all add: world_inv_def)
  then have "releases (set (run_ys l)) (w_db w) (compensate_all (rt_faults rt) s (w_db w))"
    using Finish_fails(2) by (intro compensate_all_releases) (simp_all add: run_ok_def)
  then show ?case
    using inv_undo [OF Finish_fails(5,1)] finalize_not_Ok [OF Finish_fails(3,4)] by blast
next
  case (Crash w)
  then show ?case by (simp add: world_inv_def)
next
  case (Recover w fails r db')
  have "releases UNIV (w_db w) db'"
    using Recover recover_sagas_releases by (auto simp: recover_from_incomplete_sagas_def world_inv_def)
  from world_inv_release [OF Recover(3) this, of "[]"] Recover(1) show ?case by (cases w) simp
qed

lemma swap_step_counters: "swap_step w w' \<Longrightarrow> w_spent w' = w_spent w \<and> w_issued w' = w_issued w"
  by (induction rule: swap_step.induct) simp_all

text \<open>A swap of one proof for one output.\<close>

definition demo_rt :: "faults \<Rightarrow> runtime" where
  "demo_rt fails = \<lparr>rt_externs = toy_externs, rt_overflow_checks = True, rt_now = 0, rt_faults = fails\<rparr>"

definition demo_swap_request :: SwapRequest where
  "demo_swap_request = \<lparr>swap_inputs = [toy_proof ''x''], swap_outputs = [demo_message]\<rparr>"

lemma demo_y: "proof_y toy_externs (toy_proof s) = Ok [2, 1]"
  by (simp add: proof_y_def hash_to_curve_def hash_to_curve_from.simps toy_externs_def)

lemma demo_fee: "get_proofs_fee True demo_mint [toy_proof s] = Ok 0"
  by (simp add: get_proofs_fee_def fee_step_of_def toy_proof_def demo_info_lookup calculate_fee_def
      fee_step_def mul_unchecked_def checked_mul_def checked_add_def)

lemma demo_checks: "swap_checks (demo_rt fails) demo_mint demo_swap_request = Ok \<lparr>ver_amount = 8, ver_unit = Some Sat\<rparr>"
proof -
  have v: "verify_one toy_externs demo_signer (toy_proof ''x'') = Ok ()"
    by (simp add: verify_one_def demo_signer_def toy_proof_def demo_sign_keyset_def verify_message_def
        hash_to_curve_def hash_to_curve_from.simps toy_defs)
  have n: "nut10_try_from toy_externs t = Err SerdeError" for t
    by (simp add: nut10_try_from_def toy_externs_def)
  have sum: "try_sum [8] = Ok 8" by (simp add: try_sum_def checked_add_def)
  have "mint_verify_inputs toy_externs 0 demo_mint [toy_proof ''x''] = Ok \<lparr>ver_amount = 8, ver_unit = Some Sat\<rparr>"
    using v n sum
    by (simp add: mint_verify_inputs_def check_inputs_unique_def proof_ys_def demo_y verify_inputs_keyset_def
        demo_info_lookup one_unit_def total_amount_def verify_proofs_def check_conditions_def
        signatory_verify_proofs_def) (simp add: toy_proof_def demo_mint_def)
  moreover have "validate_sig_flag toy_externs demo_swap_request = Ok ()"
    using n by (simp add: validate_sig_flag_def demo_swap_request_def enforce_sig_flag_def enforce_step_def)
  ultimately show ?thesis
    using sum by (simp add: swap_checks_def demo_rt_def demo_swap_request_def swap_input_amount_def
        swap_output_amount_def toy_proof_def demo_message_def)
qed

definition demo_row :: "State \<Rightarrow> PublicKey \<times> ProofRow" where
  "demo_row st = ([2, 1], (proof_row 0 None (OpSwap 7) (toy_proof ''x''))\<lparr>pr_state := st\<rparr>)"

definition demo_saga_row :: "Uuid \<times> Saga" where
  "demo_saga_row = (7, saga_new_swap 0 7 SagaSetupComplete [[2, 3]] [[2, 1]])"

definition demo_setup_db :: MintDb where
  "demo_setup_db = empty_db\<lparr>proof_tbl := [demo_row Pending],
     sig_tbl := [([2, 3], message_row 0 None (OpSwap 7) demo_message)], saga_tbl := [demo_saga_row]\<rparr>"

definition demo_setup_saga :: "SetupComplete SwapSaga" where
  "demo_setup_saga = \<lparr>swap_compensations = [\<lparr>rss_blinded_secrets = [[2, 3]], rss_input_ys = [[2, 1]]\<rparr>],
     swap_operation = OpSwap 7, swap_data = \<lparr>setup_messages = [demo_message], setup_ys = [[2, 1]]\<rparr>\<rparr>"

definition demo_signature :: BlindSignature where
  "demo_signature = \<lparr>bs_amount = 8, bs_keyset_id = example_id, bs_c = [2, 4],
     bs_dleq = Some \<lparr>dleq_e = [1], dleq_s = [4]\<rparr>\<rparr>"

definition demo_signed_saga :: "Signed SwapSaga" where
  "demo_signed_saga = \<lparr>swap_compensations = [\<lparr>rss_blinded_secrets = [[2, 3]], rss_input_ys = [[2, 1]]\<rparr>],
     swap_operation = OpSwap 7,
     swap_data = \<lparr>signed_messages = [demo_message], signed_ys = [[2, 1]], signed_signatures = [demo_signature]\<rparr>\<rparr>"

lemma demo_setup:
  assumes "\<forall>s \<in> {BeginSetup, AddInputs, MarkPending, AddOutputs, AddSagaRow, CommitSetup}. \<not> fails s"
  shows "setup_swap (demo_rt fails) demo_mint (swap_saga_new 7) [toy_proof ''x''] [demo_message] None
     \<lparr>ver_amount = 8, ver_unit = Some Sat\<rparr> empty_db = (Ok demo_setup_saga, demo_setup_db)"
proof -
  have b: "verify_transaction_balanced True demo_mint \<lparr>ver_amount = 8, ver_unit = Some Sat\<rparr> [toy_proof ''x'']
      [demo_message] empty_db = Ok ()"
    by (simp add: verify_transaction_balanced_def demo_outputs demo_fee [of "''x''"] empty_db_def checked_sub_def)
  have a: "add_proofs toy_externs 0 [toy_proof ''x''] None (OpSwap 7) empty_db
      = Ok (empty_db\<lparr>proof_tbl := [demo_row Unspent]\<rparr>)"
    by (simp add: add_proofs_def proof_ys_def demo_y select_in_def empty_db_def insert_proof_def not_null_def
        ensure_def insert_row_def) (simp add: to_i64_def toy_proof_def demo_row_def proof_row_def)
  have u: "update_proofs_states [[2, 1]] Pending (empty_db\<lparr>proof_tbl := [demo_row Unspent]\<rparr>)
      = Ok ([Some Unspent], empty_db\<lparr>proof_tbl := [demo_row Pending]\<rparr>)"
    by (simp add: update_proofs_states_def get_current_states_def select_in_def demo_row_def ensure_def
        check_state_transition_def update_where_def proof_row_def)
  have m: "add_blinded_messages 0 None [demo_message] (OpSwap 7) (empty_db\<lparr>proof_tbl := [demo_row Pending]\<rparr>)
      = Ok (empty_db\<lparr>proof_tbl := [demo_row Pending],
              sig_tbl := [([2, 3], message_row 0 None (OpSwap 7) demo_message)]\<rparr>)"
    by (simp add: add_blinded_messages_def insert_blinded_message_def not_null_def ensure_def to_i64_def
        insert_row_def empty_db_def demo_message_def message_row_def)
  show ?thesis
    using assms b a u m
    by (simp add: setup_swap_def setup_tx_def demo_rt_def db_call_def swap_saga_new_def or_rollback_def
        proof_ys_def demo_y add_saga_def insert_row_def demo_setup_saga_def demo_setup_db_def demo_saga_row_def
        saga_new_swap_def) (simp add: empty_db_def demo_message_def)
qed

lemma demo_sign: "sign_outputs (demo_rt fails) demo_mint [[1]] demo_setup_saga db = (Ok demo_signed_saga, db)"
  using demo_signer_signs
  by (simp add: sign_outputs_def demo_rt_def demo_mint_def demo_setup_saga_def demo_signed_saga_def demo_signature_def)

definition demo_final_db :: MintDb where
  "demo_final_db = empty_db\<lparr>proof_tbl := [demo_row Spent],
     sig_tbl := [([2, 3], (message_row 0 None (OpSwap 7) demo_message)
        \<lparr>sr_c := Some [2, 4], sr_dleq := bs_dleq demo_signature, sr_signed_time := Some 0\<rparr>)]\<rparr>"

lemma demo_final_steps:
  "add_blind_signatures 0 [[2, 3]] [demo_signature] None demo_setup_db
     = Ok (demo_setup_db\<lparr>sig_tbl := sig_tbl demo_final_db\<rparr>)"
  "update_proofs_states [[2, 1]] Spent (demo_setup_db\<lparr>sig_tbl := sig_tbl demo_final_db\<rparr>)
     = Ok ([Some Pending], demo_final_db\<lparr>saga_tbl := [demo_saga_row]\<rparr>)"
proof -
  show "add_blind_signatures 0 [[2, 3]] [demo_signature] None demo_setup_db
     = Ok (demo_setup_db\<lparr>sig_tbl := sig_tbl demo_final_db\<rparr>)"
    by (simp add: add_blind_signatures_def add_blind_signature_def ensure_def demo_setup_db_def demo_final_db_def
        select_in_def message_row_def demo_message_def demo_signature_def update_where_def delete_where_def empty_db_def)
  show "update_proofs_states [[2, 1]] Spent (demo_setup_db\<lparr>sig_tbl := sig_tbl demo_final_db\<rparr>)
     = Ok ([Some Pending], demo_final_db\<lparr>saga_tbl := [demo_saga_row]\<rparr>)"
    by (simp add: update_proofs_states_def get_current_states_def select_in_def demo_setup_db_def demo_final_db_def
        demo_row_def ensure_def check_state_transition_def update_where_def proof_row_def)
qed

lemma demo_finalize:
  assumes "\<forall>c. fails c \<longrightarrow> c = DeleteSagaRow"
  shows "finalize (demo_rt fails) demo_signed_saga demo_setup_db = (Ok [demo_signature],
    if fails DeleteSagaRow then demo_final_db\<lparr>saga_tbl := [demo_saga_row]\<rparr> else demo_final_db)"
proof -
  have "\<not> fails BeginFinal" "\<not> fails AddSignatures" "\<not> fails MarkSpent" "\<not> fails CommitFinal"
    using assms by blast+
  moreover have "delete_saga 7 (demo_final_db\<lparr>saga_tbl := [demo_saga_row]\<rparr>) = Ok demo_final_db"
    by (simp add: delete_saga_def delete_where_def demo_saga_row_def demo_final_db_def empty_db_def)
  ultimately show ?thesis
    using demo_final_steps
    by (simp add: finalize_def demo_signed_saga_def demo_rt_def db_call_def or_compensate_def demo_message_def)
qed

end
