(* ===== verification/SwapProps.thy ===== *)
theory SwapProps
  imports SwapSaga
begin

text \<open>
  What one swap does: the two transactions, the signing between them and the compensation together
  are a single atomic step that either adds spent inputs and signed outputs or leaves the database
  as it was, and recovery after a crash gives the database before the request. Then the cases in
  which a failing database call leaves something behind.
\<close>

section \<open>The database between the transactions\<close>

definition input_rows :: "State \<Rightarrow> u64 \<Rightarrow> QuoteId option \<Rightarrow> Operation \<Rightarrow> PublicKey list \<Rightarrow> Proof list
    \<Rightarrow> (PublicKey \<times> ProofRow) list" where
  "input_rows st now quote oper yl ps = zip yl (map (\<lambda>p. (proof_row now quote oper p)\<lparr>pr_state := st\<rparr>) ps)"

definition output_rows :: "u64 \<Rightarrow> QuoteId option \<Rightarrow> Operation \<Rightarrow> BlindedMessage list \<Rightarrow> (PublicKey \<times> SigRow) list" where
  "output_rows now quote oper msgs = map (\<lambda>m. (blinded_secret m, message_row now quote oper m)) msgs"

lemma input_rows_member:
  "(y, r) \<in> set (input_rows st now quote oper yl ps) \<Longrightarrow> y \<in> set yl \<and> pr_state r = st"
  by (auto simp: input_rows_def in_set_zip)

lemma keys_of_input_rows [simp]:
  "length yl = length ps \<Longrightarrow> keys_of (input_rows st now quote oper yl ps) = set yl"
  by (simp add: input_rows_def keys_of_def flip: set_map)

lemma set_states_added:
  assumes "length yl = length ps" "set yl \<inter> keys_of t = {}"
  shows "update_where (\<lambda>y _. y \<in> set yl) (\<lambda>r. r\<lparr>pr_state := s\<rparr>) (t @ input_rows st now quote oper yl ps)
     = t @ input_rows s now quote oper yl ps"
  using assms not_in_keys [of _ _ t "set yl"]
  by (simp add: update_where_append update_where_other input_rows_def update_where_zip comp_def)

definition swap_saga_row :: "u64 \<Rightarrow> Operation \<Rightarrow> PublicKey list \<Rightarrow> BlindedMessage list \<Rightarrow> Saga" where
  "swap_saga_row now oper yl outputs = saga_new_swap now (op_id oper) SagaSetupComplete (map blinded_secret outputs) yl"

definition setup_db ::
  "u64 \<Rightarrow> QuoteId option \<Rightarrow> Operation \<Rightarrow> PublicKey list \<Rightarrow> Proof list \<Rightarrow> BlindedMessage list \<Rightarrow> MintDb \<Rightarrow> MintDb" where
  "setup_db now quote oper yl inputs outputs db = db\<lparr>
     proof_tbl := proof_tbl db @ input_rows Pending now quote oper yl inputs,
     sig_tbl := sig_tbl db @ output_rows now quote oper outputs,
     saga_tbl := saga_tbl db @ [(op_id oper, swap_saga_row now oper yl outputs)]\<rparr>"

lemma setup_tx_db:
  assumes "keyed (proof_tbl db)" "setup_tx rt m oper inputs outputs quote v db = Ok (yl, db')"
  shows "db' = setup_db (rt_now rt) quote oper yl inputs outputs db"
    "proof_ys (rt_externs rt) inputs = Ok yl" "distinct yl" "set yl \<inter> keys_of (proof_tbl db) = {}"
    "distinct (map blinded_secret outputs)" "set (map blinded_secret outputs) \<inter> keys_of (sig_tbl db) = {}"
    "op_id oper \<notin> keys_of (saga_tbl db)"
proof -
  from assms(2) obtain db1 olds db2 db3 where
    a: "add_proofs (rt_externs rt) (rt_now rt) inputs quote oper db = Ok db1"
    and ys: "proof_ys (rt_externs rt) inputs = Ok yl"
    and u: "update_proofs_states yl Pending db1 = Ok (olds, db2)"
    and b: "add_blinded_messages (rt_now rt) quote outputs oper db2 = Ok db3"
    and c: "add_saga (rt_now rt) (saga_new_swap (rt_now rt) (op_id oper) SagaSetupComplete
        (map blinded_secret outputs) yl) db3 = Ok db'" by (rule setup_tx_Ok)
  from a ys obtain d: "distinct yl" "set yl \<inter> keys_of (proof_tbl db) = {}"
    and "db1 = db\<lparr>proof_tbl := proof_tbl db @ zip yl (map (proof_row (rt_now rt) quote oper) inputs)\<rparr>"
    using add_proofs_Ok by (metis outcome.inject(1))
  then have db1: "db1 = db\<lparr>proof_tbl := proof_tbl db @ input_rows Unspent (rt_now rt) quote oper yl inputs\<rparr>"
    by (simp add: input_rows_def proof_row_def [abs_def])
  have len: "length yl = length inputs" using ys by (rule proof_ys_length)
  from mint.add_Ok [OF assms(1) a] have "keyed (proof_tbl db1)" by blast
  then have "db2 = set_states yl Pending db1" using u by (simp add: update_proofs_states_Ok_iff)
  then have db2: "db2 = db\<lparr>proof_tbl := proof_tbl db @ input_rows Pending (rt_now rt) quote oper yl inputs\<rparr>"
    by (simp add: set_states_def db1 set_states_added [OF len d(2)])
  note m = add_blinded_messages_Ok [OF b]
  show "db' = setup_db (rt_now rt) quote oper yl inputs outputs db" "op_id oper \<notin> keys_of (saga_tbl db)"
    using c by (auto simp: add_saga_def insert_row_def m(3) db2 setup_db_def output_rows_def swap_saga_row_def
        saga_new_swap_def split: if_splits)
  show "proof_ys (rt_externs rt) inputs = Ok yl" "distinct yl" "set yl \<inter> keys_of (proof_tbl db) = {}" by fact+
  show "distinct (map blinded_secret outputs)" "set (map blinded_secret outputs) \<inter> keys_of (sig_tbl db) = {}"
    using m(1,2) by (simp_all add: db2)
qed

section \<open>Undoing restores the database\<close>

definition undo_works :: "faults \<Rightarrow> bool" where
  "undo_works fails \<longleftrightarrow> (\<forall>s \<in> {BeginUndo, DeleteOutputs, RemoveInputs, CommitUndo}. \<not> fails s)"

lemma execute_eq:
  "undo_works fails \<Longrightarrow> execute fails c db =
     map_err from_db (and_then (delete_blinded_messages (rss_blinded_secrets c) db) (remove_proofs (rss_input_ys c)))"
proof -
  assume "undo_works fails"
  then have ok: "db_call fails BeginUndo r = r" "db_call fails DeleteOutputs d = d"
    "db_call fails RemoveInputs d = d" "db_call fails CommitUndo d = d" for r d
    by (simp_all add: undo_works_def db_call_def)
  have "(if bs = [] then Ok d else delete_blinded_messages bs d) = delete_blinded_messages bs d" for bs d
    by (simp add: delete_blinded_messages_def)
  moreover have "(if yl = [] then Ok d else remove_proofs yl d) = remove_proofs yl d" for yl d
    by (simp add: remove_proofs_def)
  moreover have "delete_blinded_messages [] db = Ok db" "remove_proofs [] db = Ok db"
    by (simp_all add: delete_blinded_messages_def remove_proofs_def)
  ultimately show ?thesis by (simp add: execute_def ok and_then_return cong: if_cong)
qed

lemma added_state:
  assumes "keyed (proof_tbl db)" "proof_tbl db = t @ input_rows st now quote oper yl ps" "length yl = length ps" "y \<in> set yl"
  shows "proof_state db y = Some st"
proof -
  let ?rows = "input_rows st now quote oper yl ps"
  have "y \<in> keys_of ?rows" using assms(3,4) by simp
  then obtain r where r: "(y, r) \<in> set ?rows" unfolding keys_of_def by force
  have "(y, r) \<in> set (proof_tbl db)" using r assms(2) by simp
  then have "map_of (proof_tbl db) y = Some r" by (rule map_of_is_SomeI [OF assms(1)])
  then show ?thesis using input_rows_member [OF r] by (simp add: proof_state_def)
qed

lemma remove_added_proofs:
  assumes "keyed (proof_tbl db)" "proof_tbl db = t @ input_rows st now quote oper yl ps" "length yl = length ps"
    and "distinct yl" "set yl \<inter> keys_of t = {}" "st \<noteq> Spent"
  shows "remove_proofs yl db = Ok (db\<lparr>proof_tbl := t\<rparr>)"
proof -
  let ?P = "\<lambda>y r. y \<in> set yl \<and> pr_state r \<noteq> Spent" and ?rows = "input_rows st now quote oper yl ps"
  have "delete_where ?P t = t"
    using not_in_keys [of _ _ t, OF _ assms(5)] by (intro delete_where_other) blast
  moreover have "delete_where ?P ?rows = []"
    using assms(6) by (intro delete_where_all) (auto dest: input_rows_member)
  ultimately have drop: "drop_proofs yl db = db\<lparr>proof_tbl := t\<rparr>"
    by (simp add: drop_proofs_def assms(2) delete_where_append)
  with added_state [OF assms(1-3)] show ?thesis using assms(4,6) by (simp add: remove_proofs_Ok_iff [OF assms(1)])
qed

lemma execute_undoes_setup:
  assumes "undo_works fails" "tables_ok db" "setup_tx rt m oper inputs outputs quote v db = Ok (yl, db')"
  shows "execute fails \<lparr>rss_blinded_secrets = map blinded_secret outputs, rss_input_ys = yl\<rparr> db'
    = Ok (db\<lparr>saga_tbl := saga_tbl db @ [(op_id oper, swap_saga_row (rt_now rt) oper yl outputs)]\<rparr>)"
proof -
  note s = setup_tx_db [OF conjunct1 [OF assms(2)] assms(3)] and eff = setup_tx_effect [OF assms(2,3)]
  have len: "length yl = length inputs" using s(2) by (rule proof_ys_length)
  let ?saga = "swap_saga_row (rt_now rt) oper yl outputs"
  let ?db1 = "db'\<lparr>sig_tbl := sig_tbl db\<rparr>"
  have "delete_where (\<lambda>b r. b \<in> set (map blinded_secret outputs) \<and> sr_c r = None) (sig_tbl db') = sig_tbl db"
    using not_in_keys [of _ _ "sig_tbl db", OF _ s(6)]
    by (auto simp: s(1) setup_db_def delete_where_append delete_where_other output_rows_def message_row_def
        intro!: delete_where_all)
  then have del: "delete_blinded_messages (map blinded_secret outputs) db' = Ok ?db1"
    by (auto simp: delete_blinded_messages_def s(1) setup_db_def output_rows_def)
  have "remove_proofs yl ?db1 = Ok (?db1\<lparr>proof_tbl := proof_tbl db\<rparr>)"
  proof (rule remove_added_proofs [OF _ _ len s(3,4)])
    show "keyed (proof_tbl ?db1)" using eff(1) by simp
    show "proof_tbl ?db1 = proof_tbl db @ input_rows Pending (rt_now rt) quote oper yl inputs"
      by (simp add: s(1) setup_db_def)
  qed simp
  moreover have "?db1\<lparr>proof_tbl := proof_tbl db\<rparr> = db\<lparr>saga_tbl := saga_tbl db @ [(op_id oper, ?saga)]\<rparr>"
    by (simp add: s(1) setup_db_def)
  ultimately show ?thesis using del by (simp add: execute_eq [OF assms(1)])
qed

lemma delete_added_saga:
  "i \<notin> keys_of (saga_tbl db) \<Longrightarrow> delete_saga i (db\<lparr>saga_tbl := saga_tbl db @ [(i, s)]\<rparr>) = Ok db"
  using not_in_keys [of _ _ "saga_tbl db" "{i}"]
  by (simp add: delete_saga_def delete_where_append delete_where_other) (simp add: delete_where_def)

lemma compensate_all_undoes:
  assumes "tables_ok db" "setup_swap rt m (swap_saga_new i) inputs outputs quote v db = (Ok s, db1)"
    and "swap_compensations saga = swap_compensations s" "swap_operation saga = swap_operation s"
  shows "compensate_all no_faults saga db1 = db"
proof -
  note st = setup_swap_Ok [OF assms(2)]
  have c: "swap_compensations saga = [\<lparr>rss_blinded_secrets = map blinded_secret outputs,
      rss_input_ys = setup_ys (swap_data s)\<rparr>]"
    using assms(3) st(4) by (simp add: swap_saga_new_def)
  have o: "swap_operation saga = OpSwap i" using assms(4) st(3) by (simp add: swap_saga_new_def)
  have tx: "setup_tx rt m (OpSwap i) inputs outputs quote v db = Ok (setup_ys (swap_data s), db1)"
    using st(1) by (simp add: swap_saga_new_def)
  have "undo_works no_faults" by (simp add: undo_works_def)
  note u = execute_undoes_setup [OF this assms(1) tx]
  have "i \<notin> keys_of (saga_tbl db)" using setup_tx_db(7) [OF conjunct1 [OF assms(1)] tx] by simp
  then show ?thesis
    using delete_added_saga [of i db] by (simp add: compensate_all_def c o run_compensation_def u db_call_def)
qed

section \<open>A swap as one step\<close>

definition signed_row :: "u64 \<Rightarrow> QuoteId option \<Rightarrow> Operation \<Rightarrow> BlindedMessage \<Rightarrow> BlindSignature \<Rightarrow> SigRow" where
  "signed_row now quote oper m s = (message_row now quote oper m)
     \<lparr>sr_c := Some (bs_c s), sr_dleq := bs_dleq s, sr_signed_time := Some now, sr_amount := bs_amount s\<rparr>"

definition signed_rows :: "u64 \<Rightarrow> QuoteId option \<Rightarrow> Operation \<Rightarrow> BlindedMessage list \<Rightarrow> BlindSignature list
    \<Rightarrow> (PublicKey \<times> SigRow) list" where
  "signed_rows now quote oper msgs sigs = map2 (\<lambda>m s. (blinded_secret m, signed_row now quote oper m s)) msgs sigs"

text \<open>The abstract swap: spent inputs and signed outputs are added, nothing else changes.\<close>

definition swap_effect ::
  "u64 \<Rightarrow> Operation \<Rightarrow> PublicKey list \<Rightarrow> SwapRequest \<Rightarrow> BlindSignature list \<Rightarrow> MintDb \<Rightarrow> MintDb" where
  "swap_effect now oper yl req sigs db = db\<lparr>
     proof_tbl := proof_tbl db @ input_rows Spent now None oper yl (swap_inputs req),
     sig_tbl := sig_tbl db @ signed_rows now None oper (swap_outputs req) sigs\<rparr>"

lemma output_rows_keys:
  "(b, r) \<in> set (output_rows now quote oper msgs) \<Longrightarrow> b \<in> set (map blinded_secret msgs) \<and> sr_c r = None"
  by (auto simp: output_rows_def message_row_def)

lemma sign_rows:
  assumes "length msgs = length sigs" "distinct (map blinded_secret msgs)"
    and "set (map blinded_secret msgs) \<inter> keys_of t = {}"
  shows "try_fold (add_blind_signature now quote) (output_rows now quote' oper msgs, t @ output_rows now quote' oper msgs)
      (zip (map blinded_secret msgs) sigs) = Ok ([], t @ signed_rows now quote' oper msgs sigs)"
  using assms
proof (induction msgs sigs arbitrary: t rule: list_induct2)
  case Nil
  then show ?case by (simp add: output_rows_def signed_rows_def)
next
  case (Cons m msgs s sigs)
  let ?b = "blinded_secret m" and ?rows = "output_rows now quote' oper msgs"
  have rows: "output_rows now quote' oper (m # msgs) = (?b, message_row now quote' oper m) # ?rows"
    by (simp add: output_rows_def)
  have fresh: "k \<noteq> ?b" if "(k, v) \<in> set ?rows" for k v
    using output_rows_keys [OF that] Cons.prems(1) by (metis distinct.simps(2) list.simps(9))
  have new: "k \<noteq> ?b" if "(k, v) \<in> set t" for k v
    using not_in_keys [OF that Cons.prems(2)] by auto
  have "delete_where (\<lambda>b _. b = ?b) (output_rows now quote' oper (m # msgs)) = ?rows"
    using delete_where_other [of ?rows "\<lambda>b _. b = ?b"] fresh by (simp add: rows) (simp add: delete_where_def)
  moreover have "update_where (\<lambda>b _. b = ?b) f (t @ output_rows now quote' oper (m # msgs))
      = (t @ [(?b, f (message_row now quote' oper m))]) @ ?rows" for f
    using update_where_other [of ?rows "\<lambda>b _. b = ?b" f] update_where_other [of t "\<lambda>b _. b = ?b" f] fresh new
    by (simp add: rows update_where_append) (simp add: update_where_def)
  ultimately have step: "add_blind_signature now quote
       (output_rows now quote' oper (m # msgs), t @ output_rows now quote' oper (m # msgs)) (?b, s)
     = Ok (?rows, (t @ [(?b, signed_row now quote' oper m s)]) @ ?rows)"
    by (simp add: add_blind_signature_def rows) (simp add: message_row_def signed_row_def)
  have "set (map blinded_secret msgs) \<inter> keys_of (t @ [(?b, signed_row now quote' oper m s)]) = {}"
    using Cons.prems by auto
  from Cons.IH [OF _ this] Cons.prems(1) show ?case
    by (simp add: step signed_rows_def)
qed

lemma add_blind_signatures_after_setup:
  assumes "length msgs = length sigs" "distinct (map blinded_secret msgs)"
    and "set (map blinded_secret msgs) \<inter> keys_of (sig_tbl db) = {}"
    and "sig_tbl db' = sig_tbl db @ output_rows now quote' oper msgs"
  shows "add_blind_signatures now (map blinded_secret msgs) sigs quote db'
    = Ok (db'\<lparr>sig_tbl := sig_tbl db @ signed_rows now quote' oper msgs sigs\<rparr>)"
proof -
  have "select_in (map blinded_secret msgs) (sig_tbl db') = output_rows now quote' oper msgs"
  proof -
    have "select_in (map blinded_secret msgs) (sig_tbl db) = []"
      using not_in_keys [of _ _ "sig_tbl db", OF _ assms(3)] unfolding select_in_def
      by (intro filter_False) auto
    moreover have "select_in (map blinded_secret msgs) (output_rows now quote' oper msgs)
        = output_rows now quote' oper msgs"
      unfolding select_in_def by (intro filter_True) (auto dest: output_rows_keys)
    ultimately show ?thesis by (simp add: select_in_def assms(4))
  qed
  then show ?thesis using sign_rows [OF assms(1-3)] assms(1) by (simp add: add_blind_signatures_def assms(4))
qed

lemma finalize_after_setup:
  assumes "rt_faults rt = no_faults" "tables_ok db"
    and tx: "setup_tx rt m (OpSwap i) (swap_inputs req) (swap_outputs req) None v db = Ok (yl, db1)"
    and saga: "swap_operation s = OpSwap i" "signed_messages (swap_data s) = swap_outputs req"
      "signed_ys (swap_data s) = yl"
    and len: "length (swap_outputs req) = length (signed_signatures (swap_data s))"
  shows "finalize rt s db1 = (Ok (signed_signatures (swap_data s)),
    swap_effect (rt_now rt) (OpSwap i) yl req (signed_signatures (swap_data s)) db)"
proof -
  let ?sigs = "signed_signatures (swap_data s)"
  note st = setup_tx_db [OF conjunct1 [OF assms(2)] tx] and eff = setup_tx_effect [OF assms(2) tx]
  have n: "length yl = length (swap_inputs req)" using st(2) by (rule proof_ys_length)
  let ?db2 = "db1\<lparr>sig_tbl := sig_tbl db @ signed_rows (rt_now rt) None (OpSwap i) (swap_outputs req) ?sigs\<rparr>"
  have a: "add_blind_signatures (rt_now rt) (map blinded_secret (swap_outputs req)) ?sigs None db1 = Ok ?db2"
    by (rule add_blind_signatures_after_setup [OF len st(5,6)]) (simp add: st(1) setup_db_def)
  have ps: "proof_state ?db2 = proof_state db1" by (simp add: proof_state_def [abs_def])
  have "set yl \<subseteq> keys_of (proof_tbl ?db2)" using eff(9) by simp
  moreover have "keyed (proof_tbl ?db2)" using eff(1) by simp
  ultimately have u: "update_proofs_states yl Spent ?db2 = Ok (map (proof_state db1) yl, set_states yl Spent ?db2)"
    using st(3) by (subst update_proofs_states_Ok_iff) (simp_all add: ps eff(4) check_state_transition_def)
  let ?e = "swap_effect (rt_now rt) (OpSwap i) yl req ?sigs db"
  have "set_states yl Spent ?db2
      = ?e\<lparr>saga_tbl := saga_tbl ?e @ [(i, swap_saga_row (rt_now rt) (OpSwap i) yl (swap_outputs req))]\<rparr>"
    by (intro MintDb.MintDb.equality)
       (simp_all add: set_states_def st(1) setup_db_def set_states_added [OF n st(4)] swap_effect_def)
  moreover have "i \<notin> keys_of (saga_tbl ?e)" using st(7) by (simp add: swap_effect_def)
  ultimately have "delete_saga i (set_states yl Spent ?db2) = Ok ?e" by (simp add: delete_added_saga)
  then show ?thesis
    by (simp add: finalize_def saga a u assms(1) or_compensate_def db_call_def Let_def)
qed

lemma recover_undoes_setup:
  assumes "tables_ok db" "get_incomplete_sagas KindSwap db = []" "\<And>j. undo_works (fails j)"
    "\<And>j. \<not> fails j BeginCleanup" "\<And>j. \<not> fails j CleanupSaga" "\<And>j. \<not> fails j CommitCleanup"
    and tx: "setup_tx rt m (OpSwap i) inputs outputs quote v db = Ok (yl, db1)"
  shows "recover_from_incomplete_sagas fails db1 = (Ok (), db)"
proof -
  note st = setup_tx_db [OF conjunct1 [OF assms(1)] tx]
  let ?row = "swap_saga_row (rt_now rt) (OpSwap i) yl outputs"
  have row: "saga_operation_id ?row = i" "saga_operation_kind ?row = KindSwap"
    "saga_blinded_secrets ?row = map blinded_secret outputs" "saga_input_ys ?row = yl"
    by (simp_all add: swap_saga_row_def saga_new_swap_def)
  have "filter (\<lambda>(_, s). saga_operation_kind s = KindSwap) (saga_tbl db) = []"
    using assms(2) by (simp add: get_incomplete_sagas_def flip: set_empty)
  then have "get_incomplete_sagas KindSwap db1 = [?row]"
    by (simp add: get_incomplete_sagas_def st(1) setup_db_def row)
  then show ?thesis
    using execute_undoes_setup [OF assms(3) assms(1) tx, of i] delete_added_saga [of i db ?row] st(7) assms(4-6) [of i]
    by (simp add: recover_from_incomplete_sagas_def row db_call_def)
qed

text \<open>Signing and the second transaction, run on what the first one left.\<close>

lemma swap_after_setup:
  assumes "rt_faults rt = no_faults" "tables_ok db"
    and set: "setup_swap rt m (swap_saga_new i) (swap_inputs req) (swap_outputs req) None v db = (Ok s, db1)"
    and run: "then_do (sign_outputs rt m rs s) (finalize rt) db1 = (r, db')"
  shows "case r of
      Ok sigs \<Rightarrow> length sigs = length (swap_outputs req) \<and> map bs_amount sigs = map bm_amount (swap_outputs req)
        \<and> db' = swap_effect (rt_now rt) (OpSwap i) (setup_ys (swap_data s)) req sigs db
    | Err _ \<Rightarrow> db' = db
    | Panic \<Rightarrow> db' = db1"
proof -
  note st = setup_swap_Ok [OF set]
  have tx: "setup_tx rt m (OpSwap i) (swap_inputs req) (swap_outputs req) None v db = Ok (setup_ys (swap_data s), db1)"
    using st(1) by (simp add: swap_saga_new_def)
  show ?thesis
  proof (cases "blind_sign (rt_externs rt) (mint_signatory m) rs (setup_messages (swap_data s))")
    case (Ok sigs)
    then obtain s2 where s2: "sign_outputs rt m rs s db1 = (Ok s2, db1)" and sigs: "signed_signatures (swap_data s2) = sigs"
      by (simp add: sign_outputs_def)
    note sg = sign_outputs_Ok [OF s2]
    have fin: "finalize rt s2 db1 = (r, db')" using run s2 by (simp add: then_do_def)
    show ?thesis
    proof (cases "length (swap_outputs req) = length sigs")
      case True
      have "finalize rt s2 db1 = (Ok sigs, swap_effect (rt_now rt) (OpSwap i) (setup_ys (swap_data s)) req sigs db)"
        using finalize_after_setup [OF assms(1,2) tx, of s2] True st(2,3) sg sigs by (simp add: swap_saga_new_def)
      moreover have "map bs_amount sigs = map bm_amount (swap_outputs req)"
        using blind_sign_amounts [OF Ok] True st(2) by simp
      ultimately show ?thesis using fin True by auto
    next
      case False
      then have "add_blind_signatures (rt_now rt) (map blinded_secret (signed_messages (swap_data s2))) sigs None db1
          = Err (DbInternal ''Mismatched array lengths for blinded messages and blind signatures'')"
        using sg(4) st(2) by (simp add: add_blind_signatures_def ensure_def)
      moreover have "compensate_all no_faults s2 db1 = db"
        using compensate_all_undoes [OF assms(2) set, of s2] sg(2,3) by simp
      ultimately show ?thesis
        using fin by (auto simp: finalize_def assms(1) sigs db_call_def or_compensate_def)
    qed
  next
    case (Err x)
    then have "sign_outputs rt m rs s db1 = (Err x, db)"
      by (simp add: sign_outputs_def assms(1) compensate_all_undoes [OF assms(2) set refl refl])
    then show ?thesis using run by (auto simp: then_do_def)
  next
    case Panic
    then have "sign_outputs rt m rs s db1 = (Panic, db1)" by (simp add: sign_outputs_def)
    then show ?thesis using run by (auto simp: then_do_def)
  qed
qed

lemma process_swap_effect:
  assumes "tables_ok db" "rt_faults rt = no_faults" "process_swap_request rt m i rs req db = (r, db')"
  shows "case r of
      Ok sigs \<Rightarrow> \<exists>yl fee. proof_ys (rt_externs rt) (swap_inputs req) = Ok yl \<and> distinct yl
        \<and> (\<forall>y \<in> set yl. proof_state db y = None)
        \<and> get_proofs_fee (rt_overflow_checks rt) m (swap_inputs req) = Ok fee
        \<and> total (map amount (swap_inputs req)) = total (map bs_amount sigs) + unat fee
        \<and> map bs_amount sigs = map bm_amount (swap_outputs req)
        \<and> db' = swap_effect (rt_now rt) (OpSwap i) yl req sigs db
    | Err _ \<Rightarrow> db' = db
    | Panic \<Rightarrow> get_incomplete_sagas KindSwap db = [] \<longrightarrow> recover_from_incomplete_sagas (\<lambda>_. no_faults) db' = (Ok (), db)"
proof -
  have rec: "recover_from_incomplete_sagas f db = (Ok (), db)" if "get_incomplete_sagas KindSwap db = []" for f
    using that by (simp add: recover_from_incomplete_sagas_def)
  show ?thesis
  proof (cases "swap_checks rt m req")
    case (Ok v)
    obtain r1 db1 where set: "setup_swap rt m (swap_saga_new i) (swap_inputs req) (swap_outputs req) None v db = (r1, db1)"
      by fastforce
    show ?thesis
    proof (cases r1)
      case r1: (Ok s)
      have "then_do (sign_outputs rt m rs s) (finalize rt) db1 = (r, db')"
        using assms(3) Ok set r1 by (simp add: process_swap_request_def then_do_def pure_def)
      note after = swap_after_setup [OF assms(2,1) set [unfolded r1] this]
      have tx: "setup_tx rt m (OpSwap i) (swap_inputs req) (swap_outputs req) None v db = Ok (setup_ys (swap_data s), db1)"
        using setup_swap_Ok(1) [OF set [unfolded r1]] by (simp add: swap_saga_new_def)
      note st = setup_tx_db [OF conjunct1 [OF assms(1)] tx]
      have "\<forall>y \<in> set (setup_ys (swap_data s)). proof_state db y = None"
        using st(4) by (auto simp: proof_state_def map_of_None_keys)
      moreover obtain fee where fee: "get_proofs_fee (rt_overflow_checks rt) m (swap_inputs req) = Ok fee"
        and bal: "verify_transaction_balanced (rt_overflow_checks rt) m v (swap_inputs req) (swap_outputs req) db = Ok ()"
        using tx by (elim setup_tx_Ok) (auto simp: verify_transaction_balanced_def)
      moreover have "unat (ver_amount v) = total (map amount (swap_inputs req))"
        using Ok verify_inputs_Ok(2) by (auto simp: swap_checks_def)
      moreover note balanced_Ok_fee [OF bal fee]
      moreover have "recover_from_incomplete_sagas (\<lambda>_. no_faults) db1 = (Ok (), db)"
        if "get_incomplete_sagas KindSwap db = []"
        using that by (intro recover_undoes_setup [OF assms(1) _ _ _ _ _ tx]) (simp_all add: undo_works_def)
      ultimately show ?thesis using after st(2,3) by (cases r) auto
    qed (use assms(3) Ok set setup_swap_not_Ok [OF set] rec in \<open>auto simp: process_swap_request_def then_do_def pure_def\<close>)
  qed (use assms(3) rec in \<open>auto simp: process_swap_request_def then_do_def pure_def\<close>)
qed

text \<open>
  C2: A swap is atomic. When database calls do not fail, the two transactions, the signing and the
  compensation refine one step: a swap that returns signatures has added its inputs as spent and its
  outputs as signed, and nothing else, with inputs worth the outputs and the fee; one that returns an
  error leaves the database as it was; and after a panic, when no earlier swap was left
  incomplete, recovery restores the database.
\<close>

theorem swap_atomic:
  assumes "tables_ok db" "rt_faults rt = no_faults" "process_swap_request rt m i rs req db = (r, db')"
  shows "case r of
      Ok sigs \<Rightarrow> \<exists>yl fee. proof_ys (rt_externs rt) (swap_inputs req) = Ok yl \<and> distinct yl
        \<and> (\<forall>y \<in> set yl. proof_state db y = None)
        \<and> get_proofs_fee (rt_overflow_checks rt) m (swap_inputs req) = Ok fee
        \<and> total (map amount (swap_inputs req)) = total (map bs_amount sigs) + unat fee
        \<and> map bs_amount sigs = map bm_amount (swap_outputs req)
        \<and> db' = swap_effect (rt_now rt) (OpSwap i) yl req sigs db
    | Err _ \<Rightarrow> db' = db
    | Panic \<Rightarrow> get_incomplete_sagas KindSwap db = [] \<longrightarrow> recover_from_incomplete_sagas (\<lambda>_. no_faults) db' = (Ok (), db)"
  using assms by (rule process_swap_effect)

lemma demo_process:
  "process_swap_request (demo_rt no_faults) demo_mint 7 [[1]] demo_swap_request empty_db
     = (Ok [demo_signature], demo_final_db)"
  using demo_checks [of no_faults] demo_setup [of no_faults] demo_sign [of no_faults] demo_finalize
  by (simp add: process_swap_request_def then_do_def pure_def demo_swap_request_def)

theorem swap_atomic_witness:
  "\<exists>yl. demo_final_db = swap_effect 0 (OpSwap 7) yl demo_swap_request [demo_signature] empty_db \<and> yl \<noteq> []"
proof -
  have "tables_ok empty_db" "rt_faults (demo_rt no_faults) = no_faults" by (simp_all add: empty_db_def demo_rt_def)
  from swap_atomic [OF this demo_process] obtain yl where
    "proof_ys (rt_externs (demo_rt no_faults)) (swap_inputs demo_swap_request) = Ok yl"
    "demo_final_db = swap_effect 0 (OpSwap 7) yl demo_swap_request [demo_signature] empty_db"
    by (auto simp: demo_rt_def)
  then show ?thesis by (auto simp: demo_swap_request_def dest!: proof_ys_length)
qed

lemma process_swap_Ok:
  assumes "process_swap_request rt m i rs req db = (Ok sigs, db')"
  obtains v s db1 s2 where "swap_checks rt m req = Ok v"
    "setup_swap rt m (swap_saga_new i) (swap_inputs req) (swap_outputs req) None v db = (Ok s, db1)"
    "sign_outputs rt m rs s db1 = (Ok s2, db1)" "finalize rt s2 db1 = (Ok sigs, db')"
  using assms sign_outputs_Ok(1)
  by (auto simp: process_swap_request_def then_do_def pure_def split: outcome.splits prod.splits) metis

section \<open>A valid swap succeeds\<close>

lemma insert_proofs_run:
  assumes "proof_ys e ps = Ok yl" "distinct yl" "set yl \<inter> keys_of (proof_tbl db) = {}"
    and "\<forall>p \<in> set ps. to_i64 (amount p) \<noteq> None"
  shows "try_fold (insert_proof e now quote oper) db ps
    = Ok (db\<lparr>proof_tbl := proof_tbl db @ zip yl (map (proof_row now quote oper) ps)\<rparr>)"
  using assms
proof (induction ps arbitrary: db yl)
  case Nil
  then show ?case by (simp add: proof_ys_def)
next
  case (Cons p ps)
  then obtain y zl where y: "proof_y e p = Ok y" "proof_ys e ps = Ok zl" "yl = y # zl"
    by (auto simp: proof_ys_def)
  let ?db1 = "db\<lparr>proof_tbl := proof_tbl db @ [(y, proof_row now quote oper p)]\<rparr>"
  have "insert_proof e now quote oper db p = Ok ?db1"
    using Cons.prems y by (simp add: insert_proof_Ok_iff)
  moreover have "set zl \<inter> keys_of (proof_tbl ?db1) = {}" using Cons.prems(2,3) y(3) by auto
  ultimately show ?case using Cons.IH [OF y(2), of ?db1] Cons.prems y(3) by simp
qed

lemma add_proofs_run:
  assumes "proof_ys e ps = Ok yl" "distinct yl" "set yl \<inter> keys_of (proof_tbl db) = {}"
    and "\<forall>p \<in> set ps. to_i64 (amount p) \<noteq> None"
  shows "add_proofs e now ps quote oper db
    = Ok (db\<lparr>proof_tbl := proof_tbl db @ zip yl (map (proof_row now quote oper) ps)\<rparr>)"
proof -
  have "select_in yl (proof_tbl db) = []"
    unfolding select_in_def using not_in_keys [OF _ assms(3)] by (intro filter_False) auto
  with insert_proofs_run [OF assms] assms(1) show ?thesis by (simp add: add_proofs_def)
qed

lemma add_blinded_messages_run:
  assumes "distinct (map blinded_secret msgs)" "set (map blinded_secret msgs) \<inter> keys_of (sig_tbl db) = {}"
    and "\<forall>x \<in> set msgs. to_i64 (bm_amount x) \<noteq> None"
  shows "add_blinded_messages now quote msgs oper db = Ok (db\<lparr>sig_tbl := sig_tbl db @ output_rows now quote oper msgs\<rparr>)"
  using assms unfolding add_blinded_messages_def output_rows_def
proof (induction msgs arbitrary: db)
  case (Cons x msgs)
  let ?db1 = "db\<lparr>sig_tbl := sig_tbl db @ [(blinded_secret x, message_row now quote oper x)]\<rparr>"
  have "insert_blinded_message now quote oper db x = Ok ?db1"
    using Cons.prems by (simp add: insert_blinded_message_def not_null_def ensure_def insert_row_def message_row_def)
  moreover have "set (map blinded_secret msgs) \<inter> keys_of (sig_tbl ?db1) = {}" using Cons.prems by auto
  ultimately show ?case using Cons.IH [of ?db1] Cons.prems by simp
qed simp

lemma check_forbidden_None: "set states \<inter> {Some Pending, Some Spent} = {} \<Longrightarrow> check_forbidden states = None"
  by (induction states rule: check_forbidden.induct) auto

lemma setup_tx_run:
  assumes "\<forall>c \<in> {BeginSetup, AddInputs, MarkPending, AddOutputs, AddSagaRow, CommitSetup}. \<not> rt_faults rt c"
    and "keyed (proof_tbl db)" "proof_ys (rt_externs rt) inputs = Ok yl" "distinct yl"
    and "set yl \<inter> keys_of (proof_tbl db) = {}" "\<forall>p \<in> set inputs. to_i64 (amount p) \<noteq> None"
    and "verify_transaction_balanced (rt_overflow_checks rt) m v inputs outputs db = Ok ()"
    and "distinct (map blinded_secret outputs)" "set (map blinded_secret outputs) \<inter> keys_of (sig_tbl db) = {}"
    and "\<forall>x \<in> set outputs. to_i64 (bm_amount x) \<noteq> None" "op_id oper \<notin> keys_of (saga_tbl db)"
  shows "\<exists>db'. setup_tx rt m oper inputs outputs quote v db = Ok (yl, db')"
proof -
  let ?db1 = "db\<lparr>proof_tbl := proof_tbl db @ zip yl (map (proof_row (rt_now rt) quote oper) inputs)\<rparr>"
  let ?db2 = "set_states yl Pending ?db1"
  note a = add_proofs_run [OF assms(3-6), of "rt_now rt" quote oper]
  from mint.add_Ok [OF assms(2) a] assms(3) have k1: "keyed (proof_tbl ?db1)"
    and s1: "\<And>y. y \<in> set yl \<Longrightarrow> proof_state ?db1 y = Some Unspent" by auto
  have "set yl \<subseteq> keys_of (proof_tbl ?db1)" using s1 proof_state_keys by blast
  then have u: "update_proofs_states yl Pending ?db1 = Ok (map (proof_state ?db1) yl, ?db2)"
    using assms(4) s1 by (subst update_proofs_states_Ok_iff [OF k1]) (auto simp: check_state_transition_def)
  have f: "check_forbidden (map (proof_state ?db1) yl) = None"
    by (rule check_forbidden_None) (auto simp: s1)
  have b: "add_blinded_messages (rt_now rt) quote outputs oper ?db2
      = Ok (?db2\<lparr>sig_tbl := sig_tbl db @ output_rows (rt_now rt) quote oper outputs\<rparr>)"
    using add_blinded_messages_run [of outputs ?db2] assms(8-10) by (simp add: set_states_def)
  show ?thesis
    using a u f b assms(1,3,7,11)
    by (simp add: setup_tx_def Let_def db_call_def or_rollback_def add_saga_def saga_new_swap_def insert_row_def
        set_states_def)
qed

lemma process_swap_runs:
  assumes "tables_ok db" "rt_faults rt = no_faults" "swap_checks rt m req = Ok v"
    and "verify_transaction_balanced (rt_overflow_checks rt) m v (swap_inputs req) (swap_outputs req) db = Ok ()"
    and "proof_ys (rt_externs rt) (swap_inputs req) = Ok yl" "set yl \<inter> keys_of (proof_tbl db) = {}"
    and "set (map blinded_secret (swap_outputs req)) \<inter> keys_of (sig_tbl db) = {}" "i \<notin> keys_of (saga_tbl db)"
    and "\<forall>p \<in> set (swap_inputs req). unat (amount p) < 2 ^ 63"
    and "\<forall>x \<in> set (swap_outputs req). unat (bm_amount x) < 2 ^ 63"
    and "blind_sign (rt_externs rt) (mint_signatory m) rs (swap_outputs req) = Ok sigs"
    and "length sigs = length (swap_outputs req)"
  shows "process_swap_request rt m i rs req db = (Ok sigs, swap_effect (rt_now rt) (OpSwap i) yl req sigs db)"
proof -
  have i64: "to_i64 a \<noteq> None" if "unat a < 2 ^ 63" for a :: Amount
    using that by (simp add: to_i64_def word_le_nat_alt)
  have "distinct yl" using assms(3,5) verify_inputs_Ok(1) by (fastforce simp: swap_checks_def)
  moreover have "distinct (map blinded_secret (swap_outputs req))"
    using assms(4) verify_outputs_Ok(1) by (auto simp: verify_transaction_balanced_def)
  ultimately obtain db1 where tx:
    "setup_tx rt m (OpSwap i) (swap_inputs req) (swap_outputs req) None v db = Ok (yl, db1)"
    using setup_tx_run [of rt db "swap_inputs req" yl m v "swap_outputs req" "OpSwap i" None] assms i64
    by (simp del: not_None_eq) blast
  let ?c = "[\<lparr>rss_blinded_secrets = map blinded_secret (swap_outputs req), rss_input_ys = yl\<rparr>]"
  let ?s1 = "\<lparr>swap_compensations = ?c, swap_operation = OpSwap i,
      swap_data = \<lparr>setup_messages = swap_outputs req, setup_ys = yl\<rparr>\<rparr>"
  let ?s2 = "\<lparr>swap_compensations = ?c, swap_operation = OpSwap i,
      swap_data = \<lparr>signed_messages = swap_outputs req, signed_ys = yl, signed_signatures = sigs\<rparr>\<rparr>"
  have "setup_swap rt m (swap_saga_new i) (swap_inputs req) (swap_outputs req) None v db = (Ok ?s1, db1)"
    using tx by (simp add: setup_swap_def swap_saga_new_def)
  moreover have "sign_outputs rt m rs ?s1 db1 = (Ok ?s2, db1)" using assms(11) by (simp add: sign_outputs_def)
  moreover have "finalize rt ?s2 db1 = (Ok sigs, swap_effect (rt_now rt) (OpSwap i) yl req sigs db)"
    using finalize_after_setup [OF assms(2,1) tx, of ?s2] assms(12) by simp
  ultimately show ?thesis using assms(3) by (simp add: process_swap_request_def then_do_def pure_def)
qed

text \<open>
  C20: A valid swap succeeds: when the request passes the checks and balances, its inputs and
  outputs are new to the mint, amounts fit the database's signed columns, the signatory signs every
  output and no database call fails, the mint returns the signatures.
\<close>

theorem swap_succeeds:
  assumes "tables_ok db" "rt_faults rt = no_faults" "swap_checks rt m req = Ok v"
    and "verify_transaction_balanced (rt_overflow_checks rt) m v (swap_inputs req) (swap_outputs req) db = Ok ()"
    and "proof_ys (rt_externs rt) (swap_inputs req) = Ok yl" "set yl \<inter> keys_of (proof_tbl db) = {}"
    and "set (map blinded_secret (swap_outputs req)) \<inter> keys_of (sig_tbl db) = {}" "i \<notin> keys_of (saga_tbl db)"
    and "\<forall>p \<in> set (swap_inputs req). unat (amount p) < 2 ^ 63"
    and "\<forall>x \<in> set (swap_outputs req). unat (bm_amount x) < 2 ^ 63"
    and "blind_sign (rt_externs rt) (mint_signatory m) rs (swap_outputs req) = Ok sigs"
    and "length sigs = length (swap_outputs req)"
  shows "process_swap_request rt m i rs req db = (Ok sigs, swap_effect (rt_now rt) (OpSwap i) yl req sigs db)"
  using assms by (rule process_swap_runs)

theorem swap_succeeds_witness:
  "\<exists>db'. process_swap_request (demo_rt no_faults) demo_mint 7 [[1]] demo_swap_request empty_db = (Ok [demo_signature], db')"
proof -
  let ?rt = "demo_rt no_faults" and ?v = "\<lparr>ver_amount = 8, ver_unit = Some Sat\<rparr>"
  have "setup_swap ?rt demo_mint (swap_saga_new 7) [toy_proof ''x''] [demo_message] None ?v empty_db
      = (Ok demo_setup_saga, demo_setup_db)" by (rule demo_setup) simp
  from setup_swap_Ok(1) [OF this]
  have "verify_transaction_balanced True demo_mint ?v [toy_proof ''x''] [demo_message] empty_db = Ok ()"
    by (elim setup_tx_Ok) (simp add: demo_rt_def)
  moreover have "proof_ys toy_externs [toy_proof ''x''] = Ok [[2, 1]]" by (simp add: proof_ys_def demo_y)
  moreover have "blind_sign toy_externs demo_signer [[1]] [demo_message] = Ok [demo_signature]"
    using demo_signer_signs by (simp add: demo_signature_def)
  ultimately have "process_swap_request ?rt demo_mint 7 [[1]] demo_swap_request empty_db
      = (Ok [demo_signature], swap_effect 0 (OpSwap 7) [[2, 1]] demo_swap_request [demo_signature] empty_db)"
    using swap_succeeds [of empty_db ?rt demo_mint demo_swap_request ?v "[[2, 1]]" 7 "[[1]]" "[demo_signature]"]
      demo_checks [of no_faults]
    by (simp add: demo_rt_def demo_swap_request_def empty_db_def demo_mint_def) (simp add: toy_proof_def demo_message_def)
  then show ?thesis by blast
qed

section \<open>What failing database calls leave behind\<close>

text \<open>
  C35: When signing fails and the compensation's transaction cannot be begun, with no earlier swap left
  incomplete, the saga row is deleted all the
  same: the inputs stay pending, no recovery at any later start touches the database, and every
  later swap of one of these inputs fails.
\<close>

theorem failed_compensation_strands_inputs:
  assumes "tables_ok db" "get_incomplete_sagas KindSwap db = []"
    and "setup_swap rt m (swap_saga_new i) inputs outputs quote v db = (Ok s, db1)"
    and "blind_sign (rt_externs rt) (mint_signatory m) rs outputs = Err x" "inputs \<noteq> []"
    and "rt_faults rt = (\<lambda>c. c = BeginUndo)"
  shows "\<exists>db2 yl. sign_outputs rt m rs s db1 = (Err x, db2) \<and> proof_ys (rt_externs rt) inputs = Ok yl
    \<and> (\<forall>y \<in> set yl. proof_state db2 y = Some Pending)
    \<and> (\<forall>fails. recover_from_incomplete_sagas fails db2 = (Ok (), db2))
    \<and> (\<forall>rt' m' i' inputs' outputs' quote' v' s' db' zl. proof_ys (rt_externs rt') inputs' = Ok zl \<longrightarrow> set zl \<inter> set yl \<noteq> {}
         \<longrightarrow> setup_swap rt' m' (swap_saga_new i') inputs' outputs' quote' v' db2 \<noteq> (Ok s', db'))"
proof -
  let ?yl = "setup_ys (swap_data s)"
  note set = setup_swap_Ok [OF assms(3)]
  have tx: "setup_tx rt m (OpSwap i) inputs outputs quote v db = Ok (?yl, db1)"
    using set(1) by (simp add: swap_saga_new_def)
  note st = setup_tx_db [OF conjunct1 [OF assms(1)] tx] and eff = setup_tx_effect [OF assms(1) tx]
  let ?db2 = "db1\<lparr>saga_tbl := saga_tbl db\<rparr>"
  have "?yl \<noteq> []" using proof_ys_length [OF st(2)] assms(5) by auto
  then have "run_compensation (rt_faults rt) \<lparr>rss_blinded_secrets = map blinded_secret outputs, rss_input_ys = ?yl\<rparr> db1 = db1"
    by (simp add: run_compensation_def execute_def assms(6) db_call_def)
  moreover have "delete_saga i db1 = Ok ?db2"
  proof -
    let ?d = "db1\<lparr>saga_tbl := saga_tbl db\<rparr>"
    have "db1 = ?d\<lparr>saga_tbl := saga_tbl ?d @ [(i, swap_saga_row (rt_now rt) (OpSwap i) ?yl outputs)]\<rparr>"
      by (simp add: st(1) setup_db_def)
    moreover have "i \<notin> keys_of (saga_tbl ?d)" using st(7) by simp
    ultimately show ?thesis using delete_added_saga [of i ?d] by metis
  qed
  ultimately have "sign_outputs rt m rs s db1 = (Err x, ?db2)"
    using assms(4) set by (simp add: sign_outputs_def compensate_all_def swap_saga_new_def assms(6) db_call_def)
  moreover have "recover_from_incomplete_sagas fails ?db2 = (Ok (), ?db2)" for fails
    using assms(2) by (simp add: recover_from_incomplete_sagas_def get_incomplete_sagas_def)
  moreover have "proof_state ?db2 y = Some Pending" if "y \<in> set ?yl" for y
    using that eff(4) [of y] by (simp add: proof_state_def)
  moreover have "setup_swap rt' m' (swap_saga_new i') inputs' outputs' quote' v' ?db2 \<noteq> (Ok s', db')"
    if "proof_ys (rt_externs rt') inputs' = Ok zl" "set zl \<inter> set ?yl \<noteq> {}" for rt' m' i' inputs' outputs' quote' v' s' db' zl
  proof
    assume "setup_swap rt' m' (swap_saga_new i') inputs' outputs' quote' v' ?db2 = (Ok s', db')"
    from setup_tx_db [OF _ setup_swap_Ok(1) [OF this]] eff(1) that(1)
    have "set zl \<inter> keys_of (proof_tbl ?db2) = {}" by simp
    with that(2) eff(9) show False by auto
  qed
  ultimately show ?thesis using st(2) by blast
qed

text \<open>An output of an amount the keyset has no key for passes the checks and fails to be signed.\<close>

definition odd_message :: "PublicKey \<Rightarrow> Amount \<Rightarrow> BlindedMessage" where
  "odd_message b a = \<lparr>bm_amount = a, bm_keyset_id = example_id, blinded_secret = b, bm_witness = None\<rparr>"

theorem failed_compensation_strands_inputs_witness:
  "\<exists>rt db1 s db2. sign_outputs rt demo_mint [[1], [1]] s db1 = (Err E_UnknownKeySet, db2)
     \<and> proof_state db2 [2, 1] = Some Pending
     \<and> recover_from_incomplete_sagas (\<lambda>_. no_faults) db2 = (Ok (), db2)"
proof -
  let ?rt = "demo_rt (\<lambda>c. c = BeginUndo)" and ?v = "\<lparr>ver_amount = 8, ver_unit = Some Sat\<rparr>"
  let ?ins = "[toy_proof ''x'']" and ?outs = "[odd_message [2, 3] 3, odd_message [2, 4] 5]"
  have t: "tables_ok empty_db" "get_incomplete_sagas KindSwap empty_db = []"
    by (simp_all add: empty_db_def get_incomplete_sagas_def)
  have "try_sum [3, 5] = Ok 8" by (simp add: try_sum_def checked_add_def)
  then have bal: "verify_transaction_balanced True demo_mint ?v ?ins ?outs empty_db = Ok ()"
    by (simp add: verify_transaction_balanced_def verify_outputs_def check_outputs_unique_def ensure_def odd_message_def
        check_output_already_signed_def get_blind_signatures_def empty_db_def select_in_def verify_outputs_keyset_def
        demo_info_lookup one_unit_def demo_fee checked_sub_def)
  have ys: "proof_ys toy_externs ?ins = Ok [[2, 1]]" by (simp add: proof_ys_def demo_y)
  have "\<exists>db'. setup_tx ?rt demo_mint (OpSwap 7) ?ins ?outs None ?v empty_db = Ok ([[2, 1]], db')"
    using bal ys by (intro setup_tx_run) (simp_all add: demo_rt_def odd_message_def toy_proof_def empty_db_def to_i64_def)
  then obtain s db1 where set: "setup_swap ?rt demo_mint (swap_saga_new 7) ?ins ?outs None ?v empty_db = (Ok s, db1)"
    by (auto simp: setup_swap_def swap_saga_new_def)
  have "blind_sign (rt_externs ?rt) (mint_signatory demo_mint) [[1], [1]] ?outs = Err E_UnknownKeySet"
    by (simp add: blind_sign_def sign_one_def demo_rt_def demo_mint_def demo_signer_def odd_message_def demo_sign_info_def
        demo_sign_keyset_def ensure_def)
  from failed_compensation_strands_inputs [OF t set this] ys obtain db2 where
    "sign_outputs ?rt demo_mint [[1], [1]] s db1 = (Err E_UnknownKeySet, db2)" "proof_state db2 [2, 1] = Some Pending"
    "recover_from_incomplete_sagas (\<lambda>_. no_faults) db2 = (Ok (), db2)"
    by (auto simp: demo_rt_def)
  then show ?thesis by blast
qed

lemma execute_spent_fails:
  assumes "keyed (proof_tbl db)" "y \<in> set (rss_input_ys c)" "proof_state db y = Some Spent"
  shows "\<exists>x. execute fails c db = Err x"
proof (cases "execute fails c db")
  case (Ok db')
  from assms(2) have ne: "rss_input_ys c \<noteq> []" by auto
  with Ok obtain db1 where d: "(if rss_blinded_secrets c = [] then Ok db
         else delete_blinded_messages (rss_blinded_secrets c) db) = Ok db1"
    and r: "remove_proofs (rss_input_ys c) db1 = Ok db'"
    by (auto simp: execute_def split: if_splits)
  from d have "proof_tbl db1 = proof_tbl db" by (auto simp: delete_blinded_messages_def split: if_splits)
  then show ?thesis using r remove_proofs_Ok_iff [of db1] assms by (auto simp: proof_state_def)
next
  case Panic
  then show ?thesis
    by (auto simp: execute_def db_call_def delete_blinded_messages_def remove_proofs_def Let_def outcome_simps
        split: if_splits)
qed blast

text \<open>
  A saga row that \<open>finalize\<close> failed to delete is not cleaned up by recovery: its inputs are spent
  and cannot be removed, so every recovery, at every start, fails on it and leaves it in place.
\<close>

theorem orphaned_saga_stays:
  assumes "tables_ok db" "get_incomplete_sagas KindSwap db = []" "rt_faults rt = (\<lambda>c. c = DeleteSagaRow)"
    and "process_swap_request rt m i rs req db = (Ok sigs, db')"
  shows "\<exists>saga. get_incomplete_sagas KindSwap db' = [saga] \<and> saga_operation_id saga = i
    \<and> (\<forall>fails. recover_from_incomplete_sagas fails db' = (Ok (), db'))"
proof -
  from process_swap_Ok [OF assms(4)] obtain v s db1 s2 where chk: "swap_checks rt m req = Ok v"
    and set: "setup_swap rt m (swap_saga_new i) (swap_inputs req) (swap_outputs req) None v db = (Ok s, db1)"
    and sg: "sign_outputs rt m rs s db1 = (Ok s2, db1)" and fin: "finalize rt s2 db1 = (Ok sigs, db')" .
  let ?yl = "setup_ys (swap_data s)"
  have tx: "setup_tx rt m (OpSwap i) (swap_inputs req) (swap_outputs req) None v db = Ok (?yl, db1)"
    using setup_swap_Ok(1) [OF set] by (simp add: swap_saga_new_def)
  note st = setup_tx_db [OF conjunct1 [OF assms(1)] tx] and eff = setup_tx_effect [OF assms(1) tx]
  note fe = finalize_effect [OF eff(1) fin]
  have "swap_inputs req \<noteq> []" using chk by (auto simp: swap_checks_def dest: verify_inputs_Ok(4))
  then obtain y where y: "y \<in> set ?yl" using proof_ys_length [OF st(2)] by (cases ?yl) auto
  then have "proof_state db' y = Some Spent" using fe(4) [of y] sign_outputs_Ok(5) [OF sg] by simp
  note stuck = execute_spent_fails [OF _ _ this]
  have sagas: "saga_tbl db' = saga_tbl db1"
    using fin assms(3) by (auto simp: finalize_def or_compensate_def db_call_def Let_def add_blind_signatures_def
        update_proofs_states_def split: outcome.splits if_splits)
  let ?row = "swap_saga_row (rt_now rt) (OpSwap i) ?yl (swap_outputs req)"
  have row: "saga_operation_kind ?row = KindSwap" "saga_operation_id ?row = i" "saga_input_ys ?row = ?yl"
    by (simp_all add: swap_saga_row_def saga_new_swap_def)
  have "filter (\<lambda>(_, s). saga_operation_kind s = KindSwap) (saga_tbl db) = []"
    using assms(2) by (simp add: get_incomplete_sagas_def flip: set_empty)
  then have inc: "get_incomplete_sagas KindSwap db' = [?row]"
    by (simp add: get_incomplete_sagas_def sagas st(1) setup_db_def row)
  have "recover_from_incomplete_sagas fails db' = (Ok (), db')" for fails
  proof -
    obtain x where "execute (fails i) \<lparr>rss_blinded_secrets = saga_blinded_secrets ?row, rss_input_ys = ?yl\<rparr> db' = Err x"
      using stuck [of "\<lparr>rss_blinded_secrets = saga_blinded_secrets ?row, rss_input_ys = ?yl\<rparr>" "fails i"] fe(1) y by auto
    then show ?thesis by (simp add: recover_from_incomplete_sagas_def inc row)
  qed
  with inc row show ?thesis by blast
qed

theorem orphaned_saga_stays_witness:
  "\<exists>saga db'. get_incomplete_sagas KindSwap db' = [saga] \<and> recover_from_incomplete_sagas (\<lambda>_. no_faults) db' = (Ok (), db')"
proof -
  let ?f = "\<lambda>c. c = DeleteSagaRow"
  have "process_swap_request (demo_rt ?f) demo_mint 7 [[1]] demo_swap_request empty_db
      = (Ok [demo_signature], demo_final_db\<lparr>saga_tbl := [demo_saga_row]\<rparr>)"
    using demo_checks [of ?f] demo_setup [of ?f] demo_sign [of ?f] demo_finalize [of ?f]
    by (simp add: process_swap_request_def then_do_def pure_def demo_swap_request_def)
  from orphaned_saga_stays [OF _ _ _ this] show ?thesis
    by (fastforce simp: demo_rt_def empty_db_def get_incomplete_sagas_def)
qed

end
