(* ===== verification/MintIssue.thy ===== *)
theory MintIssue
  imports MintVerify MintValue
begin

text \<open>
  Issuing ecash against a paid quote (\<^verbatim>\<open>crates/cdk/src/mint/issue/mod.rs\<close>, \<^verbatim>\<open>mint/ln.rs\<close> and the
  payment handler of \<^verbatim>\<open>mint/mod.rs\<close>): requests for quotes, recording of payments, and the mint
  request itself. A payment backend is a parameter: for each unit and method, what its calls return
  to this request. A database call that fails ends its transaction like the errors shown here.
\<close>

section \<open>Payment backends\<close>

record WaitPaymentResponse =
  wpr_payment_identifier :: PaymentIdentifier
  wpr_payment_amount :: Amount
  wpr_unit :: CurrencyUnit
  wpr_payment_id :: string

record CreateIncomingPaymentResponse =
  cip_request_lookup_id :: PaymentIdentifier
  cip_request :: string
  cip_expiry :: "u64 option"

record Bolt11IncomingPaymentOptions =
  b11o_description :: "string option"
  b11o_amount :: Amount
  b11o_unix_expiry :: "u64 option"

record Bolt12IncomingPaymentOptions =
  b12o_description :: "string option"
  b12o_amount :: "Amount option"
  b12o_unix_expiry :: "u64 option"

datatype IncomingPaymentOptions =
    IncomingBolt11 Bolt11IncomingPaymentOptions
  | IncomingBolt12 Bolt12IncomingPaymentOptions

record Bolt11OutgoingPaymentOptions =
  out11_bolt11 :: string
  out11_max_fee_amount :: "Amount option"
  out11_timeout_secs :: "u64 option"
  out11_melt_options :: "MeltOptions option"

record Bolt12OutgoingPaymentOptions =
  out12_offer :: string
  out12_max_fee_amount :: "Amount option"
  out12_timeout_secs :: "u64 option"
  out12_melt_options :: "MeltOptions option"

datatype OutgoingPaymentOptions =
    OutgoingBolt11 Bolt11OutgoingPaymentOptions
  | OutgoingBolt12 Bolt12OutgoingPaymentOptions

record MakePaymentResponse =
  mpr_payment_lookup_id :: PaymentIdentifier
  mpr_payment_proof :: "string option"
  mpr_status :: MeltQuoteState
  mpr_total_spent :: Amount
  mpr_unit :: CurrencyUnit

record PaymentQuoteResponse =
  pqr_request_lookup_id :: "PaymentIdentifier option"
  pqr_amount :: Amount
  pqr_fee :: Amount
  pqr_unit :: CurrencyUnit

text \<open>The settings of a backend are read only for whether an invoice may carry a description.\<close>

record backend =
  invoice_description :: "(Error, bool) outcome"
  create_incoming_payment_request ::
    "CurrencyUnit \<Rightarrow> IncomingPaymentOptions \<Rightarrow> (payment_error, CreateIncomingPaymentResponse) outcome"
  check_incoming_payment_status :: "PaymentIdentifier \<Rightarrow> (payment_error, WaitPaymentResponse list) outcome"
  get_payment_quote :: "CurrencyUnit \<Rightarrow> OutgoingPaymentOptions \<Rightarrow> (payment_error, PaymentQuoteResponse) outcome"
  make_payment :: "CurrencyUnit \<Rightarrow> OutgoingPaymentOptions \<Rightarrow> (payment_error, MakePaymentResponse) outcome"
  check_outgoing_payment :: "PaymentIdentifier \<Rightarrow> (payment_error, MakePaymentResponse) outcome"

type_synonym processors = "CurrencyUnit \<Rightarrow> PaymentMethod \<Rightarrow> backend option"

definition get_payment_processor :: "processors \<Rightarrow> CurrencyUnit \<Rightarrow> PaymentMethod \<Rightarrow> (Error, backend) outcome" where
  "get_payment_processor procs u meth = ok_or (procs u meth) E_UnsupportedUnit"

section \<open>Requests for a quote\<close>

record MintQuoteBolt11Request =
  mq11_amount :: Amount
  mq11_unit :: CurrencyUnit
  mq11_description :: "string option"
  mq11_pubkey :: "PublicKey option"

record MintQuoteBolt12Request =
  mq12_amount :: "Amount option"
  mq12_unit :: CurrencyUnit
  mq12_description :: "string option"
  mq12_pubkey :: PublicKey

datatype MintQuoteRequest = MintBolt11 MintQuoteBolt11Request | MintBolt12 MintQuoteBolt12Request

fun request_amount :: "MintQuoteRequest \<Rightarrow> Amount option" where
  "request_amount (MintBolt11 r) = Some (mq11_amount r)"
| "request_amount (MintBolt12 r) = mq12_amount r"

fun request_unit :: "MintQuoteRequest \<Rightarrow> CurrencyUnit" where
  "request_unit (MintBolt11 r) = mq11_unit r"
| "request_unit (MintBolt12 r) = mq12_unit r"

fun request_payment_method :: "MintQuoteRequest \<Rightarrow> PaymentMethod" where
  "request_payment_method (MintBolt11 _) = Bolt11"
| "request_payment_method (MintBolt12 _) = Bolt12"

fun request_pubkey :: "MintQuoteRequest \<Rightarrow> PublicKey option" where
  "request_pubkey (MintBolt11 r) = mq11_pubkey r"
| "request_pubkey (MintBolt12 r) = Some (mq12_pubkey r)"

record MintQuoteBolt11Response =
  mr11_quote :: QuoteId
  mr11_request :: string
  mr11_amount :: "Amount option"
  mr11_unit :: "CurrencyUnit option"
  mr11_state :: MintQuoteState
  mr11_expiry :: "u64 option"
  mr11_pubkey :: "PublicKey option"

record MintQuoteBolt12Response =
  mr12_quote :: QuoteId
  mr12_request :: string
  mr12_amount :: "Amount option"
  mr12_unit :: CurrencyUnit
  mr12_expiry :: "u64 option"
  mr12_pubkey :: PublicKey
  mr12_amount_paid :: Amount
  mr12_amount_issued :: Amount

datatype MintQuoteResponse = ResponseBolt11 MintQuoteBolt11Response | ResponseBolt12 MintQuoteBolt12Response

definition bolt11_response :: "MintQuote \<Rightarrow> MintQuoteBolt11Response" where
  "bolt11_response q = \<lparr>mr11_quote = mq_id q, mr11_request = mq_request q, mr11_amount = mq_amount q,
     mr11_unit = Some (mq_unit q), mr11_state = mint_quote_state q, mr11_expiry = Some (mq_expiry q),
     mr11_pubkey = mq_pubkey q\<rparr>"

definition bolt12_response :: "MintQuote \<Rightarrow> (Error, MintQuoteBolt12Response) outcome" where
  "bolt12_response q =
     and_then (ok_or (mq_pubkey q) E_PubkeyRequired) (\<lambda>k.
     Ok \<lparr>mr12_quote = mq_id q, mr12_request = mq_request q, mr12_amount = mq_amount q, mr12_unit = mq_unit q,
         mr12_expiry = Some (mq_expiry q), mr12_pubkey = k, mr12_amount_paid = mq_amount_paid q,
         mr12_amount_issued = mq_amount_issued q\<rparr>)"

definition mint_quote_response :: "MintQuote \<Rightarrow> (Error, MintQuoteResponse) outcome" where
  "mint_quote_response q = (case mq_payment_method q of
       Bolt11 \<Rightarrow> Ok (ResponseBolt11 (bolt11_response q))
     | Bolt12 \<Rightarrow> and_then (bolt12_response q) (\<lambda>r. Ok (ResponseBolt12 r))
     | CustomMethod _ \<Rightarrow> Err E_InvalidPaymentMethod)"

text \<open>The settings of NUT-04 for a method and a unit: the first that applies.\<close>

datatype MintMethodOptions = MintBolt11Options bool

record MintMethodSettings =
  mms_method :: PaymentMethod
  mms_unit :: CurrencyUnit
  mms_min_amount :: "Amount option"
  mms_max_amount :: "Amount option"
  mms_options :: "MintMethodOptions option"

record MintSettings =
  mint_methods :: "MintMethodSettings list"
  mint_disabled :: bool

definition mint_get_settings :: "MintSettings \<Rightarrow> CurrencyUnit \<Rightarrow> PaymentMethod \<Rightarrow> MintMethodSettings option" where
  "mint_get_settings info u meth = List.find (\<lambda>s. mms_method s = meth \<and> mms_unit s = u) (mint_methods info)"

definition unwrap_or_zero :: "Amount option \<Rightarrow> Amount" where
  "unwrap_or_zero a = (case a of Some x \<Rightarrow> x | None \<Rightarrow> 0)"

definition out_of_range :: "Amount option \<Rightarrow> Amount option \<Rightarrow> Amount \<Rightarrow> bool" where
  "out_of_range min_amount max_amount a \<longleftrightarrow> (case max_amount of Some mx \<Rightarrow> mx < a | None \<Rightarrow> False)
     \<or> (case min_amount of Some mn \<Rightarrow> a < mn | None \<Rightarrow> False)"

definition check_mint_request_acceptable :: "MintSettings \<Rightarrow> MintQuoteRequest \<Rightarrow> (Error, unit) outcome" where
  "check_mint_request_acceptable nut04 req =
     and_then (ensure (\<not> mint_disabled nut04) E_MintingDisabled) (\<lambda>_.
     and_then (ok_or (mint_get_settings nut04 (request_unit req) (request_payment_method req)) E_UnsupportedUnit) (\<lambda>s.
     case request_amount req of
       None \<Rightarrow> Ok ()
     | Some a \<Rightarrow> ensure (\<not> out_of_range (mms_min_amount s) (mms_max_amount s) a)
         (E_AmountOutofLimitRange (unwrap_or_zero (mms_min_amount s)) (unwrap_or_zero (mms_max_amount s)) a)))"

definition incoming_options ::
  "bool \<Rightarrow> u64 \<Rightarrow> u64 \<Rightarrow> backend \<Rightarrow> MintQuoteRequest \<Rightarrow> (Error, IncomingPaymentOptions) outcome" where
  "incoming_options oc now mint_ttl ln req = (case req of
       MintBolt11 r \<Rightarrow>
         and_then (add_unchecked oc now mint_ttl) (\<lambda>expiry.
         and_then (invoice_description ln) (\<lambda>described.
         if mq11_description r \<noteq> None \<and> \<not> described then Err E_InvoiceDescriptionUnsupported
         else Ok (IncomingBolt11 \<lparr>b11o_description = mq11_description r, b11o_amount = mq11_amount r,
                                  b11o_unix_expiry = Some expiry\<rparr>)))
     | MintBolt12 r \<Rightarrow>
         Ok (IncomingBolt12 \<lparr>b12o_description = mq12_description r, b12o_amount = mq12_amount r,
                             b12o_unix_expiry = None\<rparr>))"

definition mint_get_mint_quote ::
  "bool \<Rightarrow> u64 \<Rightarrow> u64 \<Rightarrow> MintSettings \<Rightarrow> processors \<Rightarrow> QuoteId \<Rightarrow> MintQuoteRequest \<Rightarrow> MintQuoteResponse action" where
  "mint_get_mint_quote oc now mint_ttl nut04 procs q req =
     then_do (pure (
       and_then (check_mint_request_acceptable nut04 req) (\<lambda>_.
       and_then (get_payment_processor procs (request_unit req) (request_payment_method req)) (\<lambda>ln.
       and_then (incoming_options oc now mint_ttl ln req) (\<lambda>opts.
       and_then (map_err (\<lambda>_. E_InvalidPaymentRequest)
           (create_incoming_payment_request ln (request_unit req) opts)) (\<lambda>created.
       Ok (mint_quote_new q None (cip_request created) (request_unit req) (request_amount req)
             (case cip_expiry created of Some t \<Rightarrow> t | None \<Rightarrow> 0) (cip_request_lookup_id created)
             (request_pubkey req) 0 0 (request_payment_method req) now [] []))))))) (\<lambda>quote.
     then_do (in_transaction (\<lambda>db. and_then (map_err from_db (add_mint_quote quote db)) (\<lambda>db'. Ok ((), db')))) (\<lambda>_.
     pure (mint_quote_response quote)))"

section \<open>Payments\<close>

definition settled :: "MintQuote \<Rightarrow> bool" where
  "settled q \<longleftrightarrow> mq_payment_method q = Bolt11 \<and> (mint_quote_state q = MintIssued \<or> mint_quote_state q = MintPaid)"

definition add_payment :: "MintQuote \<Rightarrow> Amount \<Rightarrow> string \<Rightarrow> u64 \<Rightarrow> (Error, MintQuote) outcome" where
  "add_payment q a payment_id time =
     (if payment_id \<in> set (payment_ids q) then Err E_DuplicatePaymentId
      else Ok (q\<lparr>mq_payments := mq_payments q
                   @ [\<lparr>pay_amount = a, pay_time = time, pay_payment_id = payment_id\<rparr>]\<rparr>))"

definition record_payment ::
  "u64 \<Rightarrow> MintQuote \<times> MintDb \<Rightarrow> WaitPaymentResponse \<Rightarrow> (Error, MintQuote \<times> MintDb) outcome" where
  "record_payment now = (\<lambda>(quote, db) payment.
     if wpr_payment_id payment \<notin> set (payment_ids quote) \<and> 0 < wpr_payment_amount payment then
       and_then (map_err E_AmountError (to_unit (wpr_payment_amount payment) (wpr_unit payment) (mq_unit quote))) (\<lambda>a.
       and_then (map_err (\<lambda>_. E_AmountOverflow) (increment_amount_paid quote a)) (\<lambda>q1.
       and_then (add_payment q1 a (wpr_payment_id payment) now) (\<lambda>q2.
       and_then (map_err from_db (increment_mint_quote_amount_paid now (mq_id quote) a (wpr_payment_id payment) db))
         (\<lambda>(_, db'). Ok (q2, db')))))
     else Ok (quote, db))"

definition check_mint_quote_paid :: "u64 \<Rightarrow> processors \<Rightarrow> MintQuote \<Rightarrow> MintQuote action" where
  "check_mint_quote_paid now procs quote db =
     (if settled quote then (Ok quote, db)
      else then_do (pure (
          and_then (ok_or (procs (mq_unit quote) (mq_payment_method quote)) E_UnsupportedUnit) (\<lambda>ln.
          map_err E_Payment (check_incoming_payment_status ln (mq_request_lookup_id quote))))) (\<lambda>ln_status.
        if ln_status = [] then pure (Ok quote)
        else in_transaction (\<lambda>db.
          and_then (ok_or (get_mint_quote (mq_id quote) db) E_UnknownQuote) (\<lambda>reloaded.
          if settled reloaded then Ok (reloaded, db)
          else try_fold (record_payment now) (reloaded, db) ln_status))) db)"

definition check_mint_quote :: "u64 \<Rightarrow> processors \<Rightarrow> QuoteId \<Rightarrow> MintQuoteResponse action" where
  "check_mint_quote now procs q db =
     then_do (pure (ok_or (get_mint_quote q db) E_UnknownQuote)) (\<lambda>quote.
     then_do (if mq_payment_method quote = Bolt11 then check_mint_quote_paid now procs quote else pure (Ok quote)) (\<lambda>quote'.
     pure (mint_quote_response quote'))) db"

definition handle_mint_quote_payment ::
  "u64 \<Rightarrow> MintQuote \<Rightarrow> WaitPaymentResponse \<Rightarrow> MintDb \<Rightarrow> (Error, unit \<times> MintDb) outcome" where
  "handle_mint_quote_payment now quote payment db =
     (if wpr_payment_id payment \<in> set (payment_ids quote) \<or> settled quote then Ok ((), db)
      else and_then (map_err E_AmountError (to_unit (wpr_payment_amount payment) (wpr_unit payment) (mq_unit quote))) (\<lambda>a.
           if a = 0 then Err E_AmountUndefined
           else and_then (map_err from_db
                  (increment_mint_quote_amount_paid now (mq_id quote) a (wpr_payment_id payment) db))
                (\<lambda>(_, db'). Ok ((), db'))))"

definition pay_mint_quote_for_request_id :: "u64 \<Rightarrow> WaitPaymentResponse \<Rightarrow> unit action" where
  "pay_mint_quote_for_request_id now payment =
     (if wpr_payment_amount payment = 0 then pure (Err E_AmountUndefined)
      else in_transaction (\<lambda>db.
        case get_mint_quote_by_request_lookup_id (wpr_payment_identifier payment) db of
          Some quote \<Rightarrow> handle_mint_quote_payment now quote payment db
        | None \<Rightarrow> Ok ((), db)))"

section \<open>The mint request\<close>

definition mint_amount :: "MintQuote \<Rightarrow> (Error, Amount) outcome" where
  "mint_amount q = (case mq_payment_method q of
       Bolt11 \<Rightarrow>
         and_then (ok_or (mq_amount q) E_AmountUndefined) (\<lambda>a.
         and_then (amount_mintable q) (\<lambda>mintable.
         if a \<noteq> mintable then Err E_IncorrectQuoteAmount else Ok a))
     | Bolt12 \<Rightarrow>
         and_then (amount_mintable q) (\<lambda>mintable.
         if mintable = 0 then Err E_UnpaidQuote else Ok mintable)
     | CustomMethod _ \<Rightarrow> Err E_UnsupportedPaymentMethod)"

definition issue_tx ::
  "externs \<Rightarrow> u64 \<Rightarrow> Mint \<Rightarrow> Uuid \<Rightarrow> MintRequest \<Rightarrow> BlindSignature list \<Rightarrow> MintDb
     \<Rightarrow> (Error, BlindSignature list \<times> MintDb) outcome" where
  "issue_tx e now m i req sigs db =
     and_then (ok_or (get_mint_quote (mreq_quote req) db) E_UnknownQuote) (\<lambda>quote.
     and_then (case mint_quote_state quote of
         MintUnpaid \<Rightarrow> Err E_UnpaidQuote | MintIssued \<Rightarrow> Err E_IssuedQuote | MintPaid \<Rightarrow> Ok ()) (\<lambda>_.
     and_then (ensure (\<not> (mq_payment_method quote = Bolt12 \<and> mq_pubkey quote = None)) E_SignatureMissingOrInvalid) (\<lambda>_.
     and_then (mint_amount quote) (\<lambda>minted.
     and_then (case mq_pubkey quote of
         Some k \<Rightarrow> map_err E_NUT20 (verify_signature e req k) | None \<Rightarrow> Ok ()) (\<lambda>_.
     and_then (verify_outputs m (mreq_outputs req) db) (\<lambda>v.
     and_then (if (if mq_payment_method quote = Bolt11 then ver_amount v \<noteq> minted else minted < ver_amount v)
         then and_then (map_err E_NUT04 (mint_total_amount req)) (\<lambda>t. Err (E_TransactionUnbalanced minted t 0))
         else Ok ()) (\<lambda>_.
     and_then (expect (ver_unit v)) (\<lambda>u.
     and_then (ensure (u = mq_unit quote) E_UnsupportedUnit) (\<lambda>_.
     and_then (map_err from_db (add_blinded_messages now (Some (mreq_quote req)) (mreq_outputs req) (OpMint i) db)) (\<lambda>db1.
     and_then (map_err from_db (add_blind_signatures now (map blinded_secret (mreq_outputs req)) sigs
         (Some (mreq_quote req)) db1)) (\<lambda>db2.
     and_then (map_err E_NUT04 (mint_total_amount req)) (\<lambda>issued.
     and_then (map_err from_db (increment_mint_quote_amount_issued now (mreq_quote req) issued db2)) (\<lambda>(_, db3).
     Ok (sigs, db3))))))))))))))"

definition process_mint_request ::
  "externs \<Rightarrow> u64 \<Rightarrow> Mint \<Rightarrow> processors \<Rightarrow> Uuid \<Rightarrow> SecretKey list \<Rightarrow> MintRequest \<Rightarrow> BlindSignature list action" where
  "process_mint_request e now m procs i rs req db =
     then_do (pure (ok_or (get_mint_quote (mreq_quote req) db) E_UnknownQuote)) (\<lambda>quote.
     then_do (if mq_payment_method quote = Bolt11 then check_mint_quote_paid now procs quote else pure (Ok quote)) (\<lambda>_.
     then_do (pure (blind_sign e (mint_signatory m) rs (mreq_outputs req))) (\<lambda>sigs.
     in_transaction (issue_tx e now m i req sigs)))) db"

section \<open>The books of the quotes\<close>

text \<open>
  What the mint relies on of its book of quotes: a payment is credited once, to one quote, and no
  quote is ever issued more than it was paid.
\<close>

locale quote_book =
  fixes ok_db :: "'db \<Rightarrow> bool"
    and paid_of :: "'db \<Rightarrow> QuoteId \<Rightarrow> nat"
    and issued_of :: "'db \<Rightarrow> QuoteId \<Rightarrow> nat"
    and seen :: "'db \<Rightarrow> string set"
    and pay :: "QuoteId \<Rightarrow> Amount \<Rightarrow> string \<Rightarrow> 'db \<Rightarrow> (db_error, Amount \<times> 'db) outcome"
    and issue :: "QuoteId \<Rightarrow> Amount \<Rightarrow> 'db \<Rightarrow> (db_error, Amount \<times> 'db) outcome"
  assumes covered: "ok_db db \<Longrightarrow> issued_of db q \<le> paid_of db q"
    and pay_Ok: "ok_db db \<Longrightarrow> pay q a pid db = Ok (t, db') \<Longrightarrow> ok_db db' \<and> 0 < a \<and> pid \<notin> seen db
        \<and> seen db' = insert pid (seen db)
        \<and> (\<forall>q'. paid_of db' q' = (if q' = q then paid_of db q + unat a else paid_of db q')
               \<and> issued_of db' q' = issued_of db q')"
    and issue_Ok: "ok_db db \<Longrightarrow> issue q a db = Ok (t, db') \<Longrightarrow> ok_db db' \<and> seen db' = seen db
        \<and> (\<forall>q'. issued_of db' q' = (if q' = q then issued_of db q + unat a else issued_of db q')
               \<and> paid_of db' q' = paid_of db q')"
begin

text \<open>A payment reported twice is credited once.\<close>

lemma credited_once:
  assumes "ok_db db" "pay q a pid db = Ok (t, db1)" "issue q'' c db1 = Ok (t'', db2)"
  shows "pay q' b pid db1 \<noteq> Ok (t', db')" "pay q' b pid db2 \<noteq> Ok (t', db')"
proof -
  from pay_Ok [OF assms(1,2)] have k: "ok_db db1" "pid \<in> seen db1" by auto
  with pay_Ok [of db1 q' b pid t' db'] show "pay q' b pid db1 \<noteq> Ok (t', db')" by blast
  from issue_Ok [OF k(1) assms(3)] k(2) have "ok_db db2" "pid \<in> seen db2" by auto
  with pay_Ok [of db2 q' b pid t' db'] show "pay q' b pid db2 \<noteq> Ok (t', db')" by blast
qed

text \<open>What is issued next fits into what was paid.\<close>

lemma issue_fits:
  assumes "ok_db db" "issue q a db = Ok (t, db')"
  shows "issued_of db q + unat a \<le> paid_of db q"
  using issue_Ok [OF assms] covered [of db' q] by fastforce

end

definition paid_sum :: "MintDb \<Rightarrow> QuoteId \<Rightarrow> nat" where
  "paid_sum db q = (\<Sum>(_, (q', a, _)) \<leftarrow> payment_tbl db. if q' = q then unat a else 0)"

definition issued_sum :: "MintDb \<Rightarrow> QuoteId \<Rightarrow> nat" where
  "issued_sum db q = (\<Sum>(q', a, _) \<leftarrow> issued_tbl db. if q' = q then unat a else 0)"

definition books_ok :: "MintDb \<Rightarrow> bool" where
  "books_ok db \<longleftrightarrow> keyed (payment_tbl db)
     \<and> (\<forall>q r. map_of (mint_quote_tbl db) q = Some r \<longrightarrow> mq_id r = q \<and> mq_amount_issued r \<le> mq_amount_paid r
          \<and> unat (mq_amount_paid r) = paid_sum db q \<and> unat (mq_amount_issued r) = issued_sum db q)
     \<and> (\<forall>q. map_of (mint_quote_tbl db) q = None \<longrightarrow> paid_sum db q = 0 \<and> issued_sum db q = 0)"

lemma books_covered: "books_ok db \<Longrightarrow> issued_sum db q \<le> paid_sum db q"
  by (cases "map_of (mint_quote_tbl db) q") (fastforce simp: books_ok_def word_le_nat_alt)+

lemma increment_paid_Ok:
  assumes "increment_mint_quote_amount_paid now q a pid db = Ok (t, db')"
  obtains r where "map_of (mint_quote_tbl db) q = Some r" "a \<noteq> 0" "pid \<notin> keys_of (payment_tbl db)"
    and "unat t = unat (mq_amount_paid r) + unat a"
    and "db' = db\<lparr>mint_quote_tbl := update_where (\<lambda>j _. j = q) (\<lambda>r. r\<lparr>mq_amount_paid := t\<rparr>) (mint_quote_tbl db),
       payment_tbl := payment_tbl db @ [(pid, (q, a, now))]\<rparr>"
  using assms
  by (auto simp: increment_mint_quote_amount_paid_def Let_def insert_row_def checked_add_Some_iff
      split: option.splits if_splits)

lemma increment_issued_Ok:
  assumes "increment_mint_quote_amount_issued now q a db = Ok (t, db')"
  obtains r where "map_of (mint_quote_tbl db) q = Some r" "unat t = unat (mq_amount_issued r) + unat a"
    "t \<le> mq_amount_paid r"
    and "db' = db\<lparr>mint_quote_tbl := update_where (\<lambda>j _. j = q) (\<lambda>r. r\<lparr>mq_amount_issued := t\<rparr>) (mint_quote_tbl db),
       issued_tbl := issued_tbl db @ [(q, a, now)]\<rparr>"
  using assms
  by (auto simp: increment_mint_quote_amount_issued_def checked_add_Some_iff checked_sub_def split: if_splits)

interpretation mint_books: quote_book books_ok paid_sum issued_sum "\<lambda>db. keys_of (payment_tbl db)"
  "increment_mint_quote_amount_paid now" "increment_mint_quote_amount_issued now" for now
proof
  show "issued_sum db q \<le> paid_sum db q" if "books_ok db" for db q by (rule books_covered [OF that])
next
  fix db q a pid t db'
  assume ok: "books_ok db" and "increment_mint_quote_amount_paid now q a pid db = Ok (t, db')"
  from this(2) obtain r where r: "map_of (mint_quote_tbl db) q = Some r" "a \<noteq> 0" "pid \<notin> keys_of (payment_tbl db)"
    "unat t = unat (mq_amount_paid r) + unat a"
    and db': "db' = db\<lparr>mint_quote_tbl := update_where (\<lambda>j _. j = q) (\<lambda>r. r\<lparr>mq_amount_paid := t\<rparr>) (mint_quote_tbl db),
       payment_tbl := payment_tbl db @ [(pid, (q, a, now))]\<rparr>" by (rule increment_paid_Ok)
  have p: "paid_sum db' q' = (if q' = q then paid_sum db q + unat a else paid_sum db q')" for q'
    by (simp add: paid_sum_def db')
  have i: "issued_sum db' q' = issued_sum db q'" for q' by (simp add: issued_sum_def db')
  have look: "map_of (mint_quote_tbl db') q'
      = map_option (\<lambda>r. if q' = q then r\<lparr>mq_amount_paid := t\<rparr> else r) (map_of (mint_quote_tbl db) q')" for q'
    by (simp add: db' update_where_lookup)
  have "keyed (payment_tbl db')" using ok r(3) by (auto simp: books_ok_def db' keys_of_def)
  moreover have "mq_amount_issued r \<le> t" using ok r(1,4) by (fastforce simp: books_ok_def word_le_nat_alt)
  ultimately have "books_ok db'"
    using ok r(1,4) unfolding books_ok_def look p i by (auto split: if_splits)
  then show "books_ok db' \<and> 0 < a \<and> pid \<notin> keys_of (payment_tbl db)
      \<and> keys_of (payment_tbl db') = insert pid (keys_of (payment_tbl db))
      \<and> (\<forall>q'. paid_sum db' q' = (if q' = q then paid_sum db q + unat a else paid_sum db q')
            \<and> issued_sum db' q' = issued_sum db q')"
    using r(2,3) p i by (simp add: db' word_gt_0)
next
  fix db q a t db'
  assume ok: "books_ok db" and "increment_mint_quote_amount_issued now q a db = Ok (t, db')"
  from this(2) obtain r where r: "map_of (mint_quote_tbl db) q = Some r"
    "unat t = unat (mq_amount_issued r) + unat a" "t \<le> mq_amount_paid r"
    and db': "db' = db\<lparr>mint_quote_tbl := update_where (\<lambda>j _. j = q) (\<lambda>r. r\<lparr>mq_amount_issued := t\<rparr>) (mint_quote_tbl db),
       issued_tbl := issued_tbl db @ [(q, a, now)]\<rparr>" by (rule increment_issued_Ok)
  have i: "issued_sum db' q' = (if q' = q then issued_sum db q + unat a else issued_sum db q')" for q'
    by (simp add: issued_sum_def db')
  have p: "paid_sum db' q' = paid_sum db q'" for q' by (simp add: paid_sum_def db')
  have look: "map_of (mint_quote_tbl db') q'
      = map_option (\<lambda>r. if q' = q then r\<lparr>mq_amount_issued := t\<rparr> else r) (map_of (mint_quote_tbl db) q')" for q'
    by (simp add: db' update_where_lookup)
  have "keyed (payment_tbl db')" using ok by (simp add: books_ok_def db')
  then have "books_ok db'"
    using ok r unfolding books_ok_def look p i by (auto split: if_splits)
  then show "books_ok db' \<and> keys_of (payment_tbl db') = keys_of (payment_tbl db)
      \<and> (\<forall>q'. issued_sum db' q' = (if q' = q then issued_sum db q + unat a else issued_sum db q')
            \<and> paid_sum db' q' = paid_sum db q')"
    using p i by (simp add: db')
qed

section \<open>Effects of the operations\<close>

definition issued_total :: "MintDb \<Rightarrow> nat" where
  "issued_total db = (\<Sum>(_, a, _) \<leftarrow> issued_tbl db. unat a)"

definition paid_total :: "MintDb \<Rightarrow> nat" where
  "paid_total db = (\<Sum>(_, (_, a, _)) \<leftarrow> payment_tbl db. unat a)"

text \<open>Quotes and payments may be added; proofs, signatures, sagas and what is issued stay.\<close>

definition credits :: "MintDb \<Rightarrow> MintDb \<Rightarrow> bool" where
  "credits db db' \<longleftrightarrow> books_ok db' \<and> proof_tbl db' = proof_tbl db \<and> sig_tbl db' = sig_tbl db
     \<and> saga_tbl db' = saga_tbl db \<and> issued_tbl db' = issued_tbl db
     \<and> (\<exists>ps. payment_tbl db' = payment_tbl db @ ps)"

lemma credits_refl: "books_ok db \<Longrightarrow> credits db db"
  by (simp add: credits_def)

lemma credits_trans: "credits db db1 \<Longrightarrow> credits db1 db2 \<Longrightarrow> credits db db2"
  by (auto simp: credits_def)

lemma increment_paid_credits:
  assumes "books_ok db" "increment_mint_quote_amount_paid now q a pid db = Ok (t, db')"
  shows "credits db db'"
proof -
  have "books_ok db'" using mint_books.pay_Ok [OF assms] by blast
  with assms(2) show ?thesis by (auto simp: credits_def elim!: increment_paid_Ok)
qed

lemma record_payment_credits:
  assumes "books_ok db" "record_payment now (quote, db) p = Ok (quote', db')"
  shows "credits db db'"
  using assms increment_paid_credits credits_refl
  by (auto simp: record_payment_def split: if_splits)

lemma record_payments_credits:
  assumes "books_ok db" "try_fold (record_payment now) (quote, db) ps = Ok (quote', db')"
  shows "credits db db'"
  using assms
proof (induction ps arbitrary: quote db)
  case Nil
  then show ?case by (simp add: credits_refl)
next
  case (Cons p ps)
  then obtain q1 db1 where p: "record_payment now (quote, db) p = Ok (q1, db1)"
    "try_fold (record_payment now) (q1, db1) ps = Ok (quote', db')" by auto
  note c = record_payment_credits [OF Cons.prems(1) p(1)]
  then have "books_ok db1" by (simp add: credits_def)
  from credits_trans [OF c Cons.IH [OF this p(2)]] show ?case .
qed

lemma check_mint_quote_paid_credits:
  assumes "books_ok db" "check_mint_quote_paid now procs quote db = (r, db')"
  shows "credits db db'"
proof -
  have tx: "credits db db'" if "in_transaction f db = (r, db')" "\<And>a db''. f db = Ok (a, db'') \<Longrightarrow> credits db db''"
    for f :: "MintDb \<Rightarrow> (Error, MintQuote \<times> MintDb) outcome"
    using that assms(1) credits_refl by (auto simp: in_transaction_def split: outcome.splits)
  show ?thesis
  proof (cases "settled quote")
    case True
    with assms show ?thesis by (simp add: check_mint_quote_paid_def credits_refl)
  next
    case False
    let ?f = "\<lambda>ln_status db. and_then (ok_or (get_mint_quote (mq_id quote) db) E_UnknownQuote) (\<lambda>reloaded.
          if settled reloaded then Ok (reloaded, db) else try_fold (record_payment now) (reloaded, db) ln_status)"
    have "db' = db \<or> (\<exists>ln_status. in_transaction (?f ln_status) db = (r, db'))"
      using assms(2) False
      by (auto simp: check_mint_quote_paid_def then_do_def pure_def split: outcome.splits if_splits prod.splits)
    then show ?thesis
    proof
      assume "\<exists>ln_status. in_transaction (?f ln_status) db = (r, db')"
      then obtain l where l: "in_transaction (?f l) db = (r, db')" by blast
      show ?thesis
      proof (rule tx [OF l])
        fix a db'' assume "?f l db = Ok (a, db'')"
        then show "credits db db''"
          using assms(1) credits_refl record_payments_credits by (auto split: if_splits)
      qed
    qed (simp add: assms(1) credits_refl)
  qed
qed

lemma check_mint_quote_credits:
  assumes "books_ok db" "check_mint_quote now procs q db = (r, db')"
  shows "credits db db'"
proof (cases "get_mint_quote q db")
  case None
  with assms show ?thesis by (simp add: check_mint_quote_def then_do_def pure_def credits_refl)
next
  case (Some quote)
  obtain r1 db1 where c: "(if mq_payment_method quote = Bolt11 then check_mint_quote_paid now procs quote else pure (Ok quote)) db
      = (r1, db1)" by fastforce
  have "credits db db1"
  proof (cases "mq_payment_method quote = Bolt11")
    case True
    with c check_mint_quote_paid_credits [OF assms(1)] show ?thesis by simp
  next
    case False
    with c assms(1) show ?thesis by (simp add: pure_def credits_refl)
  qed
  moreover have "db' = db1"
    using assms(2) Some c by (auto simp: check_mint_quote_def then_do_def pure_def split: outcome.splits)
  ultimately show ?thesis by simp
qed

lemma handle_payment_credits:
  assumes "books_ok db" "handle_mint_quote_payment now quote p db = Ok (u, db')"
  shows "credits db db'"
  using assms increment_paid_credits credits_refl
  by (auto simp: handle_mint_quote_payment_def split: if_splits)

lemma pay_notification_credits:
  assumes "books_ok db" "pay_mint_quote_for_request_id now p db = (r, db')"
  shows "credits db db'"
  using assms handle_payment_credits credits_refl
  by (auto simp: pay_mint_quote_for_request_id_def pure_def in_transaction_def
      split: if_splits option.splits outcome.splits)

lemma add_mint_quote_credits:
  assumes "books_ok db" "add_mint_quote q db = Ok db'"
  shows "credits db db'"
proof -
  let ?r = "q\<lparr>mq_amount := Option.bind (mq_amount q) to_i64, mq_amount_paid := 0, mq_amount_issued := 0\<rparr>"
  from assms(2) have new: "map_of (mint_quote_tbl db) (mq_id q) = None"
    and db': "db' = db\<lparr>mint_quote_tbl := mint_quote_tbl db @ [(mq_id q, ?r)]\<rparr>"
    by (auto simp: add_mint_quote_def insert_row_Ok_iff split: if_splits)
  have look: "map_of (mint_quote_tbl db') k = (if k = mq_id q then Some ?r else map_of (mint_quote_tbl db) k)" for k
    using new by (simp add: db' map_add_def split: option.splits)
  have "paid_sum db' k = paid_sum db k" "issued_sum db' k = issued_sum db k" for k
    by (simp_all add: paid_sum_def issued_sum_def db')
  with assms(1) new have "books_ok db'"
    unfolding books_ok_def look by (auto simp: db' split: if_splits)
  then show ?thesis by (simp add: credits_def db')
qed

lemma get_mint_quote_credits:
  assumes "books_ok db" "mint_get_mint_quote oc now mint_ttl nut04 procs q req db = (r, db')"
  shows "credits db db'"
proof -
  have "db' = db \<or> (\<exists>quote. add_mint_quote quote db = Ok db')"
    using assms(2)
    by (auto simp: mint_get_mint_quote_def then_do_def pure_def in_transaction_def split: outcome.splits prod.splits)
  with assms(1) add_mint_quote_credits credits_refl show ?thesis by blast
qed

lemma issue_tx_effect:
  assumes "books_ok db" "keyed (sig_tbl db)" "blind_sign e (mint_signatory m) rs (mreq_outputs req) = Ok sigs"
    and "issue_tx e' now m' i req sigs db = Ok (sigs', db')"
  shows "sigs' = sigs" "books_ok db'" "keyed (sig_tbl db')" "proof_tbl db' = proof_tbl db" "saga_tbl db' = saga_tbl db"
    and "payment_tbl db' = payment_tbl db" "map bs_amount sigs = map bm_amount (mreq_outputs req)"
    and "signed_value db' = signed_value db + total (map bm_amount (mreq_outputs req))"
    and "issued_total db' = issued_total db + total (map bm_amount (mreq_outputs req))"
    and "issued_sum db' q = issued_sum db q + (if q = mreq_quote req then total (map bm_amount (mreq_outputs req)) else 0)"
proof -
  from assms(4) obtain db1 db2 a t where
    b: "add_blinded_messages now (Some (mreq_quote req)) (mreq_outputs req) (OpMint i) db = Ok db1"
    and s: "add_blind_signatures now (map blinded_secret (mreq_outputs req)) sigs (Some (mreq_quote req)) db1 = Ok db2"
    and a: "mint_total_amount req = Ok a"
    and inc: "increment_mint_quote_amount_issued now (mreq_quote req) a db2 = Ok (t, db')"
    and "sigs' = sigs" by (auto simp: issue_tx_def)
  show "sigs' = sigs" by fact
  note m = add_blinded_messages_value [OF b] and db1 = add_blinded_messages_Ok(3) [OF b]
  note v = add_blind_signatures_value [OF s m(2) [OF assms(2)]]
  have db2: "db2 = db1\<lparr>sig_tbl := sig_tbl db2\<rparr>" using s by (auto simp: add_blind_signatures_def split: if_splits)
  have tot: "unat a = total (map bm_amount (mreq_outputs req))"
    using a by (auto simp: mint_total_amount_def try_sum_Ok_iff)
  have same: "mint_quote_tbl db2 = mint_quote_tbl db" "payment_tbl db2 = payment_tbl db" "issued_tbl db2 = issued_tbl db"
    "saga_tbl db2 = saga_tbl db"
    by (subst db2, simp add: db1)+
  then have ok2: "books_ok db2" and sums: "issued_sum db2 = issued_sum db" "paid_sum db2 = paid_sum db"
    using assms(1) by (simp_all add: books_ok_def paid_sum_def [abs_def] issued_sum_def [abs_def])
  from inc obtain r where r: "db' = db2\<lparr>mint_quote_tbl := update_where (\<lambda>j _. j = mreq_quote req)
      (\<lambda>r. r\<lparr>mq_amount_issued := t\<rparr>) (mint_quote_tbl db2), issued_tbl := issued_tbl db2 @ [(mreq_quote req, a, now)]\<rparr>"
    by (rule increment_issued_Ok)
  show "books_ok db'" using mint_books.issue_Ok [OF ok2 inc] by blast
  show "keyed (sig_tbl db')" "proof_tbl db' = proof_tbl db" "saga_tbl db' = saga_tbl db" "payment_tbl db' = payment_tbl db"
    using v m(3) same by (simp_all add: r)
  have "length sigs = length (mreq_outputs req)" using s by (auto simp: add_blind_signatures_def)
  then show am: "map bs_amount sigs = map bm_amount (mreq_outputs req)"
    using blind_sign_amounts [OF assms(3)] by simp
  show "signed_value db' = signed_value db + total (map bm_amount (mreq_outputs req))"
    using v(1) m(1) am by (simp add: r signed_value_def)
  show "issued_total db' = issued_total db + total (map bm_amount (mreq_outputs req))"
    using tot by (simp add: issued_total_def r same)
  show "issued_sum db' q = issued_sum db q + (if q = mreq_quote req then total (map bm_amount (mreq_outputs req)) else 0)"
    using mint_books.issue_Ok [OF ok2 inc] tot by (simp add: sums)
qed

text \<open>The part of a mint request before its transaction only credits payments.\<close>

lemma process_mint_request_parts:
  assumes "books_ok db" "process_mint_request e now m procs i rs req db = (r, db')"
  shows "\<exists>db1. credits db db1 \<and> (\<not> is_ok r \<longrightarrow> db' = db1)
    \<and> (\<forall>sigs. r = Ok sigs \<longrightarrow> blind_sign e (mint_signatory m) rs (mreq_outputs req) = Ok sigs
         \<and> issue_tx e now m i req sigs db1 = Ok (sigs, db'))"
proof (cases "get_mint_quote (mreq_quote req) db")
  case None
  with assms show ?thesis
    by (auto simp: process_mint_request_def then_do_def pure_def credits_refl)
next
  case (Some quote)
  obtain r1 db1 where c: "(if mq_payment_method quote = Bolt11 then check_mint_quote_paid now procs quote else pure (Ok quote)) db
      = (r1, db1)" by fastforce
  have cr: "credits db db1"
  proof (cases "mq_payment_method quote = Bolt11")
    case True
    with c check_mint_quote_paid_credits [OF assms(1)] show ?thesis by simp
  next
    case False
    with c assms(1) show ?thesis by (simp add: pure_def credits_refl)
  qed
  have fst: "a = sigs" if "issue_tx e now m i req sigs db1 = Ok (a, d)" for sigs a d
    using that by (auto simp: issue_tx_def)
  have run: "(case r1 of Ok _ \<Rightarrow> then_do (pure (blind_sign e (mint_signatory m) rs (mreq_outputs req)))
        (\<lambda>sigs. in_transaction (issue_tx e now m i req sigs)) db1 | Err x \<Rightarrow> (Err x, db1) | Panic \<Rightarrow> (Panic, db1)) = (r, db')"
    using assms(2) Some c by (simp add: process_mint_request_def then_do_def pure_def split: outcome.splits)
  have "(\<not> is_ok r \<longrightarrow> db' = db1) \<and> (\<forall>sigs. r = Ok sigs \<longrightarrow> blind_sign e (mint_signatory m) rs (mreq_outputs req) = Ok sigs
         \<and> issue_tx e now m i req sigs db1 = Ok (sigs, db'))"
    using run by (auto simp: then_do_def pure_def in_transaction_def dest: fst split: outcome.splits prod.splits)
  with cr show ?thesis by blast
qed

text \<open>
  C4: A mint request that succeeds returns a signature for each output, of its amount, adds the
  outputs to what the quote has issued, and leaves the quote issued no more than it was paid; no
  other quote's issuance and no proof changes. One that fails changes nothing but payments the
  backend reported.
\<close>

theorem mint_request_effect:
  assumes "books_ok db" "keyed (sig_tbl db)" "process_mint_request e now m procs i rs req db = (r, db')"
  shows "books_ok db' \<and> proof_tbl db' = proof_tbl db \<and> (case r of
      Ok sigs \<Rightarrow> map bs_amount sigs = map bm_amount (mreq_outputs req)
        \<and> signed_value db' = signed_value db + total (map bs_amount sigs)
        \<and> issued_sum db' (mreq_quote req) = issued_sum db (mreq_quote req) + total (map bs_amount sigs)
        \<and> issued_sum db' (mreq_quote req) \<le> paid_sum db' (mreq_quote req)
        \<and> (\<forall>q. q \<noteq> mreq_quote req \<longrightarrow> issued_sum db' q = issued_sum db q)
    | _ \<Rightarrow> credits db db')"
proof -
  from process_mint_request_parts [OF assms(1,3)] obtain db1 where cr: "credits db db1"
    and bad: "\<not> is_ok r \<Longrightarrow> db' = db1"
    and good: "\<And>sigs. r = Ok sigs \<Longrightarrow> blind_sign e (mint_signatory m) rs (mreq_outputs req) = Ok sigs
         \<and> issue_tx e now m i req sigs db1 = Ok (sigs, db')" by blast
  from cr have ok1: "books_ok db1" and k1: "keyed (sig_tbl db1)" and t1: "proof_tbl db1 = proof_tbl db"
    and v1: "signed_value db1 = signed_value db" "issued_sum db1 = issued_sum db"
    using assms(2) by (simp_all add: credits_def signed_value_def issued_sum_def [abs_def])
  show ?thesis
  proof (cases "is_ok r")
    case True
    then obtain sigs where r: "r = Ok sigs" by (auto simp: is_ok_iff)
    note g = good [OF r]
    note eff = issue_tx_effect [OF ok1 k1 conjunct1 [OF g] conjunct2 [OF g]]
    show ?thesis
      using eff(2,4,7,8) eff(10) v1 t1 books_covered [OF eff(2), of "mreq_quote req"] by (simp add: r)
  next
    case False
    with bad cr show ?thesis by (cases r) (auto simp: credits_def)
  qed
qed

text \<open>A paid quote and the request for its one output.\<close>

definition demo_paid_quote :: MintQuote where
  "demo_paid_quote = mint_quote_new ''q'' None ''r'' Sat (Some 8) 0 (Label ''l'') None 8 0 Bolt11 0 [] []"

definition demo_paid_db :: MintDb where
  "demo_paid_db = empty_db\<lparr>mint_quote_tbl := [(''q'', demo_paid_quote)], payment_tbl := [(''p'', (''q'', 8, 0))]\<rparr>"

definition demo_mint_request :: MintRequest where
  "demo_mint_request = \<lparr>mreq_quote = ''q'', mreq_outputs = [demo_message], mreq_signature = None\<rparr>"

lemma demo_issues:
  "\<exists>sigs db'. blind_sign toy_externs (mint_signatory demo_mint) [[1]] (mreq_outputs demo_mint_request) = Ok sigs
     \<and> issue_tx toy_externs 0 demo_mint 3 demo_mint_request sigs demo_paid_db = Ok (sigs, db')"
proof -
  let ?q = "with_history demo_paid_db demo_paid_quote"
  have q: "get_mint_quote ''q'' demo_paid_db = Some ?q" by (simp add: get_mint_quote_def demo_paid_db_def)
  have fields: "mq_payment_method ?q = Bolt11" "mq_amount ?q = Some 8" "mq_amount_paid ?q = 8" "mq_amount_issued ?q = 0"
    "mq_pubkey ?q = None" "mq_unit ?q = Sat"
    by (simp_all add: with_history_def demo_paid_quote_def mint_quote_new_def)
  then have paid: "mint_quote_state ?q = MintPaid" by (simp add: mint_quote_state_def)
  obtain sigs where sigs: "blind_sign toy_externs demo_signer [[1]] [demo_message] = Ok sigs" "length sigs = 1"
    using demo_signer_signs by auto
  then obtain s where s: "sigs = [s]" by (auto simp: length_Suc_conv)
  have v: "verify_outputs demo_mint [demo_message] demo_paid_db = Ok \<lparr>ver_amount = 8, ver_unit = Some Sat\<rparr>"
    by (rule demo_outputs) (simp add: demo_paid_db_def empty_db_def)
  let ?row = "message_row 0 (Some ''q'') (OpMint 3) demo_message"
  let ?db1 = "demo_paid_db\<lparr>sig_tbl := [([2, 3], ?row)]\<rparr>"
  have b: "add_blinded_messages 0 (Some ''q'') [demo_message] (OpMint 3) demo_paid_db = Ok ?db1"
    by (simp add: add_blinded_messages_def insert_blinded_message_def not_null_def ensure_def to_i64_def
        insert_row_def demo_paid_db_def empty_db_def demo_message_def message_row_def)
  have "\<exists>t. add_blind_signatures 0 [[2, 3]] [s] (Some ''q'') ?db1 = Ok (demo_paid_db\<lparr>sig_tbl := t\<rparr>)"
    by (simp add: add_blind_signatures_def add_blind_signature_def ensure_def select_in_def message_row_def delete_where_def) blast
  then obtain t where t: "add_blind_signatures 0 [[2, 3]] [s] (Some ''q'') ?db1 = Ok (demo_paid_db\<lparr>sig_tbl := t\<rparr>)" by blast
  have a: "mint_total_amount demo_mint_request = Ok 8"
    by (simp add: mint_total_amount_def demo_mint_request_def demo_message_def try_sum_def checked_add_def)
  have "\<exists>db3. increment_mint_quote_amount_issued 0 ''q'' 8 (demo_paid_db\<lparr>sig_tbl := t\<rparr>) = Ok (8, db3)"
    by (simp add: increment_mint_quote_amount_issued_def demo_paid_db_def demo_paid_quote_def mint_quote_new_def
        checked_add_def checked_sub_def not_null_def ensure_def to_i64_def)
  then obtain db3 where i: "increment_mint_quote_amount_issued 0 ''q'' 8 (demo_paid_db\<lparr>sig_tbl := t\<rparr>) = Ok (8, db3)" by blast
  have "issue_tx toy_externs 0 demo_mint 3 demo_mint_request sigs demo_paid_db = Ok (sigs, db3)"
    using q fields paid v b t a i s
    by (simp add: issue_tx_def demo_mint_request_def ensure_def mint_amount_def amount_mintable_def amount_sub_def
        checked_sub_def) (simp add: demo_message_def)
  then show ?thesis using sigs(1) by (auto simp: demo_mint_request_def demo_mint_def)
qed

lemma demo_mints:
  "\<exists>sigs db'. process_mint_request toy_externs 0 demo_mint (\<lambda>_ _. None) 3 [[1]] demo_mint_request demo_paid_db = (Ok sigs, db')"
proof -
  let ?q = "with_history demo_paid_db demo_paid_quote"
  have "get_mint_quote ''q'' demo_paid_db = Some ?q" by (simp add: get_mint_quote_def demo_paid_db_def)
  moreover have "settled ?q"
    by (simp add: settled_def mint_quote_state_def with_history_def demo_paid_quote_def mint_quote_new_def)
  ultimately have check: "check_mint_quote_paid 0 (\<lambda>_ _. None) ?q demo_paid_db = (Ok ?q, demo_paid_db)"
    "get_mint_quote (mreq_quote demo_mint_request) demo_paid_db = Some ?q"
    by (simp_all add: check_mint_quote_paid_def demo_mint_request_def)
  obtain sigs db' where "blind_sign toy_externs (mint_signatory demo_mint) [[1]] (mreq_outputs demo_mint_request) = Ok sigs"
    "issue_tx toy_externs 0 demo_mint 3 demo_mint_request sigs demo_paid_db = Ok (sigs, db')" using demo_issues by blast
  with check show ?thesis by (simp add: process_mint_request_def then_do_def pure_def in_transaction_def)
qed

theorem mint_request_effect_witness:
  "\<exists>sigs db'. process_mint_request toy_externs 0 demo_mint (\<lambda>_ _. None) 3 [[1]] demo_mint_request demo_paid_db = (Ok sigs, db')
     \<and> signed_value db' = 8 \<and> issued_sum db' ''q'' = 8"
proof -
  obtain sigs db' where run: "process_mint_request toy_externs 0 demo_mint (\<lambda>_ _. None) 3 [[1]] demo_mint_request demo_paid_db
      = (Ok sigs, db')" using demo_mints by blast
  have ok: "books_ok demo_paid_db" "keyed (sig_tbl demo_paid_db)"
    by (auto simp: books_ok_def demo_paid_db_def empty_db_def demo_paid_quote_def mint_quote_new_def paid_sum_def issued_sum_def)
  from mint_request_effect [OF ok run] run show ?thesis
    by (auto simp: demo_mint_request_def demo_message_def demo_paid_db_def empty_db_def signed_value_def issued_sum_def total_def)
qed

text \<open>
  A signed mint request without outputs for a paid Bolt12 quote passes every check and panics:
  there is no output unit to unwrap.
\<close>

theorem bolt12_empty_outputs_panics:
  assumes "get_mint_quote (mreq_quote req) db = Some quote" "mq_payment_method quote = Bolt12"
    and "mq_amount_issued quote < mq_amount_paid quote" "mq_pubkey quote = Some k"
    and "verify_signature e req k = Ok ()" "mreq_outputs req = []"
  shows "process_mint_request e now m procs i rs req db = (Panic, db)"
proof -
  have "mint_quote_state quote = MintPaid" using assms(3) by (auto simp: mint_quote_state_def)
  moreover have "checked_sub (mq_amount_paid quote) (mq_amount_issued quote) = Some (mq_amount_paid quote - mq_amount_issued quote)"
    using assms(3) by (simp add: checked_sub_def)
  moreover have "mq_amount_paid quote - mq_amount_issued quote \<noteq> 0" using assms(3) by auto
  ultimately have "issue_tx e now m i req [] db = Panic"
    using assms by (simp add: issue_tx_def ensure_def mint_amount_def amount_mintable_def amount_sub_def verify_outputs_def)
  then show ?thesis
    using assms by (simp add: process_mint_request_def then_do_def pure_def blind_sign_def in_transaction_def)
qed

definition demo_bolt12_quote :: MintQuote where
  "demo_bolt12_quote = demo_paid_quote\<lparr>mq_payment_method := Bolt12, mq_pubkey := Some [2, 1]\<rparr>"

definition demo_bolt12_db :: MintDb where
  "demo_bolt12_db = empty_db\<lparr>mint_quote_tbl := [(''q'', demo_bolt12_quote)]\<rparr>"

theorem bolt12_empty_outputs_panics_witness:
  "process_mint_request toy_externs 0 demo_mint (\<lambda>_ _. None) 3 []
     (mint_request_sign toy_externs \<lparr>mreq_quote = ''q'', mreq_outputs = [], mreq_signature = None\<rparr> [1]) demo_bolt12_db
   = (Panic, demo_bolt12_db)"
proof (rule bolt12_empty_outputs_panics [where k = "[2, 1]" and quote = demo_bolt12_quote])
  let ?r = "\<lparr>mreq_quote = ''q'', mreq_outputs = [], mreq_signature = None\<rparr>"
  have pk: "sk_public_key toy_externs [1] = [2, 1]" by (simp add: toy_externs_def)
  have msg: "msg_to_sign (mint_request_sign toy_externs ?r [1]) = msg_to_sign ?r"
    by (simp add: msg_to_sign_def mint_request_sign_def)
  show "verify_signature toy_externs (mint_request_sign toy_externs ?r [1]) [2, 1] = Ok ()"
    using sign_then_verify(1) [OF toy_schnorr_laws, of "[1]" "msg_to_sign ?r"] sign_then_verify(2) [OF toy_schnorr_laws] msg
    by (simp add: verify_signature_def mint_request_sign_def pk)
qed (simp_all add: get_mint_quote_def demo_bolt12_db_def demo_bolt12_quote_def demo_paid_quote_def mint_quote_new_def
    with_history_def mint_request_sign_def quote_payments_def quote_issuance_def empty_db_def)

end
