(* ===== verification/Ledger.thy ===== *)
theory Ledger
  imports SwapProps MintIssue
begin

text \<open>
  The mint as a whole: swaps in progress, payments, quotes and mint requests interleave, database
  calls of the swaps fail, the process crashes and recovers. The ecash in circulation is covered by
  the payments received.
\<close>

section \<open>Swaps leave the books alone\<close>

definition books :: "MintDb \<Rightarrow> (QuoteId \<times> MintQuote) list \<times> (string \<times> (QuoteId \<times> Amount \<times> u64)) list
    \<times> (QuoteId \<times> Amount \<times> u64) list" where
  "books db = (mint_quote_tbl db, payment_tbl db, issued_tbl db)"

lemma books_eqD:
  assumes "books db' = books db"
  shows "books_ok db' = books_ok db" "issued_total db' = issued_total db" "paid_total db' = paid_total db"
    "payment_tbl db' = payment_tbl db"
  using assms by (simp_all add: books_def books_ok_def paid_sum_def issued_sum_def issued_total_def paid_total_def)

lemma delete_saga_books: "delete_saga i db = Ok db' \<Longrightarrow> books db' = books db"
  by (auto simp: delete_saga_def books_def)

lemma execute_books: "execute fails c db = Ok db' \<Longrightarrow> books db' = books db"
  by (auto simp: execute_def delete_blinded_messages_def remove_proofs_def Let_def books_def split: if_splits)

lemma run_compensation_books: "books (run_compensation fails c db) = books db"
  by (auto simp: run_compensation_def execute_books split: outcome.splits)

lemma compensate_all_books: "books (compensate_all fails saga db) = books db"
proof -
  have "books (fold (run_compensation fails) cs db) = books db" for cs
    by (induction cs arbitrary: db) (simp_all add: run_compensation_books)
  then show ?thesis
    by (auto simp: compensate_all_def Let_def dest: delete_saga_books split: outcome.splits)
qed

lemma recover_sagas_books: "recover_sagas fails sagas db = (r, db') \<Longrightarrow> books db' = books db"
proof (induction fails sagas db arbitrary: r db' rule: recover_sagas.induct)
  case (2 fails saga sagas db)
  let ?f = "fails (saga_operation_id saga)"
  let ?c = "\<lparr>rss_blinded_secrets = saga_blinded_secrets saga, rss_input_ys = saga_input_ys saga\<rparr>"
  show ?case
  proof (cases "execute ?f ?c db")
    case (Ok db1)
    have b1: "books db1 = books db" by (rule execute_books [OF Ok])
    show ?thesis
    proof (cases "db_call ?f CleanupSaga (delete_saga (saga_operation_id saga) db1)")
      case del: (Ok db2)
      then have "books db2 = books db" using delete_saga_books b1 by auto
      with "2.prems" Ok del b1 "2.IH"(1) [OF refl Ok _ del] show ?thesis
        by (auto simp: Let_def db_call_def split: if_splits)
    next
      case del: (Err d)
      with "2.prems" Ok b1 "2.IH"(2) [OF refl Ok _ del] show ?thesis
        by (auto simp: Let_def db_call_def split: if_splits)
    next
      case Panic
      with "2.prems" Ok b1 show ?thesis by (auto simp: Let_def db_call_def split: if_splits)
    qed
  next
    case (Err x)
    with "2.prems" "2.IH"(3) [OF refl Err] show ?thesis by (auto simp: Let_def)
  next
    case Panic
    with "2.prems" show ?thesis by (simp add: Let_def)
  qed
qed simp

lemma setup_swap_books:
  assumes "keyed (proof_tbl db)" "setup_swap rt m saga inputs outputs quote v db = (r, db')"
  shows "books db' = books db"
proof (cases "is_ok r")
  case True
  then obtain s where r: "r = Ok s" by (auto simp: is_ok_iff)
  from setup_tx_db(1) [OF assms(1) setup_swap_Ok(1) [OF assms(2) [unfolded r]]] show ?thesis
    by (simp add: books_def setup_db_def)
next
  case False
  with setup_swap_not_Ok [OF assms(2)] show ?thesis by simp
qed

lemma sign_outputs_books: "sign_outputs rt m rs s db = (r, db') \<Longrightarrow> books db' = books db"
  by (auto simp: sign_outputs_def compensate_all_books split: outcome.splits)

lemma finalize_books: "finalize rt s db = (r, db') \<Longrightarrow> books db' = books db"
proof (cases "is_ok r")
  case True
  assume "finalize rt s db = (r, db')"
  with True obtain sigs where "finalize rt s db = (Ok sigs, db')" by (auto simp: is_ok_iff)
  then obtain db1 olds db2 where
    "add_blind_signatures (rt_now rt) (map blinded_secret (signed_messages (swap_data s))) sigs None db = Ok db1"
    "update_proofs_states (signed_ys (swap_data s)) Spent db1 = Ok (olds, db2)"
    "db' = db2 \<or> delete_saga (op_id (swap_operation s)) db2 = Ok db'" by (rule finalize_Ok)
  then show ?thesis
    by (auto simp: add_blind_signatures_def update_proofs_states_def delete_saga_def books_def Let_def split: if_splits)
next
  case False
  assume "finalize rt s db = (r, db')"
  from finalize_not_Ok [OF this False] show ?thesis by (auto simp: compensate_all_books)
qed

lemma swap_step_books: "swap_step w w' \<Longrightarrow> keyed (proof_tbl (w_db w)) \<Longrightarrow> books (w_db w') = books (w_db w)"
  by (induction rule: swap_step.induct)
     (simp_all add: setup_swap_books sign_outputs_books finalize_books recover_from_incomplete_sagas_def recover_sagas_books)

section \<open>Sums over all quotes\<close>

lemma total_by_quote:
  assumes "finite Q" "\<forall>(q, a) \<in> set xs. q \<in> Q"
  shows "(\<Sum>(q, a) \<leftarrow> xs. f a) = (\<Sum>q \<in> Q. \<Sum>(q', a) \<leftarrow> xs. if q' = q then f a else (0 :: nat))"
  using assms(2)
proof (induction xs)
  case (Cons x xs)
  obtain q a where x: "x = (q, a)" by (cases x)
  have "(\<Sum>j \<in> Q. if q = j then f a else 0) = f a" using Cons.prems x assms(1) by (simp add: sum.delta')
  with Cons x show ?case by (simp add: sum.distrib)
qed simp

lemma issued_covered:
  assumes "books_ok db"
  shows "issued_total db \<le> paid_total db"
proof -
  let ?is = "map (\<lambda>(q, a, _). (q, a)) (issued_tbl db)" and ?ps = "map (\<lambda>(_, (q, a, _)). (q, a)) (payment_tbl db)"
  define Q where "Q = fst ` set ?is \<union> fst ` set ?ps"
  have fin: "finite Q" by (simp add: Q_def)
  have i: "issued_total db = (\<Sum>(q, a) \<leftarrow> ?is. unat a)" "issued_sum db q = (\<Sum>(q', a) \<leftarrow> ?is. if q' = q then unat a else 0)" for q
    by (simp_all add: issued_total_def issued_sum_def comp_def case_prod_unfold cong: if_cong)
  have p: "paid_total db = (\<Sum>(q, a) \<leftarrow> ?ps. unat a)" "paid_sum db q = (\<Sum>(q', a) \<leftarrow> ?ps. if q' = q then unat a else 0)" for q
    by (simp_all add: paid_total_def paid_sum_def comp_def case_prod_unfold cong: if_cong)
  have "issued_total db = (\<Sum>q \<in> Q. issued_sum db q)"
    unfolding i by (rule total_by_quote [OF fin]) (auto simp: Q_def image_iff case_prod_unfold)
  also have "\<dots> \<le> (\<Sum>q \<in> Q. paid_sum db q)" by (rule sum_mono) (rule books_covered [OF assms])
  also have "\<dots> = paid_total db"
    unfolding p by (rule total_by_quote [OF fin, symmetric]) (auto simp: Q_def image_iff case_prod_unfold)
  finally show ?thesis .
qed

section \<open>Everything interleaved\<close>

text \<open>
  A step of the mint: a step of a swap, a quote, a check or a notification of payment, or the
  transaction that issues. A mint request is the check followed by the issue, and other steps may
  come between them.
\<close>

inductive ledger_step :: "world \<Rightarrow> world \<Rightarrow> bool" where
  Swap: "swap_step w w' \<Longrightarrow> ledger_step w w'"
| Quote: "mint_get_mint_quote oc now mint_ttl nut04 procs q req (w_db w) = (r, db')
    \<Longrightarrow> ledger_step w (w\<lparr>w_db := db'\<rparr>)"
| Check: "check_mint_quote_paid now procs quote (w_db w) = (r, db') \<Longrightarrow> ledger_step w (w\<lparr>w_db := db'\<rparr>)"
| Notify: "pay_mint_quote_for_request_id now payment (w_db w) = (r, db') \<Longrightarrow> ledger_step w (w\<lparr>w_db := db'\<rparr>)"
| Issue: "blind_sign e (mint_signatory (m :: Mint)) rs (mreq_outputs mreq) = Ok sigs
    \<Longrightarrow> issue_tx e now m' i mreq sigs (w_db w) = Ok (sigs', db')
    \<Longrightarrow> ledger_step w (w\<lparr>w_db := db', w_issued := w_issued w + total (map bs_amount sigs)\<rparr>)"

definition ledger_inv :: "world \<Rightarrow> bool" where
  "ledger_inv w \<longleftrightarrow> world_inv w \<and> books_ok (w_db w) \<and> w_issued w = issued_total (w_db w) \<and> w_spent w = 0"

text \<open>The invariant of the swaps depends on the tables of proofs and signatures only.\<close>

lemma world_inv_frame:
  assumes "world_inv w" "proof_tbl db' = proof_tbl (w_db w)" "keyed (sig_tbl db')"
    and "signed_value db' + w_issued w = signed_value (w_db w) + k"
  shows "world_inv (w\<lparr>w_db := db', w_issued := k\<rparr>)"
proof -
  have "holds_inputs db' = holds_inputs (w_db w)"
    by (simp add: holds_inputs_def [abs_def] same_tables(3) [OF assms(2)] assms(2))
  then show ?thesis
    using assms(1,3,4) same_tables(1,2) [OF assms(2)] by (simp add: world_inv_def assms(2))
qed

lemma ledger_inv_credits:
  assumes "ledger_inv w" "credits (w_db w) db'"
  shows "ledger_inv (w\<lparr>w_db := db'\<rparr>)"
proof -
  from assms(1) have w: "world_inv w" "keyed (sig_tbl (w_db w))" by (simp_all add: ledger_inv_def world_inv_def)
  from assms(2) have c: "proof_tbl db' = proof_tbl (w_db w)" "sig_tbl db' = sig_tbl (w_db w)" "books_ok db'"
    "issued_total db' = issued_total (w_db w)" by (simp_all add: credits_def issued_total_def)
  have "world_inv (w\<lparr>w_db := db', w_issued := w_issued w\<rparr>)"
    by (rule world_inv_frame [OF w(1) c(1)]) (simp_all add: c(2) w(2) signed_value_def)
  moreover have "w\<lparr>w_db := db', w_issued := w_issued w\<rparr> = w\<lparr>w_db := db'\<rparr>" by simp
  ultimately have "world_inv (w\<lparr>w_db := db'\<rparr>)" by (simp only:)
  with assms(1) c show ?thesis by (simp add: ledger_inv_def)
qed

lemma ledger_step_inv: "ledger_step w w' \<Longrightarrow> ledger_inv w \<Longrightarrow> ledger_inv w'"
proof (induction rule: ledger_step.induct)
  case (Swap w w')
  then have w: "world_inv w" "keyed (proof_tbl (w_db w))" by (simp_all add: ledger_inv_def world_inv_def)
  note b = books_eqD [OF swap_step_books [OF Swap(1) w(2)]]
  show ?case
    using swap_step_inv [OF Swap(1) w(1)] swap_step_counters [OF Swap(1)] b Swap(2) by (simp add: ledger_inv_def)
next
  case (Quote oc now mint_ttl nut04 procs q req w r db')
  then have "books_ok (w_db w)" by (simp add: ledger_inv_def)
  then show ?case by (rule ledger_inv_credits [OF Quote(2) get_mint_quote_credits [OF _ Quote(1)]])
next
  case (Check now procs quote w r db')
  then have "books_ok (w_db w)" by (simp add: ledger_inv_def)
  then show ?case by (rule ledger_inv_credits [OF Check(2) check_mint_quote_paid_credits [OF _ Check(1)]])
next
  case (Notify now payment w r db')
  then have "books_ok (w_db w)" by (simp add: ledger_inv_def)
  then show ?case by (rule ledger_inv_credits [OF Notify(2) pay_notification_credits [OF _ Notify(1)]])
next
  case (Issue e m rs mreq sigs now m' i w sigs' db')
  then have w: "world_inv w" "books_ok (w_db w)" "keyed (sig_tbl (w_db w))" by (simp_all add: ledger_inv_def world_inv_def)
  note eff = issue_tx_effect [OF w(2,3) Issue(1,2)]
  have "world_inv (w\<lparr>w_db := db', w_issued := w_issued w + total (map bs_amount sigs)\<rparr>)"
    by (rule world_inv_frame [OF w(1) eff(4,3)]) (simp add: eff(7,8))
  with Issue(3) eff(2,7,9) show ?case by (simp add: ledger_inv_def)
qed

abbreviation new_mint :: world where
  "new_mint \<equiv> \<lparr>w_db = empty_db, w_live = [], w_done = [], w_spent = 0, w_issued = 0\<rparr>"

lemma ledger_reachable: "ledger_step\<^sup>*\<^sup>* new_mint w \<Longrightarrow> ledger_inv w"
proof (induction rule: rtranclp_induct)
  case base
  show ?case
    by (simp add: ledger_inv_def world_inv_def empty_db_def spent_value_def signed_value_def books_ok_def paid_sum_def
        issued_sum_def issued_total_def)
qed (rule ledger_step_inv)

text \<open>
  C1: The mint is solvent. From an empty mint, however payments, mint requests and swaps interleave,
  whichever database calls of the swaps fail, and through crashes and recoveries: the signatures the
  mint has stored, less the proofs it has marked spent, are worth exactly what was issued against
  quotes less the swap fees, and so at most the payments received, each counted once; every input of
  a completed swap is spent, and no proof was an input of two.
\<close>

theorem mint_solvent:
  assumes "ledger_step\<^sup>*\<^sup>* new_mint w"
  shows "signed_value (w_db w) + (\<Sum>l \<leftarrow> w_done w. unat (run_fee l)) = spent_value (w_db w) + issued_total (w_db w)
    \<and> issued_total (w_db w) \<le> paid_total (w_db w) \<and> distinct (map fst (payment_tbl (w_db w)))
    \<and> (\<forall>l \<in> set (w_done w). \<forall>y \<in> set (run_ys l). proof_state (w_db w) y = Some Spent)
    \<and> distinct (concat (map run_ys (w_done w)))"
proof -
  have inv: "ledger_inv w" by (rule ledger_reachable [OF assms])
  then have w: "world_inv w" "books_ok (w_db w)" by (simp_all add: ledger_inv_def)
  have "(\<Sum>l \<leftarrow> ls. run_in l) = (\<Sum>l \<leftarrow> ls. run_out l) + (\<Sum>l \<leftarrow> ls. unat (run_fee l))"
    if "\<forall>l \<in> set ls. run_in l = run_out l + unat (run_fee l)" for ls
    using that by (induction ls) auto
  with inv w issued_covered [OF w(2)] show ?thesis
    by (auto simp: ledger_inv_def world_inv_def books_ok_def)
qed

text \<open>A quote, its payment and the issue of one signature.\<close>

definition demo_backend :: backend where
  "demo_backend = \<lparr>invoice_description = Ok False,
     create_incoming_payment_request = (\<lambda>_ _. Ok \<lparr>cip_request_lookup_id = Label ''l'', cip_request = ''r'', cip_expiry = None\<rparr>),
     check_incoming_payment_status = (\<lambda>_. Ok []), get_payment_quote = (\<lambda>_ _. Err PayLightning),
     make_payment = (\<lambda>_ _. Err PayLightning), check_outgoing_payment = (\<lambda>_. Err PayLightning)\<rparr>"

definition demo_nut04 :: MintSettings where
  "demo_nut04 = \<lparr>mint_methods = [\<lparr>mms_method = Bolt11, mms_unit = Sat, mms_min_amount = None, mms_max_amount = None,
     mms_options = None\<rparr>], mint_disabled = False\<rparr>"

definition demo_quoted_db :: MintDb where
  "demo_quoted_db = empty_db\<lparr>mint_quote_tbl := [(''q'', demo_paid_quote\<lparr>mq_amount_paid := 0\<rparr>)]\<rparr>"

lemma demo_quotes:
  "\<exists>r. mint_get_mint_quote True 0 0 demo_nut04 (\<lambda>_ _. Some demo_backend) ''q''
     (MintBolt11 \<lparr>mq11_amount = 8, mq11_unit = Sat, mq11_description = None, mq11_pubkey = None\<rparr>) empty_db = (r, demo_quoted_db)"
  by (simp add: mint_get_mint_quote_def then_do_def pure_def check_mint_request_acceptable_def demo_nut04_def mint_get_settings_def
      ensure_def out_of_range_def get_payment_processor_def incoming_options_def add_unchecked_def checked_add_def
      demo_backend_def in_transaction_def add_mint_quote_def insert_row_def empty_db_def mint_quote_new_def
      demo_quoted_db_def demo_paid_quote_def to_i64_def)

lemma demo_pays:
  "pay_mint_quote_for_request_id 0 \<lparr>wpr_payment_identifier = Label ''l'', wpr_payment_amount = 8, wpr_unit = Sat,
     wpr_payment_id = ''p''\<rparr> demo_quoted_db = (Ok (), demo_paid_db)"
  by (simp add: pay_mint_quote_for_request_id_def in_transaction_def get_mint_quote_by_request_lookup_id_def demo_quoted_db_def
      demo_paid_quote_def mint_quote_new_def with_history_def quote_payments_def quote_issuance_def empty_db_def
      handle_mint_quote_payment_def payment_ids_def settled_def mint_quote_state_def to_unit_def
      increment_mint_quote_amount_paid_def checked_add_def ensure_def not_null_def to_i64_def insert_row_def update_where_def
      demo_paid_db_def)

theorem mint_solvent_witness:
  "\<exists>w. ledger_step\<^sup>*\<^sup>* new_mint w \<and> signed_value (w_db w) = spent_value (w_db w) + 8 \<and> issued_total (w_db w) = 8"
proof -
  obtain sigs db' where sg: "blind_sign toy_externs (mint_signatory demo_mint) [[1]] (mreq_outputs demo_mint_request) = Ok sigs"
    and tx: "issue_tx toy_externs 0 demo_mint 3 demo_mint_request sigs demo_paid_db = Ok (sigs, db')"
    using demo_issues by blast
  let ?w1 = "new_mint\<lparr>w_db := demo_quoted_db\<rparr>" and ?w2 = "new_mint\<lparr>w_db := demo_paid_db\<rparr>"
  let ?w3 = "new_mint\<lparr>w_db := db', w_issued := total (map bs_amount sigs)\<rparr>"
  obtain r where "mint_get_mint_quote True 0 0 demo_nut04 (\<lambda>_ _. Some demo_backend) ''q''
     (MintBolt11 \<lparr>mq11_amount = 8, mq11_unit = Sat, mq11_description = None, mq11_pubkey = None\<rparr>) (w_db new_mint)
       = (r, demo_quoted_db)" using demo_quotes by auto
  from ledger_step.Quote [OF this] have s1: "ledger_step new_mint ?w1" by simp
  have s2: "ledger_step ?w1 ?w2" using ledger_step.Notify [of 0 _ ?w1, simplified, OF demo_pays] by simp
  have s3: "ledger_step ?w2 ?w3" using ledger_step.Issue [OF sg, of 0 demo_mint 3 ?w2] tx by simp
  have reach: "ledger_step\<^sup>*\<^sup>* new_mint ?w3"
    using s1 s2 s3 by (meson converse_rtranclp_into_rtranclp rtranclp.rtrancl_refl)
  have ok: "books_ok demo_paid_db" "keyed (sig_tbl demo_paid_db)"
    by (auto simp: books_ok_def demo_paid_db_def empty_db_def demo_paid_quote_def mint_quote_new_def paid_sum_def issued_sum_def)
  from issue_tx_effect(9) [OF ok sg tx] have "issued_total db' = 8"
    by (simp add: demo_mint_request_def demo_message_def demo_paid_db_def empty_db_def issued_total_def total_def)
  with mint_solvent [OF reach] reach show ?thesis by (intro exI [of _ ?w3]) simp
qed

end
