(* ===== verification/MintQuery.thy ===== *)
theory MintQuery
  imports SwapProps
begin

text \<open>
  Questions to the mint that change nothing: the state of proofs (\<^verbatim>\<open>crates/cdk/src/mint/check_spendable.rs\<close>),
  restoring signatures, and the totals per keyset (\<^verbatim>\<open>mint/mod.rs\<close>).
\<close>

record ProofState =
  ps_y :: PublicKey
  ps_state :: State
  ps_witness :: "Witness option"

definition proof_state_of :: "MintDb \<Rightarrow> PublicKey \<times> State option \<Rightarrow> ProofState" where
  "proof_state_of db = (\<lambda>(y, st).
     \<lparr>ps_y = y, ps_state = (case st of Some s \<Rightarrow> s | None \<Rightarrow> Unspent),
      ps_witness = (if st \<noteq> None then (case get_proofs_by_ys [y] db of Some p # _ \<Rightarrow> witness p | _ \<Rightarrow> None) else None)\<rparr>)"

definition check_state :: "PublicKey list \<Rightarrow> MintDb \<Rightarrow> (Error, ProofState list) outcome" where
  "check_state yl db =
     (let states = get_proofs_states yl db in
      if length yl \<noteq> length states then Panic
      else Ok (map (proof_state_of db) (zip yl states)))"

record RestoreResponse =
  rr_outputs :: "BlindedMessage list"
  rr_signatures :: "BlindSignature list"
  rr_promises :: "BlindSignature list option"

fun found :: "(BlindedMessage \<times> BlindSignature option) list \<Rightarrow> (BlindedMessage \<times> BlindSignature) list" where
  "found [] = []"
| "found ((m, Some s) # xs) = (m, s) # found xs"
| "found ((m, None) # xs) = found xs"

definition restore :: "BlindedMessage list \<Rightarrow> MintDb \<Rightarrow> (Error, RestoreResponse) outcome" where
  "restore outputs db =
     and_then (map_err from_db (get_blind_signatures (map blinded_secret outputs) db)) (\<lambda>sigs.
     if length sigs \<noteq> length outputs then Panic
     else let pairs = found (zip outputs sigs) in
       Ok \<lparr>rr_outputs = map fst pairs, rr_signatures = map snd pairs, rr_promises = Some (map snd pairs)\<rparr>)"

definition total_issued :: "Mint \<Rightarrow> MintDb \<Rightarrow> (Error, (Id \<times> Amount) list) outcome" where
  "total_issued m db = try_map (\<lambda>k.
     and_then (map_err from_db (get_blind_signatures_for_keyset (info_id k) db)) (\<lambda>sigs.
     and_then (map_err E_AmountError (try_sum (map bs_amount sigs))) (\<lambda>t. Ok (info_id k, t)))) (keysets m)"

definition total_redeemed :: "Mint \<Rightarrow> MintDb \<Rightarrow> (Error, (Id \<times> Amount) list) outcome" where
  "total_redeemed m db = try_map (\<lambda>k.
     let (proofs, states) = get_proofs_by_keyset_id (sks_id k) db in
     and_then (map_err E_AmountError (try_sum (map (amount \<circ> fst) (filter (\<lambda>(_, s). s = Some Spent) (zip proofs states))))) (\<lambda>t.
     Ok (sks_id k, t))) (signatory_keysets (mint_signatory m))"

section \<open>States\<close>

lemma take_each_nth:
  "i < length ks \<Longrightarrow> take_each rows ks ! i = (if ks ! i \<in> set (take i ks) then None else map_of rows (ks ! i))"
proof (induction ks arbitrary: rows i)
  case (Cons k ks)
  then show ?case by (cases i) (auto simp: delete_key_lookup)
qed simp

lemma check_state_answers:
  "\<exists>sts. check_state yl db = Ok sts \<and> map ps_y sts = yl
     \<and> (\<forall>i < length yl. ps_state (sts ! i) =
          (if yl ! i \<in> set (take i yl) then Unspent
           else case proof_state db (yl ! i) of Some s \<Rightarrow> s | None \<Rightarrow> Unspent))"
proof -
  let ?sts = "map (proof_state_of db) (zip yl (get_proofs_states yl db))"
  have len: "length (get_proofs_states yl db) = length yl" by (simp add: get_proofs_states_def)
  have "ps_state (?sts ! i) = (if yl ! i \<in> set (take i yl) then Unspent
      else case proof_state db (yl ! i) of Some s \<Rightarrow> s | None \<Rightarrow> Unspent)" if "i < length yl" for i
    using that len
    by (simp add: proof_state_of_def get_proofs_states_def take_each_nth current_states_lookup)
  moreover have "map ps_y ?sts = yl" using len by (intro nth_equalityI) (simp_all add: proof_state_of_def)
  ultimately show ?thesis using len by (simp add: check_state_def Let_def)
qed

text \<open>
  C22: The answer to a state check is in the order of the question and true of each proof the first
  time it is named: known proofs have their state, unknown ones are unspent. A proof named again is
  reported unspent whatever its state.
\<close>

theorem check_state_exact:
  "\<exists>sts. check_state yl db = Ok sts \<and> map ps_y sts = yl
     \<and> (\<forall>i < length yl. ps_state (sts ! i) =
          (if yl ! i \<in> set (take i yl) then Unspent
           else case proof_state db (yl ! i) of Some s \<Rightarrow> s | None \<Rightarrow> Unspent))"
  by (rule check_state_answers)

theorem check_state_exact_witness:
  "\<exists>a b. check_state [[2, 1], [2, 1]] spent_db = Ok [a, b] \<and> ps_state a = Spent \<and> ps_state b = Unspent"
proof -
  let ?yl = "[[2, 1], [2, 1]] :: PublicKey list"
  obtain sts where ok: "check_state ?yl spent_db = Ok sts" and ys: "map ps_y sts = ?yl"
    and st: "\<forall>i < length ?yl. ps_state (sts ! i) = (if ?yl ! i \<in> set (take i ?yl) then Unspent
       else case proof_state spent_db (?yl ! i) of Some s \<Rightarrow> s | None \<Rightarrow> Unspent)"
    by (rule exE [OF check_state_exact [of ?yl spent_db]]) (elim conjE, rule that)
  from ys obtain a b where sts: "sts = [a, b]" by (auto simp: map_eq_Cons_conv)
  have spent: "proof_state spent_db [2, 1] = Some Spent" by (simp add: spent_db_def proof_state_def empty_db_def)
  have "ps_state a = Spent" using spec [OF st, of 0] by (simp add: sts spent)
  moreover have "ps_state b = Unspent" using spec [OF st, of 1] by (simp add: sts)
  ultimately show ?thesis using ok sts by blast
qed

section \<open>Restoring\<close>

lemma found_all: "length ms = length sigs \<Longrightarrow> found (zip ms (map Some sigs)) = zip ms sigs"
  by (induction ms sigs rule: list_induct2) simp_all

lemma get_signed_rows:
  assumes "length msgs = length sigs" "distinct (map blinded_secret msgs)"
    and "set (map blinded_secret msgs) \<inter> keys_of t = {}" "sig_tbl db = t @ signed_rows now quote oper msgs sigs"
    and "map bs_keyset_id sigs = map bm_keyset_id msgs" "\<forall>s \<in> set sigs. to_i64 (bs_amount s) \<noteq> None"
  shows "get_blind_signatures (map blinded_secret msgs) db = Ok (map Some sigs)"
proof -
  let ?bs = "map blinded_secret msgs" and ?rows = "signed_rows now quote oper msgs sigs"
  have keys: "map fst ?rows = ?bs" using assms(1) unfolding signed_rows_def
    by (induction msgs sigs rule: list_induct2) simp_all
  have sel: "select_in ?bs (sig_tbl db) = ?rows"
  proof -
    have "select_in ?bs t = []"
      using not_in_keys [of _ _ t, OF _ assms(3)] unfolding select_in_def by (intro filter_False) auto
    moreover have "k \<in> set ?bs" if "(k, v) \<in> set ?rows" for k v
      using that keys by (metis fst_conv image_eqI list.set_map)
    then have "select_in ?bs ?rows = ?rows" unfolding select_in_def by (intro filter_True) auto
    ultimately show ?thesis by (simp add: select_in_def assms(4))
  qed
  have signed: "sr_c r \<noteq> None" if "(b, r) \<in> set ?rows" for b r
    using that by (auto simp: signed_rows_def signed_row_def)
  then have fil: "filter (\<lambda>(b, r). sr_c r \<noteq> None) ?rows = ?rows" by (intro filter_True) auto
  have read: "try_map (\<lambda>(b, r). case sr_c r of
           Some sig_c \<Rightarrow> and_then (row_to_blind_signature r sig_c) (\<lambda>s. Ok (b, s))
         | None \<Rightarrow> Err DbConversion) ?rows = Ok (zip ?bs sigs)"
    using assms(1,5,6) unfolding signed_rows_def
  proof (induction msgs sigs rule: list_induct2)
    case (Cons m msgs s sigs)
    then show ?case
      by (simp add: signed_row_def message_row_def row_to_blind_signature_def read_amount_def to_i64_def split: if_splits)
  qed simp
  have "take_each (zip ?bs sigs) ?bs = map Some sigs"
  proof -
    have "map_of (zip ?bs sigs) (?bs ! i) = Some (sigs ! i)" if "i < length sigs" for i
      using that assms(1,2) map_of_zip_nth [of ?bs sigs i] by simp
    then show ?thesis using assms(1,2) by (auto simp: take_each_distinct intro!: nth_equalityI)
  qed
  then show ?thesis 
    unfolding get_blind_signatures_def sel fil read by simp
qed

lemma add_blinded_messages_fit:
  assumes "add_blinded_messages now quote msgs oper db = Ok db'" "x \<in> set msgs"
  shows "to_i64 (bm_amount x) \<noteq> None"
  using assms unfolding add_blinded_messages_def
  by (induction msgs arbitrary: db) (auto simp: insert_blinded_message_def not_null_def ensure_def split: if_splits)

text \<open>
  C21: A wallet that lost the answer to a swap can have it again: after a swap, asking to restore its
  outputs returns all of them with the signatures the swap returned.
\<close>

theorem restore_after_swap:
  assumes "tables_ok db" "rt_faults rt = no_faults" "process_swap_request rt m i rs req db = (Ok sigs, db')"
  shows "restore (swap_outputs req) db' = Ok \<lparr>rr_outputs = swap_outputs req, rr_signatures = sigs, rr_promises = Some sigs\<rparr>"
proof -
  from process_swap_Ok [OF assms(3)] obtain v s db1 s2 where
    set: "setup_swap rt m (swap_saga_new i) (swap_inputs req) (swap_outputs req) None v db = (Ok s, db1)"
    and sg: "sign_outputs rt m rs s db1 = (Ok s2, db1)" and fin: "finalize rt s2 db1 = (Ok sigs, db')" .
  let ?out = "swap_outputs req"
  have tx: "setup_tx rt m (OpSwap i) (swap_inputs req) ?out None v db = Ok (setup_ys (swap_data s), db1)"
    using setup_swap_Ok(1) [OF set] by (simp add: swap_saga_new_def)
  note st = setup_tx_db [OF conjunct1 [OF assms(1)] tx]
  have eff: "length sigs = length ?out" "map bs_amount sigs = map bm_amount ?out"
    "db' = swap_effect (rt_now rt) (OpSwap i) (setup_ys (swap_data s)) req sigs db"
    using swap_after_setup [OF assms(2,1) set, of rs "Ok sigs" db'] sg fin by (simp_all add: then_do_def)
  have "signed_signatures (swap_data s2) = sigs"
    using fin by (auto simp: finalize_def or_compensate_def Let_def split: outcome.splits if_splits)
  then have "blind_sign (rt_externs rt) (mint_signatory m) rs ?out = Ok sigs"
    using sg setup_swap_Ok(2) [OF set] by (auto simp: sign_outputs_def split: outcome.splits)
  from blind_sign_keysets [OF this] eff(1) have "map bs_keyset_id sigs = map bm_keyset_id ?out" by simp
  moreover have "\<forall>s \<in> set sigs. to_i64 (bs_amount s) \<noteq> None"
  proof
    fix x assume "x \<in> set sigs"
    then obtain y where "y \<in> set ?out" "bs_amount x = bm_amount y"
      using eff(2) by (metis image_eqI image_iff list.set_map)
    then show "to_i64 (bs_amount x) \<noteq> None"
      using tx by (elim setup_tx_Ok) (simp add: add_blinded_messages_fit del: not_None_eq)
  qed
  ultimately have "get_blind_signatures (map blinded_secret ?out) db' = Ok (map Some sigs)"
    using get_signed_rows [of ?out sigs "sig_tbl db" db'] eff st(5,6) by (simp add: swap_effect_def)
  then show ?thesis using eff(1) found_all [of ?out sigs] by (simp add: restore_def)
qed

theorem restore_after_swap_witness:
  "restore [demo_message] demo_final_db
     = Ok \<lparr>rr_outputs = [demo_message], rr_signatures = [demo_signature], rr_promises = Some [demo_signature]\<rparr>"
  using restore_after_swap [OF _ _ demo_process] by (simp add: empty_db_def demo_rt_def demo_swap_request_def)

end
