(* ===== verification/ProofWriter.thy ===== *)
theory ProofWriter
  imports SwapProps
begin

text \<open>
  The proof writer of the melt handler (\<^verbatim>\<open>crates/cdk/src/mint/proof_writer.rs\<close>): it remembers the
  states proofs had before a melt changed them and puts them back, when it is rolled back or when it
  is dropped before it was committed. The order of a hash map is that of insertion here.
\<close>

section \<open>The writer\<close>

text \<open>\<open>pw_db\<close> tells whether the writer still holds the database.\<close>

record ProofWriter =
  pw_db :: bool
  pw_original_states :: "(PublicKey \<times> State option) list option"

definition proof_writer_new :: ProofWriter where
  "proof_writer_new = \<lparr>pw_db = True, pw_original_states = Some []\<rparr>"

definition writer_commit :: "ProofWriter \<Rightarrow> ProofWriter" where
  "writer_commit w = w\<lparr>pw_db := False, pw_original_states := None\<rparr>"

text \<open>A step of the handler: it changes the writer and the database it works on.\<close>

type_synonym 'a melt_step = "(ProofWriter \<times> MintDb, 'a) stateful"

definition on_tx :: "(MintDb \<Rightarrow> (Error, 'a \<times> MintDb) outcome) \<Rightarrow> 'a melt_step" where
  "on_tx f = (\<lambda>(w, db). case f db of
     Ok (a, db') \<Rightarrow> (Ok a, w, db') | Err x \<Rightarrow> (Err x, w, db) | Panic \<Rightarrow> (Panic, w, db))"

text \<open>A transaction keeps what the writer remembers also when it is rolled back.\<close>

definition in_tx :: "'a melt_step \<Rightarrow> 'a melt_step" where
  "in_tx f = (\<lambda>(w, db). case f (w, db) of
     (Ok a, w', db') \<Rightarrow> (Ok a, w', db') | (Err x, w', _) \<Rightarrow> (Err x, w', db) | (Panic, w', _) \<Rightarrow> (Panic, w', db))"

section \<open>Restoring states\<close>

definition with_state :: "(PublicKey \<times> State option) list \<Rightarrow> State \<Rightarrow> (State \<times> PublicKey list) list" where
  "with_state pairs s =
     (let yl = map fst (filter (\<lambda>(_, st). st = Some s) pairs) in if yl = [] then [] else [(s, yl)])"

definition set_group :: "MintDb \<Rightarrow> State \<times> PublicKey list \<Rightarrow> (Error, MintDb) outcome" where
  "set_group db = (\<lambda>(st, ys). and_then (map_err from_db (update_proofs_states ys st db)) (\<lambda>(_, db'). Ok db'))"

definition reset_proofs_to_original_state ::
  "PublicKey list \<Rightarrow> State option list \<Rightarrow> MintDb \<Rightarrow> (Error, MintDb) outcome" where
  "reset_proofs_to_original_state yl original_states db =
     (let pairs = zip yl original_states;
          ys_by_state = concat (map (with_state pairs) [Unspent, Pending, Reserved, PendingSpent]);
          unknown_proofs = map fst (filter (\<lambda>(_, st). st = None) pairs) in
      and_then (try_fold set_group db ys_by_state) (\<lambda>db1.
      if unknown_proofs \<noteq> [] then map_err from_db (remove_proofs unknown_proofs db1) else Ok db1))"

definition writer_rollback :: "ProofWriter \<Rightarrow> unit action" where
  "writer_rollback w db =
     (if \<not> pw_db w then (Ok (), db)
      else case pw_original_states w of
        None \<Rightarrow> (Ok (), db)
      | Some states \<Rightarrow> in_transaction (\<lambda>db.
          and_then (reset_proofs_to_original_state (map fst states) (map snd states) db) (\<lambda>db'. Ok ((), db'))) db)"

text \<open>What the task that the destructor spawns does when it runs; its result is discarded.\<close>

definition writer_drop :: "ProofWriter \<Rightarrow> MintDb \<Rightarrow> MintDb" where
  "writer_drop w db = snd (writer_rollback w db)"

section \<open>Changing states\<close>

definition hash_insert :: "'k \<Rightarrow> 'v \<Rightarrow> ('k \<times> 'v) list \<Rightarrow> ('k \<times> 'v) list" where
  "hash_insert k v t = (if k \<in> keys_of t then update_where (\<lambda>j _. j = k) (\<lambda>_. v) t else t @ [(k, v)])"

definition or_insert :: "'k \<Rightarrow> 'v \<Rightarrow> ('k \<times> 'v) list \<Rightarrow> ('k \<times> 'v) list" where
  "or_insert k v t = (if k \<in> keys_of t then t else t @ [(k, v)])"

definition writer_update_proofs_states :: "PublicKey list \<Rightarrow> State \<Rightarrow> unit melt_step" where
  "writer_update_proofs_states yl new_state = (\<lambda>(w, db).
     case pw_original_states w of
       None \<Rightarrow> (Err E_Internal, w, db)
     | Some states \<Rightarrow> (case map_err spent_error (update_proofs_states yl new_state db) of
         Ok (olds, db1) \<Rightarrow>
           if length yl \<noteq> length olds then (Err E_Internal, w, db1)
           else if \<exists>s \<in> (if new_state = Pending then {Pending, Spent} else {Spent}). Some s \<in> set olds
           then on_tx (\<lambda>db. and_then (reset_proofs_to_original_state yl olds db) (\<lambda>_.
                  Err (if Some Pending \<in> set olds then E_TokenPending else E_TokenAlreadySpent))) (w, db1)
           else (Ok (), w\<lparr>pw_original_states := Some (fold (\<lambda>(y, s). or_insert y s) (zip yl olds) states)\<rparr>, db1)
       | Err x \<Rightarrow> (Err x, w, db)
       | Panic \<Rightarrow> (Panic, w, db)))"

definition writer_add_error :: "db_error \<Rightarrow> Error" where
  "writer_add_error d = (case d of
     DbDuplicate \<Rightarrow> E_TokenPending | AttemptUpdateSpentProof \<Rightarrow> E_TokenAlreadySpent | _ \<Rightarrow> E_Database d)"

definition writer_add_proofs ::
  "externs \<Rightarrow> u64 \<Rightarrow> Proof list \<Rightarrow> QuoteId option \<Rightarrow> Operation \<Rightarrow> PublicKey list melt_step" where
  "writer_add_proofs e now proofs quote oper = (\<lambda>(w, db).
     case pw_original_states w of
       None \<Rightarrow> (Err E_Internal, w, db)
     | Some states \<Rightarrow> then_do
         (on_tx (\<lambda>db. and_then (map_err writer_add_error (add_proofs e now proofs quote oper db)) (\<lambda>db1.
            and_then (map_err (E_NUT00 \<circ> Nut00DHKE) (proof_ys e proofs)) (\<lambda>yl. Ok (yl, db1))))) (\<lambda>yl (w, db1).
          then_do (writer_update_proofs_states yl Pending) (\<lambda>_. pure (Ok yl))
            (w\<lparr>pw_original_states := Some (fold (\<lambda>y. hash_insert y None) yl states)\<rparr>, db1)) (w, db))"

section \<open>Steps\<close>

lemma on_tx_Ok [simp]: "on_tx f (w, db) = (Ok a, w', db') \<longleftrightarrow> w' = w \<and> f db = Ok (a, db')"
  by (auto simp: on_tx_def split: outcome.splits prod.splits)

lemma on_tx_writer: "on_tx f (w, db) = (r, w', db') \<Longrightarrow> w' = w"
  by (auto simp: on_tx_def split: outcome.splits prod.splits)

lemma in_tx_Ok [simp]: "in_tx f (w, db) = (Ok a, s) \<longleftrightarrow> f (w, db) = (Ok a, s)"
  by (auto simp: in_tx_def split: outcome.splits prod.splits)

lemma in_tx_not_Ok:
  assumes "in_tx f (w, db) = (r, w', db')" "\<not> is_ok r"
  shows "db' = db" "\<exists>d. f (w, db) = (r, w', d)"
  using assms by (auto simp: in_tx_def split: outcome.splits prod.splits)

lemma then_do_cases:
  assumes "then_do f g s = (r, s')"
  obtains (stop) r1 where "f s = (r1, s')" "\<not> is_ok r1" "\<not> is_ok r"
  | (go) a s1 where "f s = (Ok a, s1)" "g a s1 = (r, s')"
  using assms by (auto simp: then_do_def split: prod.splits outcome.splits)

text \<open>Steps that leave the writer as it is.\<close>

definition keeps_writer :: "'a melt_step \<Rightarrow> bool" where
  "keeps_writer f \<longleftrightarrow> (\<forall>s. fst (snd (f s)) = fst s)"

lemma keeps_writerD: "keeps_writer f \<Longrightarrow> f (w, db) = (r, w', db') \<Longrightarrow> w' = w"
  by (metis fst_conv keeps_writer_def snd_conv)

lemma keeps_writer_on_tx: "keeps_writer (on_tx f)"
  by (auto simp: keeps_writer_def on_tx_def split: outcome.splits prod.splits)

lemma keeps_writer_pure: "keeps_writer (pure r)"
  by (simp add: keeps_writer_def pure_def)

lemma keeps_writer_then_do:
  assumes "keeps_writer f" "\<And>a. keeps_writer (g a)"
  shows "keeps_writer (then_do f g)"
  unfolding keeps_writer_def
proof
  fix s
  obtain r s' where run: "then_do f g s = (r, s')" by (cases "then_do f g s")
  then have "fst s' = fst s"
  proof (cases rule: then_do_cases)
    case (stop r1)
    then show ?thesis using assms(1) by (metis keeps_writer_def snd_conv)
  next
    case (go a s1)
    then show ?thesis using assms by (metis keeps_writer_def snd_conv)
  qed
  with run show "fst (snd (then_do f g s)) = fst s" by simp
qed

lemmas keeps_writer_intros = keeps_writer_then_do keeps_writer_on_tx keeps_writer_pure

section \<open>What a writer remembers and undoes\<close>

lemma writer_commit_drop [simp]: "writer_drop (writer_commit w) db = db"
  by (simp add: writer_drop_def writer_rollback_def writer_commit_def)

lemma hash_insert_new: "k \<notin> keys_of t \<Longrightarrow> hash_insert k v t = t @ [(k, v)]"
  by (simp add: hash_insert_def)

lemma remember_all: "distinct yl \<Longrightarrow> set yl \<inter> keys_of t = {} \<Longrightarrow>
    fold (\<lambda>y. hash_insert y None) yl t = t @ map (\<lambda>y. (y, None)) yl"
proof (induction yl arbitrary: t)
  case (Cons y yl)
  then have "set yl \<inter> keys_of (t @ [(y, None)]) = {}" by auto
  with Cons show ?case by (simp add: hash_insert_new)
qed simp

lemma or_insert_known: "set (map fst ps) \<subseteq> keys_of t \<Longrightarrow> fold (\<lambda>(y, s). or_insert y s) ps t = t"
  by (induction ps) (auto simp: or_insert_def)

definition writer_for :: "PublicKey list \<Rightarrow> ProofWriter" where
  "writer_for yl = \<lparr>pw_db = True, pw_original_states = Some (map (\<lambda>y. (y, None)) yl)\<rparr>"

lemma writer_for_Nil: "writer_for [] = proof_writer_new"
  by (simp add: writer_for_def proof_writer_new_def)

lemma reset_added:
  "reset_proofs_to_original_state yl (map (\<lambda>_. None) yl) db = map_err from_db (remove_proofs yl db)"
proof -
  let ?pairs = "map (\<lambda>y. (y, None :: State option)) yl"
  have z: "zip yl (map (\<lambda>_. None) yl) = ?pairs" by (induction yl) simp_all
  have "filter (\<lambda>(_, st). st = Some s) ?pairs = []" for s by (auto simp: filter_empty_conv)
  then have w: "with_state ?pairs s = []" for s by (simp add: with_state_def)
  have "filter (\<lambda>(_, st). st = None) ?pairs = ?pairs" by (simp add: filter_id_conv)
  then show ?thesis
    using w by (simp add: reset_proofs_to_original_state_def z Let_def comp_def) (simp add: remove_proofs_def)
qed

lemma writer_drop_added:
  "writer_drop (writer_for yl) db = (case remove_proofs yl db of Ok db' \<Rightarrow> db' | _ \<Rightarrow> db)"
  by (simp add: writer_drop_def writer_rollback_def writer_for_def in_transaction_def comp_def reset_added
      split: outcome.splits)

lemma set_group_keys: "set_group db g = Ok db' \<Longrightarrow> map fst (proof_tbl db') = map fst (proof_tbl db)"
  by (cases g) (auto simp: set_group_def update_proofs_states_def Let_def)

lemma set_groups_keys: "try_fold set_group db groups = Ok db' \<Longrightarrow> map fst (proof_tbl db') = map fst (proof_tbl db)"
  by (rule try_fold_invariant [where I = "\<lambda>d. map fst (proof_tbl d) = map fst (proof_tbl db)"])
     (auto dest: set_group_keys)

text \<open>A writer that remembers a proof as new which the database does not have cannot change anything.\<close>

definition stale :: "ProofWriter \<Rightarrow> MintDb \<Rightarrow> bool" where
  "stale w db \<longleftrightarrow> (\<exists>states. pw_original_states w = Some states
     \<and> (states = [] \<or> (\<exists>y. (y, None) \<in> set states \<and> y \<notin> keys_of (proof_tbl db))))"

lemma reset_stale:
  assumes "keyed (proof_tbl db)" "(y, None) \<in> set states" "y \<notin> keys_of (proof_tbl db)"
  shows "reset_proofs_to_original_state (map fst states) (map snd states) db \<noteq> Ok db'"
proof
  let ?unknown = "map fst (filter (\<lambda>(_, st). st = None) states)"
  have y: "y \<in> set ?unknown" using assms(2) by force
  assume "reset_proofs_to_original_state (map fst states) (map snd states) db = Ok db'"
  then obtain db1 groups where
    "try_fold set_group db groups = Ok db1"
    and "(if ?unknown \<noteq> [] then map_err from_db (remove_proofs ?unknown db1) else Ok db1) = Ok db'"
    by (auto simp: reset_proofs_to_original_state_def zip_map_fst_snd Let_def simp del: not_Cons_self2)
  from set_groups_keys [OF this(1)] this(2) y have r: "remove_proofs ?unknown db1 = Ok db'"
    and k: "map fst (proof_tbl db1) = map fst (proof_tbl db)"
    by (auto simp del: set_map split: if_splits)
  from k assms have "keyed (proof_tbl db1)" "y \<notin> keys_of (proof_tbl db1)"
    by (auto simp: keys_of_def simp flip: set_map)
  with r y show False by (auto simp: remove_proofs_Ok_iff proof_state_def map_of_None_keys simp del: set_map)
qed

lemma stale_drop:
  assumes "keyed (proof_tbl db)" "stale w db"
  shows "writer_drop w db = db"
proof -
  from assms(2) obtain states where st: "pw_original_states w = Some states"
    "states = [] \<or> (\<exists>y. (y, None) \<in> set states \<and> y \<notin> keys_of (proof_tbl db))"
    by (auto simp: stale_def)
  from st(2) show ?thesis
  proof
    assume "states = []"
    then show ?thesis using st(1) by (simp add: writer_drop_def writer_rollback_def in_transaction_def
        reset_proofs_to_original_state_def with_state_def)
  next
    assume "\<exists>y. (y, None) \<in> set states \<and> y \<notin> keys_of (proof_tbl db)"
    with reset_stale [OF assms(1)] show ?thesis
      using st(1) by (auto simp: writer_drop_def writer_rollback_def in_transaction_def split: outcome.splits)
  qed
qed

definition remembers_new :: "ProofWriter \<Rightarrow> MintDb \<Rightarrow> bool" where
  "remembers_new w db \<longleftrightarrow>
     (\<exists>states y. pw_original_states w = Some states \<and> (y, None) \<in> set states \<and> y \<notin> keys_of (proof_tbl db))"

lemma remembers_new_stale: "remembers_new w db \<Longrightarrow> stale w db"
  by (auto simp: remembers_new_def stale_def)

lemma writer_for_remembers: "set yl \<inter> keys_of (proof_tbl db) = {} \<Longrightarrow> yl \<noteq> [] \<Longrightarrow> remembers_new (writer_for yl) db"
  by (cases yl) (auto simp: remembers_new_def writer_for_def)

lemma stale_new: "stale proof_writer_new db"
  by (simp add: stale_def proof_writer_new_def)

lemma or_insert_mono: "set t \<subseteq> set (fold (\<lambda>(y, s). or_insert y s) ps t)"
proof (induction ps arbitrary: t)
  case (Cons p ps)
  have "set t \<subseteq> set (or_insert (fst p) (snd p) t)" by (auto simp: or_insert_def)
  with Cons [of "or_insert (fst p) (snd p) t"] show ?case by (cases p) auto
qed simp

lemma writer_update_remembers:
  "writer_update_proofs_states yl st (w, d) = (r, w', d') \<Longrightarrow> remembers_new w db \<Longrightarrow> remembers_new w' db"
  using or_insert_mono
  by (fastforce simp: writer_update_proofs_states_def remembers_new_def dest: on_tx_writer
      split: option.splits outcome.splits if_splits prod.splits)

text \<open>Adding proofs with a new writer: they are pending, and the writer remembers that they were new.\<close>

lemma writer_update_known:
  assumes "pw_original_states w = Some states" "set yl \<subseteq> keys_of states"
    and "writer_update_proofs_states yl st (w, d) = (r, w', d')"
  shows "w' = w"
proof -
  have "fold (\<lambda>(y, s). or_insert y s) (zip yl olds) states = states" for olds
    using assms(2) set_zip_leftD by (intro or_insert_known) fastforce
  then show ?thesis
    using assms by (auto simp: writer_update_proofs_states_def dest: on_tx_writer
        split: outcome.splits if_splits prod.splits)
qed

lemma keys_of_remembered [simp]: "keys_of (map (\<lambda>y. (y, s)) yl) = set yl"
  by (force simp: keys_of_def)

lemma writer_add_proofs_writer:
  assumes "writer_add_proofs e now ps quote oper (proof_writer_new, db) = (r, w, db')"
  shows "w = proof_writer_new \<or> (\<exists>yl. proof_ys e ps = Ok yl \<and> set yl \<inter> keys_of (proof_tbl db) = {} \<and> w = writer_for yl)"
proof -
  let ?add = "on_tx (\<lambda>db. and_then (map_err writer_add_error (add_proofs e now ps quote oper db)) (\<lambda>db1.
            and_then (map_err (E_NUT00 \<circ> Nut00DHKE) (proof_ys e ps)) (\<lambda>yl. Ok (yl, db1))))"
  from assms have run: "then_do ?add (\<lambda>yl (w, db1). then_do (writer_update_proofs_states yl Pending) (\<lambda>_. pure (Ok yl))
       (w\<lparr>pw_original_states := Some (fold (\<lambda>y. hash_insert y None) yl [])\<rparr>, db1)) (proof_writer_new, db) = (r, w, db')"
    by (simp add: writer_add_proofs_def proof_writer_new_def)
  from run show ?thesis
  proof (cases rule: then_do_cases)
    case (stop r1)
    then show ?thesis using on_tx_writer by metis
  next
    case (go yl s1)
    obtain w1 db1 where s1: "s1 = (w1, db1)" by fastforce
    with go have ok: "w1 = proof_writer_new" "proof_ys e ps = Ok yl" "add_proofs e now ps quote oper db = Ok db1"
      by auto
    from add_proofs_Ok [OF ok(3)] ok(2) have d: "distinct yl" "set yl \<inter> keys_of (proof_tbl db) = {}"
      by (metis outcome.inject(1))+
    then have new: "proof_writer_new\<lparr>pw_original_states := Some (fold (\<lambda>y. hash_insert y None) yl [])\<rparr> = writer_for yl"
      by (simp add: remember_all writer_for_def proof_writer_new_def)
    from go s1 ok(1) new obtain r2 where "writer_update_proofs_states yl Pending (writer_for yl, db1) = (r2, w, db')"
      by (auto simp: pure_def elim!: then_do_cases)
    from writer_update_known [OF _ _ this] have "w = writer_for yl" by (simp add: writer_for_def)
    with ok(2) d(2) show ?thesis by blast
  qed
qed

lemma writer_add_proofs_Ok:
  assumes "keyed (proof_tbl db)" "writer_add_proofs e now ps quote oper (proof_writer_new, db) = (Ok yl, w, db')"
  shows "proof_ys e ps = Ok yl" "distinct yl" "set yl \<inter> keys_of (proof_tbl db) = {}" "w = writer_for yl"
    "db' = db\<lparr>proof_tbl := proof_tbl db @ input_rows Pending now quote oper yl ps\<rparr>"
proof -
  from assms(2) obtain db1 where a: "add_proofs e now ps quote oper db = Ok db1" and ys: "proof_ys e ps = Ok yl"
    and run: "writer_update_proofs_states yl Pending
      (proof_writer_new\<lparr>pw_original_states := Some (fold (\<lambda>y. hash_insert y None) yl [])\<rparr>, db1) = (Ok (), w, db')"
    by (auto simp: writer_add_proofs_def proof_writer_new_def elim!: then_do_Ok split: option.splits)
  from add_proofs_Ok [OF a] ys have d: "distinct yl" "set yl \<inter> keys_of (proof_tbl db) = {}"
    and db1: "db1 = db\<lparr>proof_tbl := proof_tbl db @ zip yl (map (proof_row now quote oper) ps)\<rparr>"
    by (metis outcome.inject(1))+
  have new: "proof_writer_new\<lparr>pw_original_states := Some (fold (\<lambda>y. hash_insert y None) yl [])\<rparr> = writer_for yl"
    using d by (simp add: remember_all writer_for_def proof_writer_new_def)
  with run have upd: "writer_update_proofs_states yl Pending (writer_for yl, db1) = (Ok (), w, db')"
    by simp
  show "proof_ys e ps = Ok yl" "distinct yl" "set yl \<inter> keys_of (proof_tbl db) = {}" by fact+
  show "w = writer_for yl" using writer_update_known [OF _ _ upd] by (simp add: writer_for_def)
  from mint.add_Ok [OF assms(1) a] have k: "keyed (proof_tbl db1)" by blast
  from upd obtain olds where "update_proofs_states yl Pending db1 = Ok (olds, db')"
    by (auto simp: writer_update_proofs_states_def writer_for_def split: outcome.splits if_splits)
  with k have "db' = set_states yl Pending db1" by (simp add: update_proofs_states_Ok_iff)
  moreover have "db1 = db\<lparr>proof_tbl := proof_tbl db @ input_rows Unspent now quote oper yl ps\<rparr>"
    using db1 by (simp add: input_rows_def proof_row_def [abs_def])
  ultimately show "db' = db\<lparr>proof_tbl := proof_tbl db @ input_rows Pending now quote oper yl ps\<rparr>"
    using set_states_added [OF proof_ys_length [OF ys] d(2)] by (simp add: set_states_def)
qed

end
