(* ===== verification/MintMelt.thy ===== *)
theory MintMelt
  imports ProofWriter MintIssue
begin

text \<open>
  Melting: the mint pays a Lightning request and takes proofs for it (\<^verbatim>\<open>crates/cdk/src/mint/melt.rs\<close>,
  the internal settlement of \<^verbatim>\<open>mint/mod.rs\<close> and the check of pending quotes of
  \<^verbatim>\<open>mint/start_up_check.rs\<close>). Invoices and offers are their texts; what the Lightning library reads
  from them is a parameter, the record \<open>lightning\<close>.
\<close>

section \<open>Requests and responses\<close>

text \<open>The amount of an offer; a currency code that is not UTF-8 is None.\<close>

datatype OfferAmount = OfferBitcoin u64 | OfferCurrency "string option" u64

record lightning =
  invoice_msats :: "string \<Rightarrow> u64 option"
  offer_valid :: "string \<Rightarrow> bool"
  offer_amount :: "string \<Rightarrow> OfferAmount option"
  invoice_hash :: "MeltPaymentRequest \<Rightarrow> string option"

record MeltQuoteBolt11Request =
  ml11_request :: string
  ml11_unit :: CurrencyUnit
  ml11_options :: "MeltOptions option"

record MeltQuoteBolt12Request =
  ml12_request :: string
  ml12_unit :: CurrencyUnit
  ml12_options :: "MeltOptions option"

datatype MeltQuoteRequest = MeltBolt11 MeltQuoteBolt11Request | MeltBolt12 MeltQuoteBolt12Request

record MeltQuoteBolt11Response =
  mlr_quote :: QuoteId
  mlr_amount :: Amount
  mlr_fee_reserve :: Amount
  mlr_paid :: "bool option"
  mlr_state :: MeltQuoteState
  mlr_expiry :: u64
  mlr_payment_preimage :: "string option"
  mlr_change :: "BlindSignature list option"
  mlr_request :: "string option"
  mlr_unit :: "CurrencyUnit option"

definition melt_quote_response :: "MeltQuote \<Rightarrow> MeltQuoteBolt11Response" where
  "melt_quote_response q = \<lparr>mlr_quote = mlq_id q, mlr_amount = mlq_amount q, mlr_fee_reserve = mlq_fee_reserve q,
     mlr_paid = Some (mlq_state q = MQ_Paid), mlr_state = mlq_state q, mlr_expiry = mlq_expiry q,
     mlr_payment_preimage = mlq_payment_preimage q, mlr_change = None,
     mlr_request = Some (payment_request_string (mlq_request q)), mlr_unit = Some (mlq_unit q)\<rparr>"

datatype MeltMethodOptions = MeltBolt11Options bool

record MeltMethodSettings =
  mts_method :: PaymentMethod
  mts_unit :: CurrencyUnit
  mts_min_amount :: "Amount option"
  mts_max_amount :: "Amount option"
  mts_options :: "MeltMethodOptions option"

record MeltSettings =
  melt_methods :: "MeltMethodSettings list"
  melt_disabled :: bool

definition melt_get_settings :: "MeltSettings \<Rightarrow> CurrencyUnit \<Rightarrow> PaymentMethod \<Rightarrow> MeltMethodSettings option" where
  "melt_get_settings info u meth = List.find (\<lambda>s. mts_method s = meth \<and> mts_unit s = u) (melt_methods info)"

record MppMethodSettings =
  mpp_method :: PaymentMethod
  mpp_unit :: CurrencyUnit

definition uppercase_char :: "char \<Rightarrow> char" where
  "uppercase_char c =
     (if 97 \<le> (of_char c :: nat) \<and> (of_char c :: nat) \<le> 122 then char_of ((of_char c :: nat) - 32) else c)"

definition unit_from_str :: "string \<Rightarrow> CurrencyUnit" where
  "unit_from_str s =
     (let upper_value = map uppercase_char s in
      if upper_value = ''SAT'' then Sat
      else if upper_value = ''MSAT'' then Msat
      else if upper_value = ''USD'' then Usd
      else if upper_value = ''EUR'' then Eur
      else if upper_value = ''AUTH'' then Auth
      else CustomUnit s)"

section \<open>Quotes\<close>

definition check_melt_request_acceptable ::
  "MeltSettings \<Rightarrow> MppMethodSettings list \<Rightarrow> Amount \<Rightarrow> CurrencyUnit \<Rightarrow> PaymentMethod \<Rightarrow> string \<Rightarrow> MeltOptions option
     \<Rightarrow> MintDb \<Rightarrow> (Error, unit) outcome" where
  "check_melt_request_acceptable nut05 nut15 a u meth request options db =
     and_then (ensure (\<not> melt_disabled nut05) E_MeltingDisabled) (\<lambda>_.
     and_then (ok_or (melt_get_settings nut05 u meth) E_UnsupportedUnit) (\<lambda>s.
     and_then (case options of
         Some (Mpp _) \<Rightarrow>
           if get_mint_quote_by_request request db \<noteq> None then Err E_InternalMultiPartMeltQuote
           else if \<not> (\<exists>x \<in> set nut15. mpp_method x = meth \<and> mpp_unit x = u) then Err (E_MppUnitMethodNotSupported u meth)
           else Ok ()
       | Some (Amountless _) \<Rightarrow>
           if meth = Bolt11 \<and> mts_options s \<noteq> Some (MeltBolt11Options True) then Err (E_AmountlessInvoiceNotSupported u meth)
           else Ok ()
       | None \<Rightarrow> Ok ()) (\<lambda>_.
     ensure (\<not> out_of_range (mts_min_amount s) (mts_max_amount s) a)
       (E_AmountOutofLimitRange (unwrap_or_zero (mts_min_amount s)) (unwrap_or_zero (mts_max_amount s)) a))))"

definition amount_for_offer :: "OfferAmount option \<Rightarrow> CurrencyUnit \<Rightarrow> (amount_error, Amount) outcome" where
  "amount_for_offer offered u = (case offered of
       None \<Rightarrow> Err AmountUndefined
     | Some (OfferBitcoin msats) \<Rightarrow> map_err (\<lambda>_. CannotConvertUnits) (to_unit msats Msat u)
     | Some (OfferCurrency None _) \<Rightarrow> Err Utf8ParseError
     | Some (OfferCurrency (Some code) a) \<Rightarrow> map_err (\<lambda>_. CannotConvertUnits) (to_unit a (unit_from_str code) u))"

text \<open>What both implementations do once they have the answer of the payment processor.\<close>

record melt_config =
  mc_nut05 :: MeltSettings
  mc_nut15 :: "MppMethodSettings list"
  mc_melt_ttl :: u64

definition store_melt_quote ::
  "bool \<Rightarrow> u64 \<Rightarrow> melt_config \<Rightarrow> QuoteId \<Rightarrow> PaymentQuoteResponse \<Rightarrow> CurrencyUnit \<Rightarrow> PaymentMethod \<Rightarrow> MeltPaymentRequest
     \<Rightarrow> MeltOptions option \<Rightarrow> MeltQuoteBolt11Response action" where
  "store_melt_quote oc now cfg q payment_quote u meth request options =
     then_do (pure (ensure (pqr_unit payment_quote = u) E_UnitMismatch)) (\<lambda>_.
     then_do (\<lambda>db. (check_melt_request_acceptable (mc_nut05 cfg) (mc_nut15 cfg) (pqr_amount payment_quote) u meth
         (payment_request_string request) options db, db)) (\<lambda>_.
     then_do (pure (add_unchecked oc now (mc_melt_ttl cfg))) (\<lambda>expiry.
     let quote = melt_quote_new q now request u (pqr_amount payment_quote) (pqr_fee payment_quote) expiry
           (pqr_request_lookup_id payment_quote) options meth in
     then_do (in_transaction (\<lambda>db. and_then (map_err from_db (add_melt_quote quote db)) (\<lambda>db'. Ok ((), db')))) (\<lambda>_.
     pure (Ok (melt_quote_response quote))))))"

definition get_melt_bolt11_quote_impl ::
  "bool \<Rightarrow> u64 \<Rightarrow> melt_config \<Rightarrow> processors \<Rightarrow> QuoteId \<Rightarrow> MeltQuoteBolt11Request \<Rightarrow> MeltQuoteBolt11Response action" where
  "get_melt_bolt11_quote_impl oc now cfg procs q req =
     then_do (pure (
       and_then (ok_or (procs (ml11_unit req) Bolt11) E_UnsupportedUnit) (\<lambda>ln.
       map_err (\<lambda>_. E_UnsupportedUnit) (get_payment_quote ln (ml11_unit req) (OutgoingBolt11
         \<lparr>out11_bolt11 = ml11_request req, out11_max_fee_amount = None, out11_timeout_secs = None,
          out11_melt_options = ml11_options req\<rparr>))))) (\<lambda>payment_quote.
     store_melt_quote oc now cfg q payment_quote (ml11_unit req) Bolt11 (PayBolt11 (ml11_request req)) (ml11_options req))"

definition get_melt_bolt12_quote_impl ::
  "bool \<Rightarrow> u64 \<Rightarrow> lightning \<Rightarrow> melt_config \<Rightarrow> processors \<Rightarrow> QuoteId \<Rightarrow> MeltQuoteBolt12Request \<Rightarrow> MeltQuoteBolt11Response action" where
  "get_melt_bolt12_quote_impl oc now lib cfg procs q req =
     then_do (pure (
       and_then (ensure (offer_valid lib (ml12_request req)) E_InvalidPaymentRequest) (\<lambda>_.
       and_then (case ml12_options req of
           Some (Amountless msats) \<Rightarrow> map_err E_AmountError (to_unit msats Msat (ml12_unit req))
         | Some (Mpp _) \<Rightarrow> Err E_UnsupportedUnit
         | None \<Rightarrow> map_err (\<lambda>_. E_UnsupportedUnit) (amount_for_offer (offer_amount lib (ml12_request req)) (ml12_unit req))) (\<lambda>_.
       and_then (ok_or (procs (ml12_unit req) Bolt12) E_UnsupportedUnit) (\<lambda>ln.
       map_err (\<lambda>_. E_UnsupportedUnit) (get_payment_quote ln (ml12_unit req) (OutgoingBolt12
         \<lparr>out12_offer = ml12_request req, out12_max_fee_amount = None, out12_timeout_secs = None,
          out12_melt_options = ml12_options req\<rparr>))))))) (\<lambda>payment_quote.
     store_melt_quote oc now cfg q payment_quote (ml12_unit req) Bolt12 (PayBolt12 (ml12_request req)) (ml12_options req))"

definition mint_get_melt_quote ::
  "bool \<Rightarrow> u64 \<Rightarrow> lightning \<Rightarrow> melt_config \<Rightarrow> processors \<Rightarrow> QuoteId \<Rightarrow> MeltQuoteRequest \<Rightarrow> MeltQuoteBolt11Response action" where
  "mint_get_melt_quote oc now lib cfg procs q req = (case req of
       MeltBolt11 r \<Rightarrow> get_melt_bolt11_quote_impl oc now cfg procs q r
     | MeltBolt12 r \<Rightarrow> get_melt_bolt12_quote_impl oc now lib cfg procs q r)"

definition check_melt_quote :: "lightning \<Rightarrow> QuoteId \<Rightarrow> MintDb \<Rightarrow> (Error, MeltQuoteBolt11Response) outcome" where
  "check_melt_quote lib q db =
     and_then (map_err from_db (get_melt_quote (invoice_hash lib) q db)) (\<lambda>found_quote.
     and_then (ok_or found_quote E_UnknownQuote) (\<lambda>quote.
     and_then (map_err from_db (get_blind_signatures_for_quote q db)) (\<lambda>sigs.
     Ok ((melt_quote_response quote)\<lparr>mlr_change := if sigs = [] then None else Some sigs\<rparr>))))"

section \<open>Checks\<close>

definition invoice_amount_msats :: "lightning \<Rightarrow> MeltQuote \<Rightarrow> (Error, Amount) outcome" where
  "invoice_amount_msats lib quote =
     (let undefined_amount = and_then (ok_or (mlq_options quote) E_InvoiceAmountUndefined) (\<lambda>x. Ok (amount_msat x)) in
      case mlq_request quote of
        PayBolt11 bolt11 \<Rightarrow> (case invoice_msats lib bolt11 of Some a \<Rightarrow> Ok a | None \<Rightarrow> undefined_amount)
      | PayBolt12 offer \<Rightarrow> (case offer_amount lib offer of
            Some (OfferBitcoin msats) \<Rightarrow> map_err (\<lambda>_. E_UnsupportedUnit) (to_unit msats Msat Msat)
          | Some (OfferCurrency None _) \<Rightarrow> Err E_Utf8ParseError
          | Some (OfferCurrency (Some code) a) \<Rightarrow> map_err (\<lambda>_. E_UnsupportedUnit) (to_unit a (unit_from_str code) Msat)
          | None \<Rightarrow> undefined_amount))"

definition check_melt_expected_ln_fees :: "lightning \<Rightarrow> MeltQuote \<Rightarrow> MeltRequest \<Rightarrow> (Error, Amount option) outcome" where
  "check_melt_expected_ln_fees lib quote req =
     and_then (expect (ok (to_unit (mlq_amount quote) (mlq_unit quote) Msat))) (\<lambda>quote_msats.
     and_then (invoice_amount_msats lib quote) (\<lambda>invoice.
     and_then (if quote_msats < invoice
         then and_then (map_err (\<lambda>_. E_UnsupportedUnit) (to_unit quote_msats Msat (mlq_unit quote))) (\<lambda>a. Ok (Some a))
         else Ok None) (\<lambda>partial.
     and_then (case partial of
         Some a \<Rightarrow> Ok a
       | None \<Rightarrow> map_err (\<lambda>_. E_UnsupportedUnit) (to_unit invoice Msat (mlq_unit quote))) (\<lambda>to_pay.
     and_then (map_err (\<lambda>_. E_AmountOverflow) (melt_inputs_amount req)) (\<lambda>inputs_amount.
     and_then (amount_add to_pay (mlq_fee_reserve quote)) (\<lambda>needed.
     if inputs_amount < needed
     then Err (E_TransactionUnbalanced inputs_amount to_pay (mlq_fee_reserve quote))
     else Ok partial))))))"

definition handle_internal_melt_mint ::
  "u64 \<Rightarrow> MeltQuote \<Rightarrow> MeltRequest \<Rightarrow> MintDb \<Rightarrow> (Error, Amount option \<times> MintDb) outcome" where
  "handle_internal_melt_mint now quote req db =
     (case get_mint_quote_by_request (payment_request_string (mlq_request quote)) db of
        None \<Rightarrow> Ok (None, db)
      | Some mint_quote \<Rightarrow>
          if mq_unit mint_quote \<noteq> mlq_unit quote then Ok (None, db)
          else if settled mint_quote then Err E_RequestAlreadyPaid
          else and_then (map_err (\<lambda>_. E_AmountOverflow) (melt_inputs_amount req)) (\<lambda>inputs_amount.
            and_then (case mq_amount mint_quote of
                Some a \<Rightarrow> ensure (\<not> inputs_amount < a) E_InsufficientFunds | None \<Rightarrow> Ok ()) (\<lambda>_.
            and_then (map_err from_db (increment_mint_quote_amount_paid now (mq_id mint_quote) (mlq_amount quote)
                (mlq_id quote) db)) (\<lambda>(_, db').
            Ok (Some (mlq_amount quote), db')))))"

section \<open>Verification of a melt request\<close>

text \<open>What a request needs besides its database: the parameters of the handler.\<close>

record melt_env =
  me_externs :: externs
  me_now :: u64
  me_overflow_checks :: bool
  me_lightning :: lightning
  me_processors :: processors
  me_mint :: Mint

definition check_quote_and_inputs ::
  "melt_env \<Rightarrow> Verification \<Rightarrow> MeltRequest \<Rightarrow> MeltQuoteState \<Rightarrow> MeltQuote \<Rightarrow> (Error, unit) outcome" where
  "check_quote_and_inputs env v req state quote =
     and_then (ensure (ver_unit v = Some (mlq_unit quote)) E_UnitMismatch) (\<lambda>_.
     and_then (case state of
         MQ_Unpaid \<Rightarrow> Ok () | MQ_Failed \<Rightarrow> Ok () | MQ_Pending \<Rightarrow> Err E_PendingQuote
       | MQ_Paid \<Rightarrow> Err E_PaidQuote | MQ_Unknown \<Rightarrow> Err E_UnknownPaymentState) (\<lambda>_.
     and_then (get_proofs_fee (me_overflow_checks env) (me_mint env) (melt_inputs req)) (\<lambda>input_fee.
     and_then (amount_add (mlq_amount quote) (mlq_fee_reserve quote)) (\<lambda>t.
     and_then (amount_add t input_fee) (\<lambda>required_total.
     and_then (if ver_amount v < required_total
         then and_then (amount_add input_fee (mlq_fee_reserve quote)) (\<lambda>f.
                Err (E_TransactionUnbalanced (ver_amount v) (mlq_amount quote) f))
         else Ok ()) (\<lambda>_.
     and_then (enforce_sig_flag (me_externs env) (melt_inputs req)) (\<lambda>flag.
     if esf_sig_flag flag = SigAll then map_err E_NUT11 (melt_verify_sig_all (me_externs env) req) else Ok ())))))))"

definition check_change_outputs :: "Mint \<Rightarrow> Verification \<Rightarrow> MeltRequest \<Rightarrow> MintDb \<Rightarrow> (Error, unit) outcome" where
  "check_change_outputs m v req db = (case melt_outputs req of
       Some (x # xs) \<Rightarrow> and_then (verify_outputs m (x # xs) db) (\<lambda>out.
         ensure (ver_unit v = ver_unit out) E_UnsupportedUnit)
     | _ \<Rightarrow> Ok ())"

text \<open>The checks that follow the reservation of the inputs.\<close>

definition verify_melt_quote :: "melt_env \<Rightarrow> Verification \<Rightarrow> MeltRequest \<Rightarrow> MeltQuote melt_step" where
  "verify_melt_quote env v req =
     then_do (on_tx (\<lambda>db. map_err from_db (update_melt_quote_state (invoice_hash (me_lightning env)) (me_now env)
         (melt_quote req) MQ_Pending None db))) (\<lambda>(state, quote).
     then_do (pure (check_quote_and_inputs env v req state quote)) (\<lambda>_.
     on_tx (\<lambda>db. and_then (check_change_outputs (me_mint env) v req db) (\<lambda>_. Ok (quote, db)))))"

definition verify_melt_request ::
  "melt_env \<Rightarrow> Verification \<Rightarrow> MeltRequest \<Rightarrow> Operation \<Rightarrow> MeltQuote melt_step" where
  "verify_melt_request env v req oper =
     then_do (writer_add_proofs (me_externs env) (me_now env) (melt_inputs req) (Some (melt_quote req)) oper) (\<lambda>_.
     verify_melt_quote env v req)"

section \<open>Taking the inputs\<close>

definition change_fee_and_amounts :: "Mint \<Rightarrow> BlindedMessage list \<Rightarrow> FeeAndAmounts" where
  "change_fee_and_amounts m outputs =
     (case filter (\<lambda>k. sks_active k \<and> Some (sks_id k) = (case outputs of x # _ \<Rightarrow> Some (bm_keyset_id x) | [] \<Rightarrow> None))
         (mint_keysets m) of
        k # _ \<Rightarrow> \<lparr>fee = sks_input_fee_ppk k, amounts = sks_amounts k\<rparr>
      | [] \<Rightarrow> \<lparr>fee = 0, amounts = map (\<lambda>x. 2 ^ x) [0..<32]\<rparr>)"

text \<open>The change: as much of it as the outputs can carry, the largest parts first when they are too few.\<close>

definition change_messages ::
  "Mint \<Rightarrow> MeltRequestInfo \<Rightarrow> Amount \<Rightarrow> (Error, BlindedMessage list) outcome" where
  "change_messages m info total_spent =
     (let outputs = mri_change_outputs info in
      and_then (amount_sub (mri_inputs_amount info) total_spent) (\<lambda>rest.
      and_then (amount_sub rest (mri_inputs_fee info)) (\<lambda>change_target.
      and_then (map_err E_AmountError (amount_split change_target (change_fee_and_amounts m outputs))) (\<lambda>parts.
      let parts' = (if length outputs < length parts then rev (sort parts) else parts) in
      Ok (map2 (\<lambda>a x. x\<lparr>bm_amount := a\<rparr>) parts' outputs)))))"

text \<open>The end of the first transaction of \<open>process_melt_request\<close>: with change to give it stops before signing, otherwise the melt is done.\<close>

definition plan_change ::
  "melt_env \<Rightarrow> MeltQuote \<Rightarrow> Amount \<Rightarrow> MeltRequestInfo \<Rightarrow> (BlindedMessage list \<times> BlindedMessage list) option melt_step" where
  "plan_change env quote total_spent info = (\<lambda>(w, db).
     if total_spent < mri_inputs_amount info \<and> mri_change_outputs info \<noteq> []
     then on_tx (\<lambda>db.
         and_then (map_err from_db (get_blind_signatures (map blinded_secret (mri_change_outputs info)) db)) (\<lambda>sigs.
         and_then (ensure (set sigs \<subseteq> {None}) E_BlindedMessageAlreadySigned) (\<lambda>_.
         and_then (change_messages (me_mint env) info total_spent) (\<lambda>msgs.
         Ok (Some (mri_change_outputs info, msgs), db))))) (w, db)
     else on_tx (\<lambda>db. and_then (map_err from_db (delete_melt_request (mlq_id quote) db)) (\<lambda>db'.
         Ok (None, db'))) (writer_commit w, db))"

definition take_inputs ::
  "melt_env \<Rightarrow> MeltQuote \<Rightarrow> string option \<Rightarrow> Amount \<Rightarrow> PublicKey list
     \<Rightarrow> (BlindedMessage list \<times> BlindedMessage list) option melt_step" where
  "take_inputs env quote payment_preimage total_spent input_ys =
     then_do (writer_update_proofs_states input_ys Spent) (\<lambda>_.
     then_do (on_tx (\<lambda>db. map_err from_db (update_melt_quote_state (invoice_hash (me_lightning env)) (me_now env)
         (mlq_id quote) MQ_Paid payment_preimage db))) (\<lambda>_.
     then_do (on_tx (\<lambda>db. and_then (map_err from_db (get_melt_request_and_blinded_messages (mlq_id quote) db)) (\<lambda>r.
         and_then (ok_or r E_UnknownQuote) (\<lambda>info. Ok (info, db))))) (\<lambda>info.
     plan_change env quote total_spent info)))"

text \<open>
  That transaction. It returns the outputs of the request and the messages to sign when there is
  change to give; otherwise it is the only one.
\<close>

definition process_melt_tx ::
  "melt_env \<Rightarrow> MeltQuote \<Rightarrow> string option \<Rightarrow> Amount \<Rightarrow> (BlindedMessage list \<times> BlindedMessage list) option melt_step" where
  "process_melt_tx env quote payment_preimage total_spent =
     then_do (on_tx (\<lambda>db. and_then (map_err from_db (get_proof_ys_by_quote_id (me_externs env) (mlq_id quote) db)) (\<lambda>ys.
         if ys = [] then Panic else Ok (ys, db)))) (\<lambda>input_ys.
     take_inputs env quote payment_preimage total_spent input_ys)"

definition sign_change ::
  "melt_env \<Rightarrow> SecretKey list \<Rightarrow> MeltQuote \<Rightarrow> (BlindedMessage list \<times> BlindedMessage list) option
     \<Rightarrow> BlindSignature list option melt_step" where
  "sign_change env rs quote change = (case change of
       None \<Rightarrow> pure (Ok None)
     | Some (outputs, msgs) \<Rightarrow>
         then_do (pure (blind_sign (me_externs env) (mint_signatory (me_mint env)) rs msgs)) (\<lambda>sigs.
         in_tx (then_do (on_tx (\<lambda>db.
             and_then (map_err from_db (add_blind_signatures (me_now env)
                 (map blinded_secret (take (length sigs) outputs)) sigs (Some (mlq_id quote)) db)) (\<lambda>db'. Ok ((), db')))) (\<lambda>_ (w, db).
           on_tx (\<lambda>db. and_then (map_err from_db (delete_melt_request (mlq_id quote) db)) (\<lambda>db'.
             Ok (Some sigs, db'))) (writer_commit w, db)))))"

definition melted_response :: "MeltQuote \<Rightarrow> string option \<Rightarrow> BlindSignature list option \<Rightarrow> MeltQuoteBolt11Response" where
  "melted_response quote payment_preimage change = \<lparr>mlr_quote = mlq_id quote, mlr_amount = mlq_amount quote,
     mlr_fee_reserve = mlq_fee_reserve quote, mlr_paid = Some True, mlr_state = MQ_Paid, mlr_expiry = mlq_expiry quote,
     mlr_payment_preimage = payment_preimage, mlr_change = change,
     mlr_request = Some (payment_request_string (mlq_request quote)), mlr_unit = Some (mlq_unit quote)\<rparr>"

definition finish_melt ::
  "melt_env \<Rightarrow> SecretKey list \<Rightarrow> MeltQuote \<Rightarrow> string option \<Rightarrow> (BlindedMessage list \<times> BlindedMessage list) option
     \<Rightarrow> MeltQuoteBolt11Response melt_step" where
  "finish_melt env rs quote payment_preimage change =
     then_do (sign_change env rs quote change) (\<lambda>sigs. pure (Ok (melted_response quote payment_preimage sigs)))"

section \<open>Paying\<close>

definition outgoing_options :: "MeltQuote \<Rightarrow> (payment_error, OutgoingPaymentOptions) outcome" where
  "outgoing_options quote = (case mlq_request quote of
       PayBolt11 bolt11 \<Rightarrow> Ok (OutgoingBolt11 \<lparr>out11_bolt11 = bolt11, out11_max_fee_amount = Some (mlq_fee_reserve quote),
         out11_timeout_secs = None, out11_melt_options = mlq_options quote\<rparr>)
     | PayBolt12 offer \<Rightarrow>
         and_then (case mlq_options quote of
             None \<Rightarrow> Ok None | Some (Mpp _) \<Rightarrow> Err PayUnsupportedUnit | Some x \<Rightarrow> Ok (Some x)) (\<lambda>options.
         Ok (OutgoingBolt12 \<lparr>out12_offer = offer, out12_max_fee_amount = Some (mlq_fee_reserve quote),
           out12_timeout_secs = None, out12_melt_options = options\<rparr>)))"

text \<open>
  Asking the backend about a payment whose outcome is in doubt. \<open>keep\<close> tells whether the inputs stay
  reserved when the backend cannot answer.
\<close>

definition check_doubtful_payment :: "backend \<Rightarrow> PaymentIdentifier \<Rightarrow> bool \<Rightarrow> MakePaymentResponse melt_step" where
  "check_doubtful_payment ln lookup_id keep = (\<lambda>(w, db).
     case check_outgoing_payment ln lookup_id of
       Ok r \<Rightarrow> if mpr_status r = MQ_Paid then (Err E_Internal, writer_commit w, db) else (Ok r, w, db)
     | Err _ \<Rightarrow> (Err E_Internal, if keep then writer_commit w else w, db)
     | Panic \<Rightarrow> (Panic, w, db))"

definition pay_melt_quote :: "backend \<Rightarrow> MeltQuote \<Rightarrow> MakePaymentResponse melt_step" where
  "pay_melt_quote ln quote = (case outgoing_options quote of
       Ok options \<Rightarrow> (case make_payment ln (mlq_unit quote) options of
           Ok pay \<Rightarrow>
             if mpr_status pay = MQ_Unknown \<or> mpr_status pay = MQ_Failed
             then check_doubtful_payment ln (mpr_payment_lookup_id pay) False
             else pure (Ok pay)
         | Err err \<Rightarrow>
             if err = InvoiceAlreadyPaid then pure (Err E_RequestAlreadyPaid)
             else (case mlq_request_lookup_id quote of
                 None \<Rightarrow> pure (Err E_Internal)
               | Some lookup_id \<Rightarrow> check_doubtful_payment ln lookup_id True)
         | Panic \<Rightarrow> pure Panic)
     | Err err \<Rightarrow> pure (Err (E_Payment err))
     | Panic \<Rightarrow> pure Panic)"

definition judge_payment :: "MakePaymentResponse \<Rightarrow> unit melt_step" where
  "judge_payment pre = (\<lambda>(w, db). case mpr_status pre of
       MQ_Paid \<Rightarrow> (Ok (), w, db)
     | MQ_Pending \<Rightarrow> (Err E_PendingQuote, writer_commit w, db)
     | _ \<Rightarrow> (case writer_rollback w db of
           (Ok _, db') \<Rightarrow> (Err E_PaymentFailed, writer_commit w, db')
         | (Err x, db') \<Rightarrow> (Err x, writer_commit w, db')
         | (Panic, db') \<Rightarrow> (Panic, writer_commit w, db')))"

definition keep_lookup_id :: "MeltQuote \<Rightarrow> PaymentIdentifier \<Rightarrow> MeltQuote melt_step" where
  "keep_lookup_id quote lookup_id =
     (if mlq_request_lookup_id quote \<noteq> Some lookup_id
      then on_tx (\<lambda>db. Ok (quote\<lparr>mlq_request_lookup_id := Some lookup_id\<rparr>,
        case update_melt_quote_request_lookup_id (mlq_id quote) lookup_id db of Ok db' \<Rightarrow> db' | _ \<Rightarrow> db))
      else pure (Ok quote))"

section \<open>The handler\<close>

datatype melt_stage =
    SettledInternally MeltQuote "(BlindedMessage list \<times> BlindedMessage list) option"
  | ToPay MeltQuote backend

text \<open>
  The first transaction of \<open>melt\<close>: the inputs and the quote become pending, and a request that this
  mint issued itself is settled in it.
\<close>

definition store_melt_request :: "melt_env \<Rightarrow> Operation \<Rightarrow> MeltRequest \<Rightarrow> unit melt_step" where
  "store_melt_request env oper req =
     then_do (pure (get_proofs_fee (me_overflow_checks env) (me_mint env) (melt_inputs req))) (\<lambda>inputs_fee.
     then_do (pure (map_err E_NUT05 (melt_inputs_amount req))) (\<lambda>inputs_amount.
     on_tx (\<lambda>db. and_then (map_err from_db (add_melt_request (melt_quote req) inputs_amount inputs_fee db)) (\<lambda>db1.
         and_then (map_err from_db (add_blinded_messages (me_now env) (Some (melt_quote req))
           (case melt_outputs req of Some outs \<Rightarrow> outs | None \<Rightarrow> []) oper db1)) (\<lambda>db2. Ok ((), db2))))))"

definition settle_or_route :: "melt_env \<Rightarrow> MeltRequest \<Rightarrow> MeltQuote \<Rightarrow> melt_stage melt_step" where
  "settle_or_route env req quote =
     then_do (on_tx (handle_internal_melt_mint (me_now env) quote req)) (\<lambda>settled_amount.
     case settled_amount of
       Some spent \<Rightarrow>
         then_do (process_melt_tx env quote None spent) (\<lambda>change. pure (Ok (SettledInternally quote change)))
     | None \<Rightarrow> pure (
         and_then (if mlq_unit quote = Sat \<or> mlq_unit quote = Msat
             then and_then (map_err (\<lambda>_. E_Internal) (check_melt_expected_ln_fees (me_lightning env) quote req)) (\<lambda>_. Ok ())
             else Ok ()) (\<lambda>_.
         and_then (ok_or (me_processors env (mlq_unit quote) (mlq_payment_method quote)) E_UnsupportedUnit) (\<lambda>ln.
         Ok (ToPay quote ln)))))"

definition melt_setup :: "melt_env \<Rightarrow> Verification \<Rightarrow> Operation \<Rightarrow> MeltRequest \<Rightarrow> melt_stage melt_step" where
  "melt_setup env v oper req = in_tx (
     then_do (verify_melt_request env v req oper) (\<lambda>quote.
     then_do (store_melt_request env oper req) (\<lambda>_.
     settle_or_route env req quote)))"

text \<open>The transaction that follows a payment, and what follows it.\<close>

definition melt_paid_tx ::
  "melt_env \<Rightarrow> MeltQuote \<Rightarrow> MakePaymentResponse \<Rightarrow> (MeltQuote \<times> (BlindedMessage list \<times> BlindedMessage list) option) melt_step" where
  "melt_paid_tx env quote pre =
     (let amount_spent = (case to_unit (mpr_total_spent pre) (mpr_unit pre) (mlq_unit quote) of Ok a \<Rightarrow> a | _ \<Rightarrow> 0) in
      in_tx (then_do (keep_lookup_id quote (mpr_payment_lookup_id pre)) (\<lambda>quote'.
        then_do (process_melt_tx env quote' (mpr_payment_proof pre) amount_spent) (\<lambda>change.
        pure (Ok (quote', change))))))"

definition melt_paid ::
  "melt_env \<Rightarrow> SecretKey list \<Rightarrow> MeltQuote \<Rightarrow> MakePaymentResponse \<Rightarrow> MeltQuoteBolt11Response melt_step" where
  "melt_paid env rs quote pre =
     then_do (melt_paid_tx env quote pre) (\<lambda>(quote', change).
     finish_melt env rs quote' (mpr_payment_proof pre) change)"

definition melt_steps ::
  "melt_env \<Rightarrow> Uuid \<Rightarrow> SecretKey list \<Rightarrow> MeltRequest \<Rightarrow> MeltQuoteBolt11Response melt_step" where
  "melt_steps env i rs req =
     then_do (pure (mint_verify_inputs (me_externs env) (me_now env) (me_mint env) (melt_inputs req))) (\<lambda>v.
     then_do (melt_setup env v (OpMelt i) req) (\<lambda>stage.
     case stage of
       SettledInternally quote change \<Rightarrow> finish_melt env rs quote None change
     | ToPay quote ln \<Rightarrow>
         then_do (pay_melt_quote ln quote) (\<lambda>pre.
         then_do (judge_payment pre) (\<lambda>_.
         melt_paid env rs quote pre))))"

text \<open>
  The handler leaves behind a writer; unless it was committed, its destructor spawns a task that
  rolls back the inputs when it gets to run.
\<close>

definition melt ::
  "melt_env \<Rightarrow> Uuid \<Rightarrow> SecretKey list \<Rightarrow> MeltRequest \<Rightarrow> MintDb
     \<Rightarrow> (Error, MeltQuoteBolt11Response) outcome \<times> ProofWriter \<times> MintDb" where
  "melt env i rs req db = melt_steps env i rs req (proof_writer_new, db)"

section \<open>Pending quotes at start\<close>

definition checked_state :: "MeltQuoteState \<Rightarrow> MeltQuoteState" where
  "checked_state s = (case s of MQ_Paid \<Rightarrow> MQ_Paid | MQ_Pending \<Rightarrow> MQ_Pending | _ \<Rightarrow> MQ_Unpaid)"

definition check_pending_melt_quote ::
  "melt_env \<Rightarrow> MintDb \<Rightarrow> MeltQuote \<Rightarrow> (Error, MintDb) outcome" where
  "check_pending_melt_quote env db quote =
     (case me_processors env (mlq_unit quote) Bolt11 of
        None \<Rightarrow> Ok db
      | Some ln \<Rightarrow> (case mlq_request_lookup_id quote of
            None \<Rightarrow> Ok db
          | Some lookup_id \<Rightarrow>
              and_then (map_err E_Payment (check_outgoing_payment ln lookup_id)) (\<lambda>r.
              case update_melt_quote_state (invoice_hash (me_lightning env)) (me_now env) (mlq_id quote)
                     (checked_state (mpr_status r)) (mpr_payment_proof r) db of
                Ok (_, db') \<Rightarrow> Ok db' | Err _ \<Rightarrow> Ok db | Panic \<Rightarrow> Panic)))"

definition check_pending_melt_quotes :: "melt_env \<Rightarrow> unit action" where
  "check_pending_melt_quotes env db =
     then_do (pure (map_err from_db (get_melt_quotes (invoice_hash (me_lightning env)) db))) (\<lambda>quotes.
     let pending_quotes = filter (\<lambda>q. mlq_state q = MQ_Pending \<or> mlq_state q = MQ_Unknown) quotes in
     if pending_quotes = [] then pure (Ok ())
     else in_transaction (\<lambda>db. and_then (try_fold (check_pending_melt_quote env) db pending_quotes) (\<lambda>db'.
            Ok ((), db')))) db"

end
