(* ===== verification/MeltProps.thy ===== *)
theory MeltProps
  imports MintMelt
begin

text \<open>
  What a melt does: a rejected request leaves nothing behind, a melt that succeeds has taken its
  inputs and gives back no more than what is left of them, and the cases in which the inputs are
  released although the payment was or may have been made.
\<close>

section \<open>Steps that do not forget\<close>

text \<open>What a step keeps of the writer, whether it succeeds or not, and what it keeps when it fails.\<close>

definition keeps :: "(ProofWriter \<Rightarrow> bool) \<Rightarrow> 'a melt_step \<Rightarrow> bool" where
  "keeps P f \<longleftrightarrow> (\<forall>w d r w' d'. f (w, d) = (r, w', d') \<longrightarrow> P w \<longrightarrow> P w')"

definition fails_keeping :: "(ProofWriter \<Rightarrow> bool) \<Rightarrow> 'a melt_step \<Rightarrow> bool" where
  "fails_keeping P f \<longleftrightarrow> (\<forall>w d r w' d'. f (w, d) = (r, w', d') \<longrightarrow> \<not> is_ok r \<longrightarrow> P w \<longrightarrow> P w')"

lemma keepsD: "keeps P f \<Longrightarrow> f (w, d) = (r, w', d') \<Longrightarrow> P w \<Longrightarrow> P w'"
  by (simp add: keeps_def) blast

lemma fails_keepingD: "fails_keeping P f \<Longrightarrow> f (w, d) = (r, w', d') \<Longrightarrow> \<not> is_ok r \<Longrightarrow> P w \<Longrightarrow> P w'"
  by (simp add: fails_keeping_def) blast

lemma keeps_on_tx: "keeps P (on_tx f)"
  using on_tx_writer by (fastforce simp: keeps_def)

lemma keeps_pure: "keeps P (pure r)"
  by (simp add: keeps_def pure_def)

lemma keeps_fails: "keeps P f \<Longrightarrow> fails_keeping P f"
  by (auto simp: keeps_def fails_keeping_def)

lemma fails_keeping_then_do:
  assumes "keeps P f" "\<And>a. fails_keeping P (g a)"
  shows "fails_keeping P (then_do f g)"
  unfolding fails_keeping_def
proof (intro allI impI)
  fix w d r w' d'
  assume run: "then_do f g (w, d) = (r, w', d')" and "\<not> is_ok r" "P w"
  from run show "P w'"
  proof (cases rule: then_do_cases)
    case (stop r1)
    then show ?thesis using keepsD [OF assms(1)] \<open>P w\<close> by blast
  next
    case (go a s1)
    obtain w1 d1 where "s1 = (w1, d1)" by fastforce
    with go keepsD [OF assms(1)] fails_keepingD [OF assms(2)] \<open>\<not> is_ok r\<close> \<open>P w\<close> show ?thesis by blast
  qed
qed

lemma keeps_then_do: "keeps P f \<Longrightarrow> (\<And>a. keeps P (g a)) \<Longrightarrow> keeps P (then_do f g)"
  unfolding keeps_def by (metis surj_pair then_do_cases)

lemmas keeping_intros = keeps_then_do fails_keeping_then_do keeps_on_tx keeps_pure
  keeps_on_tx [THEN keeps_fails] keeps_pure [THEN keeps_fails]

lemma keeps_new_update: "keeps (\<lambda>w. remembers_new w db) (writer_update_proofs_states yl st)"
  using writer_update_remembers by (fastforce simp: keeps_def)

lemma keeps_known_update: "keeps (\<lambda>w. w = writer_for yl) (writer_update_proofs_states yl st)"
  unfolding keeps_def
  using writer_update_known [of "writer_for yl" "map (\<lambda>y. (y, None)) yl" yl st] by (auto simp: writer_for_def)

lemma plan_change_keeps: "fails_keeping P (plan_change env quote spent info)"
  by (auto simp: fails_keeping_def plan_change_def delete_melt_request_def dest: on_tx_writer split: if_splits)
     (auto simp: on_tx_def)

lemma take_inputs_keeps: "keeps P (writer_update_proofs_states ys Spent) \<Longrightarrow> fails_keeping P (take_inputs env quote preimage spent ys)"
  unfolding take_inputs_def by (intro keeping_intros plan_change_keeps)

lemma process_melt_tx_keeps: "fails_keeping (\<lambda>w. remembers_new w db) (process_melt_tx env quote preimage spent)"
  unfolding process_melt_tx_def by (intro keeping_intros take_inputs_keeps keeps_new_update)

section \<open>A rejected request\<close>

lemma verify_melt_writer:
  assumes "keyed (proof_tbl db)" "verify_melt_request env v req oper (proof_writer_new, db) = (r, w, d)"
  shows "stale w db" "is_ok r \<Longrightarrow> melt_inputs req \<noteq> [] \<Longrightarrow> remembers_new w db"
proof -
  let ?add = "writer_add_proofs (me_externs env) (me_now env) (melt_inputs req) (Some (melt_quote req)) oper"
  have rest: "keeps_writer (verify_melt_quote env v req)"
    unfolding verify_melt_quote_def
    by (intro keeps_writer_intros) (auto split: prod.splits intro!: keeps_writer_intros)
  from assms(2) have "then_do ?add (\<lambda>_. verify_melt_quote env v req) (proof_writer_new, db) = (r, w, d)"
    by (simp add: verify_melt_request_def)
  then have "stale w db \<and> (is_ok r \<longrightarrow> melt_inputs req \<noteq> [] \<longrightarrow> remembers_new w db)"
  proof (cases rule: then_do_cases)
    case (stop r1)
    have "stale w db" using writer_add_proofs_writer [OF stop(1)] stale_new writer_for_Nil
      by (metis remembers_new_stale writer_for_remembers)
    with stop(3) show ?thesis by blast
  next
    case (go yl s1)
    obtain w1 d1 where s1: "s1 = (w1, d1)" by fastforce
    note add = writer_add_proofs_Ok [OF assms(1) go(1) [unfolded s1]]
    have "w = writer_for yl" using keeps_writerD [OF rest] go(2) s1 add(4) by blast
    moreover have "yl \<noteq> []" if "melt_inputs req \<noteq> []" using that proof_ys_length [OF add(1)] by auto
    ultimately show ?thesis
      using add(3) stale_new writer_for_Nil by (metis remembers_new_stale writer_for_remembers)
  qed
  then show "stale w db" "is_ok r \<Longrightarrow> melt_inputs req \<noteq> [] \<Longrightarrow> remembers_new w db" by blast+
qed

text \<open>
  C19: A melt request that is rejected, at whatever check, leaves the database as it was, and so does
  the rollback of its inputs that runs afterwards.
\<close>

theorem melt_rejected_no_effect:
  assumes "keyed (proof_tbl db)" "mint_verify_inputs (me_externs env) (me_now env) (me_mint env) (melt_inputs req) = Ok v"
    and "melt_setup env v oper req (proof_writer_new, db) = (r, w, db')" "\<not> is_ok r"
  shows "db' = db \<and> writer_drop w db' = db"
proof -
  have ne: "melt_inputs req \<noteq> []" using assms(2) verify_inputs_Ok(4) by blast
  have settle: "fails_keeping (\<lambda>w. remembers_new w db) (then_do (process_melt_tx env q None s) (\<lambda>c. pure (Ok (SettledInternally q c))))" for q s
    unfolding fails_keeping_def
    by (auto simp: pure_def elim!: then_do_cases dest: fails_keepingD [OF process_melt_tx_keeps])
  have store: "keeps (\<lambda>w. remembers_new w db) (store_melt_request env oper req)"
    unfolding store_melt_request_def by (intro keeping_intros)
  have "fails_keeping (\<lambda>w. remembers_new w db) (settle_or_route env req quote)" for quote
    unfolding settle_or_route_def by (intro keeping_intros) (auto simp: settle keeping_intros split: option.splits)
  then have rest: "fails_keeping (\<lambda>w. remembers_new w db) (then_do (store_melt_request env oper req) (\<lambda>_. settle_or_route env req quote))" for quote
    by (intro fails_keeping_then_do store)
  from in_tx_not_Ok [OF assms(3) [unfolded melt_setup_def] assms(4)] obtain d where db': "db' = db"
    and "then_do (verify_melt_request env v req oper) (\<lambda>quote.
      then_do (store_melt_request env oper req) (\<lambda>_. settle_or_route env req quote)) (proof_writer_new, db) = (r, w, d)" by blast
  from this(2) have "stale w db"
  proof (cases rule: then_do_cases)
    case (stop r1)
    then show ?thesis using verify_melt_writer(1) [OF assms(1)] by blast
  next
    case (go quote s1)
    obtain w1 d1 where s1: "s1 = (w1, d1)" by fastforce
    from verify_melt_writer(2) [OF assms(1) go(1) [unfolded s1]] ne have "remembers_new w1 db" by simp
    with fails_keepingD [OF rest] go(2) s1 assms(4) show ?thesis by (blast intro: remembers_new_stale)
  qed
  with db' show ?thesis using stale_drop [OF assms(1)] by simp
qed

section \<open>A melt that succeeds\<close>

definition quote_state :: "MintDb \<Rightarrow> QuoteId \<Rightarrow> MeltQuoteState option" where
  "quote_state db q = map_option ml_state (map_of (melt_quote_tbl db) q)"

text \<open>The proofs reserved for a quote are found again by it.\<close>

lemma reserved_ys:
  assumes "proof_tbl db = t @ input_rows st now (Some q) oper yl ps" "proof_ys e ps = Ok yl"
    and "get_proof_ys_by_quote_id e q db = Ok ys"
  shows "set yl \<subseteq> set ys"
proof -
  let ?rows = "input_rows st now (Some q) oper yl ps"
  have len: "length yl = length ps" using assms(2) by (rule proof_ys_length)
  have "filter (\<lambda>(_, r). pr_quote_id r = Some q) ?rows = ?rows"
    by (auto simp: filter_id_conv input_rows_def proof_row_def in_set_zip)
  moreover have "map (pr_proof \<circ> snd) ?rows = map (\<lambda>p. p\<lparr>dleq := None\<rparr>) ps"
    using len by (intro nth_equalityI) (simp_all add: input_rows_def proof_row_def)
  moreover have "proof_ys e (map (\<lambda>p. p\<lparr>dleq := None\<rparr>) ps) = Ok yl"
    using assms(2) by (simp add: proof_ys_def proof_y_def [abs_def] try_map_map)
  ultimately show ?thesis
    using assms(3) by (auto simp: get_proof_ys_by_quote_id_def assms(1) proof_ys_def try_map_append_Ok)
qed

lemma row_to_melt_quote_Ok:
  assumes "row_to_melt_quote h q r kind = Ok quote"
  shows "mlq_id quote = q" "mlq_amount quote = ml_amount r" "mlq_fee_reserve quote = ml_fee_reserve r"
  using assms by (auto simp: row_to_melt_quote_def Let_def)

lemma update_melt_quote_Ok:
  assumes "update_melt_quote_state h now q st proof db = Ok ((old, quote), db')"
  shows "quote_state db' q = Some st" "proof_tbl db' = proof_tbl db" "mlq_id quote = q"
    "quote_state db q = Some old"
    "\<exists>r. map_of (melt_quote_tbl db) q = Some r \<and> mlq_amount quote = ml_amount r \<and> mlq_fee_reserve quote = ml_fee_reserve r"
proof -
  from assms obtain r quote' db2 where r: "map_of (melt_quote_tbl db) q = Some r" "old = ml_state r"
    and row: "row_to_melt_quote h q r (ml_lookup_kind r) = Ok quote'" and quote: "quote = quote'\<lparr>mlq_state := st\<rparr>"
    and db2: "db2 = db\<lparr>melt_quote_tbl := update_where (\<lambda>j _. j = q)
                   (\<lambda>r. if st = MQ_Paid
                        then r\<lparr>ml_state := st, ml_paid_time := Some now, ml_payment_preimage := proof\<rparr>
                        else r\<lparr>ml_state := st\<rparr>) (melt_quote_tbl db)\<rparr>"
    and db': "(if st = MQ_Unpaid \<or> st = MQ_Failed then delete_melt_request q db2 else Ok db2) = Ok db'"
    unfolding update_melt_quote_state_def Let_def by (auto split: option.splits if_split_asm)
  have keep: "melt_quote_tbl db' = melt_quote_tbl db2" "proof_tbl db' = proof_tbl db2"
    using db' by (auto simp: delete_melt_request_def split: if_splits)
  show "quote_state db' q = Some st" using r by (simp add: quote_state_def keep db2 table_simps)
  show "proof_tbl db' = proof_tbl db" by (simp add: keep db2)
  show "quote_state db q = Some old" using r by (simp add: quote_state_def)
  show "mlq_id quote = q" "\<exists>r. map_of (melt_quote_tbl db) q = Some r \<and> mlq_amount quote = ml_amount r
      \<and> mlq_fee_reserve quote = ml_fee_reserve r"
    using r row_to_melt_quote_Ok [OF row] by (simp_all add: quote)
qed

lemma delete_melt_request_keeps:
  "delete_melt_request q db = Ok db' \<Longrightarrow> proof_tbl db' = proof_tbl db \<and> melt_quote_tbl db' = melt_quote_tbl db"
  by (auto simp: delete_melt_request_def)

lemma plan_change_Ok:
  "plan_change env quote spent info (w, db) = (Ok change, w', db') \<Longrightarrow> (case change of
        None \<Rightarrow> delete_melt_request (mlq_id quote) db = Ok db' \<and> w' = writer_commit w
      | Some (outs, msgs) \<Rightarrow> db' = db \<and> w' = w \<and> outs = mri_change_outputs info
          \<and> change_messages (me_mint env) info spent = Ok msgs)"
  by (auto simp: plan_change_def split: if_splits)

lemma process_melt_tx_Ok:
  assumes "process_melt_tx env quote preimage spent (w, db) = (Ok change, w', db')"
  obtains ys w1 db1 old q db2 info where "get_proof_ys_by_quote_id (me_externs env) (mlq_id quote) db = Ok ys"
    "writer_update_proofs_states ys Spent (w, db) = (Ok (), w1, db1)"
    "update_melt_quote_state (invoice_hash (me_lightning env)) (me_now env) (mlq_id quote) MQ_Paid preimage db1
       = Ok ((old, q), db2)"
    "get_melt_request_and_blinded_messages (mlq_id quote) db2 = Ok (Some info)"
    "plan_change env quote spent info (w1, db2) = (Ok change, w', db')"
  using assms unfolding process_melt_tx_def take_inputs_def by (auto elim!: then_do_Ok split: if_splits)

lemma writer_update_Ok:
  assumes "keyed (proof_tbl db)" "writer_update_proofs_states yl st (w, db) = (Ok (), w', db')"
  shows "db' = set_states yl st db" "set yl \<subseteq> keys_of (proof_tbl db)"
proof -
  from assms(2) obtain olds where "update_proofs_states yl st db = Ok (olds, db')"
    by (auto simp: writer_update_proofs_states_def split: option.splits outcome.splits if_splits)
  then show "db' = set_states yl st db" "set yl \<subseteq> keys_of (proof_tbl db)"
    using assms(1) by (auto simp: update_proofs_states_Ok_iff)
qed

lemma process_melt_tx_effect:
  assumes "keyed (proof_tbl db)" "proof_tbl db = t @ input_rows Pending now (Some (mlq_id quote)) oper yl ps"
    and "proof_ys (me_externs env) ps = Ok yl"
    and "process_melt_tx env quote preimage spent (w, db) = (Ok change, w', db')"
  shows "\<forall>y \<in> set yl. proof_state db' y = Some Spent" "quote_state db' (mlq_id quote) = Some MQ_Paid"
    "change = None \<Longrightarrow> \<forall>d. writer_drop w' d = d"
proof -
  from process_melt_tx_Ok [OF assms(4)] obtain ys w1 db1 old q db2 info where
    ys: "get_proof_ys_by_quote_id (me_externs env) (mlq_id quote) db = Ok ys"
    and u: "writer_update_proofs_states ys Spent (w, db) = (Ok (), w1, db1)"
    and q: "update_melt_quote_state (invoice_hash (me_lightning env)) (me_now env) (mlq_id quote) MQ_Paid preimage db1
       = Ok ((old, q), db2)"
    and plan: "plan_change env quote spent info (w1, db2) = (Ok change, w', db')" .
  note c = plan_change_Ok [OF plan]
  note db1 = writer_update_Ok [OF assms(1) u]
  have spent: "proof_state db1 y = Some Spent" if "y \<in> set yl" for y
    using that reserved_ys [OF assms(2,3) ys] db1 set_states_lookup by auto
  have "proof_tbl db' = proof_tbl db2 \<and> melt_quote_tbl db' = melt_quote_tbl db2"
    using c delete_melt_request_keeps by (auto split: option.splits)
  with update_melt_quote_Ok [OF q] spent show "\<forall>y \<in> set yl. proof_state db' y = Some Spent"
    "quote_state db' (mlq_id quote) = Some MQ_Paid"
    by (simp_all add: proof_state_def quote_state_def)
  show "change = None \<Longrightarrow> \<forall>d. writer_drop w' d = d" using c by simp
qed

lemma store_melt_request_Ok:
  assumes "store_melt_request env oper req (w, db) = (Ok (), w', db')"
  shows "w' = w" "proof_tbl db' = proof_tbl db" "melt_quote_tbl db' = melt_quote_tbl db"
    "\<exists>f a. get_proofs_fee (me_overflow_checks env) (me_mint env) (melt_inputs req) = Ok f \<and> melt_inputs_amount req = Ok a
       \<and> map_of (melt_request_tbl db') (melt_quote req) = Some \<lparr>mrr_inputs_amount = a, mrr_inputs_fee = f\<rparr>"
  using assms
  by (auto simp: store_melt_request_def add_melt_request_def table_simps map_add_def dest!: add_blinded_messages_Ok(3) elim!: then_do_Ok)

lemma handle_internal_keeps:
  assumes "handle_internal_melt_mint now quote req db = Ok (a, db')"
  shows "proof_tbl db' = proof_tbl db" "melt_quote_tbl db' = melt_quote_tbl db" "melt_request_tbl db' = melt_request_tbl db"
  using assms
  by (auto simp: handle_internal_melt_mint_def increment_mint_quote_amount_paid_def Let_def split: option.splits if_splits)

lemma melt_setup_Ok:
  assumes "keyed (proof_tbl db)" "melt_setup env v oper req (proof_writer_new, db) = (Ok stage, w, db')"
  obtains yl quote state db2 where "proof_ys (me_externs env) (melt_inputs req) = Ok yl" "distinct yl"
    "set yl \<inter> keys_of (proof_tbl db) = {}" "keyed (proof_tbl db2)"
    "proof_tbl db2 = proof_tbl db @ input_rows Pending (me_now env) (Some (melt_quote req)) oper yl (melt_inputs req)"
    "mlq_id quote = melt_quote req" "quote_state db (melt_quote req) = Some state"
    "\<exists>r. map_of (melt_quote_tbl db) (melt_quote req) = Some r \<and> mlq_amount quote = ml_amount r
       \<and> mlq_fee_reserve quote = ml_fee_reserve r"
    "check_quote_and_inputs env v req state quote = Ok ()"
    "settle_or_route env req quote (writer_for yl, db2) = (Ok stage, w, db')"
proof -
  from assms(2) obtain yl w1 db1 quote s w2 db2 where
    add: "writer_add_proofs (me_externs env) (me_now env) (melt_inputs req) (Some (melt_quote req)) oper
       (proof_writer_new, db) = (Ok yl, w1, db1)"
    and ver: "verify_melt_quote env v req (w1, db1) = (Ok quote, s)"
    and store: "store_melt_request env oper req s = (Ok (), w2, db2)"
    and settle: "settle_or_route env req quote (w2, db2) = (Ok stage, w, db')"
    by (auto simp: melt_setup_def verify_melt_request_def elim!: then_do_Ok)
  note a = writer_add_proofs_Ok [OF assms(1) add]
  obtain ws dbq where s: "s = (ws, dbq)" by fastforce
  from ver obtain state where ws: "ws = w1"
    and u: "update_melt_quote_state (invoice_hash (me_lightning env)) (me_now env) (melt_quote req) MQ_Pending None db1
       = Ok ((state, quote), dbq)"
    and chk: "check_quote_and_inputs env v req state quote = Ok ()"
    by (auto simp: verify_melt_quote_def s elim!: then_do_Ok)
  note u' = update_melt_quote_Ok [OF u] and st = store_melt_request_Ok [OF store [unfolded s]]
  have t: "proof_tbl db2 = proof_tbl db @ input_rows Pending (me_now env) (Some (melt_quote req)) oper yl (melt_inputs req)"
    using st(2) u'(2) a(5) by simp
  have "keyed (proof_tbl db2)"
    using assms(1) a(2,3) proof_ys_length [OF a(1)] unfolding t keys_of_def by (auto simp: input_rows_def)
  moreover have "w2 = writer_for yl" "quote_state db (melt_quote req) = Some state"
    "\<exists>r. map_of (melt_quote_tbl db) (melt_quote req) = Some r \<and> mlq_amount quote = ml_amount r
       \<and> mlq_fee_reserve quote = ml_fee_reserve r"
    using st(1) ws a(4,5) u'(4,5) by (simp_all add: quote_state_def)
  ultimately show thesis using that [OF a(1-3) _ t u'(3) _ _ chk] settle by blast
qed

lemma settle_or_route_Ok:
  assumes "settle_or_route env req quote (w, db) = (Ok stage, w', db')"
  shows "case stage of
      SettledInternally q change \<Rightarrow> q = quote \<and> (\<exists>db1. handle_internal_melt_mint (me_now env) quote req db = Ok (Some (mlq_amount quote), db1)
        \<and> process_melt_tx env quote None (mlq_amount quote) (w, db1) = (Ok change, w', db'))
    | ToPay q ln \<Rightarrow> q = quote \<and> w' = w \<and> handle_internal_melt_mint (me_now env) quote req db = Ok (None, db')"
proof -
  have amount: "a = mlq_amount quote" if "handle_internal_melt_mint now quote req db = Ok (Some a, db1)" for now a db1
    using that by (auto simp: handle_internal_melt_mint_def split: option.splits if_splits)
  show ?thesis
    using assms unfolding settle_or_route_def
    by (auto elim!: then_do_Ok split: option.splits) (metis amount)+
qed

lemma pay_melt_quote_Ok: "pay_melt_quote ln quote s = (Ok pre, s') \<Longrightarrow> s' = s"
  by (cases s) (auto simp: pay_melt_quote_def check_doubtful_payment_def split: outcome.splits if_splits option.splits)

lemma judge_payment_Ok: "judge_payment pre s = (Ok (), s') \<Longrightarrow> s' = s \<and> mpr_status pre = MQ_Paid"
  by (cases s) (auto simp: judge_payment_def split: outcome.splits prod.splits MeltQuoteState.splits)

lemma keep_lookup_id_Ok:
  assumes "keep_lookup_id quote l (w, db) = (Ok quote', w', db')"
  shows "w' = w" "mlq_id quote' = mlq_id quote" "proof_tbl db' = proof_tbl db"
  using assms by (auto simp: keep_lookup_id_def update_melt_quote_request_lookup_id_def split: if_splits)

lemma add_blind_signatures_keeps:
  "add_blind_signatures now msgs sigs quote db = Ok db'
     \<Longrightarrow> proof_tbl db' = proof_tbl db \<and> melt_quote_tbl db' = melt_quote_tbl db"
  by (auto simp: add_blind_signatures_def split: if_splits)

lemma finish_melt_Ok:
  assumes "finish_melt env rs quote preimage change (w, db) = (Ok resp, w', db')"
  shows "proof_tbl db' = proof_tbl db" "melt_quote_tbl db' = melt_quote_tbl db" "mlr_state resp = MQ_Paid"
    "change = None \<Longrightarrow> w' = w" "change \<noteq> None \<Longrightarrow> \<exists>w1. w' = writer_commit w1"
  using assms delete_melt_request_keeps add_blind_signatures_keeps
  by (auto simp: finish_melt_def sign_change_def melted_response_def elim!: then_do_Ok split: option.splits) metis+

lemma processed_and_finished:
  assumes "keyed (proof_tbl db)" "proof_tbl db = t @ input_rows Pending now (Some q) oper yl ps"
    and "proof_ys (me_externs env) ps = Ok yl" "mlq_id quote = q"
    and "process_melt_tx env quote preimage spent (w, db) = (Ok change, w1, db1)"
    and "finish_melt env rs quote preimage change (w1, db1) = (Ok resp, w', db')"
  shows "(\<forall>y \<in> set yl. proof_state db' y = Some Spent) \<and> quote_state db' q = Some MQ_Paid
      \<and> mlr_state resp = MQ_Paid \<and> (\<forall>d. writer_drop w' d = d)"
proof -
  note p = process_melt_tx_effect [OF assms(1) _ assms(3,5)] and f = finish_melt_Ok [OF assms(6)]
  have "proof_state db' = proof_state db1" "quote_state db' = quote_state db1"
    using f(1,2) by (simp_all add: proof_state_def [abs_def] quote_state_def [abs_def])
  moreover have "\<forall>d. writer_drop w' d = d"
    using p(3) f(4,5) assms(2,4) by (cases change) auto
  ultimately show ?thesis using p(1,2) f(3) assms(2,4) by simp
qed

text \<open>
  C5: A melt that succeeds has taken its inputs: they were new to the mint and are spent afterwards,
  they are worth at least the amount, the fee reserve and the input fee, the quote was unpaid and
  is paid, and no rollback is left that could release them.
\<close>

theorem melt_takes_inputs:
  assumes "keyed (proof_tbl db)" "melt env i rs req db = (Ok resp, w, db')"
  shows "\<exists>yl r f. proof_ys (me_externs env) (melt_inputs req) = Ok yl \<and> distinct yl \<and> yl \<noteq> []
    \<and> (\<forall>y \<in> set yl. proof_state db y = None \<and> proof_state db' y = Some Spent)
    \<and> map_of (melt_quote_tbl db) (melt_quote req) = Some r \<and> ml_state r \<in> {MQ_Unpaid, MQ_Failed}
    \<and> quote_state db' (melt_quote req) = Some MQ_Paid \<and> mlr_state resp = MQ_Paid
    \<and> get_proofs_fee (me_overflow_checks env) (me_mint env) (melt_inputs req) = Ok f
    \<and> unat (ml_amount r) + unat (ml_fee_reserve r) + unat f \<le> total (map amount (melt_inputs req))
    \<and> (\<forall>d. writer_drop w d = d)"
proof -
  from assms(2) obtain v stage w1 db1 where v: "mint_verify_inputs (me_externs env) (me_now env) (me_mint env) (melt_inputs req) = Ok v"
    and set: "melt_setup env v (OpMelt i) req (proof_writer_new, db) = (Ok stage, w1, db1)"
    and fin: "(case stage of
         SettledInternally quote change \<Rightarrow> finish_melt env rs quote None change
       | ToPay quote ln \<Rightarrow> then_do (pay_melt_quote ln quote) (\<lambda>pre.
           then_do (judge_payment pre) (\<lambda>_. melt_paid env rs quote pre))) (w1, db1) = (Ok resp, w, db')"
    by (auto simp: melt_def melt_steps_def elim!: then_do_Ok)
  from melt_setup_Ok [OF assms(1) set] obtain yl quote state db2 where
    y: "proof_ys (me_externs env) (melt_inputs req) = Ok yl" "distinct yl" "set yl \<inter> keys_of (proof_tbl db) = {}"
    and k: "keyed (proof_tbl db2)"
    and t: "proof_tbl db2 = proof_tbl db @ input_rows Pending (me_now env) (Some (melt_quote req)) (OpMelt i) yl (melt_inputs req)"
    and q: "mlq_id quote = melt_quote req" "quote_state db (melt_quote req) = Some state"
      "\<exists>r. map_of (melt_quote_tbl db) (melt_quote req) = Some r \<and> mlq_amount quote = ml_amount r
       \<and> mlq_fee_reserve quote = ml_fee_reserve r"
    and chk: "check_quote_and_inputs env v req state quote = Ok ()"
    and st: "settle_or_route env req quote (writer_for yl, db2) = (Ok stage, w1, db1)" .
  have took: "(\<forall>y \<in> set yl. proof_state db' y = Some Spent) \<and> quote_state db' (melt_quote req) = Some MQ_Paid
      \<and> mlr_state resp = MQ_Paid \<and> (\<forall>d. writer_drop w d = d)"
  proof (cases stage)
    case (SettledInternally quote' change)
    with settle_or_route_Ok [OF st] obtain db3 where "quote' = quote"
      and h: "handle_internal_melt_mint (me_now env) quote req db2 = Ok (Some (mlq_amount quote), db3)"
      and p: "process_melt_tx env quote None (mlq_amount quote) (writer_for yl, db3) = (Ok change, w1, db1)" by auto
    have f: "finish_melt env rs quote None change (w1, db1) = (Ok resp, w, db')" using fin SettledInternally \<open>quote' = quote\<close> by simp
    have t3: "proof_tbl db3 = proof_tbl db2" by (rule handle_internal_keeps(1) [OF h])
    show ?thesis
      by (rule processed_and_finished [OF _ _ y(1) q(1) p f]) (use t3 k t in simp_all)
  next
    case (ToPay quote' ln)
    with settle_or_route_Ok [OF st] have same: "quote' = quote" "w1 = writer_for yl"
      and h: "handle_internal_melt_mint (me_now env) quote req db2 = Ok (None, db1)" by auto
    from fin ToPay obtain pre s where pay: "pay_melt_quote ln quote (w1, db1) = (Ok pre, s)"
      and judge: "judge_payment pre s = (Ok (), w1, db1)" and paid: "melt_paid env rs quote pre (w1, db1) = (Ok resp, w, db')"
      using same pay_melt_quote_Ok judge_payment_Ok by (fastforce elim!: then_do_Ok)
    from paid obtain quote'' w2 db3 spent change w3 db4 where
      k2: "keep_lookup_id quote (mpr_payment_lookup_id pre) (w1, db1) = (Ok quote'', w2, db3)"
      and p: "process_melt_tx env quote'' (mpr_payment_proof pre) spent (w2, db3) = (Ok change, w3, db4)"
      and f: "finish_melt env rs quote'' (mpr_payment_proof pre) change (w3, db4) = (Ok resp, w, db')"
      by (auto simp: melt_paid_def melt_paid_tx_def Let_def elim!: then_do_Ok)
    note l = keep_lookup_id_Ok [OF k2]
    have t3: "proof_tbl db3 = proof_tbl db2" using l(3) handle_internal_keeps(1) [OF h] by simp
    show ?thesis
      by (rule processed_and_finished [OF _ _ y(1) _ p f]) (use t3 k t l(2) q(1) in simp_all)
  qed
  have ne: "yl \<noteq> []" using verify_inputs_Ok(4) [OF v] proof_ys_length [OF y(1)] by auto
  have new: "\<forall>y \<in> set yl. proof_state db y = None" using y(3) by (auto simp: proof_state_def map_of_None_keys)
  from chk obtain f where f: "get_proofs_fee (me_overflow_checks env) (me_mint env) (melt_inputs req) = Ok f"
    and funds: "unat (mlq_amount quote) + unat (mlq_fee_reserve quote) + unat f \<le> unat (ver_amount v)"
    and state: "state \<in> {MQ_Unpaid, MQ_Failed}"
    by (auto simp: check_quote_and_inputs_def amount_add_def checked_add_Some_iff not_less word_le_nat_alt split: if_splits MeltQuoteState.splits)
  from q(2,3) obtain r where r: "map_of (melt_quote_tbl db) (melt_quote req) = Some r" "mlq_amount quote = ml_amount r"
    "mlq_fee_reserve quote = ml_fee_reserve r" "ml_state r = state" by (auto simp: quote_state_def)
  show ?thesis using y ne new took r f funds state verify_inputs_Ok(2) [OF v] by auto
qed

section \<open>Change\<close>

text \<open>A split never exceeds the amount, whatever the denominations.\<close>

lemma split_fold_bound:
  "0 \<notin> set as \<Longrightarrow> foldl split_step (acc, s) as = (xs, s') \<Longrightarrow> total xs + unat s' \<le> total acc + unat s"
proof (induction as arbitrary: acc s)
  case (Cons a as)
  obtain acc1 s1 where step: "split_step (acc, s) a = (acc1, s1)" by fastforce
  have "total acc1 + unat s1 \<le> total acc + unat s"
  proof (cases "a \<le> s")
    case True
    then have "unat a \<le> unat s" by (simp add: word_le_nat_alt)
    moreover have "unat s mod unat a \<le> unat s - unat a"
      using calculation Cons.prems(1) by (metis add_diff_cancel_left' div_greater_zero_iff le_diff_iff le_mod_geq list.set_intros(1)
          mod_less_eq_dividend unat_eq_zero)
    ultimately show ?thesis using step Cons.prems(1) by (auto simp: split_step_def unat_mod split: if_splits)
  next
    case False
    then show ?thesis using step by (auto simp: split_step_def unat_mod split: if_splits)
  qed
  moreover have "total xs + unat s' \<le> total acc1 + unat s1" using Cons step by simp
  ultimately show ?case by simp
qed simp

lemma amount_split_bound: "amount_split s fa = Ok xs \<Longrightarrow> total xs \<le> unat s"
  using split_fold_bound [of "rev (amounts fa)" "[]" s "fst (foldl split_step ([], s) (rev (amounts fa)))"
      "snd (foldl split_step ([], s) (rev (amounts fa)))"]
  by (auto simp: amount_split_def split: if_splits)

lemma total_rev: "total (rev xs) = total xs"
  by (simp add: total_def flip: rev_map)

lemma total_take: "total (take n xs) \<le> total xs"
  unfolding total_def by (metis append_take_drop_id le_add1 map_append sum_list_append)

text \<open>
  C18: Change is what is left of the inputs and no more. The rest, the inputs less what was spent and
  less the input fee, is split into denominations; the messages to sign are the first outputs of the
  request, in order, one for each part, and with fewer outputs than parts for the largest ones. They
  are worth at most the rest, and exactly the rest when there are as many outputs as parts, the
  denominations are the first powers of two and the rest is below the next one.
\<close>

theorem melt_change_bounds:
  assumes "change_messages m info spent = Ok msgs" "outs = mri_change_outputs info"
    and "fa = change_fee_and_amounts m outs"
  shows "\<exists>rest parts. unat rest + unat spent + unat (mri_inputs_fee info) = unat (mri_inputs_amount info)
    \<and> amount_split rest fa = Ok parts
    \<and> map blinded_secret msgs = take (length parts) (map blinded_secret outs)
    \<and> map bm_amount msgs = take (length outs) (if length outs < length parts then rev (sort parts) else parts)
    \<and> total (map bm_amount msgs) \<le> unat rest
    \<and> (\<forall>n \<le> 64. amounts fa = pow2_amounts n \<and> unat rest < 2 ^ n \<and> length parts \<le> length outs
         \<longrightarrow> total (map bm_amount msgs) = unat rest)"
proof -
  from assms obtain rest0 rest parts where "checked_sub (mri_inputs_amount info) spent = Some rest0"
    "checked_sub rest0 (mri_inputs_fee info) = Some rest" and split: "amount_split rest fa = Ok parts"
    and msgs: "msgs = map2 (\<lambda>a x. x\<lparr>bm_amount := a\<rparr>) (if length outs < length parts then rev (sort parts) else parts) outs"
    by (auto simp: change_messages_def Let_def amount_sub_def)
  then have rest: "unat rest + unat spent + unat (mri_inputs_fee info) = unat (mri_inputs_amount info)"
    by (auto simp: checked_sub_Some_iff)
  define parts' where "parts' = (if length outs < length parts then rev (sort parts) else parts)"
  have len: "length parts' = length parts" and sum: "total parts' = total parts" by (simp_all add: parts'_def total_rev)
  have amounts: "map bm_amount msgs = take (length outs) parts'"
    unfolding msgs parts'_def [symmetric] by (intro nth_equalityI) simp_all
  have secrets: "map blinded_secret msgs = take (length parts) (map blinded_secret outs)"
    unfolding msgs parts'_def [symmetric] using len by (intro nth_equalityI) simp_all
  have "total (map bm_amount msgs) \<le> unat rest"
    using amounts sum total_take [of "length outs" parts'] amount_split_bound [OF split] by simp
  moreover have "total (map bm_amount msgs) = unat rest"
    if "n \<le> 64" "amounts fa = pow2_amounts n" "unat rest < 2 ^ n" "length parts \<le> length outs" for n
    using amount_split_total [OF that(1-3) split] amounts sum len that(4) by simp
  ultimately show ?thesis using rest split secrets amounts unfolding parts'_def by blast
qed

section \<open>Inputs released after paying\<close>

lemma drop_releases:
  assumes "keyed (proof_tbl db)" "proof_tbl db = t @ input_rows Pending now quote oper yl ps" "length yl = length ps"
    and "distinct yl" "set yl \<inter> keys_of t = {}"
  shows "writer_drop (writer_for yl) db = db\<lparr>proof_tbl := t\<rparr>"
  using remove_added_proofs [OF assms] by (simp add: writer_drop_added)

lemma melt_to_pay:
  assumes "keyed (proof_tbl db)" "melt_setup env v oper req (proof_writer_new, db) = (Ok (ToPay quote ln), w, db1)"
  obtains yl where "proof_ys (me_externs env) (melt_inputs req) = Ok yl" "w = writer_for yl" "keyed (proof_tbl db1)"
    "proof_tbl db1 = proof_tbl db @ input_rows Pending (me_now env) (Some (melt_quote req)) oper yl (melt_inputs req)"
    "mlq_id quote = melt_quote req" "\<And>d. proof_tbl d = proof_tbl db1 \<Longrightarrow> proof_tbl (writer_drop w d) = proof_tbl db"
    "\<forall>y \<in> set yl. proof_state db1 y = Some Pending"
proof -
  from melt_setup_Ok [OF assms] obtain yl quote' state db2 where
    y: "proof_ys (me_externs env) (melt_inputs req) = Ok yl" "distinct yl" "set yl \<inter> keys_of (proof_tbl db) = {}"
    and k: "keyed (proof_tbl db2)"
    and t: "proof_tbl db2 = proof_tbl db @ input_rows Pending (me_now env) (Some (melt_quote req)) oper yl (melt_inputs req)"
    and q: "mlq_id quote' = melt_quote req"
    and st: "settle_or_route env req quote' (writer_for yl, db2) = (Ok (ToPay quote ln), w, db1)" .
  from settle_or_route_Ok [OF st] have same: "quote' = quote" "w = writer_for yl"
    and h: "handle_internal_melt_mint (me_now env) quote' req db2 = Ok (None, db1)" by auto
  have t1: "proof_tbl db1 = proof_tbl db2" by (rule handle_internal_keeps(1) [OF h])
  have len: "length yl = length (melt_inputs req)" using y(1) by (rule proof_ys_length)
  have "proof_tbl (writer_drop w d) = proof_tbl db" if "proof_tbl d = proof_tbl db1" for d
  proof -
    have d: "proof_tbl d = proof_tbl db2" using that t1 by simp
    from drop_releases [OF k [folded d] t [folded d] len y(2,3)] show ?thesis by (simp add: same(2))
  qed
  moreover have "proof_state db1 y = Some Pending" if "y \<in> set yl" for y
    by (rule added_state [OF k [folded t1] t [folded t1] len that])
  ultimately show thesis using that [of yl] y(1) same k t t1 q by simp
qed

text \<open>
  When the backend reports a payment as unknown and cannot be asked about it, the handler fails
  without committing its writer. The inputs, pending until then, are removed when the writer is
  dropped and can be spent again, although the payment may have been or may still be made.
\<close>

theorem unknown_payment_releases_inputs:
  assumes "keyed (proof_tbl db)"
    and "mint_verify_inputs (me_externs env) (me_now env) (me_mint env) (melt_inputs req) = Ok v"
    and "melt_setup env v (OpMelt i) req (proof_writer_new, db) = (Ok (ToPay quote ln), w, db1)"
    and "outgoing_options quote = Ok options" "make_payment ln (mlq_unit quote) options = Ok pay"
    and "mpr_status pay = MQ_Unknown" "check_outgoing_payment ln (mpr_payment_lookup_id pay) = Err x"
  shows "\<exists>yl. proof_ys (me_externs env) (melt_inputs req) = Ok yl \<and> (\<forall>y \<in> set yl. proof_state db1 y = Some Pending)
    \<and> melt env i rs req db = (Err E_Internal, w, db1) \<and> proof_tbl (writer_drop w db1) = proof_tbl db"
proof -
  from melt_to_pay [OF assms(1,3)] obtain yl where "proof_ys (me_externs env) (melt_inputs req) = Ok yl"
    "\<forall>y \<in> set yl. proof_state db1 y = Some Pending" "proof_tbl (writer_drop w db1) = proof_tbl db" by metis
  moreover have "melt env i rs req db = (Err E_Internal, w, db1)"
    using assms(2-7) by (simp add: melt_def melt_steps_def then_do_def pure_def pay_melt_quote_def check_doubtful_payment_def)
  ultimately show ?thesis by blast
qed

text \<open>The proofs found by a quote are exactly those reserved for it, when no others name it.\<close>

definition quote_unused :: "QuoteId \<Rightarrow> MintDb \<Rightarrow> bool" where
  "quote_unused q db \<longleftrightarrow> (\<forall>(y, r) \<in> set (proof_tbl db). pr_quote_id r \<noteq> Some q)"

lemma reserved_ys_exact:
  assumes "proof_tbl db = t @ input_rows st now (Some q) oper yl ps" "proof_ys e ps = Ok yl"
    and "\<forall>(y, r) \<in> set t. pr_quote_id r \<noteq> Some q"
  shows "get_proof_ys_by_quote_id e q db = Ok yl"
proof -
  let ?rows = "input_rows st now (Some q) oper yl ps"
  have "filter (\<lambda>(_, r). pr_quote_id r = Some q) ?rows = ?rows"
    by (auto simp: filter_id_conv input_rows_def proof_row_def in_set_zip)
  moreover have "filter (\<lambda>(_, r). pr_quote_id r = Some q) t = []" using assms(3) by (auto simp: filter_empty_conv)
  moreover have "map (pr_proof \<circ> snd) ?rows = map (\<lambda>p. p\<lparr>dleq := None\<rparr>) ps"
    using proof_ys_length [OF assms(2)] by (intro nth_equalityI) (simp_all add: input_rows_def proof_row_def)
  ultimately show ?thesis
    using assms(2) by (simp add: get_proof_ys_by_quote_id_def assms(1) proof_ys_def proof_y_def [abs_def] try_map_map)
qed

lemma writer_add_again:
  assumes "keyed (proof_tbl db)" "writer_add_proofs e now ps quote oper (proof_writer_new, db) = (Ok yl, w, db')"
  shows "writer_add_proofs e now' ps quote' oper' (proof_writer_new, db)
    = (Ok yl, writer_for yl, db\<lparr>proof_tbl := proof_tbl db @ input_rows Pending now' quote' oper' yl ps\<rparr>)"
proof -
  note a = writer_add_proofs_Ok [OF assms]
  from assms(2) obtain d where "add_proofs e now ps quote oper db = Ok d"
    by (auto simp: writer_add_proofs_def proof_writer_new_def elim!: then_do_Ok)
  from add_proofs_Ok [OF this] have i64: "\<forall>p \<in> set ps. to_i64 (amount p) \<noteq> None" by blast
  let ?db1 = "db\<lparr>proof_tbl := proof_tbl db @ input_rows Unspent now' quote' oper' yl ps\<rparr>"
  have add: "add_proofs e now' ps quote' oper' db = Ok ?db1"
    using add_proofs_run [OF a(1-3) i64, of now' quote' oper'] by (simp add: input_rows_def proof_row_def [abs_def])
  have k: "keyed (proof_tbl ?db1)" using mint.add_Ok [OF assms(1) add] by blast
  have len: "length yl = length ps" using a(1) by (rule proof_ys_length)
  have st: "proof_state ?db1 y = Some Unspent" if "y \<in> set yl" for y
    by (rule added_state [OF k _ len that]) simp
  have olds: "map (proof_state ?db1) yl = map (\<lambda>_. Some Unspent) yl" using st by simp
  have upd: "update_proofs_states yl Pending ?db1 = Ok (map (\<lambda>_. Some Unspent) yl, set_states yl Pending ?db1)"
    unfolding update_proofs_states_Ok_iff [OF k]
    using a(2) st len by (auto simp: olds check_state_transition_def)
  have known: "fold (\<lambda>(y, s). or_insert y s) (zip yl (map (\<lambda>_. Some Unspent) yl)) (map (\<lambda>y. (y, None)) yl)
      = map (\<lambda>y. (y, None)) yl"
    by (rule or_insert_known) (auto dest: set_zip_leftD)
  have "set_states yl Pending ?db1 = db\<lparr>proof_tbl := proof_tbl db @ input_rows Pending now' quote' oper' yl ps\<rparr>"
    by (simp add: set_states_def set_states_added [OF len a(3)])
  then show ?thesis
    using add upd known a(1-3)
    by (simp add: writer_add_proofs_def proof_writer_new_def then_do_def on_tx_def writer_update_proofs_states_def remember_all
        pure_def writer_for_def image_constant_conv)
qed

text \<open>
  The rollback that a rejected request spawns may run late. A request that names an unknown quote
  is rejected after its writer took note of the inputs; when a second request with the same inputs
  is being paid by then, the late rollback removes the inputs the second one reserved. They can be
  spent again, and the second request panics after its payment.
\<close>

theorem late_rollback_releases_inputs:
  assumes "keyed (proof_tbl db)"
    and "mint_verify_inputs (me_externs env) (me_now env) (me_mint env) (melt_inputs req) = Ok v"
    and "melt_setup env v (OpMelt i) req (proof_writer_new, db) = (Ok (ToPay quote ln), w, db1)"
    and "quote_unused (melt_quote req) db" "melt_inputs bad = melt_inputs req" "map_of (melt_quote_tbl db) (melt_quote bad) = None"
  shows "\<exists>late. melt env j rs bad db = (Err (from_db QuoteNotFound), late, db)
    \<and> proof_tbl (writer_drop late db1) = proof_tbl db
    \<and> fst (process_melt_tx env quote preimage spent (w, writer_drop late db1)) = Panic"
proof -
  from melt_to_pay [OF assms(1,3)] obtain yl where y: "proof_ys (me_externs env) (melt_inputs req) = Ok yl"
    and w: "w = writer_for yl" and q: "mlq_id quote = melt_quote req"
    and free: "\<And>d. proof_tbl d = proof_tbl db1 \<Longrightarrow> proof_tbl (writer_drop w d) = proof_tbl db" by metis
  from assms(3) obtain yl' w' d' where "writer_add_proofs (me_externs env) (me_now env) (melt_inputs req)
      (Some (melt_quote req)) (OpMelt i) (proof_writer_new, db) = (Ok yl', w', d')"
    by (auto simp: melt_setup_def verify_melt_request_def elim!: then_do_Ok)
  moreover from writer_add_proofs_Ok(1) [OF assms(1) this] y have "yl' = yl" by simp
  ultimately have again: "writer_add_proofs (me_externs env) (me_now env) (melt_inputs bad) (Some (melt_quote bad)) (OpMelt j)
      (proof_writer_new, db) = (Ok yl, writer_for yl, db\<lparr>proof_tbl := proof_tbl db
        @ input_rows Pending (me_now env) (Some (melt_quote bad)) (OpMelt j) yl (melt_inputs req)\<rparr>)"
    using writer_add_again [OF assms(1)] assms(5) by simp
  have "melt_setup env v (OpMelt j) bad (proof_writer_new, db) = (Err (from_db QuoteNotFound), writer_for yl, db)"
    using again assms(6)
    by (simp add: melt_setup_def in_tx_def verify_melt_request_def verify_melt_quote_def then_do_def on_tx_def
        update_melt_quote_state_def)
  then have "melt env j rs bad db = (Err (from_db QuoteNotFound), w, db)"
    using assms(2,5) by (simp add: melt_def melt_steps_def then_do_def pure_def w)
  moreover have "proof_tbl (writer_drop w db1) = proof_tbl db" by (rule free) simp
  moreover have "fst (process_melt_tx env quote preimage spent (w, writer_drop w db1)) = Panic"
  proof -
    have "get_proof_ys_by_quote_id (me_externs env) (mlq_id quote) (writer_drop w db1) = Ok []"
      using assms(4) by (simp add: get_proof_ys_by_quote_id_def calculation(2) q quote_unused_def proof_ys_def
          filter_empty_conv case_prod_unfold)
    then show ?thesis by (simp add: process_melt_tx_def then_do_def on_tx_def)
  qed
  ultimately show ?thesis by blast
qed

lemma failed_process_writer:
  assumes "process_melt_tx env quote preimage spent (writer_for yl, db) = (r, w', db')" "\<not> is_ok r"
    and "get_proof_ys_by_quote_id (me_externs env) (mlq_id quote) db = Ok yl"
  shows "w' = writer_for yl"
  using assms(1) [unfolded process_melt_tx_def]
proof (cases rule: then_do_cases)
  case (stop r1)
  then show ?thesis using on_tx_writer by blast
next
  case (go ys s1)
  obtain w1 d1 where s1: "s1 = (w1, d1)" by fastforce
  with go(1) assms(3) have "w1 = writer_for yl" "ys = yl" by (auto split: if_splits)
  with fails_keepingD [OF take_inputs_keeps [OF keeps_known_update]] go(2) s1 assms(2) show ?thesis by blast
qed

text \<open>
  C36: A payment that was made and then fails to be processed costs the mint its amount. When no other
  proofs are kept for the quote, whatever the failure of the transaction after the payment, the writer still holds the inputs and its rollback
  removes them from the database as if they had never been taken.
\<close>

theorem failed_processing_releases_inputs:
  assumes "keyed (proof_tbl db)"
    and "mint_verify_inputs (me_externs env) (me_now env) (me_mint env) (melt_inputs req) = Ok v"
    and "melt_setup env v (OpMelt i) req (proof_writer_new, db) = (Ok (ToPay quote ln), w, db1)"
    and "quote_unused (melt_quote req) db" "pay_melt_quote ln quote (w, db1) = (Ok pre, w, db1)" "mpr_status pre = MQ_Paid"
    and "melt_paid_tx env quote pre (w, db1) = (r, w', db')" "\<not> is_ok r"
  shows "\<exists>r'. melt env i rs req db = (r', w', db1) \<and> \<not> is_ok r' \<and> proof_tbl (writer_drop w' db1) = proof_tbl db"
proof -
  from melt_to_pay [OF assms(1,3)] obtain yl where y: "proof_ys (me_externs env) (melt_inputs req) = Ok yl"
    and w: "w = writer_for yl" and q: "mlq_id quote = melt_quote req"
    and t: "proof_tbl db1 = proof_tbl db @ input_rows Pending (me_now env) (Some (melt_quote req)) (OpMelt i) yl (melt_inputs req)"
    and free: "\<And>d. proof_tbl d = proof_tbl db1 \<Longrightarrow> proof_tbl (writer_drop w d) = proof_tbl db" by metis
  define spent where "spent = (case to_unit (mpr_total_spent pre) (mpr_unit pre) (mlq_unit quote) of Ok a \<Rightarrow> a | _ \<Rightarrow> 0)"
  from in_tx_not_Ok [OF assms(7) [unfolded melt_paid_tx_def Let_def] assms(8)] obtain d where db': "db' = db1"
    and "then_do (keep_lookup_id quote (mpr_payment_lookup_id pre)) (\<lambda>quote'.
        then_do (process_melt_tx env quote' (mpr_payment_proof pre) spent) (\<lambda>change.
        pure (Ok (quote', change)))) (w, db1) = (r, w', d)" by (auto simp: spent_def)
  from this(2) have "w' = w"
  proof (cases rule: then_do_cases)
    case (stop r1)
    then show ?thesis using on_tx_writer by (auto simp: keep_lookup_id_def pure_def split: if_splits)
  next
    case (go quote' s1)
    obtain w1 d1 where s1: "s1 = (w1, d1)" by fastforce
    note l = keep_lookup_id_Ok [OF go(1) [unfolded s1]]
    have ys: "get_proof_ys_by_quote_id (me_externs env) (mlq_id quote') d1 = Ok yl"
      using reserved_ys_exact [OF _ y] assms(4) l(2,3) t q by (simp add: quote_unused_def)
    from go(2) s1 assms(8) obtain r2 where "process_melt_tx env quote' (mpr_payment_proof pre) spent (w1, d1) = (r2, w', d)"
      "\<not> is_ok r2" by (auto simp: pure_def elim!: then_do_cases)
    with failed_process_writer [OF _ _ ys] l(1) w show ?thesis by simp
  qed
  moreover have "\<exists>r'. melt env i rs req db = (r', w', db1) \<and> \<not> is_ok r'"
    using assms(2,3,5,6,7,8) db'
    by (cases r) (simp_all add: melt_def melt_steps_def then_do_def pure_def judge_payment_def melt_paid_def)
  ultimately show ?thesis using free [of db1] by auto
qed

section \<open>An example\<close>

text \<open>
  A mint that takes a fee of two for each input, with a quote of four and a reserve of one, and a
  request to melt a proof of eight with one output for change.
\<close>

definition melt_mint :: Mint where
  "melt_mint = \<lparr>mint_signatory = demo_signer,
     mint_keysets = map (\<lambda>k. k\<lparr>sks_input_fee_ppk := 2000\<rparr>) (signatory_keysets demo_signer)\<rparr>"

lemma melt_info_lookup:
  "mint_keyset_info melt_mint i = (if i = example_id then Some \<lparr>mki_id = example_id, mki_unit = Sat,
     mki_active = True, mki_valid_from = 0, mki_derivation_path = [], mki_derivation_path_index = None,
     mki_max_order = 0, mki_amounts = [8], mki_input_fee_ppk = 2000, mki_final_expiry = None\<rparr> else None)"
  by (simp add: mint_keyset_info_def melt_mint_def signatory_keysets_def demo_signer_def
      signatory_keyset_def demo_sign_info_def demo_sign_keyset_def info_of_signatory_def)

lemma melt_fee: "get_proofs_fee True melt_mint [toy_proof s] = Ok 2"
  by (simp add: get_proofs_fee_def fee_step_of_def toy_proof_def melt_info_lookup calculate_fee_def
      fee_step_def mul_unchecked_def checked_mul_def checked_add_def)

lemma melt_verified: "mint_verify_inputs toy_externs 0 melt_mint [toy_proof ''x''] = Ok \<lparr>ver_amount = 8, ver_unit = Some Sat\<rparr>"
proof -
  have v: "verify_one toy_externs demo_signer (toy_proof ''x'') = Ok ()"
    by (simp add: verify_one_def demo_signer_def toy_proof_def demo_sign_keyset_def verify_message_def
        hash_to_curve_def hash_to_curve_from.simps toy_defs)
  have n: "nut10_try_from toy_externs t = Err SerdeError" for t
    by (simp add: nut10_try_from_def toy_externs_def)
  have sum: "try_sum [8] = Ok 8" by (simp add: try_sum_def checked_add_def)
  show ?thesis
    using v n sum
    by (simp add: mint_verify_inputs_def check_inputs_unique_def proof_ys_def demo_y verify_inputs_keyset_def
        melt_info_lookup one_unit_def total_amount_def verify_proofs_def check_conditions_def
        signatory_verify_proofs_def) (simp add: toy_proof_def melt_mint_def)
qed

definition melt_row :: "MeltQuoteState \<Rightarrow> MeltQuoteRow" where
  "melt_row st = \<lparr>ml_unit = Sat, ml_amount = 4, ml_request = PayBolt11 ''i'', ml_fee_reserve = 1, ml_state = st, ml_expiry = 0,
     ml_payment_preimage = None, ml_lookup_id = Some ''l'', ml_lookup_kind = Some ''label'', ml_created_time = 0,
     ml_paid_time = None, ml_payment_method = Bolt11, ml_options = None\<rparr>"

definition melt_db :: MintDb where
  "melt_db = empty_db\<lparr>melt_quote_tbl := [(''m'', melt_row MQ_Unpaid)]\<rparr>"

definition example_quote :: MeltQuote where
  "example_quote = \<lparr>mlq_id = ''m'', mlq_unit = Sat, mlq_amount = 4, mlq_request = PayBolt11 ''i'', mlq_fee_reserve = 1,
     mlq_state = MQ_Pending, mlq_expiry = 0, mlq_payment_preimage = None, mlq_request_lookup_id = Some (Label ''l''),
     mlq_created_time = 0, mlq_paid_time = None, mlq_payment_method = Bolt11, mlq_options = None\<rparr>"

definition example_request :: MeltRequest where
  "example_request = \<lparr>melt_quote = ''m'', melt_inputs = [toy_proof ''x''], melt_outputs = Some [demo_message]\<rparr>"

definition example_lightning :: lightning where
  "example_lightning = \<lparr>invoice_msats = (\<lambda>_. Some 4000), offer_valid = (\<lambda>_. True), offer_amount = (\<lambda>_. None),
     invoice_hash = (\<lambda>_. None)\<rparr>"

text \<open>A backend that answers a payment and a later check in the given way.\<close>

definition answering :: "(payment_error, MakePaymentResponse) outcome \<Rightarrow> (payment_error, MakePaymentResponse) outcome \<Rightarrow> backend" where
  "answering pay check = \<lparr>invoice_description = Ok False,
     create_incoming_payment_request = (\<lambda>_ _. Err PayLightning), check_incoming_payment_status = (\<lambda>_. Ok []),
     get_payment_quote = (\<lambda>_ _. Err PayLightning), make_payment = (\<lambda>_ _. pay), check_outgoing_payment = (\<lambda>_. check)\<rparr>"

definition answer :: "MeltQuoteState \<Rightarrow> Amount \<Rightarrow> MakePaymentResponse" where
  "answer st spent = \<lparr>mpr_payment_lookup_id = Label ''l'', mpr_payment_proof = Some ''p'', mpr_status = st,
     mpr_total_spent = spent, mpr_unit = Sat\<rparr>"

definition example_env :: "backend \<Rightarrow> melt_env" where
  "example_env ln = \<lparr>me_externs = toy_externs, me_now = 0, me_overflow_checks = True, me_lightning = example_lightning,
     me_processors = (\<lambda>_ _. Some ln), me_mint = melt_mint\<rparr>"

definition melt_input :: "State \<Rightarrow> PublicKey \<times> ProofRow" where
  "melt_input st = ([2, 1], (proof_row 0 (Some ''m'') (OpMelt 9) (toy_proof ''x''))\<lparr>pr_state := st\<rparr>)"

definition melt_output :: "PublicKey \<times> SigRow" where
  "melt_output = ([2, 3], message_row 0 (Some ''m'') (OpMelt 9) demo_message)"

definition pending_db :: MintDb where
  "pending_db = empty_db\<lparr>proof_tbl := [melt_input Pending], sig_tbl := [melt_output],
     melt_quote_tbl := [(''m'', melt_row MQ_Pending)],
     melt_request_tbl := [(''m'', \<lparr>mrr_inputs_amount = 8, mrr_inputs_fee = 2\<rparr>)]\<rparr>"

lemma example_added:
  "writer_add_proofs toy_externs 0 [toy_proof ''x''] (Some ''m'') (OpMelt 9) (proof_writer_new, melt_db)
     = (Ok [[2, 1]], writer_for [[2, 1]], melt_db\<lparr>proof_tbl := [melt_input Pending]\<rparr>)"
proof -
  have a: "add_proofs toy_externs 0 [toy_proof ''x''] (Some ''m'') (OpMelt 9) melt_db
      = Ok (melt_db\<lparr>proof_tbl := [melt_input Unspent]\<rparr>)"
    by (simp add: add_proofs_def proof_ys_def demo_y select_in_def empty_db_def melt_db_def insert_proof_def not_null_def
        ensure_def insert_row_def) (simp add: to_i64_def toy_proof_def melt_input_def proof_row_def)
  have u: "update_proofs_states [[2, 1]] Pending (melt_db\<lparr>proof_tbl := [melt_input Unspent]\<rparr>)
      = Ok ([Some Unspent], melt_db\<lparr>proof_tbl := [melt_input Pending]\<rparr>)"
    by (simp add: update_proofs_states_def get_current_states_def select_in_def melt_input_def ensure_def
        check_state_transition_def update_where_def proof_row_def)
  show ?thesis
    by (simp add: writer_add_proofs_def proof_writer_new_def then_do_def on_tx_def a u proof_ys_def demo_y
        writer_update_proofs_states_def hash_insert_def or_insert_def pure_def writer_for_def)
qed

lemma example_verified:
  "verify_melt_request (example_env ln) \<lparr>ver_amount = 8, ver_unit = Some Sat\<rparr> example_request (OpMelt 9) (proof_writer_new, melt_db)
     = (Ok example_quote, writer_for [[2, 1]], melt_db\<lparr>proof_tbl := [melt_input Pending],
          melt_quote_tbl := [(''m'', melt_row MQ_Pending)]\<rparr>)"
proof -
  have n: "nut10_try_from toy_externs t = Err SerdeError" for t
    by (simp add: nut10_try_from_def toy_externs_def)
  have out: "verify_outputs melt_mint [demo_message] db = Ok \<lparr>ver_amount = 8, ver_unit = Some Sat\<rparr>" if "sig_tbl db = []" for db
    using that by (simp add: verify_outputs_def check_outputs_unique_def ensure_def check_output_already_signed_def
        get_blind_signatures_def select_in_def verify_outputs_keyset_def demo_message_def
        melt_info_lookup one_unit_def try_sum_def checked_add_def)
  let ?db = "melt_db\<lparr>proof_tbl := [melt_input Pending], melt_quote_tbl := [(''m'', melt_row MQ_Pending)]\<rparr>"
  have u: "update_melt_quote_state (\<lambda>_. None) 0 ''m'' MQ_Pending None (melt_db\<lparr>proof_tbl := [melt_input Pending]\<rparr>)
      = Ok ((MQ_Unpaid, example_quote), ?db)"
    by (simp add: update_melt_quote_state_def melt_db_def row_to_melt_quote_def melt_row_def payment_identifier_new_def
        to_lowercase_def lowercase_char_def check_melt_quote_state_transition_def melt_state_allowed_def update_where_def
        example_quote_def ensure_def)
  have c: "check_quote_and_inputs (example_env ln) \<lparr>ver_amount = 8, ver_unit = Some Sat\<rparr> example_request MQ_Unpaid example_quote = Ok ()"
    using n by (simp add: check_quote_and_inputs_def example_env_def example_request_def example_quote_def ensure_def melt_fee
        amount_add_def checked_add_def enforce_sig_flag_def enforce_step_def)
  have o: "check_change_outputs melt_mint \<lparr>ver_amount = 8, ver_unit = Some Sat\<rparr> example_request ?db = Ok ()"
    by (simp add: check_change_outputs_def example_request_def out melt_db_def empty_db_def ensure_def)
  show ?thesis
    using u c o by (simp add: verify_melt_request_def verify_melt_quote_def then_do_def on_tx_def pure_def example_env_def
        example_request_def example_added example_lightning_def)
qed

lemma example_setup:
  "melt_setup (example_env ln) \<lparr>ver_amount = 8, ver_unit = Some Sat\<rparr> (OpMelt 9) example_request (proof_writer_new, melt_db)
     = (Ok (ToPay example_quote ln), writer_for [[2, 1]], pending_db)"
proof -
  let ?db = "melt_db\<lparr>proof_tbl := [melt_input Pending], melt_quote_tbl := [(''m'', melt_row MQ_Pending)]\<rparr>"
  have sum: "melt_inputs_amount example_request = Ok 8"
    by (simp add: melt_inputs_amount_def example_request_def try_sum_def checked_add_def toy_proof_def)
  have st: "store_melt_request (example_env ln) (OpMelt 9) example_request (writer_for [[2, 1]], ?db)
      = (Ok (), writer_for [[2, 1]], pending_db)"
    using sum by (simp add: store_melt_request_def then_do_def pure_def on_tx_def example_env_def example_request_def melt_fee
        add_melt_request_def not_null_def ensure_def to_i64_def insert_row_def melt_db_def empty_db_def pending_db_def
        add_blinded_messages_def insert_blinded_message_def demo_message_def message_row_def melt_output_def)
  have fees: "check_melt_expected_ln_fees example_lightning example_quote example_request = Ok None"
    using sum by (simp add: check_melt_expected_ln_fees_def example_quote_def to_unit_def checked_mul_def MSAT_IN_SAT_def
        invoice_amount_msats_def example_lightning_def amount_add_def checked_add_def)
  have "handle_internal_melt_mint 0 example_quote example_request pending_db = Ok (None, pending_db)"
    by (simp add: handle_internal_melt_mint_def get_mint_quote_by_request_def pending_db_def empty_db_def)
  with fees have "settle_or_route (example_env ln) example_request example_quote (writer_for [[2, 1]], pending_db)
      = (Ok (ToPay example_quote ln), writer_for [[2, 1]], pending_db)"
    by (simp add: settle_or_route_def then_do_def on_tx_def pure_def example_env_def)
  then show ?thesis by (simp add: melt_setup_def in_tx_def then_do_def example_verified st)
qed

lemma example_hyps:
  "keyed (proof_tbl melt_db)" "quote_unused (melt_quote example_request) melt_db"
  "mint_verify_inputs (me_externs (example_env ln)) (me_now (example_env ln)) (me_mint (example_env ln))
     (melt_inputs example_request) = Ok \<lparr>ver_amount = 8, ver_unit = Some Sat\<rparr>"
  using melt_verified
  by (simp_all add: melt_db_def empty_db_def quote_unused_def example_env_def example_request_def)

definition paid_db :: MintDb where
  "paid_db = pending_db\<lparr>proof_tbl := [melt_input Spent],
     melt_quote_tbl := [(''m'', (melt_row MQ_Paid)\<lparr>ml_paid_time := Some 0, ml_payment_preimage := Some ''p''\<rparr>)]\<rparr>"

definition example_info :: MeltRequestInfo where
  "example_info = \<lparr>mri_inputs_amount = 8, mri_inputs_fee = 2, mri_change_outputs = [demo_message]\<rparr>"

lemma example_process:
  "process_melt_tx (example_env ln) example_quote (Some ''p'') spent (writer_for [[2, 1]], pending_db)
     = plan_change (example_env ln) example_quote spent example_info (writer_for [[2, 1]], paid_db)"
proof -
  have y: "get_proof_ys_by_quote_id toy_externs ''m'' pending_db = Ok [[2, 1]]"
    by (simp add: get_proof_ys_by_quote_id_def pending_db_def melt_input_def proof_row_def proof_ys_def proof_y_def
        toy_proof_def hash_to_curve_def hash_to_curve_from.simps toy_externs_def)
  have "update_proofs_states [[2, 1]] Spent pending_db = Ok ([Some Pending], pending_db\<lparr>proof_tbl := [melt_input Spent]\<rparr>)"
    by (simp add: update_proofs_states_def get_current_states_def select_in_def pending_db_def melt_input_def ensure_def
        check_state_transition_def update_where_def proof_row_def)
  then have w: "writer_update_proofs_states [[2, 1]] Spent (writer_for [[2, 1]], pending_db)
      = (Ok (), writer_for [[2, 1]], pending_db\<lparr>proof_tbl := [melt_input Spent]\<rparr>)"
    by (simp add: writer_update_proofs_states_def writer_for_def or_insert_def)
  have u: "\<exists>q. update_melt_quote_state (\<lambda>_. None) 0 ''m'' MQ_Paid (Some ''p'') (pending_db\<lparr>proof_tbl := [melt_input Spent]\<rparr>)
      = Ok ((MQ_Pending, q), paid_db)"
    by (simp add: update_melt_quote_state_def pending_db_def paid_db_def row_to_melt_quote_def melt_row_def payment_identifier_new_def
        to_lowercase_def lowercase_char_def check_melt_quote_state_transition_def melt_state_allowed_def update_where_def ensure_def)
  have "get_melt_request_and_blinded_messages ''m'' paid_db = Ok (Some example_info)"
    by (simp add: get_melt_request_and_blinded_messages_def paid_db_def pending_db_def melt_output_def message_row_def
        demo_message_def read_amount_def to_i64_def example_info_def)
  with y w u show ?thesis
    by (auto simp: process_melt_tx_def take_inputs_def then_do_def on_tx_def example_env_def example_quote_def example_lightning_def)
qed

lemma example_unsigned: "get_blind_signatures [[2, 3]] paid_db = Ok [None]"
  by (simp add: get_blind_signatures_def paid_db_def pending_db_def melt_output_def message_row_def select_in_def)

lemma example_change_keyset: "change_fee_and_amounts melt_mint [demo_message] = \<lparr>fee = 2000, amounts = [8]\<rparr>"
  by (simp add: change_fee_and_amounts_def melt_mint_def signatory_keysets_def demo_signer_def signatory_keyset_def
      demo_sign_info_def demo_sign_keyset_def demo_message_def)

text \<open>With four spent the change of two has no denomination; with seven the subtraction panics.\<close>

lemma example_plan:
  "plan_change (example_env ln) example_quote 4 example_info (w, paid_db) = (Ok (Some ([demo_message], [])), w, paid_db)"
  "plan_change (example_env ln) example_quote 7 example_info (w, paid_db) = (Panic, w, paid_db)"
  using example_unsigned example_change_keyset
  by (simp_all add: plan_change_def example_info_def on_tx_def demo_message_def ensure_def change_messages_def example_env_def
      amount_sub_def checked_sub_def amount_split_def split_step_def Let_def) (simp add: word_le_nat_alt)

definition paying :: backend where
  "paying = answering (Ok (answer MQ_Paid 4)) (Err PayLightning)"

definition unknown_request :: MeltRequest where
  "unknown_request = example_request\<lparr>melt_quote := ''z''\<rparr>"

lemma unknown_rejected:
  "\<exists>w. melt_setup (example_env ln) \<lparr>ver_amount = 8, ver_unit = Some Sat\<rparr> (OpMelt 5) unknown_request (proof_writer_new, melt_db)
     = (Err (from_db QuoteNotFound), w, melt_db)"
  using writer_add_again [OF example_hyps(1) example_added, of 0 "Some ''z''" "OpMelt 5"]
  by (simp add: melt_setup_def in_tx_def verify_melt_request_def verify_melt_quote_def then_do_def on_tx_def
      update_melt_quote_state_def example_env_def unknown_request_def example_request_def example_lightning_def)
     (simp add: melt_db_def)

theorem melt_rejected_no_effect_witness:
  "\<exists>w. melt_setup (example_env paying) \<lparr>ver_amount = 8, ver_unit = Some Sat\<rparr> (OpMelt 5) unknown_request (proof_writer_new, melt_db)
     = (Err (from_db QuoteNotFound), w, melt_db) \<and> writer_drop w melt_db = melt_db"
proof -
  from unknown_rejected [of paying] obtain w where run: "melt_setup (example_env paying) \<lparr>ver_amount = 8, ver_unit = Some Sat\<rparr> (OpMelt 5)
      unknown_request (proof_writer_new, melt_db) = (Err (from_db QuoteNotFound), w, melt_db)" by blast
  have "mint_verify_inputs (me_externs (example_env paying)) (me_now (example_env paying)) (me_mint (example_env paying))
      (melt_inputs unknown_request) = Ok \<lparr>ver_amount = 8, ver_unit = Some Sat\<rparr>"
    using example_hyps(3) [of paying] by (simp add: unknown_request_def)
  from melt_rejected_no_effect [OF example_hyps(1) this run] run show ?thesis by auto
qed

lemma example_paid_tx:
  "melt_paid_tx (example_env ln) example_quote (answer MQ_Paid 4) (writer_for [[2, 1]], pending_db)
     = (Ok (example_quote, Some ([demo_message], [])), writer_for [[2, 1]], paid_db)"
  "melt_paid_tx (example_env ln) example_quote (answer MQ_Paid 7) (writer_for [[2, 1]], pending_db)
     = (Panic, writer_for [[2, 1]], pending_db)"
proof -
  have k: "keep_lookup_id example_quote (Label ''l'') s = (Ok example_quote, s)" for s
    by (simp add: keep_lookup_id_def example_quote_def pure_def)
  have u: "to_unit a Sat (mlq_unit example_quote) = Ok a" for a by (simp add: to_unit_def example_quote_def)
  show "melt_paid_tx (example_env ln) example_quote (answer MQ_Paid 4) (writer_for [[2, 1]], pending_db)
     = (Ok (example_quote, Some ([demo_message], [])), writer_for [[2, 1]], paid_db)"
    "melt_paid_tx (example_env ln) example_quote (answer MQ_Paid 7) (writer_for [[2, 1]], pending_db)
     = (Panic, writer_for [[2, 1]], pending_db)"
    by (simp_all add: melt_paid_tx_def answer_def u in_tx_def then_do_def k example_process example_plan pure_def)
qed

lemma paying_pays: "pay_melt_quote paying example_quote s = (Ok (answer MQ_Paid 4), s)"
  by (simp add: pay_melt_quote_def outgoing_options_def example_quote_def paying_def answering_def answer_def pure_def)

lemma judge_paid: "judge_payment (answer MQ_Paid spent) s = (Ok (), s)"
  by (cases s) (simp add: judge_payment_def answer_def)

lemma example_melts:
  "\<exists>resp db'. melt (example_env paying) 9 [] example_request melt_db = (Ok resp, writer_commit (writer_for [[2, 1]]), db')"
proof -
  have "blind_sign toy_externs demo_signer [] [] = Ok []" by (simp add: blind_sign_def)
  then have "\<exists>db'. sign_change (example_env paying) [] example_quote (Some ([demo_message], [])) (writer_for [[2, 1]], paid_db)
      = (Ok (Some []), writer_commit (writer_for [[2, 1]]), db')"
    by (simp add: sign_change_def then_do_def pure_def in_tx_def on_tx_def example_env_def melt_mint_def add_blind_signatures_def
        ensure_def delete_melt_request_def select_in_def)
  moreover have "melt (example_env paying) 9 [] example_request melt_db
      = melt_paid (example_env paying) [] example_quote (answer MQ_Paid 4) (writer_for [[2, 1]], pending_db)"
    by (simp add: melt_def melt_steps_def then_do_def pure_def example_hyps(3) example_setup paying_pays judge_paid)
  ultimately show ?thesis
    by (auto simp: melt_paid_def finish_melt_def then_do_def example_paid_tx(1) pure_def)
qed

theorem melt_takes_inputs_witness:
  "\<exists>resp w db'. melt (example_env paying) 9 [] example_request melt_db = (Ok resp, w, db')
     \<and> proof_state db' [2, 1] = Some Spent \<and> quote_state db' ''m'' = Some MQ_Paid"
proof -
  from example_melts obtain resp db' where run:
    "melt (example_env paying) 9 [] example_request melt_db = (Ok resp, writer_commit (writer_for [[2, 1]]), db')" by blast
  have "proof_ys (me_externs (example_env paying)) (melt_inputs example_request) = Ok [[2, 1]]"
    by (simp add: example_env_def example_request_def proof_ys_def demo_y)
  with melt_takes_inputs [OF example_hyps(1) run] run show ?thesis by (auto simp: example_request_def)
qed

definition change_info :: MeltRequestInfo where
  "change_info = \<lparr>mri_inputs_amount = 16, mri_inputs_fee = 2, mri_change_outputs = [demo_message, demo_message, demo_message]\<rparr>"

definition change_mint :: Mint where
  "change_mint = melt_mint\<lparr>mint_keysets := []\<rparr>"

lemma change_amounts: "amounts (change_fee_and_amounts change_mint outs) = pow2_amounts 32"
  by (simp add: change_fee_and_amounts_def change_mint_def pow2_amounts_def)

theorem melt_change_bounds_witness:
  "\<exists>msgs. change_messages change_mint change_info 5 = Ok msgs \<and> map bm_amount msgs = [8, 1] \<and> total (map bm_amount msgs) + 5 + 2 = 16"
proof -
  let ?fa = "change_fee_and_amounts change_mint (mri_change_outputs change_info)"
  let ?msgs = "[demo_message\<lparr>bm_amount := 8\<rparr>, demo_message\<lparr>bm_amount := 1\<rparr>]"
  have split: "amount_split 9 ?fa = Ok [8, 1]"
    unfolding amount_split_def change_amounts by code_simp
  have run: "change_messages change_mint change_info 5 = Ok ?msgs"
    using split by (simp add: change_messages_def Let_def amount_sub_def checked_sub_def change_info_def word_le_nat_alt)
  from melt_change_bounds [OF run refl refl] obtain rest parts where
    r: "unat rest + unat (5 :: u64) + unat (mri_inputs_fee change_info) = unat (mri_inputs_amount change_info)" "amount_split rest ?fa = Ok parts"
    "\<forall>n \<le> 64. amounts ?fa = pow2_amounts n \<and> unat rest < 2 ^ n \<and> length parts \<le> length (mri_change_outputs change_info)
       \<longrightarrow> total (map bm_amount ?msgs) = unat rest" by blast
  have rest: "unat rest = 9" using r(1) by (simp add: change_info_def)
  then have "rest = 9" by (simp add: word_unat_eq_iff)
  then have "parts = [8, 1]" using r(2) split by simp
  then have "total (map bm_amount ?msgs) = 9"
    using r(3) [rule_format, of 32] rest by (simp add: change_amounts change_info_def)
  then show ?thesis using run by simp
qed

definition doubtful :: backend where
  "doubtful = answering (Ok (answer MQ_Unknown 0)) (Err PayLightning)"

theorem unknown_payment_releases_inputs_witness:
  "\<exists>w. melt (example_env doubtful) 9 [] example_request melt_db = (Err E_Internal, w, pending_db)
     \<and> proof_state pending_db [2, 1] = Some Pending \<and> proof_tbl (writer_drop w pending_db) = []"
proof -
  have y: "proof_ys (me_externs (example_env doubtful)) (melt_inputs example_request) = Ok [[2, 1]]"
    by (simp add: example_env_def example_request_def proof_ys_def demo_y)
  obtain options where "outgoing_options example_quote = Ok options" by (simp add: outgoing_options_def example_quote_def)
  from unknown_payment_releases_inputs [OF example_hyps(1,3) example_setup [of doubtful] this, of "answer MQ_Unknown 0" PayLightning "[]"] y
  show ?thesis by (auto simp: doubtful_def answering_def answer_def melt_db_def empty_db_def)
qed

theorem late_rollback_releases_inputs_witness:
  "\<exists>late. melt (example_env paying) 5 [] unknown_request melt_db = (Err (from_db QuoteNotFound), late, melt_db)
     \<and> proof_tbl (writer_drop late pending_db) = []
     \<and> fst (process_melt_tx (example_env paying) example_quote None 4 (writer_for [[2, 1]], writer_drop late pending_db)) = Panic"
proof -
  have "melt_inputs unknown_request = melt_inputs example_request" "map_of (melt_quote_tbl melt_db) (melt_quote unknown_request) = None"
    by (simp_all add: unknown_request_def melt_db_def)
  from late_rollback_releases_inputs [OF example_hyps(1,3) example_setup [of paying] example_hyps(2) this, of 5 "[]" None 4]
  show ?thesis by (auto simp: melt_db_def empty_db_def)
qed

definition overspending :: backend where
  "overspending = answering (Ok (answer MQ_Paid 7)) (Err PayLightning)"

theorem failed_processing_releases_inputs_witness:
  "\<exists>r w. melt (example_env overspending) 9 [] example_request melt_db = (r, w, pending_db) \<and> \<not> is_ok r
     \<and> proof_tbl (writer_drop w pending_db) = []"
proof -
  have "pay_melt_quote overspending example_quote (writer_for [[2, 1]], pending_db)
      = (Ok (answer MQ_Paid 7), writer_for [[2, 1]], pending_db)"
    by (simp add: pay_melt_quote_def outgoing_options_def example_quote_def overspending_def answering_def answer_def pure_def)
  from failed_processing_releases_inputs [OF example_hyps(1,3) example_setup [of overspending] example_hyps(2) this _ example_paid_tx(2), of "[]"]
  show ?thesis by (auto simp: answer_def melt_db_def empty_db_def)
qed

end
