(* ===== verification/WalletSelect.thy ===== *)
theory WalletSelect
  imports Errors "HOL-Library.Sublist"
begin

text \<open>
  How the wallet picks the proofs to spend (\<^verbatim>\<open>crates/cdk/src/wallet/proofs.rs\<close>): the proofs that make up
  the optimal split of the amount, halves and quarters of a part that is missing, the closest
  proof above it, and a reduction of what was picked. A hash set is the list of its elements in
  the order they were inserted; wherever the code iterates over one, the order is given by the
  parameter \<open>shuffle\<close>. The fees and denominations per keyset are the entries of the hash map in the
  order it is iterated.
\<close>

section \<open>Picking one proof\<close>

text \<open>\<open>proofs.sort_by(|a, b| a.cmp(b).reverse())\<close>: a stable sort by amount, from the largest.\<close>

definition sort_descending :: "Proof list \<Rightarrow> Proof list" where
  "sort_descending = sort_key (\<lambda>p. - int (unat (amount p)))"

definition proof_is_active :: "Id list \<Rightarrow> Proof \<Rightarrow> bool" where
  "proof_is_active active_keyset_ids p \<longleftrightarrow> keyset_id p \<in> set active_keyset_ids"

text \<open>The loop of the closure \<open>select_proof\<close>; the last argument is \<open>last_proof\<close>.\<close>

fun find_proof :: "Proof list \<Rightarrow> Amount \<Rightarrow> bool \<Rightarrow> Proof list \<Rightarrow> Proof option \<Rightarrow> Proof option" where
  "find_proof selected a exact [] last_proof = last_proof"
| "find_proof selected a exact (p # ps) last_proof =
     (if p \<in> set selected then find_proof selected a exact ps last_proof
      else if amount p = a then Some p
      else if \<not> exact \<and> a < amount p then find_proof selected a exact ps (Some p)
      else if amount p < a then last_proof
      else find_proof selected a exact ps last_proof)"

definition select_proof :: "Proof list \<Rightarrow> Amount \<Rightarrow> bool \<Rightarrow> Proof list \<Rightarrow> bool \<times> Proof list" where
  "select_proof proofs a exact selected =
     (case find_proof selected a exact proofs None of
        Some p \<Rightarrow> (True, selected @ [p]) | None \<Rightarrow> (False, selected))"

section \<open>The selection\<close>

definition select_optimal :: "Proof list \<Rightarrow> Proof list \<times> Amount list \<Rightarrow> Amount \<Rightarrow> Proof list \<times> Amount list" where
  "select_optimal proofs = (\<lambda>(selected, remaining) a.
     let (hit, selected') = select_proof proofs a True selected in
     (selected', if hit then remaining else remaining @ [a]))"

definition select_optimal_amounts ::
  "Amount \<Rightarrow> Proof list \<Rightarrow> (Id \<times> FeeAndAmounts) list \<Rightarrow> Proof list
     \<Rightarrow> (Error, Proof list \<times> Amount list) outcome" where
  "select_optimal_amounts a proofs fees selected =
     try_fold (\<lambda>st (_, fa). and_then (map_err E_AmountError (amount_split a fa)) (\<lambda>parts.
        Ok (foldl (select_optimal proofs) st parts))) (selected, []) fees"

text \<open>The inner loop \<open>for _ in 0..n\<close>, with the count of proofs found.\<close>

fun select_up_to :: "Proof list \<Rightarrow> Amount \<Rightarrow> nat \<Rightarrow> Proof list \<Rightarrow> nat \<times> Proof list" where
  "select_up_to proofs a 0 selected = (0, selected)"
| "select_up_to proofs a (Suc n) selected =
     (let (hit, selected') = select_proof proofs a True selected in
      if hit then let (count, selected'') = select_up_to proofs a n selected' in (Suc count, selected'')
      else (0, selected'))"

text \<open>The counter \<open>n\<close> is an \<open>i32\<close>: doubling it panics or wraps.\<close>

definition double_i32 :: "bool \<Rightarrow> int \<Rightarrow> (Error, int) outcome" where
  "double_i32 overflow_checks n =
     (if - (2 ^ 31) \<le> 2 * n \<and> 2 * n < 2 ^ 31 then Ok (2 * n)
      else if overflow_checks then Panic
      else Ok ((2 * n + 2 ^ 31) mod 2 ^ 32 - 2 ^ 31))"

lemma half_less: "(t :: u64) div 2 \<noteq> 0 \<Longrightarrow> unat (t div 2) < unat t"
  by (simp add: unat_div word_unat_eq_iff)

function halving :: "bool \<Rightarrow> Proof list \<Rightarrow> int \<Rightarrow> Amount \<Rightarrow> Proof list \<Rightarrow> (Error, bool \<times> Proof list) outcome" where
  "halving overflow_checks proofs n target selected =
     (let curr = target div 2 in
      if curr = 0 then Ok (False, selected)
      else let (count, selected') = select_up_to proofs curr (nat n) selected;
               n' = n - int count in
        if n' = 0 then Ok (True, selected')
        else and_then (double_i32 overflow_checks n') (\<lambda>n''.
          halving overflow_checks proofs n'' curr selected'))"
  by pat_completeness auto

termination
  by (relation "measure (\<lambda>(_, _, _, target, _). unat target)") (auto intro: half_less)

declare halving.simps [simp del]

definition select_remaining ::
  "bool \<Rightarrow> Proof list \<Rightarrow> Proof list \<Rightarrow> Amount \<Rightarrow> (Error, Proof list) outcome" where
  "select_remaining overflow_checks proofs selected r =
     and_then (halving overflow_checks proofs 2 r selected) (\<lambda>(hit, selected').
     Ok (if hit then selected' else snd (select_proof proofs r False selected')))"

text \<open>The search \<open>for i in 1..proofs.len()\<close> is \<open>least_split\<close>, whose argument is \<open>i - 1\<close>.\<close>

function select_least_amount_over :: "Proof list \<Rightarrow> Amount \<Rightarrow> (Error, Proof list) outcome"
  and least_split :: "Proof list \<Rightarrow> Amount \<Rightarrow> nat \<Rightarrow> (Error, Proof list) outcome" where
  "select_least_amount_over proofs a =
     and_then (map_err (E_NUT00 \<circ> Nut00Amount) (total_amount proofs)) (\<lambda>t.
     if t < a then Err E_InsufficientFunds
     else if length proofs = 1 then Ok proofs
     else least_split proofs a 0)"
| "least_split proofs a k =
     (if length proofs \<le> Suc k then Ok proofs
      else let left = take (Suc k) proofs; right = drop (Suc k) proofs in
        and_then (map_err (E_NUT00 \<circ> Nut00Amount) (total_amount left)) (\<lambda>left_amount.
        and_then (map_err (E_NUT00 \<circ> Nut00Amount) (total_amount right)) (\<lambda>right_amount.
        if a \<le> left_amount \<and> a \<le> right_amount then
          (case (select_least_amount_over left a, select_least_amount_over right a) of
             (Ok x, Ok y) \<Rightarrow>
               and_then (map_err (E_NUT00 \<circ> Nut00Amount) (total_amount x)) (\<lambda>tx.
               and_then (map_err (E_NUT00 \<circ> Nut00Amount) (total_amount y)) (\<lambda>ty.
               Ok (if tx < ty then x else y)))
           | (Ok x, Err _) \<Rightarrow> Ok x
           | (Err _, Ok y) \<Rightarrow> Ok y
           | (Err _, Err _) \<Rightarrow> Err E_InsufficientFunds
           | _ \<Rightarrow> Panic)
        else if a \<le> left_amount then select_least_amount_over left a
        else if a \<le> right_amount then select_least_amount_over right a
        else least_split proofs a (Suc k))))"
  by pat_completeness auto

termination
  by (relation "measures [\<lambda>x. case x of Inl (ps, _) \<Rightarrow> length ps | Inr (ps, _, _) \<Rightarrow> length ps,
       \<lambda>x. case x of Inl (ps, _) \<Rightarrow> Suc (length ps) | Inr (ps, _, k) \<Rightarrow> length ps - k]") auto

declare select_least_amount_over.simps [simp del] least_split.simps [simp del]

text \<open>
  \<open>select_proofs\<close> up to the point where fees may be included: \<open>Chosen\<close> where the code returns before
  it, \<open>Candidate\<close> with the sorted proofs where it does not.
\<close>

datatype selection = Chosen "Proof list" | Candidate "Proof list" "Proof list"

definition reduce_selection :: "Amount \<Rightarrow> Proof list \<Rightarrow> (Error, Proof list) outcome" where
  "reduce_selection a selected =
     and_then (map_err (E_NUT00 \<circ> Nut00Amount) (total_amount selected)) (\<lambda>t.
     if t \<noteq> a \<and> 1 < length selected then select_least_amount_over (sort_descending selected) a
     else Ok selected)"

definition select_candidates ::
  "bool \<Rightarrow> (Proof list \<Rightarrow> Proof list) \<Rightarrow> Amount \<Rightarrow> Proof list \<Rightarrow> Id list \<Rightarrow> (Id \<times> FeeAndAmounts) list
     \<Rightarrow> (Error, selection) outcome" where
  "select_candidates overflow_checks shuffle a proofs active_keyset_ids fees =
     (if a = 0 then Ok (Chosen [])
      else
        and_then (map_err (E_NUT00 \<circ> Nut00Amount) (total_amount proofs)) (\<lambda>t.
        and_then (ensure (a \<le> t) E_InsufficientFunds) (\<lambda>_.
        let sorted_proofs = sort_descending proofs;
            inactive = remdups (filter (\<lambda>p. \<not> proof_is_active active_keyset_ids p) sorted_proofs) in
        and_then (map_err (E_NUT00 \<circ> Nut00Amount) (total_amount inactive)) (\<lambda>ti.
        if a \<le> ti then Ok (Chosen (shuffle inactive))
        else
          and_then (select_optimal_amounts a sorted_proofs fees inactive) (\<lambda>(selected, remaining).
          if remaining = [] then Ok (Candidate sorted_proofs (shuffle selected))
          else
            and_then (try_fold (select_remaining overflow_checks sorted_proofs) selected remaining) (\<lambda>selected'.
            and_then (reduce_selection a (shuffle selected')) (\<lambda>reduced.
            Ok (Candidate sorted_proofs reduced))))))))"

definition select_without_fees ::
  "bool \<Rightarrow> (Proof list \<Rightarrow> Proof list) \<Rightarrow> Amount \<Rightarrow> Proof list \<Rightarrow> Id list \<Rightarrow> (Id \<times> FeeAndAmounts) list
     \<Rightarrow> (Error, Proof list) outcome" where
  "select_without_fees overflow_checks shuffle a proofs active_keyset_ids fees =
     and_then (select_candidates overflow_checks shuffle a proofs active_keyset_ids fees) (\<lambda>s.
     case s of Chosen ps \<Rightarrow> Ok ps | Candidate _ ps \<Rightarrow> Ok ps)"

text \<open>\<open>include_fees\<close> calls \<open>select_proofs\<close> with an empty map and without fees.\<close>

definition selection_fee :: "bool \<Rightarrow> Proof list \<Rightarrow> (Id \<times> FeeAndAmounts) list \<Rightarrow> (Error, Amount) outcome" where
  "selection_fee overflow_checks selected fees =
     (case calculate_fee overflow_checks (count_by_keyset selected) (map_option fee \<circ> map_of fees) of
        Ok f \<Rightarrow> Ok f | Err _ \<Rightarrow> Ok 0 | Panic \<Rightarrow> Panic)"

definition include_fees ::
  "bool \<Rightarrow> (Proof list \<Rightarrow> Proof list) \<Rightarrow> Amount \<Rightarrow> Proof list \<Rightarrow> Proof list \<Rightarrow> Id list
     \<Rightarrow> (Id \<times> FeeAndAmounts) list \<Rightarrow> (Error, Proof list) outcome" where
  "include_fees overflow_checks shuffle a proofs selected active_keyset_ids fees =
     and_then (selection_fee overflow_checks selected fees) (\<lambda>f.
     and_then (map_err (E_NUT00 \<circ> Nut00Amount) (total_amount selected)) (\<lambda>t.
     and_then (amount_sub t f) (\<lambda>net_amount.
     if a \<le> net_amount then Ok selected
     else
       and_then (amount_sub a net_amount) (\<lambda>remaining_amount.
       and_then (select_without_fees overflow_checks shuffle remaining_amount
           (filter (\<lambda>p. p \<notin> set selected) proofs) active_keyset_ids []) (\<lambda>more.
       Ok (selected @ more))))))"

definition select_proofs ::
  "bool \<Rightarrow> (Proof list \<Rightarrow> Proof list) \<Rightarrow> Amount \<Rightarrow> Proof list \<Rightarrow> Id list \<Rightarrow> (Id \<times> FeeAndAmounts) list
     \<Rightarrow> bool \<Rightarrow> (Error, Proof list) outcome" where
  "select_proofs overflow_checks shuffle a proofs active_keyset_ids fees with_fees =
     and_then (select_candidates overflow_checks shuffle a proofs active_keyset_ids fees) (\<lambda>s.
     case s of
       Chosen ps \<Rightarrow> Ok ps
     | Candidate sorted_proofs ps \<Rightarrow>
         if with_fees then include_fees overflow_checks shuffle a sorted_proofs ps active_keyset_ids fees
         else Ok ps)"

section \<open>A proof to exchange\<close>

text \<open>
  \<open>select_exact_proofs\<close> takes the largest proof out of a selection that is worth too much, with the
  amount to swap it for. \<open>sort_by\<close> is stable and \<open>pop\<close> takes the last proof.
\<close>

definition exchange_amount :: "Amount \<Rightarrow> Amount \<Rightarrow> Proof \<Rightarrow> (Id \<times> FeeAndAmounts) list \<Rightarrow> Amount option" where
  "exchange_amount a t p fees =
     (let fee_ppk = (case map_of fees (keyset_id p) of Some fa \<Rightarrow> fee fa | None \<Rightarrow> 0) in
      Option.bind (Option.bind (checked_sub t (amount p)) (\<lambda>x. checked_add x fee_ppk)) (checked_sub a))"

definition select_exact_proofs ::
  "bool \<Rightarrow> (Proof list \<Rightarrow> Proof list) \<Rightarrow> Amount \<Rightarrow> Proof list \<Rightarrow> Id list \<Rightarrow> (Id \<times> FeeAndAmounts) list
     \<Rightarrow> bool \<Rightarrow> (Error, Proof list \<times> (Proof \<times> Amount) option) outcome" where
  "select_exact_proofs overflow_checks shuffle a proofs active_keyset_ids fees with_fees =
     and_then (select_proofs overflow_checks shuffle a proofs active_keyset_ids fees with_fees) (\<lambda>input_proofs.
     let t = (case total_amount input_proofs of Ok t \<Rightarrow> t | _ \<Rightarrow> 0);
         ascending = sort_key amount input_proofs in
     if t \<le> a then Ok (input_proofs, None)
     else if ascending = [] then Ok ([], None)
     else case exchange_amount a t (last ascending) fees of
         Some b \<Rightarrow> Ok (butlast ascending, Some (last ascending, b))
       | None \<Rightarrow> Ok (ascending, None))"

section \<open>What one search finds\<close>

abbreviation worth :: "Proof list \<Rightarrow> nat" where
  "worth ps \<equiv> total (map amount ps)"

abbreviation descending :: "Proof list \<Rightarrow> bool" where
  "descending \<equiv> sorted_wrt (\<lambda>p q. amount q \<le> amount p)"

lemma sort_descending_facts [simp]:
  "set (sort_descending ps) = set ps" "mset (sort_descending ps) = mset ps" "descending (sort_descending ps)"
proof -
  show "set (sort_descending ps) = set ps" "mset (sort_descending ps) = mset ps"
    by (simp_all add: sort_descending_def)
  have "sorted (map (\<lambda>p. - int (unat (amount p))) (sort_descending ps))"
    by (simp add: sort_descending_def)
  then show "descending (sort_descending ps)"
    by (simp add: sorted_map word_le_def)
qed

lemma worth_mset: "mset ps = mset qs \<Longrightarrow> worth ps = worth qs"
  unfolding total_def by (metis mset_map sum_mset_sum_list)

lemma worth_sum: "distinct ps \<Longrightarrow> worth ps = (\<Sum>p \<in> set ps. unat (amount p))"
  by (simp add: total_def comp_def sum_list_distinct_conv_sum_set)

lemma worth_mono: "distinct ps \<Longrightarrow> set ps \<subseteq> set qs \<Longrightarrow> distinct qs \<Longrightarrow> worth ps \<le> worth qs"
  by (simp add: worth_sum sum_mono2)

lemma total_amount_Ok_iff: "total_amount ps = Ok t \<longleftrightarrow> worth ps = unat t"
  by (simp add: total_amount_def try_sum_Ok_iff)

lemma find_proof_Some:
  assumes "find_proof sel a exact ps l = Some p" "l = None \<or> (\<not> exact \<and> l = Some q \<and> q \<notin> set sel \<and> a \<le> amount q)"
  shows "(p \<in> set ps \<and> p \<notin> set sel \<or> l = Some p) \<and> a \<le> amount p \<and> (exact \<longrightarrow> amount p = a) \<and> p \<notin> set sel"
  using assms
proof (induction ps arbitrary: l q)
  case Nil
  then show ?case by auto
next
  case (Cons x ps)
  show ?case
  proof (cases "x \<notin> set sel \<and> amount x \<noteq> a \<and> \<not> exact \<and> a < amount x")
    case True
    with Cons.prems(1) Cons.IH [of "Some x" x] show ?thesis by (auto simp: less_imp_le)
  next
    case False
    with Cons.prems Cons.IH [of l q] show ?thesis by (auto split: if_splits)
  qed
qed

lemma find_proof_keeps_last: "find_proof sel a exact ps (Some q) \<noteq> None"
  by (induction ps arbitrary: q) auto

lemma find_proof_None:
  assumes "find_proof sel a exact ps l = None" "descending ps" "p \<in> set ps" "amount p = a \<or> \<not> exact \<and> a \<le> amount p"
  shows "p \<in> set sel"
  using assms
proof (induction ps)
  case (Cons x ps)
  show ?case
  proof (cases "x \<in> set sel \<or> exact \<and> a < amount x")
    case True
    then have "find_proof sel a exact ps l = None" using Cons.prems(1) by (auto split: if_splits)
    then show ?thesis using Cons True by auto
  next
    case False
    then have "amount x < a" using Cons.prems(1) find_proof_keeps_last [of sel a exact ps x] by (auto split: if_splits)
    moreover have "amount p \<le> amount x" using Cons.prems(2,3) by auto
    ultimately show ?thesis using Cons.prems(4) by auto
  qed
qed simp

text \<open>A search extends the selection by one new proof, or shows that no proof is left to pick.\<close>

lemma select_proof_hit:
  assumes "select_proof ps a exact sel = (True, sel')"
  obtains p where "p \<in> set ps" "p \<notin> set sel" "sel' = sel @ [p]" "a \<le> amount p" "exact \<Longrightarrow> amount p = a"
proof -
  from assms obtain p where "find_proof sel a exact ps None = Some p" "sel' = sel @ [p]"
    by (auto simp: select_proof_def split: option.splits)
  with find_proof_Some [of sel a exact ps None p] that show thesis by auto
qed

lemma select_proof_miss:
  assumes "select_proof ps a exact sel = (False, sel')" "descending ps"
  shows "sel' = sel" "\<And>p. p \<in> set ps \<Longrightarrow> amount p = a \<or> \<not> exact \<and> a \<le> amount p \<Longrightarrow> p \<in> set sel"
  using assms find_proof_None [OF _ assms(2)]
  by (auto simp: select_proof_def split: option.splits)

text \<open>The selection so far: distinct proofs out of those available.\<close>

definition picked :: "Proof list \<Rightarrow> Proof list \<Rightarrow> bool" where
  "picked ps sel \<longleftrightarrow> distinct sel \<and> set sel \<subseteq> set ps"

lemma picked_snoc: "picked ps sel \<Longrightarrow> p \<in> set ps \<Longrightarrow> p \<notin> set sel \<Longrightarrow> picked ps (sel @ [p])"
  by (simp add: picked_def)

lemma select_proof_step:
  assumes "select_proof ps a exact sel = (hit, sel')" "picked ps sel" "descending ps"
  shows "picked ps sel'" "set sel \<subseteq> set sel'"
    and "hit \<Longrightarrow> worth sel + unat a \<le> worth sel'" "hit \<Longrightarrow> exact \<Longrightarrow> worth sel' = worth sel + unat a"
    and "worth sel \<le> worth sel'"
    and "\<not> hit \<Longrightarrow> p \<in> set ps \<Longrightarrow> amount p = a \<or> \<not> exact \<and> a \<le> amount p \<Longrightarrow> p \<in> set sel'"
    and "\<not> hit \<Longrightarrow> sel' = sel"
proof -
  have *: "picked ps sel' \<and> set sel \<subseteq> set sel' \<and> (hit \<longrightarrow> worth sel + unat a \<le> worth sel')
      \<and> (hit \<and> exact \<longrightarrow> worth sel' = worth sel + unat a) \<and> worth sel \<le> worth sel'"
  proof (cases hit)
    case True
    with assms(1) obtain p where "p \<in> set ps" "p \<notin> set sel" "sel' = sel @ [p]" "a \<le> amount p" "exact \<Longrightarrow> amount p = a"
      by (metis select_proof_hit)
    with picked_snoc [OF assms(2)] show ?thesis by (auto simp: word_le_nat_alt)
  next
    case False
    with select_proof_miss(1) [OF _ assms(3)] assms(1,2) show ?thesis by auto
  qed
  then show "picked ps sel'" "set sel \<subseteq> set sel'" "hit \<Longrightarrow> worth sel + unat a \<le> worth sel'"
    "hit \<Longrightarrow> exact \<Longrightarrow> worth sel' = worth sel + unat a" "worth sel \<le> worth sel'" by auto
  show "\<not> hit \<Longrightarrow> p \<in> set ps \<Longrightarrow> amount p = a \<or> \<not> exact \<and> a \<le> amount p \<Longrightarrow> p \<in> set sel'"
    using select_proof_miss [OF _ assms(3)] assms(1) by (metis (full_types))
  show "\<not> hit \<Longrightarrow> sel' = sel" using select_proof_miss(1) [OF _ assms(3)] assms(1) by auto
qed

lemma select_up_to_step:
  assumes "select_up_to ps a n sel = (c, sel')" "picked ps sel" "descending ps"
  shows "picked ps sel' \<and> set sel \<subseteq> set sel' \<and> c \<le> n \<and> worth sel' = worth sel + c * unat a
    \<and> (c < n \<longrightarrow> (\<forall>p \<in> set ps. amount p = a \<longrightarrow> p \<in> set sel'))"
  using assms
proof (induction n arbitrary: c sel)
  case (Suc n)
  obtain hit sel1 where one: "select_proof ps a True sel = (hit, sel1)" by fastforce
  note s = select_proof_step [OF one Suc.prems(2,3)]
  show ?case
  proof (cases hit)
    case True
    obtain c1 where c1: "select_up_to ps a n sel1 = (c1, sel')" "c = Suc c1"
      using Suc.prems(1) one True by (auto split: prod.splits)
    from Suc.IH [OF c1(1) s(1) Suc.prems(3)] s(2,4) True c1(2) show ?thesis by auto
  next
    case False
    with Suc.prems one s show ?thesis by auto
  qed
qed simp

section \<open>What the selection is worth\<close>

text \<open>The halves of a part: all of the part is found, or every smaller proof has been picked.\<close>

text \<open>Whatever is selected was offered.\<close>

lemma find_proof_member: "find_proof sel a exact ps l = Some p \<Longrightarrow> p \<in> set ps \<or> l = Some p"
  by (induction sel a exact ps l rule: find_proof.induct) (auto split: if_splits)

lemma select_proof_subset: "select_proof ps a exact sel = (hit, sel') \<Longrightarrow> set sel' \<subseteq> set sel \<union> set ps"
  by (auto simp: select_proof_def dest: find_proof_member split: option.splits)

lemma select_optimal_subset:
  "foldl (select_optimal ps) (sel, rem) parts = (sel', rem') \<Longrightarrow> set sel' \<subseteq> set sel \<union> set ps"
proof (induction parts arbitrary: sel rem)
  case (Cons a parts)
  obtain hit sel1 where one: "select_proof ps a True sel = (hit, sel1)" by fastforce
  have "set sel' \<subseteq> set sel1 \<union> set ps"
    using Cons.prems one by (intro Cons.IH [of sel1 "if hit then rem else rem @ [a]"]) (simp add: select_optimal_def)
  with select_proof_subset [OF one] show ?case by blast
qed simp

lemma select_optimal_amounts_subset:
  "try_fold (\<lambda>st (_, fa). and_then (map_err E_AmountError (amount_split a fa)) (\<lambda>parts. Ok (foldl (select_optimal ps) st parts)))
     (sel, rem) fees = Ok (sel', rem') \<Longrightarrow> set sel' \<subseteq> set sel \<union> set ps"
proof (induction fees arbitrary: sel rem)
  case (Cons f fees)
  obtain i fa where f: "f = (i, fa)" by fastforce
  from Cons.prems obtain parts where "amount_split a fa = Ok parts"
    by (auto simp: f)
  moreover obtain sel1 rem1 where one: "foldl (select_optimal ps) (sel, rem) parts = (sel1, rem1)" by fastforce
  ultimately have "set sel' \<subseteq> set sel1 \<union> set ps" using Cons.prems by (intro Cons.IH [of sel1 rem1]) (simp add: f)
  with select_optimal_subset [OF one] show ?case by blast
qed simp

lemma select_up_to_subset: "select_up_to ps a n sel = (k, sel') \<Longrightarrow> set sel' \<subseteq> set sel \<union> set ps"
  by (induction ps a n sel arbitrary: k sel' rule: select_up_to.induct)
     (fastforce dest: select_proof_subset split: prod.splits if_splits)+

lemma halving_subset: "halving oc ps n t sel = Ok (hit, sel') \<Longrightarrow> set sel' \<subseteq> set sel \<union> set ps"
proof (induction oc ps n t sel rule: halving.induct)
  case (1 oc ps n t sel)
  show ?case
  proof (cases "t div 2 = 0")
    case True
    then show ?thesis using 1(2) by (subst (asm) halving.simps) simp
  next
    case False
    obtain k sel1 where up: "select_up_to ps (t div 2) (nat n) sel = (k, sel1)" by fastforce
    from 1(2) False up consider "sel' = sel1" | n'' where "halving oc ps n'' (t div 2) sel1 = Ok (hit, sel')"
      "n - int k \<noteq> 0" "double_i32 oc (n - int k) = Ok n''"
      by (subst (asm) halving.simps) (auto split: if_splits)
    then show ?thesis
    proof cases
      case (2 n'')
      then have "set sel' \<subseteq> set sel1 \<union> set ps" using 1(1) False up by simp
      with select_up_to_subset [OF up] show ?thesis by blast
    qed (use select_up_to_subset [OF up] in simp)
  qed
qed

lemma select_remaining_subset: "select_remaining oc ps sel r = Ok sel' \<Longrightarrow> set sel' \<subseteq> set sel \<union> set ps"
proof -
  assume "select_remaining oc ps sel r = Ok sel'"
  then obtain hit sel1 where h: "halving oc ps 2 r sel = Ok (hit, sel1)"
    and s: "sel' = (if hit then sel1 else snd (select_proof ps r False sel1))"
    by (auto simp: select_remaining_def)
  show ?thesis using halving_subset [OF h] select_proof_subset [of ps r False sel1] s by (auto split: if_splits) (metis UnE prod.collapse subsetD)
qed

lemma select_all_remaining_subset:
  "try_fold (select_remaining oc ps) sel rs = Ok sel' \<Longrightarrow> set sel' \<subseteq> set sel \<union> set ps"
  by (induction rs arbitrary: sel) (fastforce dest: select_remaining_subset)+

lemma double_i32_fits: "0 < n \<Longrightarrow> 2 * n < 2 ^ 31 \<Longrightarrow> double_i32 oc n = Ok (2 * n)"
  by (simp add: double_i32_def)

lemma halving_step:
  assumes "picked ps sel" "descending ps" "unat target = 2 ^ k" "0 < n" "n * 2 ^ k \<le> 2 ^ 30"
  shows "\<exists>hit sel'. halving oc ps n target sel = Ok (hit, sel') \<and> picked ps sel' \<and> set sel \<subseteq> set sel'
    \<and> (hit \<longrightarrow> 2 * worth sel' = 2 * worth sel + nat n * 2 ^ k)
    \<and> (\<not> hit \<longrightarrow> (\<forall>p \<in> set ps. \<forall>j < k. unat (amount p) = 2 ^ j \<longrightarrow> p \<in> set sel'))"
  using assms
proof (induction k arbitrary: n target sel)
  case 0
  then have "target div 2 = 0" by (simp add: word_unat_eq_iff unat_div)
  with 0 show ?case by (auto simp: halving.simps [of oc ps n target sel])
next
  case (Suc k)
  let ?curr = "target div 2"
  have curr: "unat ?curr = 2 ^ k" "?curr \<noteq> 0" using Suc.prems(3) by (simp_all add: word_unat_eq_iff unat_div)
  obtain c sel1 where up: "select_up_to ps ?curr (nat n) sel = (c, sel1)" by fastforce
  note s = select_up_to_step [OF up Suc.prems(1,2)]
  have eq: "halving oc ps n target sel = (if n - int c = 0 then Ok (True, sel1)
      else and_then (double_i32 oc (n - int c)) (\<lambda>n''. halving oc ps n'' ?curr sel1))"
    using curr(2) up by (simp add: halving.simps [of oc ps n target sel] Let_def)
  show ?case
  proof (cases "int c = n")
    case True
    then have "halving oc ps n target sel = Ok (True, sel1)" using eq by simp
    moreover have "2 * worth sel1 = 2 * worth sel + nat n * 2 ^ Suc k" using s curr(1) True by auto
    ultimately show ?thesis using s by blast
  next
    case False
    have c: "c < nat n" using False s Suc.prems(4) by linarith
    define m where "m = n - int c"
    have m: "0 < m" "m \<le> n" using c by (auto simp: m_def)
    have "(2 * m) * 2 ^ k \<le> n * 2 ^ Suc k" using m by simp
    then have le: "(2 * m) * 2 ^ k \<le> 2 ^ 30" using Suc.prems(5) by linarith
    have "2 * m \<le> (2 * m) * 2 ^ k" using m by simp
    also note le
    finally have "2 * m < 2 ^ 31" by simp
    then have dbl: "double_i32 oc m = Ok (2 * m)" using m by (simp add: double_i32_fits)
    from Suc.IH [of sel1 ?curr "2 * m"] s Suc.prems(2) curr(1) m(1) le obtain hit sel2 where
      rec: "halving oc ps (2 * m) ?curr sel1 = Ok (hit, sel2)" "picked ps sel2" "set sel1 \<subseteq> set sel2"
        "hit \<longrightarrow> 2 * worth sel2 = 2 * worth sel1 + nat (2 * m) * 2 ^ k"
        "\<not> hit \<longrightarrow> (\<forall>p \<in> set ps. \<forall>j < k. unat (amount p) = 2 ^ j \<longrightarrow> p \<in> set sel2)" by auto
    have "nat n = c + nat m" using m c by (auto simp: m_def)
    then have "hit \<longrightarrow> 2 * worth sel2 = 2 * worth sel + nat n * 2 ^ Suc k"
      using rec(4) s curr(1) m(1) by (auto simp: algebra_simps nat_mult_distrib)
    moreover have "p \<in> set sel2" if "\<not> hit" "p \<in> set ps" "j < Suc k" "unat (amount p) = 2 ^ j" for p j
    proof (cases "j = k")
      case True
      then have "amount p = ?curr" using that curr(1) by (simp add: word_unat_eq_iff)
      then show ?thesis using s c that rec(3) by auto
    next
      case False
      then show ?thesis using that rec(5) by auto
    qed
    moreover have "halving oc ps n target sel = Ok (hit, sel2)"
      using eq dbl rec(1) False m(1) by (simp add: m_def [symmetric])
    ultimately show ?thesis using rec(2,3) s by blast
  qed
qed

definition small_power :: "Amount \<Rightarrow> bool" where
  "small_power a \<longleftrightarrow> (\<exists>k < 30. unat a = 2 ^ k)"

definition powers_of_two :: "Proof list \<Rightarrow> bool" where
  "powers_of_two ps \<longleftrightarrow> (\<forall>p \<in> set ps. \<exists>j. unat (amount p) = 2 ^ j)"

lemma picked_mono: "picked ps sel \<Longrightarrow> picked ps sel' \<Longrightarrow> set sel \<subseteq> set sel' \<Longrightarrow> worth sel \<le> worth sel'"
  by (simp add: picked_def worth_mono)

lemma select_remaining_step:
  assumes "picked ps sel" "descending ps" "powers_of_two ps" "small_power r"
    and "\<And>p. p \<in> set ps \<Longrightarrow> amount p = r \<Longrightarrow> p \<in> set sel"
  shows "\<exists>sel'. select_remaining oc ps sel r = Ok sel' \<and> picked ps sel' \<and> set sel \<subseteq> set sel'
    \<and> (set ps \<subseteq> set sel' \<or> worth sel + unat r \<le> worth sel')"
proof -
  from assms(4) obtain k where k: "k < 30" "unat r = 2 ^ k" by (auto simp: small_power_def)
  have "(2 :: int) * 2 ^ k \<le> 2 ^ 30"
    using power_increasing [of "Suc k" 30 "2 :: int"] k(1) by simp
  with halving_step [OF assms(1,2) k(2), of 2 oc] obtain hit sel1 where
    h: "halving oc ps 2 r sel = Ok (hit, sel1)" "picked ps sel1" "set sel \<subseteq> set sel1"
      "hit \<longrightarrow> 2 * worth sel1 = 2 * worth sel + 2 * 2 ^ k"
      "\<not> hit \<longrightarrow> (\<forall>p \<in> set ps. \<forall>j < k. unat (amount p) = 2 ^ j \<longrightarrow> p \<in> set sel1)" by auto
  obtain hit2 sel2 where two: "select_proof ps r False sel1 = (hit2, sel2)" by fastforce
  note t = select_proof_step [OF two h(2) assms(2)]
  show ?thesis
  proof (cases hit)
    case True
    then show ?thesis using h k(2) by (auto simp: select_remaining_def)
  next
    case False
    have "set ps \<subseteq> set sel2" if "\<not> hit2"
    proof
      fix p assume p: "p \<in> set ps"
      with assms(3) obtain j where j: "unat (amount p) = 2 ^ j" by (auto simp: powers_of_two_def)
      show "p \<in> set sel2"
      proof (cases "j < k")
        case True
        then show ?thesis using h(5) False p j t(2) by blast
      next
        case False
        then have "2 ^ k \<le> (2 :: nat) ^ j" by simp
        then have "r \<le> amount p" using j k(2) by (simp add: word_le_nat_alt)
        then show ?thesis using t(6) [OF that p] by simp
      qed
    qed
    moreover have "worth sel \<le> worth sel1" using picked_mono [OF assms(1) h(2,3)] .
    then have "worth sel + unat r \<le> worth sel2" if hit2 using t(3) that by simp
    ultimately show ?thesis
      using h False two t(1,2) by (auto simp: select_remaining_def)
  qed
qed

lemma select_all_remaining:
  assumes "picked ps sel" "descending ps" "powers_of_two ps" "\<forall>r \<in> set rs. small_power r"
    and "\<And>p. p \<in> set ps \<Longrightarrow> amount p \<in> set rs \<Longrightarrow> p \<in> set sel"
  shows "\<exists>sel'. try_fold (select_remaining oc ps) sel rs = Ok sel' \<and> picked ps sel' \<and> set sel \<subseteq> set sel'
    \<and> (set ps \<subseteq> set sel' \<or> worth sel + total rs \<le> worth sel')"
  using assms(1,4,5)
proof (induction rs arbitrary: sel)
  case (Cons r rs)
  from select_remaining_step [OF Cons.prems(1) assms(2,3), of r oc] Cons.prems(2,3) obtain sel1 where
    one: "select_remaining oc ps sel r = Ok sel1" "picked ps sel1" "set sel \<subseteq> set sel1"
      "set ps \<subseteq> set sel1 \<or> worth sel + unat r \<le> worth sel1" by auto
  from Cons.IH [OF one(2)] Cons.prems(2,3) one(3) obtain sel2 where
    two: "try_fold (select_remaining oc ps) sel1 rs = Ok sel2" "picked ps sel2" "set sel1 \<subseteq> set sel2"
      "set ps \<subseteq> set sel2 \<or> worth sel1 + total rs \<le> worth sel2" by auto
  show ?case using one two by fastforce
qed simp

text \<open>The optimal parts: what is picked and what is missing are worth the parts.\<close>

lemma select_optimal_fold:
  assumes "foldl (select_optimal ps) (sel, rem) parts = (sel', rem')" "picked ps sel" "descending ps"
  shows "\<exists>miss. rem' = rem @ miss \<and> set miss \<subseteq> set parts \<and> worth sel' + total miss = worth sel + total parts
    \<and> picked ps sel' \<and> set sel \<subseteq> set sel' \<and> (\<forall>p \<in> set ps. amount p \<in> set miss \<longrightarrow> p \<in> set sel')"
  using assms(1,2)
proof (induction parts arbitrary: sel rem)
  case (Cons a parts)
  obtain hit sel1 where one: "select_proof ps a True sel = (hit, sel1)" by fastforce
  note s = select_proof_step [OF one Cons.prems(2) assms(3)]
  from Cons.prems(1) one have "foldl (select_optimal ps) (sel1, if hit then rem else rem @ [a]) parts = (sel', rem')"
    by (simp add: select_optimal_def)
  from Cons.IH [OF this s(1)] obtain miss where
    m: "rem' = (if hit then rem else rem @ [a]) @ miss" "set miss \<subseteq> set parts"
      "worth sel' + total miss = worth sel1 + total parts" "picked ps sel'" "set sel1 \<subseteq> set sel'"
      "\<forall>p \<in> set ps. amount p \<in> set miss \<longrightarrow> p \<in> set sel'" by blast
  show ?case
  proof (cases hit)
    case True
    with m s(2,4) show ?thesis by (intro exI [of _ miss]) auto
  next
    case False
    have "p \<in> set sel'" if "p \<in> set ps" "amount p = a" for p
      using s(6) [OF False that(1)] that(2) m(5) by blast
    with m s(2,7) False show ?thesis by (intro exI [of _ "a # miss"]) auto
  qed
qed simp

definition fitting :: "Amount \<Rightarrow> FeeAndAmounts \<Rightarrow> bool" where
  "fitting a fa \<longleftrightarrow> (\<exists>n \<le> 64. amounts fa = pow2_amounts n \<and> unat a < 2 ^ n)"

lemma member_le_total: "x \<in> set xs \<Longrightarrow> unat x \<le> total xs"
  by (simp add: total_def member_le_sum_list)

lemma split_small_powers:
  assumes "fitting a fa" "unat a < 2 ^ 30"
  obtains parts where "amount_split a fa = Ok parts" "total parts = unat a" "\<forall>r \<in> set parts. small_power r"
proof -
  from assms(1) obtain n where n: "n \<le> 64" "amounts fa = pow2_amounts n" "unat a < 2 ^ n" by (auto simp: fitting_def)
  from amount_split_exact [OF n] obtain parts where parts: "amount_split a fa = Ok parts" "total parts = unat a" by blast
  have "small_power r" if r: "r \<in> set parts" for r
  proof -
    from amount_split_members [OF parts(1)] r n(2) obtain i where i: "unat r = 2 ^ i"
      using unat_pow2_amounts [OF n(1)] by auto
    have "(2 :: nat) ^ i < 2 ^ 30" using member_le_total [OF r] parts(2) assms(2) i by simp
    then have "i < 30" by (rule power_less_imp_less_exp [rotated]) simp
    with i show ?thesis by (auto simp: small_power_def)
  qed
  with parts that show thesis by blast
qed

lemma select_optimal_amounts_step:
  assumes "picked ps sel" "descending ps" "unat a < 2 ^ 30" "\<forall>(_, fa) \<in> set fees. fitting a fa"
  shows "\<exists>sel' rem. select_optimal_amounts a ps fees sel = Ok (sel', rem) \<and> picked ps sel'
    \<and> (\<forall>p \<in> set ps. amount p \<in> set rem \<longrightarrow> p \<in> set sel') \<and> (\<forall>r \<in> set rem. small_power r)
    \<and> (fees \<noteq> [] \<longrightarrow> unat a \<le> worth sel' + total rem)"
proof -
  let ?step = "\<lambda>st (_ :: Id, fa). and_then (map_err E_AmountError (amount_split a fa)) (\<lambda>parts.
        Ok (foldl (select_optimal ps) st parts))"
  have "\<exists>sel' rem'. try_fold ?step (sel, rem) fees = Ok (sel', rem') \<and> picked ps sel'
      \<and> (\<forall>p \<in> set ps. amount p \<in> set rem' \<longrightarrow> p \<in> set sel') \<and> (\<forall>r \<in> set rem'. small_power r)
      \<and> (fees \<noteq> [] \<or> unat a \<le> worth sel + total rem \<longrightarrow> unat a \<le> worth sel' + total rem')"
    if "picked ps sel" "\<forall>(_, fa) \<in> set fees. fitting a fa"
      and "\<forall>p \<in> set ps. amount p \<in> set rem \<longrightarrow> p \<in> set sel" "\<forall>r \<in> set rem. small_power r" for rem
    using that
  proof (induction fees arbitrary: sel rem)
    case (Cons x fees)
    obtain i fa where x: "x = (i, fa)" by fastforce
    from split_small_powers [of a fa] Cons.prems(2) assms(3) x obtain parts where
      parts: "amount_split a fa = Ok parts" "total parts = unat a" "\<forall>r \<in> set parts. small_power r" by auto
    obtain sel1 rem1 where f: "foldl (select_optimal ps) (sel, rem) parts = (sel1, rem1)" by fastforce
    from select_optimal_fold [OF f Cons.prems(1) assms(2)] obtain miss where
      m: "rem1 = rem @ miss" "set miss \<subseteq> set parts" "worth sel1 + total miss = worth sel + total parts"
        "picked ps sel1" "set sel \<subseteq> set sel1" "\<forall>p \<in> set ps. amount p \<in> set miss \<longrightarrow> p \<in> set sel1" by blast
    have "unat a \<le> worth sel1 + total rem1" using m(1,3) parts(2) by (simp add: total_def)
    moreover have "\<forall>p \<in> set ps. amount p \<in> set rem1 \<longrightarrow> p \<in> set sel1" using m(1,5,6) Cons.prems(3) by auto
    moreover have "\<forall>r \<in> set rem1. small_power r" using m(1,2) parts(3) Cons.prems(4) by auto
    ultimately show ?case using Cons.IH [OF m(4)] Cons.prems(2) parts(1) f x by fastforce
  qed simp
  from this [of "[]"] assms(1,4) show ?thesis unfolding select_optimal_amounts_def by fastforce
qed

text \<open>The reduction keeps enough.\<close>

lemma total_amount_fits: "worth ps < 2 ^ 64 \<Longrightarrow> \<exists>t. total_amount ps = Ok t \<and> unat t = worth ps"
  by (rule exI [of _ "of_nat (worth ps)"]) (simp add: total_amount_Ok_iff unat_of_nat)

lemma worth_take_drop: "worth (take k ps) + worth (drop k ps) = worth ps"
  by (simp add: total_def flip: sum_list_append map_append)

lemma worth_subseq: "subseq xs ys \<Longrightarrow> worth xs \<le> worth ys"
  by (induction rule: list_emb.induct) (auto simp: total_def)

lemma select_least_amount_over_enough:
  "worth ps < 2 ^ 64 \<Longrightarrow> unat a \<le> worth ps
     \<Longrightarrow> \<exists>xs. select_least_amount_over ps a = Ok xs \<and> subseq xs ps \<and> unat a \<le> worth xs"
  "worth ps < 2 ^ 64 \<Longrightarrow> unat a \<le> worth ps
     \<Longrightarrow> \<exists>xs. least_split ps a k = Ok xs \<and> subseq xs ps \<and> unat a \<le> worth xs"
proof (induction ps a and ps a k rule: select_least_amount_over_least_split.induct)
  case (1 ps a)
  obtain t where t: "total_amount ps = Ok t" "unat t = worth ps" using total_amount_fits [OF 1(2)] by blast
  then have "\<not> t < a" using 1(3) by (simp add: word_less_nat_alt)
  with 1 t show ?case by (auto simp: select_least_amount_over.simps [of ps a])
next
  case (2 ps a k)
  let ?l = "take (Suc k) ps" and ?r = "drop (Suc k) ps"
  have fits: "worth ?l < 2 ^ 64" "worth ?r < 2 ^ 64" using worth_take_drop [of "Suc k" ps] 2(6) by linarith+
  obtain tl tr where t: "total_amount ?l = Ok tl" "unat tl = worth ?l" "total_amount ?r = Ok tr" "unat tr = worth ?r"
    using fits total_amount_fits by metis
  show ?case
  proof (cases "length ps \<le> Suc k")
    case True
    then show ?thesis using 2(7) by (simp add: least_split.simps [of ps a k])
  next
    case False
    have sub: "subseq xs ps" if "subseq xs ?l \<or> subseq xs ?r" for xs
      using that subseq_order.trans [of xs ?l ps] subseq_order.trans [of xs ?r ps]
        prefix_imp_subseq [OF take_is_prefix, of "Suc k" ps] suffix_imp_subseq [OF suffix_drop, of "Suc k" ps] by blast
    have eq: "least_split ps a k = (if a \<le> tl \<and> a \<le> tr then
          (case (select_least_amount_over ?l a, select_least_amount_over ?r a) of
             (Ok x, Ok y) \<Rightarrow> and_then (map_err (E_NUT00 \<circ> Nut00Amount) (total_amount x)) (\<lambda>tx.
               and_then (map_err (E_NUT00 \<circ> Nut00Amount) (total_amount y)) (\<lambda>ty. Ok (if tx < ty then x else y)))
           | (Ok x, Err _) \<Rightarrow> Ok x | (Err _, Ok y) \<Rightarrow> Ok y | (Err _, Err _) \<Rightarrow> Err E_InsufficientFunds | _ \<Rightarrow> Panic)
        else if a \<le> tl then select_least_amount_over ?l a
        else if a \<le> tr then select_least_amount_over ?r a
        else least_split ps a (Suc k))"
      using False t by (simp add: least_split.simps [of ps a k] Let_def)
    have left: "\<exists>xs. select_least_amount_over ?l a = Ok xs \<and> subseq xs ?l \<and> unat a \<le> worth xs" if "a \<le> tl"
      using 2(1) [OF False refl refl, of tl tr] 2(3) [OF False refl refl, of tl tr] that fits t
      by (cases "a \<le> tr") (auto simp: word_le_nat_alt)
    have right: "\<exists>xs. select_least_amount_over ?r a = Ok xs \<and> subseq xs ?r \<and> unat a \<le> worth xs" if "a \<le> tr"
      using 2(2) [OF False refl refl, of tl tr] 2(4) [OF False refl refl, of tl tr] that fits t
      by (cases "a \<le> tl") (auto simp: word_le_nat_alt)
    consider "a \<le> tl" "a \<le> tr" | "a \<le> tl" "\<not> a \<le> tr" | "\<not> a \<le> tl" "a \<le> tr" | "\<not> a \<le> tl" "\<not> a \<le> tr" by blast
    then show ?thesis
    proof cases
      case 1
      from left [OF 1(1)] right [OF 1(2)] obtain x y where
        x: "select_least_amount_over ?l a = Ok x" "subseq x ?l" "unat a \<le> worth x"
        and y: "select_least_amount_over ?r a = Ok y" "subseq y ?r" "unat a \<le> worth y" by blast
      have "worth x < 2 ^ 64" "worth y < 2 ^ 64" using fits worth_subseq [OF x(2)] worth_subseq [OF y(2)] by linarith+
      then obtain tx ty where "total_amount x = Ok tx" "total_amount y = Ok ty" using total_amount_fits by blast
      then show ?thesis using eq 1 x y sub by auto
    next
      case 2
      then show ?thesis using eq left [OF 2(1)] sub by auto
    next
      case 3
      then show ?thesis using eq right [OF 3(2)] sub by auto
    next
      case 4
      then show ?thesis using eq 2(5) [OF False refl refl, of tl tr] 2(6,7) by auto
    qed
  qed
qed

lemma reduce_selection_enough:
  assumes "worth sel < 2 ^ 64" "unat a \<le> worth sel"
  shows "\<exists>xs. reduce_selection a sel = Ok xs \<and> (subseq xs sel \<or> subseq xs (sort_descending sel)) \<and> unat a \<le> worth xs"
proof -
  obtain t where "total_amount sel = Ok t" using total_amount_fits [OF assms(1)] by blast
  moreover have "worth (sort_descending sel) = worth sel" by (rule worth_mset) simp
  ultimately show ?thesis
    using assms select_least_amount_over_enough(1) [of "sort_descending sel" a] by (auto simp: reduce_selection_def)
qed

lemma subseq_picked: "subseq xs ys \<Longrightarrow> set xs \<subseteq> set ys \<and> (distinct ys \<longrightarrow> distinct xs)"
  by (induction rule: list_emb.induct) auto

lemma reduce_selection_subset:
  assumes "reduce_selection a sel = Ok qs"
  shows "set qs \<subseteq> set sel"
proof -
  from assms obtain t where t: "total_amount sel = Ok t"
    and "qs = sel \<or> select_least_amount_over (sort_descending sel) a = Ok qs"
    by (auto simp: reduce_selection_def split: if_splits)
  then consider "qs = sel" | "select_least_amount_over (sort_descending sel) a = Ok qs" by blast
  then show ?thesis
  proof cases
    case 2
    then obtain u where u: "total_amount (sort_descending sel) = Ok u" "a \<le> u"
      by (subst (asm) select_least_amount_over.simps) (auto split: if_splits)
    have "worth (sort_descending sel) < 2 ^ 64" "unat a \<le> worth (sort_descending sel)"
      using u unsigned_less [of u] by (simp_all add: total_amount_Ok_iff word_le_nat_alt)
    from select_least_amount_over_enough(1) [OF this] 2 subseq_picked [of qs "sort_descending sel"] show ?thesis by auto
  qed simp
qed

lemma select_candidates_subset:
  assumes shuffle: "\<And>ps. set (shuffle ps) = set ps"
    and run: "select_candidates oc shuffle a ps active fees = Ok c"
  shows "case c of Chosen qs \<Rightarrow> set qs \<subseteq> set ps | Candidate sp qs \<Rightarrow> set sp = set ps \<and> set qs \<subseteq> set ps"
proof -
  let ?sp = "sort_descending ps"
  let ?in = "remdups (filter (\<lambda>p. \<not> proof_is_active active p) ?sp)"
  have inactive: "set ?in \<subseteq> set ps" by auto
  from run consider "c = Chosen []" | "c = Chosen (shuffle ?in)"
    | sel where "select_optimal_amounts a ?sp fees ?in = Ok (sel, [])" "c = Candidate ?sp (shuffle sel)"
    | sel r rs sel' qs where "select_optimal_amounts a ?sp fees ?in = Ok (sel, r # rs)"
      "try_fold (select_remaining oc ?sp) sel (r # rs) = Ok sel'" "reduce_selection a (shuffle sel') = Ok qs" "c = Candidate ?sp qs"
    unfolding select_candidates_def Let_def
    by (auto split: if_splits simp del: try_fold.simps) (metis neq_Nil_conv)
  then show ?thesis
  proof cases
    case (3 sel)
    then show ?thesis using inactive shuffle select_optimal_amounts_subset [of a ?sp ?in "[]" fees sel "[]"]
      by (auto simp: select_optimal_amounts_def)
  next
    case (4 sel r rs sel' qs)
    have "set sel \<subseteq> set ps" using 4(1) inactive select_optimal_amounts_subset [of a ?sp ?in "[]" fees sel "r # rs"]
      by (auto simp: select_optimal_amounts_def)
    then have "set qs \<subseteq> set ps" using select_all_remaining_subset [OF 4(2)] reduce_selection_subset [OF 4(3)] shuffle by auto
    then show ?thesis using 4 by simp
  qed (use inactive shuffle in auto)
qed

lemma select_proofs_subset:
  assumes shuffle: "\<And>ps. set (shuffle ps) = set ps"
    and run: "select_proofs oc shuffle a ps active fees with_fees = Ok qs"
  shows "set qs \<subseteq> set ps"
proof -
  from run obtain c where c: "select_candidates oc shuffle a ps active fees = Ok c"
    and rest: "(case c of Chosen ps \<Rightarrow> Ok ps | Candidate sorted_proofs ps \<Rightarrow>
      if with_fees then include_fees oc shuffle a sorted_proofs ps active fees else Ok ps) = Ok qs"
    by (auto simp: select_proofs_def)
  note sub = select_candidates_subset [OF shuffle c]
  show ?thesis
  proof (cases c)
    case (Candidate sp sel)
    have more: "set m \<subseteq> set sp" if m: "select_without_fees oc shuffle b (filter (\<lambda>p. p \<notin> set sel) sp) active [] = Ok m" for b m
    proof -
      from m obtain d where "select_candidates oc shuffle b (filter (\<lambda>p. p \<notin> set sel) sp) active [] = Ok d"
        "(case d of Chosen ps \<Rightarrow> Ok ps | Candidate _ ps \<Rightarrow> Ok ps) = (Ok m :: (Error, Proof list) outcome)"
        by (auto simp: select_without_fees_def)
      with select_candidates_subset [OF shuffle this(1)] show ?thesis by (auto split: selection.splits)
    qed
    with rest sub Candidate show ?thesis by (auto simp: include_fees_def split: if_splits dest!: more)
  qed (use rest sub in auto)
qed

lemma picked_reorder:
  assumes "picked ps sel" "subseq xs ys" "mset ys = mset sel"
  shows "picked ps xs"
proof -
  have "set ys = set sel" "distinct ys" using assms(1,3) by (metis mset_eq_setD, metis mset_eq_imp_distinct_iff picked_def)
  then show ?thesis using assms(1,2) subseq_picked by (auto simp: picked_def)
qed

lemma select_candidates_enough:
  assumes "\<forall>xs. mset (shuffle xs) = mset xs" "distinct ps" "powers_of_two ps" "worth ps < 2 ^ 64"
    and "fees \<noteq> []" "\<forall>(_, fa) \<in> set fees. fitting a fa" "unat a < 2 ^ 30" "unat a \<le> worth ps"
  shows "\<exists>s sel. select_candidates oc shuffle a ps active fees = Ok s
    \<and> (s = Chosen sel \<or> s = Candidate (sort_descending ps) sel) \<and> picked ps sel \<and> unat a \<le> worth sel"
proof (cases "a = 0")
  case True
  then show ?thesis by (auto simp: select_candidates_def picked_def)
next
  case False
  let ?ps = "sort_descending ps"
  let ?in = "remdups (filter (\<lambda>p. \<not> proof_is_active active p) ?ps)"
  have d: "distinct ?ps" using assms(2) mset_eq_imp_distinct_iff [of ?ps ps] by simp
  have pp: "powers_of_two ?ps" using assms(3) by (simp add: powers_of_two_def)
  have pick: "picked ?ps = picked ps" by (auto simp: picked_def fun_eq_iff)
  have bound: "worth sel < 2 ^ 64" if "picked ps sel" for sel
    using that worth_mono [of sel ps] assms(2,4) by (simp add: picked_def)
  have same: "worth (shuffle sel) = worth sel" "picked ps (shuffle sel) \<longleftrightarrow> picked ps sel" for sel
    using assms(1) worth_mset [of "shuffle sel" sel] mset_eq_setD [of "shuffle sel" sel]
      mset_eq_imp_distinct_iff [of "shuffle sel" sel] by (simp_all add: picked_def)
  have pin: "picked ps ?in" by (auto simp: picked_def)
  obtain t ti where t: "total_amount ps = Ok t" "unat t = worth ps" "total_amount ?in = Ok ti" "unat ti = worth ?in"
    using total_amount_fits [OF assms(4)] total_amount_fits [OF bound [OF pin]] by blast
  from select_optimal_amounts_step [of ?ps ?in a fees] pin pick assms(6,7) obtain sel rem where
    o: "select_optimal_amounts a ?ps fees ?in = Ok (sel, rem)" "picked ps sel"
      "\<forall>p \<in> set ps. amount p \<in> set rem \<longrightarrow> p \<in> set sel" "\<forall>r \<in> set rem. small_power r" "unat a \<le> worth sel + total rem"
    using assms(5) by auto
  from select_all_remaining [of ?ps sel rem oc] o(2-4) pick pp obtain sel2 where
    r: "try_fold (select_remaining oc ?ps) sel rem = Ok sel2" "picked ps sel2"
      "set ps \<subseteq> set sel2 \<or> worth sel + total rem \<le> worth sel2" by auto
  have enough: "unat a \<le> worth sel2"
    using r(3) o(5) assms(8) worth_mono [OF assms(2), of sel2] r(2) by (auto simp: picked_def)
  have le: "a \<le> t" using t(2) assms(8) by (simp add: word_le_nat_alt)
  have eq: "select_candidates oc shuffle a ps active fees = (if a \<le> ti then Ok (Chosen (shuffle ?in))
      else if rem = [] then Ok (Candidate ?ps (shuffle sel))
      else and_then (reduce_selection a (shuffle sel2)) (\<lambda>reduced. Ok (Candidate ?ps reduced)))"
    using False t(1,3) o(1) r(1) le by (simp add: select_candidates_def Let_def ensure_def)
  consider "a \<le> ti" | "\<not> a \<le> ti" "rem = []" | "\<not> a \<le> ti" "rem \<noteq> []" by blast
  then show ?thesis
  proof cases
    case 1
    then show ?thesis using eq pin same t(4) by (auto simp: word_le_nat_alt)
  next
    case 2
    then show ?thesis using eq o(2,5) same by auto
  next
    case 3
    from reduce_selection_enough [of "shuffle sel2" a] same r(2) enough bound [OF r(2)] obtain xs where
      x: "reduce_selection a (shuffle sel2) = Ok xs" "unat a \<le> worth xs"
        "subseq xs (shuffle sel2) \<or> subseq xs (sort_descending (shuffle sel2))" by auto
    then have "picked ps xs" using picked_reorder [OF r(2)] assms(1) by auto
    then show ?thesis using eq 3 x(1,2) by auto
  qed
qed

text \<open>
  C10: The wallet finds the proofs for a payment whenever it has them. With proofs and keysets of the
  usual powers of two, at least one keyset, proofs worth less than \<open>2 ^ 64\<close>, an amount
  below \<open>2 ^ 30\<close> and no fees to be included, the selection fails exactly when the proofs are
  worth less than the amount; otherwise it is a set of the wallet's proofs, none of them twice, that
  is worth at least the amount.
\<close>

theorem select_proofs_enough:
  assumes "\<forall>xs. mset (shuffle xs) = mset xs" "distinct ps" "powers_of_two ps" "worth ps < 2 ^ 64"
    and "fees \<noteq> []" "\<forall>(_, fa) \<in> set fees. fitting a fa" "unat a < 2 ^ 30"
  shows "if unat a \<le> worth ps
    then \<exists>sel. select_proofs oc shuffle a ps active fees False = Ok sel \<and> distinct sel \<and> set sel \<subseteq> set ps
      \<and> unat a \<le> worth sel
    else select_proofs oc shuffle a ps active fees False = Err E_InsufficientFunds"
proof (cases "unat a \<le> worth ps")
  case True
  from select_candidates_enough [OF assms True] show ?thesis
    using True by (fastforce simp: select_proofs_def picked_def)
next
  case False
  obtain t where "total_amount ps = Ok t" "unat t = worth ps" using total_amount_fits [OF assms(4)] by blast
  with False show ?thesis
    by (auto simp: select_proofs_def select_candidates_def ensure_def word_le_nat_alt)
qed

definition coin :: "char \<Rightarrow> Amount \<Rightarrow> Proof" where
  "coin c a = \<lparr>amount = a, keyset_id = example_id, secret = [c], proof_c = [], witness = None, dleq = None\<rparr>"

definition coin_keyset :: "u64 \<Rightarrow> (Id \<times> FeeAndAmounts) list" where
  "coin_keyset f = [(example_id, \<lparr>fee = f, amounts = pow2_amounts 8\<rparr>)]"

theorem select_proofs_enough_witness:
  "\<exists>sel. select_proofs True id 10 [coin CHR ''a'' 64, coin CHR ''b'' 4, coin CHR ''c'' 32] [example_id]
      (coin_keyset 100) False = Ok sel
    \<and> distinct sel \<and> set sel \<subseteq> {coin CHR ''a'' 64, coin CHR ''b'' 4, coin CHR ''c'' 32} \<and> 10 \<le> worth sel"
proof -
  have p: "powers_of_two [coin CHR ''a'' 64, coin CHR ''b'' 4, coin CHR ''c'' 32]"
    using exI [of "\<lambda>j. 64 = (2 :: nat) ^ j" 6] exI [of "\<lambda>j. 4 = (2 :: nat) ^ j" 2] exI [of "\<lambda>j. 32 = (2 :: nat) ^ j" 5]
    by (simp add: powers_of_two_def coin_def)
  have "fitting 10 \<lparr>fee = 100, amounts = pow2_amounts 8\<rparr>" unfolding fitting_def by (rule exI [of _ 8]) simp
  with select_proofs_enough [OF _ _ p, of id "coin_keyset 100" 10 True "[example_id]"] show ?thesis
    by (simp add: coin_keyset_def coin_def)
qed

text \<open>
  C39: Asking for fees to be included does not change the selection. \<open>include_fees\<close> looks for the missing
  amount with an empty map of keysets, for which no proof is ever searched, so when all proofs are of
  active keysets a selection that succeeds is the one without fees, whatever the fee.
\<close>

theorem fees_never_included:
  assumes "\<forall>xs. mset (shuffle xs) = mset xs" "\<forall>p \<in> set ps. proof_is_active active p"
    and "select_proofs oc shuffle a ps active fees True = Ok sel"
  shows "select_proofs oc shuffle a ps active fees False = Ok sel"
proof -
  have none: "select_without_fees oc shuffle b qs active [] = Ok more \<Longrightarrow> more = []"
    if "set qs \<subseteq> set ps" for b qs more
  proof -
    have "filter (\<lambda>p. \<not> proof_is_active active p) (sort_descending qs) = []"
      using that assms(2) by (auto simp: filter_empty_conv)
    moreover have "shuffle [] = []" using assms(1) by (metis mset_zero_iff)
    ultimately show "select_without_fees oc shuffle b qs active [] = Ok more \<Longrightarrow> more = []"
      by (auto simp: select_without_fees_def select_candidates_def select_optimal_amounts_def Let_def split: if_splits)
  qed
  from assms(3) obtain s where s: "select_candidates oc shuffle a ps active fees = Ok s" by (auto simp: select_proofs_def)
  show ?thesis
  proof (cases s)
    case (Candidate qs xs)
    then have "qs = sort_descending ps"
      using s by (auto simp: select_candidates_def Let_def split: if_splits)
    then have "set (filter (\<lambda>p. p \<notin> set xs) qs) \<subseteq> set ps" by auto
    from none [OF this] have "include_fees oc shuffle a qs xs active fees = Ok sel \<Longrightarrow> sel = xs"
      by (auto simp: include_fees_def split: if_splits)
    then show ?thesis using assms(3) s Candidate by (simp add: select_proofs_def)
  qed (use assms(3) s in \<open>simp add: select_proofs_def\<close>)
qed

theorem fees_never_included_witness:
  "select_proofs True id 4 [coin CHR ''a'' 4, coin CHR ''b'' 1] [example_id] (coin_keyset 1000) True = Ok [coin CHR ''a'' 4]
    \<and> selection_fee True [coin CHR ''a'' 4] (coin_keyset 1000) = Ok 1
    \<and> select_proofs True id 4 [coin CHR ''a'' 4, coin CHR ''b'' 1] [example_id] (coin_keyset 1000) False = Ok [coin CHR ''a'' 4]"
proof -
  have fee: "selection_fee True [coin CHR ''a'' 4] (coin_keyset 1000) = Ok 1"
    by (simp add: selection_fee_def calculate_fee_def count_by_keyset_def fee_step_def mul_unchecked_def coin_keyset_def coin_def
        checked_add_def checked_mul_def)
  have "select_proofs True id 4 [coin CHR ''a'' 4, coin CHR ''b'' 1] [example_id] (coin_keyset 1000) True = Ok [coin CHR ''a'' 4]"
    using fee by (simp add: select_proofs_def select_candidates_def select_optimal_amounts_def amount_split_def coin_keyset_def
        coin_def sort_descending_def total_amount_def try_sum_def checked_add_def ensure_def proof_is_active_def Let_def
        select_optimal_def select_proof_def split_step_def pow2_amounts_def upt_rec include_fees_def amount_sub_def
        checked_sub_def select_without_fees_def)
  moreover note fee
  ultimately show ?thesis
    using fees_never_included [of id "[coin CHR ''a'' 4, coin CHR ''b'' 1]" "[example_id]" True 4 "coin_keyset 1000"]
    by (simp add: proof_is_active_def coin_def)
qed

end
