(* ===== verification/WalletDb.thy ===== *)
theory WalletDb
  imports Errors
begin

text \<open>
  What a wallet keeps: its records (\<^verbatim>\<open>crates/cdk-common/src/common.rs\<close>, \<^verbatim>\<open>wallet.rs\<close>) and the SQL store
  (\<^verbatim>\<open>crates/cdk-sql-common/src/wallet/mod.rs\<close>) with its proofs, quotes, keys, keysets, counters and
  transactions. The table of mint descriptions, and with it the foreign key of the keysets, is left
  out. A text column that holds a serialised value is the value. The locale \<open>wallet_store\<close> is what the
  wallet relies on of a store of proofs; it is interpreted on the SQL store here, and on the store of
  the checker in \<^verbatim>\<open>CheckerStore\<close>.
\<close>

section \<open>Records of the wallet\<close>

type_synonym MintUrl = string

record ProofInfo =
  pi_proof :: Proof
  pi_y :: PublicKey
  pi_mint_url :: MintUrl
  pi_state :: State
  pi_spending_condition :: "SpendingConditions option"
  pi_unit :: CurrencyUnit

definition proof_info_new ::
  "externs \<Rightarrow> Proof \<Rightarrow> MintUrl \<Rightarrow> State \<Rightarrow> CurrencyUnit \<Rightarrow> (Error, ProofInfo) outcome" where
  "proof_info_new e p url st u =
     and_then (map_err (E_NUT00 \<circ> Nut00DHKE) (proof_y e p)) (\<lambda>y.
     case sc_try_from_secret e (secret p) of
       Panic \<Rightarrow> Panic
     | r \<Rightarrow> Ok \<lparr>pi_proof = p, pi_y = y, pi_mint_url = url, pi_state = st, pi_spending_condition = ok r, pi_unit = u\<rparr>)"

definition matches_conditions ::
  "MintUrl option \<Rightarrow> CurrencyUnit option \<Rightarrow> State list option \<Rightarrow> SpendingConditions list option \<Rightarrow> ProofInfo \<Rightarrow> bool" where
  "matches_conditions url u sts conds p \<longleftrightarrow>
     (case url of Some x \<Rightarrow> x = pi_mint_url p | None \<Rightarrow> True)
     \<and> (case u of Some x \<Rightarrow> x = pi_unit p | None \<Rightarrow> True)
     \<and> (case sts of Some xs \<Rightarrow> pi_state p \<in> set xs | None \<Rightarrow> True)
     \<and> (case conds of
          Some cs \<Rightarrow> (case pi_spending_condition p of None \<Rightarrow> cs = [] | Some c \<Rightarrow> c \<in> set cs)
        | None \<Rightarrow> True)"

record WalletMintQuote =
  wmq_id :: string
  wmq_mint_url :: MintUrl
  wmq_payment_method :: PaymentMethod
  wmq_amount :: "Amount option"
  wmq_unit :: CurrencyUnit
  wmq_request :: string
  wmq_state :: MintQuoteState
  wmq_expiry :: u64
  wmq_secret_key :: "SecretKey option"
  wmq_amount_issued :: Amount
  wmq_amount_paid :: Amount

definition wallet_mint_quote_new ::
  "string \<Rightarrow> MintUrl \<Rightarrow> PaymentMethod \<Rightarrow> Amount option \<Rightarrow> CurrencyUnit \<Rightarrow> string \<Rightarrow> u64 \<Rightarrow> SecretKey option
     \<Rightarrow> WalletMintQuote" where
  "wallet_mint_quote_new i url method a u request expiry sk =
     \<lparr>wmq_id = i, wmq_mint_url = url, wmq_payment_method = method, wmq_amount = a, wmq_unit = u, wmq_request = request,
      wmq_state = MintUnpaid, wmq_expiry = expiry, wmq_secret_key = sk, wmq_amount_issued = 0, wmq_amount_paid = 0\<rparr>"

definition wallet_quote_is_expired :: "u64 \<Rightarrow> WalletMintQuote \<Rightarrow> bool" where
  "wallet_quote_is_expired now q \<longleftrightarrow> wmq_expiry q < now"

definition wallet_amount_mintable :: "WalletMintQuote \<Rightarrow> Amount" where
  "wallet_amount_mintable q =
     (if wmq_amount_paid q < wmq_amount_issued q then 0
      else let difference = wmq_amount_paid q - wmq_amount_issued q in
        if difference = 0 \<and> wmq_state q \<noteq> MintIssued
        then (case wmq_amount q of Some a \<Rightarrow> a | None \<Rightarrow> difference)
        else difference)"

record WalletMeltQuote =
  wml_id :: string
  wml_unit :: CurrencyUnit
  wml_amount :: Amount
  wml_request :: string
  wml_fee_reserve :: Amount
  wml_state :: MeltQuoteState
  wml_expiry :: u64
  wml_payment_preimage :: "string option"
  wml_payment_method :: PaymentMethod

datatype SendKind = OnlineExact | OnlineTolerance Amount | OfflineExact | OfflineTolerance Amount

fun is_online :: "SendKind \<Rightarrow> bool" where
  "is_online OnlineExact = True"
| "is_online (OnlineTolerance _) = True"
| "is_online _ = False"

fun is_offline :: "SendKind \<Rightarrow> bool" where
  "is_offline OfflineExact = True"
| "is_offline (OfflineTolerance _) = True"
| "is_offline _ = False"

fun has_tolerance :: "SendKind \<Rightarrow> bool" where
  "has_tolerance (OnlineTolerance _) = True"
| "has_tolerance (OfflineTolerance _) = True"
| "has_tolerance _ = False"

datatype TransactionDirection = Incoming | Outgoing

fun direction_string :: "TransactionDirection \<Rightarrow> string" where
  "direction_string Incoming = ''Incoming''"
| "direction_string Outgoing = ''Outgoing''"

definition direction_from_str :: "string \<Rightarrow> TransactionDirection option" where
  "direction_from_str s = (if s = ''Incoming'' then Some Incoming else if s = ''Outgoing'' then Some Outgoing else None)"

record Transaction =
  txn_mint_url :: MintUrl
  txn_direction :: TransactionDirection
  txn_amount :: Amount
  txn_fee :: Amount
  txn_unit :: CurrencyUnit
  txn_ys :: "PublicKey list"
  txn_timestamp :: u64
  txn_memo :: "string option"
  txn_metadata :: "(string \<times> string) list"
  txn_quote_id :: "string option"
  txn_payment_request :: "string option"
  txn_payment_proof :: "string option"

text \<open>Public keys are ordered by their bytes; all have the same length.\<close>

definition pk_number :: "PublicKey \<Rightarrow> int" where
  "pk_number pk = foldl (\<lambda>n b. 256 * n + uint b) 0 pk"

definition transaction_id_new :: "externs \<Rightarrow> PublicKey list \<Rightarrow> bytes" where
  "transaction_id_new e yl = sha256 e (concat (sort_key pk_number yl))"

definition transaction_id_from_proofs :: "externs \<Rightarrow> Proof list \<Rightarrow> (dhke_error, bytes) outcome" where
  "transaction_id_from_proofs e ps = and_then (try_map (proof_y e) ps) (\<lambda>yl. Ok (transaction_id_new e yl))"

definition transaction_id :: "externs \<Rightarrow> Transaction \<Rightarrow> bytes" where
  "transaction_id e t = transaction_id_new e (txn_ys t)"

definition transaction_matches ::
  "MintUrl option \<Rightarrow> TransactionDirection option \<Rightarrow> CurrencyUnit option \<Rightarrow> Transaction \<Rightarrow> bool" where
  "transaction_matches url dir u t \<longleftrightarrow>
     (case url of Some x \<Rightarrow> txn_mint_url t = x | None \<Rightarrow> True)
     \<and> (case dir of Some x \<Rightarrow> txn_direction t = x | None \<Rightarrow> True)
     \<and> (case u of Some x \<Rightarrow> txn_unit t = x | None \<Rightarrow> True)"

section \<open>The SQL store\<close>

record keyset_row =
  kr_mint_url :: MintUrl
  kr_info :: KeySetInfo
  kr_counter :: u32

record WalletSqlDb =
  w_keysets :: "(Id \<times> keyset_row) list"
  w_keys :: "(Id \<times> Keys) list"
  w_mint_quotes :: "(string \<times> WalletMintQuote) list"
  w_melt_quotes :: "(string \<times> WalletMeltQuote) list"
  w_proofs :: "(PublicKey \<times> ProofInfo) list"
  w_transactions :: "(bytes \<times> Transaction) list"

text \<open>\<open>INSERT ... ON CONFLICT(key) DO UPDATE\<close>: the row keeps its place; \<open>merge\<close> says which columns are replaced.\<close>

fun upsert :: "('v \<Rightarrow> 'v \<Rightarrow> 'v) \<Rightarrow> 'k \<Rightarrow> 'v \<Rightarrow> ('k \<times> 'v) list \<Rightarrow> ('k \<times> 'v) list" where
  "upsert merge k v [] = [(k, v)]"
| "upsert merge k v ((j, w) # t) = (if j = k then (j, merge w v) # t else (j, w) # upsert merge k v t)"

abbreviation replace_row :: "'v \<Rightarrow> 'v \<Rightarrow> 'v" where
  "replace_row \<equiv> \<lambda>_ v. v"

definition wallet_update_proofs :: "ProofInfo list \<Rightarrow> PublicKey list \<Rightarrow> WalletSqlDb \<Rightarrow> WalletSqlDb" where
  "wallet_update_proofs added removed_ys db =
     db\<lparr>w_proofs := delete_where (\<lambda>y _. y \<in> set removed_ys)
          (fold (\<lambda>p. upsert replace_row (pi_y p) p) added (w_proofs db))\<rparr>"

text \<open>An amount beyond \<open>i64\<close> is stored as a negative number, whose row is skipped on reading.\<close>

definition wallet_get_proofs ::
  "MintUrl option \<Rightarrow> CurrencyUnit option \<Rightarrow> State list option \<Rightarrow> SpendingConditions list option \<Rightarrow> WalletSqlDb
     \<Rightarrow> ProofInfo list" where
  "wallet_get_proofs url u sts conds db =
     filter (matches_conditions url u sts conds)
       (filter (\<lambda>p. is_ok (read_amount (amount (pi_proof p)))) (map snd (w_proofs db)))"

definition wallet_get_balance ::
  "MintUrl option \<Rightarrow> CurrencyUnit option \<Rightarrow> State list option \<Rightarrow> WalletSqlDb \<Rightarrow> (db_error, u64) outcome" where
  "wallet_get_balance url u sts db =
     (let states = (case sts of Some xs \<Rightarrow> xs | None \<Rightarrow> []);
          rows = filter (\<lambda>p. (case url of Some x \<Rightarrow> pi_mint_url p = x | None \<Rightarrow> True)
             \<and> (case u of Some x \<Rightarrow> pi_unit p = x | None \<Rightarrow> True)
             \<and> (states = [] \<or> pi_state p \<in> set states)) (map snd (w_proofs db));
          balance = sum_list (map (\<lambda>p. sint (amount (pi_proof p))) rows) in
      if - (2 ^ 63) \<le> balance \<and> balance < 2 ^ 63 then Ok (word_of_int balance) else Err DbDatabase)"

definition wallet_update_proofs_state :: "PublicKey list \<Rightarrow> State \<Rightarrow> WalletSqlDb \<Rightarrow> WalletSqlDb" where
  "wallet_update_proofs_state yl st db =
     db\<lparr>w_proofs := update_where (\<lambda>y _. y \<in> set yl) (\<lambda>p. p\<lparr>pi_state := st\<rparr>) (w_proofs db)\<rparr>"

text \<open>The counter is a column of the keyset; without a row the \<open>UPDATE\<close> changes nothing.\<close>

definition wallet_increment_keyset_counter ::
  "bool \<Rightarrow> Id \<Rightarrow> u32 \<Rightarrow> WalletSqlDb \<Rightarrow> (db_error, u32 \<times> WalletSqlDb) outcome" where
  "wallet_increment_keyset_counter overflow_checks i n db =
     (let current_counter = (case map_of (w_keysets db) i of Some r \<Rightarrow> kr_counter r | None \<Rightarrow> 0) in
      and_then (add_unchecked overflow_checks current_counter n) (\<lambda>new_counter.
      Ok (new_counter, db\<lparr>w_keysets := update_where (\<lambda>j _. j = i) (\<lambda>r. r\<lparr>kr_counter := new_counter\<rparr>) (w_keysets db)\<rparr>)))"

text \<open>
  \<open>keyset_u32\<close> is a unique column: a second keyset with the same number is an error and ends the loop;
  rows written before it stay.
\<close>

definition merge_keyset :: "keyset_row \<Rightarrow> keyset_row \<Rightarrow> keyset_row" where
  "merge_keyset old new = old\<lparr>kr_info := (kr_info old)\<lparr>info_active := info_active (kr_info new),
     info_input_fee_ppk := info_input_fee_ppk (kr_info new)\<rparr>\<rparr>"

fun wallet_add_mint_keysets :: "MintUrl \<Rightarrow> KeySetInfo list \<Rightarrow> WalletSqlDb \<Rightarrow> (db_error, unit) outcome \<times> WalletSqlDb" where
  "wallet_add_mint_keysets url [] db = (Ok (), db)"
| "wallet_add_mint_keysets url (k # ks) db =
     (if \<exists>(j, _) \<in> set (w_keysets db). j \<noteq> info_id k \<and> id_to_u32 j = id_to_u32 (info_id k) then (Err DbDuplicate, db)
      else wallet_add_mint_keysets url ks
        (db\<lparr>w_keysets := upsert merge_keyset (info_id k) \<lparr>kr_mint_url = url, kr_info = k, kr_counter = 0\<rparr> (w_keysets db)\<rparr>))"

text \<open>\<open>input_fee_ppk\<close> and \<open>final_expiry\<close> are read back as unsigned numbers.\<close>

definition row_to_keyset :: "keyset_row \<Rightarrow> (db_error, KeySetInfo) outcome" where
  "row_to_keyset r =
     and_then (read_amount (info_input_fee_ppk (kr_info r))) (\<lambda>_.
     and_then (case info_final_expiry (kr_info r) of Some x \<Rightarrow> and_then (read_amount x) (\<lambda>_. Ok ()) | None \<Rightarrow> Ok ()) (\<lambda>_.
     Ok (kr_info r)))"

definition wallet_get_mint_keysets :: "MintUrl \<Rightarrow> WalletSqlDb \<Rightarrow> (db_error, KeySetInfo list option) outcome" where
  "wallet_get_mint_keysets url db =
     and_then (try_map row_to_keyset (filter (\<lambda>r. kr_mint_url r = url) (map snd (w_keysets db)))) (\<lambda>ks.
     Ok (if ks = [] then None else Some ks))"

definition wallet_get_keyset_by_id :: "Id \<Rightarrow> WalletSqlDb \<Rightarrow> (db_error, KeySetInfo option) outcome" where
  "wallet_get_keyset_by_id i db =
     (case map_of (w_keysets db) i of
        Some r \<Rightarrow> and_then (row_to_keyset r) (\<lambda>k. Ok (Some k)) | None \<Rightarrow> Ok None)"

text \<open>\<open>verify_id\<close> converts to the conversion error of the store; the insert fails on either unique column.\<close>

definition wallet_add_keys :: "externs \<Rightarrow> KeySet \<Rightarrow> WalletSqlDb \<Rightarrow> (db_error, WalletSqlDb) outcome" where
  "wallet_add_keys e ks db =
     and_then (map_err (\<lambda>_. DbConversion) (verify_id (sha256 e) ks)) (\<lambda>_.
     and_then (ensure (\<forall>(j, _) \<in> set (w_keys db). j \<noteq> ks_id ks \<and> id_to_u32 j \<noteq> id_to_u32 (ks_id ks)) DbDuplicate) (\<lambda>_.
     Ok (db\<lparr>w_keys := w_keys db @ [(ks_id ks, ks_keys ks)]\<rparr>)))"

definition wallet_get_keys :: "Id \<Rightarrow> WalletSqlDb \<Rightarrow> Keys option" where
  "wallet_get_keys i db = map_of (w_keys db) i"

definition wallet_remove_keys :: "Id \<Rightarrow> WalletSqlDb \<Rightarrow> WalletSqlDb" where
  "wallet_remove_keys i db = db\<lparr>w_keys := delete_where (\<lambda>j _. j = i) (w_keys db)\<rparr>"

definition wallet_add_mint_quote :: "WalletMintQuote \<Rightarrow> WalletSqlDb \<Rightarrow> (db_error, WalletSqlDb) outcome" where
  "wallet_add_mint_quote q db =
     and_then (not_null (wmq_amount_issued q)) (\<lambda>_.
     and_then (not_null (wmq_amount_paid q)) (\<lambda>_.
     Ok (db\<lparr>w_mint_quotes := upsert replace_row (wmq_id q)
        (q\<lparr>wmq_amount := Option.bind (wmq_amount q) to_i64\<rparr>) (w_mint_quotes db)\<rparr>)))"

definition wallet_get_mint_quote :: "string \<Rightarrow> WalletSqlDb \<Rightarrow> (db_error, WalletMintQuote option) outcome" where
  "wallet_get_mint_quote i db =
     (case map_of (w_mint_quotes db) i of
        None \<Rightarrow> Ok None
      | Some q \<Rightarrow> and_then (read_amount (wmq_expiry q)) (\<lambda>_. Ok (Some q)))"

text \<open>The query lacks a comma after \<open>secret_key\<close>, so every row has one column less than is read.\<close>

definition wallet_get_mint_quotes :: "WalletSqlDb \<Rightarrow> (db_error, WalletMintQuote list) outcome" where
  "wallet_get_mint_quotes db = (if w_mint_quotes db = [] then Ok [] else Err DbConversion)"

definition wallet_remove_mint_quote :: "string \<Rightarrow> WalletSqlDb \<Rightarrow> WalletSqlDb" where
  "wallet_remove_mint_quote i db = db\<lparr>w_mint_quotes := delete_where (\<lambda>j _. j = i) (w_mint_quotes db)\<rparr>"

text \<open>The preimage is not among the columns written; the state has a \<open>CHECK\<close>.\<close>

definition wallet_add_melt_quote :: "WalletMeltQuote \<Rightarrow> WalletSqlDb \<Rightarrow> (db_error, WalletSqlDb) outcome" where
  "wallet_add_melt_quote q db =
     and_then (ensure (wml_state q \<in> {MQ_Unpaid, MQ_Pending, MQ_Paid}) DbDatabase) (\<lambda>_.
     Ok (db\<lparr>w_melt_quotes := upsert (\<lambda>old new. new\<lparr>wml_payment_preimage := wml_payment_preimage old\<rparr>) (wml_id q)
        (q\<lparr>wml_payment_preimage := None\<rparr>) (w_melt_quotes db)\<rparr>))"

definition row_to_wallet_melt_quote :: "WalletMeltQuote \<Rightarrow> (db_error, WalletMeltQuote) outcome" where
  "row_to_wallet_melt_quote q =
     and_then (read_amount (wml_amount q)) (\<lambda>_.
     and_then (read_amount (wml_fee_reserve q)) (\<lambda>_.
     and_then (read_amount (wml_expiry q)) (\<lambda>_. Ok q)))"

definition wallet_get_melt_quote :: "string \<Rightarrow> WalletSqlDb \<Rightarrow> (db_error, WalletMeltQuote option) outcome" where
  "wallet_get_melt_quote i db =
     (case map_of (w_melt_quotes db) i of
        None \<Rightarrow> Ok None
      | Some q \<Rightarrow> and_then (row_to_wallet_melt_quote q) (\<lambda>q. Ok (Some q)))"

definition wallet_get_melt_quotes :: "WalletSqlDb \<Rightarrow> (db_error, WalletMeltQuote list) outcome" where
  "wallet_get_melt_quotes db = try_map row_to_wallet_melt_quote (map snd (w_melt_quotes db))"

definition wallet_remove_melt_quote :: "string \<Rightarrow> WalletSqlDb \<Rightarrow> WalletSqlDb" where
  "wallet_remove_melt_quote i db = db\<lparr>w_melt_quotes := delete_where (\<lambda>j _. j = i) (w_melt_quotes db)\<rparr>"

definition wallet_update_mint_url :: "MintUrl \<Rightarrow> MintUrl \<Rightarrow> WalletSqlDb \<Rightarrow> WalletSqlDb" where
  "wallet_update_mint_url old new db =
     db\<lparr>w_mint_quotes := update_where (\<lambda>_ q. wmq_mint_url q = old) (\<lambda>q. q\<lparr>wmq_mint_url := new\<rparr>) (w_mint_quotes db),
        w_proofs := update_where (\<lambda>_ p. pi_mint_url p = old) (\<lambda>p. p\<lparr>pi_mint_url := new\<rparr>) (w_proofs db)\<rparr>"

text \<open>On conflict the transaction keeps its \<open>ys\<close>, whose digest is the key.\<close>

definition wallet_add_transaction :: "externs \<Rightarrow> Transaction \<Rightarrow> WalletSqlDb \<Rightarrow> WalletSqlDb" where
  "wallet_add_transaction e t db =
     db\<lparr>w_transactions := upsert (\<lambda>old new. new\<lparr>txn_ys := txn_ys old\<rparr>) (transaction_id e t) t (w_transactions db)\<rparr>"

definition row_to_transaction :: "Transaction \<Rightarrow> (db_error, Transaction) outcome" where
  "row_to_transaction t =
     and_then (read_amount (txn_amount t)) (\<lambda>_.
     and_then (read_amount (txn_fee t)) (\<lambda>_.
     and_then (read_amount (txn_timestamp t)) (\<lambda>_. Ok t)))"

definition wallet_get_transaction :: "bytes \<Rightarrow> WalletSqlDb \<Rightarrow> (db_error, Transaction option) outcome" where
  "wallet_get_transaction i db =
     (case map_of (w_transactions db) i of
        None \<Rightarrow> Ok None
      | Some t \<Rightarrow> and_then (row_to_transaction t) (\<lambda>t. Ok (Some t)))"

definition wallet_list_transactions ::
  "MintUrl option \<Rightarrow> TransactionDirection option \<Rightarrow> CurrencyUnit option \<Rightarrow> WalletSqlDb \<Rightarrow> Transaction list" where
  "wallet_list_transactions url dir u db =
     filter (transaction_matches url dir u)
       (filter (\<lambda>t. is_ok (row_to_transaction t)) (map snd (w_transactions db)))"

definition wallet_remove_transaction :: "bytes \<Rightarrow> WalletSqlDb \<Rightarrow> WalletSqlDb" where
  "wallet_remove_transaction i db = db\<lparr>w_transactions := delete_where (\<lambda>j _. j = i) (w_transactions db)\<rparr>"

section \<open>A store of proofs\<close>

text \<open>
  The rows of a store, adding and removing proofs, and setting the state of proofs. Proofs are added
  under keys that differ from each other and from the keys removed in the same call.
\<close>

definition value_in :: "State \<Rightarrow> ProofInfo list \<Rightarrow> nat" where
  "value_in st ps = total (map (amount \<circ> pi_proof) (filter (\<lambda>p. pi_state p = st) ps))"

lemma value_in_simps [simp]:
  "value_in st [] = 0"
  "value_in st (p # ps) = (if pi_state p = st then unat (amount (pi_proof p)) else 0) + value_in st ps"
  "value_in st (ps @ qs) = value_in st ps + value_in st qs"
  by (simp_all add: value_in_def total_def)

locale wallet_store =
  fixes wf :: "'db \<Rightarrow> bool"
    and infos :: "'db \<Rightarrow> ProofInfo list"
    and update_proofs :: "ProofInfo list \<Rightarrow> PublicKey list \<Rightarrow> 'db \<Rightarrow> 'db"
    and update_state :: "PublicKey list \<Rightarrow> State \<Rightarrow> 'db \<Rightarrow> 'db"
  assumes wf_update_proofs: "wf db \<Longrightarrow> wf (update_proofs added removed db)"
    and wf_update_state: "wf db \<Longrightarrow> wf (update_state yl st db)"
    and update_proofs_rows: "wf db \<Longrightarrow> distinct (map pi_y added)
      \<Longrightarrow> pi_y ` set added \<inter> (set removed \<union> pi_y ` set (infos db)) = {}
      \<Longrightarrow> infos (update_proofs added removed db) = filter (\<lambda>p. pi_y p \<notin> set removed) (infos db) @ added"
    and update_state_rows: "wf db \<Longrightarrow> infos (update_state yl st db)
      = map (\<lambda>p. if pi_y p \<in> set yl then p\<lparr>pi_state := st\<rparr> else p) (infos db)"
begin

lemma remove_only:
  "wf db \<Longrightarrow> infos (update_proofs [] removed db) = filter (\<lambda>p. pi_y p \<notin> set removed) (infos db)"
  using update_proofs_rows [of db "[]" removed] by simp

lemma state_then_remove:
  assumes "wf db"
  shows "infos (update_proofs [] yl (update_state yl st db)) = filter (\<lambda>p. pi_y p \<notin> set yl) (infos db)"
proof -
  have "filter (\<lambda>p. pi_y p \<notin> set yl) (map (\<lambda>p. if pi_y p \<in> set yl then p\<lparr>pi_state := st\<rparr> else p) ps)
      = filter (\<lambda>p. pi_y p \<notin> set yl) ps" for ps
    by (induction ps) auto
  then show ?thesis
    by (simp add: remove_only [OF wf_update_state [OF assms]] update_state_rows [OF assms])
qed

lemma value_moves:
  assumes "wf db" "\<forall>p \<in> set (infos db). pi_y p \<in> set yl \<longrightarrow> pi_state p = st" "st \<noteq> st'"
  shows "value_in st (infos (update_state yl st' db)) + value_in st' (infos (update_state yl st' db))
    = value_in st (infos db) + value_in st' (infos db)"
proof -
  have "value_in st (map (\<lambda>p. if pi_y p \<in> set yl then p\<lparr>pi_state := st'\<rparr> else p) ps)
      + value_in st' (map (\<lambda>p. if pi_y p \<in> set yl then p\<lparr>pi_state := st'\<rparr> else p) ps)
      = value_in st ps + value_in st' ps" if "\<forall>p \<in> set ps. pi_y p \<in> set yl \<longrightarrow> pi_state p = st" for ps
    using that assms(3) by (induction ps) auto
  with assms(2) show ?thesis by (simp add: update_state_rows [OF assms(1)])
qed

end

lemma upsert_lookup: "map_of (upsert merge k v t) j =
    (if j = k then Some (case map_of t k of Some w \<Rightarrow> merge w v | None \<Rightarrow> v) else map_of t j)"
  by (induction t) auto

lemma upsert_keys: "keys_of (upsert merge k v t) = insert k (keys_of t)"
  by (induction t) (auto split: if_splits)

lemma upsert_keyed: "keyed t \<Longrightarrow> keyed (upsert merge k v t)"
proof (induction t)
  case (Cons x t)
  obtain j w where x: "x = (j, w)" by fastforce
  have "fst ` set (upsert merge k v t) = insert k (fst ` set t)" using upsert_keys [of merge k v t] by (simp add: keys_of_def)
  with Cons x show ?case by auto
qed simp

lemma upsert_new: "k \<notin> keys_of t \<Longrightarrow> upsert merge k v t = t @ [(k, v)]"
  by (induction t) (auto simp: keys_of_def)

lemma proof_info_new_Ok_iff:
  "proof_info_new e p url st u = Ok i \<longleftrightarrow>
     (\<exists>y. proof_y e p = Ok y \<and> sc_try_from_secret e (secret p) \<noteq> Panic
        \<and> i = \<lparr>pi_proof = p, pi_y = y, pi_mint_url = url, pi_state = st,
                pi_spending_condition = ok (sc_try_from_secret e (secret p)), pi_unit = u\<rparr>)"
  by (cases "sc_try_from_secret e (secret p)") (auto simp: proof_info_new_def)

text \<open>Each proof of the SQL store stands under its own key.\<close>

definition rows_ok :: "(PublicKey \<times> ProofInfo) list \<Rightarrow> bool" where
  "rows_ok t \<longleftrightarrow> keyed t \<and> (\<forall>(y, p) \<in> set t. pi_y p = y)"

definition wallet_keyed :: "WalletSqlDb \<Rightarrow> bool" where
  "wallet_keyed db \<longleftrightarrow> rows_ok (w_proofs db)"

lemma fold_upsert_new:
  "distinct (map pi_y added) \<Longrightarrow> pi_y ` set added \<inter> keys_of t = {}
     \<Longrightarrow> fold (\<lambda>p. upsert replace_row (pi_y p) p) added t = t @ map (\<lambda>p. (pi_y p, p)) added"
  by (induction added arbitrary: t) (auto simp: upsert_new)

lemma upsert_row: "(j, w) \<in> set (upsert replace_row k v t) \<Longrightarrow> (j, w) \<in> set t \<or> j = k \<and> w = v"
  by (induction t) (auto split: if_splits)

lemma upsert_rows_ok: "rows_ok t \<Longrightarrow> rows_ok (upsert replace_row (pi_y p) p t)"
  using upsert_keyed [of t] upsert_row [of _ _ "pi_y p" p t] by (fastforce simp: rows_ok_def)

lemma fold_upsert_rows_ok: "rows_ok t \<Longrightarrow> rows_ok (fold (\<lambda>p. upsert replace_row (pi_y p) p) added t)"
  by (induction added arbitrary: t) (simp_all add: upsert_rows_ok)

lemma delete_rows_ok: "rows_ok t \<Longrightarrow> rows_ok (delete_where P t)"
  using delete_where_keyed [of t P] by (auto simp: rows_ok_def) (auto simp: delete_where_def)

lemma wallet_keyed_keys: "wallet_keyed db \<Longrightarrow> keys_of (w_proofs db) = pi_y ` set (map snd (w_proofs db))"
  by (force simp: wallet_keyed_def rows_ok_def keys_of_def)

interpretation sql_store: wallet_store wallet_keyed "\<lambda>db. map snd (w_proofs db)" wallet_update_proofs wallet_update_proofs_state
proof
  fix db added removed assume wf: "wallet_keyed db"
  then show "wallet_keyed (wallet_update_proofs added removed db)"
    by (simp add: wallet_keyed_def wallet_update_proofs_def delete_rows_ok fold_upsert_rows_ok)
next
  fix db yl st assume wf: "wallet_keyed db"
  show "wallet_keyed (wallet_update_proofs_state yl st db)"
    using wf by (auto simp: wallet_keyed_def rows_ok_def wallet_update_proofs_state_def) (auto simp: update_where_def)
  have "map snd (update_where (\<lambda>y _. y \<in> set yl) (\<lambda>p. p\<lparr>pi_state := st\<rparr>) t)
      = map (\<lambda>p. if pi_y p \<in> set yl then p\<lparr>pi_state := st\<rparr> else p) (map snd t)"
    if "\<forall>(y, p) \<in> set t. pi_y p = y" for t
    using that by (auto simp: update_where_def)
  from this [of "w_proofs db"] show "map snd (w_proofs (wallet_update_proofs_state yl st db))
      = map (\<lambda>p. if pi_y p \<in> set yl then p\<lparr>pi_state := st\<rparr> else p) (map snd (w_proofs db))"
    using wf by (simp add: wallet_keyed_def rows_ok_def wallet_update_proofs_state_def)
next
  fix db removed and added :: "ProofInfo list" assume wf: "wallet_keyed db" and d: "distinct (map pi_y added)"
    and new: "pi_y ` set added \<inter> (set removed \<union> pi_y ` set (map snd (w_proofs db))) = {}"
  have t: "fold (\<lambda>p. upsert replace_row (pi_y p) p) added (w_proofs db) = w_proofs db @ map (\<lambda>p. (pi_y p, p)) added"
    using wallet_keyed_keys [OF wf] new by (intro fold_upsert_new [OF d]) auto
  have "delete_where (\<lambda>y _. y \<in> set removed) (map (\<lambda>p. (pi_y p, p)) added) = map (\<lambda>p. (pi_y p, p)) added"
    using new by (intro delete_where_other) auto
  moreover have "map snd (delete_where (\<lambda>y _. y \<in> set removed) u) = filter (\<lambda>p. pi_y p \<notin> set removed) (map snd u)"
    if "\<forall>(y, p) \<in> set u. pi_y p = y" for u :: "(PublicKey \<times> ProofInfo) list"
    using that by (induction u) (auto simp: delete_where_def)
  ultimately show "map snd (w_proofs (wallet_update_proofs added removed db))
      = filter (\<lambda>p. pi_y p \<notin> set removed) (map snd (w_proofs db)) @ added"
    using wf by (simp add: wallet_update_proofs_def t delete_where_append wallet_keyed_def rows_ok_def comp_def)
qed

section \<open>Counters of secrets\<close>

lemma add_unchecked_Ok: "add_unchecked True a b = Ok c \<longleftrightarrow> unat a + unat b = unat c"
  unfolding checked_add_Some_iff [symmetric] by (auto simp: add_unchecked_def split: option.splits)

lemma increment_Ok:
  assumes "wallet_increment_keyset_counter True i n db = Ok (c, db')"
  shows "db' = db\<lparr>w_keysets := update_where (\<lambda>j _. j = i) (\<lambda>r. r\<lparr>kr_counter := c\<rparr>) (w_keysets db)\<rparr>"
    and "unat c = (case map_of (w_keysets db) i of Some r \<Rightarrow> unat (kr_counter r) | None \<Rightarrow> 0) + unat n"
  using assms by (auto simp: wallet_increment_keyset_counter_def add_unchecked_Ok Let_def split: option.splits)

text \<open>
  C12: The counters a wallet reserves for the secrets of a keyset never overlap: the range of a second
  reservation starts where the first ended, and reservations of other keysets do not move it. This
  holds of keysets the store knows, in a build that checks additions. For a keyset without a row nothing is recorded, and every
  reservation starts at zero again, so the same secrets are derived twice.
\<close>

theorem counter_ranges:
  assumes "wallet_increment_keyset_counter True i n db = Ok (c, db1)"
    and "wallet_increment_keyset_counter True j k db1 = Ok (c', db2)"
    and "wallet_increment_keyset_counter True i m db2 = Ok (d, db3)"
  shows "if map_of (w_keysets db) i = None then unat d = unat m
    else unat d - unat m = unat c + (if i = j then unat k else 0) \<and> unat m \<le> unat d"
proof -
  note one = increment_Ok [OF assms(1)] and two = increment_Ok [OF assms(2)] and three = increment_Ok [OF assms(3)]
  show ?thesis
    using one two three by (cases "map_of (w_keysets db) i") (auto simp: update_where_lookup)
qed

definition one_keyset :: WalletSqlDb where
  "one_keyset = \<lparr>w_keysets = [(example_id, \<lparr>kr_mint_url = ''m'', kr_info = info_of example_id 0, kr_counter = 0\<rparr>)],
     w_keys = [], w_mint_quotes = [], w_melt_quotes = [], w_proofs = [], w_transactions = []\<rparr>"

theorem counter_ranges_witness:
  "\<exists>c c' d db1 db2 db3. wallet_increment_keyset_counter True example_id 3 one_keyset = Ok (c, db1)
    \<and> wallet_increment_keyset_counter True example_id 4 db1 = Ok (c', db2)
    \<and> wallet_increment_keyset_counter True example_id 5 db2 = Ok (d, db3) \<and> unat d - 5 = unat c + 4"
proof -
  have "wallet_increment_keyset_counter True example_id 3 one_keyset
      = Ok (3, one_keyset\<lparr>w_keysets := [(example_id, \<lparr>kr_mint_url = ''m'', kr_info = info_of example_id 0, kr_counter = 3\<rparr>)]\<rparr>)" (is "_ = Ok (3, ?a)")
    by (simp add: one_keyset_def wallet_increment_keyset_counter_def add_unchecked_def checked_add_def update_where_def)
  moreover have "wallet_increment_keyset_counter True example_id 4 ?a
      = Ok (7, one_keyset\<lparr>w_keysets := [(example_id, \<lparr>kr_mint_url = ''m'', kr_info = info_of example_id 0, kr_counter = 7\<rparr>)]\<rparr>)" (is "_ = Ok (7, ?b)")
    by (simp add: one_keyset_def wallet_increment_keyset_counter_def add_unchecked_def checked_add_def update_where_def)
  moreover obtain db3 where "wallet_increment_keyset_counter True example_id 5 ?b = Ok (12, db3)"
    by (simp add: one_keyset_def wallet_increment_keyset_counter_def add_unchecked_def checked_add_def update_where_def)
  ultimately show ?thesis
    using counter_ranges [of example_id 3 one_keyset 3 ?a example_id 4 7 ?b 5 12 db3] by (auto simp: one_keyset_def)
qed

end
