(* ===== verification/TokenForms.thy ===== *)
theory TokenForms
  imports WalletDb
begin

text \<open>
  Tokens handed from wallet to wallet (\<^verbatim>\<open>crates/cashu/src/nuts/nut00/token.rs\<close> and the proofs of
  \<^verbatim>\<open>nut00/mod.rs\<close> that they carry): version 3 names the keyset of each proof, version 4 groups the proofs
  by keyset, both by a short identifier. The writers and readers of base64, JSON and CBOR are
  parameters. A hash map is the list of its entries in the order of insertion, and where a set is
  returned the model has a list without repetitions. The lemmas show that the proofs put into a token
  are the proofs taken out, also after a conversion between the versions.
\<close>

section \<open>Data\<close>

datatype token_error =
    T_UnsupportedToken
  | T_UnsupportedUnit
  | T_ProofsRequired
  | T_DuplicateProofs
  | T_Base64
  | T_Utf8
  | T_SerdeJson
  | T_Ciborium
  | T_Amount amount_error
  | T_NUT02 nut02_error

record ProofV4 =
  v4_amount :: Amount
  v4_secret :: string
  v4_c :: PublicKey
  v4_witness :: "Witness option"
  v4_dleq :: "ProofDleq option"

record ProofV3 =
  v3_amount :: Amount
  v3_keyset_id :: ShortKeysetId
  v3_secret :: string
  v3_c :: PublicKey
  v3_witness :: "Witness option"
  v3_dleq :: "ProofDleq option"

record TokenV3Token =
  t3_mint :: MintUrl
  t3_proofs :: "ProofV3 list"

record TokenV3 =
  tok3_token :: "TokenV3Token list"
  tok3_memo :: "string option"
  tok3_unit :: "CurrencyUnit option"

record TokenV4Token =
  t4_keyset_id :: ShortKeysetId
  t4_proofs :: "ProofV4 list"

record TokenV4 =
  tok4_mint_url :: MintUrl
  tok4_unit :: CurrencyUnit
  tok4_memo :: "string option"
  tok4_token :: "TokenV4Token list"

datatype Token = TokenV3 TokenV3 | TokenV4 TokenV4

definition v4_into_proof :: "Id \<Rightarrow> ProofV4 \<Rightarrow> Proof" where
  "v4_into_proof i p = \<lparr>amount = v4_amount p, keyset_id = i, secret = v4_secret p, proof_c = v4_c p,
     witness = v4_witness p, dleq = v4_dleq p\<rparr>"

definition v4_from_proof :: "Proof \<Rightarrow> ProofV4" where
  "v4_from_proof p = \<lparr>v4_amount = amount p, v4_secret = secret p, v4_c = proof_c p, v4_witness = witness p, v4_dleq = dleq p\<rparr>"

definition v4_from_v3 :: "ProofV3 \<Rightarrow> ProofV4" where
  "v4_from_v3 p = \<lparr>v4_amount = v3_amount p, v4_secret = v3_secret p, v4_c = v3_c p, v4_witness = v3_witness p, v4_dleq = v3_dleq p\<rparr>"

definition v3_into_proof :: "Id \<Rightarrow> ProofV3 \<Rightarrow> Proof" where
  "v3_into_proof i p = \<lparr>amount = v3_amount p, keyset_id = i, secret = v3_secret p, proof_c = v3_c p,
     witness = v3_witness p, dleq = v3_dleq p\<rparr>"

definition v3_from_proof :: "Proof \<Rightarrow> (token_error, ProofV3) outcome" where
  "v3_from_proof p =
     and_then (map_err T_NUT02 (short_from_id (keyset_id p))) (\<lambda>short.
     Ok \<lparr>v3_amount = amount p, v3_keyset_id = short, v3_secret = secret p, v3_c = proof_c p,
       v3_witness = witness p, v3_dleq = dleq p\<rparr>)"

section \<open>Version 3\<close>

definition token_v3_token_new :: "MintUrl \<Rightarrow> Proof list \<Rightarrow> (token_error, TokenV3Token) outcome" where
  "token_v3_token_new url proofs =
     and_then (try_map v3_from_proof proofs) (\<lambda>ps. Ok \<lparr>t3_mint = url, t3_proofs = ps\<rparr>)"

definition token_v3_new ::
  "MintUrl \<Rightarrow> Proof list \<Rightarrow> string option \<Rightarrow> CurrencyUnit option \<Rightarrow> (token_error, TokenV3) outcome" where
  "token_v3_new url proofs memo u =
     and_then (ensure (proofs \<noteq> []) T_ProofsRequired) (\<lambda>_.
     and_then (token_v3_token_new url proofs) (\<lambda>t.
     Ok \<lparr>tok3_token = [t], tok3_memo = memo, tok3_unit = u\<rparr>))"

definition token_v3_proofs :: "KeySetInfo list \<Rightarrow> TokenV3 \<Rightarrow> (token_error, Proof list) outcome" where
  "token_v3_proofs keysets t =
     try_map (\<lambda>p. and_then (map_err T_NUT02 (from_short_keyset_id (v3_keyset_id p) keysets)) (\<lambda>long_id.
       Ok (v3_into_proof long_id p))) (concat (map t3_proofs (tok3_token t)))"

definition token_v3_value :: "TokenV3 \<Rightarrow> (token_error, Amount) outcome" where
  "token_v3_value t =
     and_then (ensure (distinct (concat (map t3_proofs (tok3_token t)))) T_DuplicateProofs) (\<lambda>_.
     map_err T_Amount (and_then (try_map (\<lambda>k. try_sum (map v3_amount (t3_proofs k))) (tok3_token t)) try_sum))"

definition token_v3_mint_urls :: "TokenV3 \<Rightarrow> MintUrl list" where
  "token_v3_mint_urls t = map t3_mint (tok3_token t)"

definition token_v3_is_multi_mint :: "TokenV3 \<Rightarrow> bool" where
  "token_v3_is_multi_mint t \<longleftrightarrow> 1 < length (tok3_token t)"

definition token_v3_from_v4 :: "TokenV4 \<Rightarrow> TokenV3" where
  "token_v3_from_v4 t =
     (let proofs = concat (map (\<lambda>k. map (\<lambda>p. \<lparr>v3_amount = v4_amount p, v3_keyset_id = t4_keyset_id k,
        v3_secret = v4_secret p, v3_c = v4_c p, v3_witness = v4_witness p, v3_dleq = v4_dleq p\<rparr>) (t4_proofs k)) (tok4_token t)) in
      \<lparr>tok3_token = [\<lparr>t3_mint = tok4_mint_url t, t3_proofs = proofs\<rparr>], tok3_memo = tok4_memo t, tok3_unit = Some (tok4_unit t)\<rparr>)"

section \<open>Version 4\<close>

text \<open>\<open>entry(key).and_modify(push).or_insert(vec![..])\<close>\<close>

fun push_entry :: "'k \<Rightarrow> 'v \<Rightarrow> ('k \<times> 'v list) list \<Rightarrow> ('k \<times> 'v list) list" where
  "push_entry k v [] = [(k, [v])]"
| "push_entry k v ((j, vs) # t) = (if j = k then (j, vs @ [v]) # t else (j, vs) # push_entry k v t)"

definition group_by :: "('a \<Rightarrow> 'k) \<Rightarrow> ('a \<Rightarrow> 'v) \<Rightarrow> 'a list \<Rightarrow> ('k \<times> 'v list) list" where
  "group_by key item xs = fold (\<lambda>x. push_entry (key x) (item x)) xs []"

definition token_v4_token_new :: "Id \<Rightarrow> Proof list \<Rightarrow> (token_error, TokenV4Token) outcome" where
  "token_v4_token_new i proofs =
     and_then (map_err T_NUT02 (short_from_id i)) (\<lambda>short.
     Ok \<lparr>t4_keyset_id = short, t4_proofs = map v4_from_proof proofs\<rparr>)"

definition token_v4_proofs :: "KeySetInfo list \<Rightarrow> TokenV4 \<Rightarrow> (token_error, Proof list) outcome" where
  "token_v4_proofs keysets t =
     and_then (try_map (\<lambda>k. and_then (map_err T_NUT02 (from_short_keyset_id (t4_keyset_id k) keysets)) (\<lambda>long_id.
       Ok (map (v4_into_proof long_id) (t4_proofs k)))) (tok4_token t)) (\<lambda>ps. Ok (concat ps))"

definition token_v4_value :: "TokenV4 \<Rightarrow> (token_error, Amount) outcome" where
  "token_v4_value t =
     and_then (ensure (distinct (concat (map t4_proofs (tok4_token t)))) T_DuplicateProofs) (\<lambda>_.
     map_err T_Amount (and_then (try_map (\<lambda>k. try_sum (map v4_amount (t4_proofs k))) (tok4_token t)) try_sum))"

definition token_v4_try_from :: "TokenV3 \<Rightarrow> (token_error, TokenV4) outcome" where
  "token_v4_try_from t =
     (let mint_urls = token_v3_mint_urls t; proofs = concat (map t3_proofs (tok3_token t)) in
      and_then (ensure (length mint_urls = 1) T_UnsupportedToken) (\<lambda>_.
      and_then (ok_or (tok3_unit t) T_UnsupportedUnit) (\<lambda>u.
      Ok \<lparr>tok4_mint_url = hd mint_urls, tok4_unit = u, tok4_memo = tok3_memo t,
        tok4_token = map (\<lambda>(i, ps). \<lparr>t4_keyset_id = i, t4_proofs = ps\<rparr>) (group_by v3_keyset_id v4_from_v3 proofs)\<rparr>)))"

section \<open>Tokens\<close>

definition token_new :: "MintUrl \<Rightarrow> Proof list \<Rightarrow> string option \<Rightarrow> CurrencyUnit \<Rightarrow> (token_error, Token) outcome" where
  "token_new url proofs memo u =
     and_then (try_map (\<lambda>(i, ps). token_v4_token_new i ps) (group_by keyset_id (\<lambda>p. p) proofs)) (\<lambda>groups.
     Ok (TokenV4 \<lparr>tok4_mint_url = url, tok4_unit = u, tok4_memo = memo, tok4_token = groups\<rparr>))"

fun token_proofs :: "KeySetInfo list \<Rightarrow> Token \<Rightarrow> (token_error, Proof list) outcome" where
  "token_proofs keysets (TokenV3 t) = token_v3_proofs keysets t"
| "token_proofs keysets (TokenV4 t) = token_v4_proofs keysets t"

fun token_value :: "Token \<Rightarrow> (token_error, Amount) outcome" where
  "token_value (TokenV3 t) = token_v3_value t"
| "token_value (TokenV4 t) = token_v4_value t"

fun token_memo :: "Token \<Rightarrow> string option" where
  "token_memo (TokenV3 t) = tok3_memo t"
| "token_memo (TokenV4 t) = tok4_memo t"

fun token_unit :: "Token \<Rightarrow> CurrencyUnit option" where
  "token_unit (TokenV3 t) = tok3_unit t"
| "token_unit (TokenV4 t) = Some (tok4_unit t)"

fun token_mint_url :: "Token \<Rightarrow> (token_error, MintUrl) outcome" where
  "token_mint_url (TokenV3 t) =
     (case token_v3_mint_urls t of [url] \<Rightarrow> Ok url | _ \<Rightarrow> Err T_UnsupportedToken)"
| "token_mint_url (TokenV4 t) = Ok (tok4_mint_url t)"

fun token_secrets :: "Token \<Rightarrow> string list" where
  "token_secrets (TokenV3 t) = concat (map (\<lambda>k. map v3_secret (t3_proofs k)) (tok3_token t))"
| "token_secrets (TokenV4 t) = concat (map (\<lambda>k. map v4_secret (t4_proofs k)) (tok4_token t))"

text \<open>A secret that is no condition is passed over; a condition that panics on reading ends the loop.\<close>

definition token_conditions :: "externs \<Rightarrow> Token \<Rightarrow> (token_error, SpendingConditions list) outcome" where
  "token_conditions e t =
     try_fold (\<lambda>cs s. case sc_try_from_secret e s of Ok c \<Rightarrow> Ok (cs @ [c]) | Err _ \<Rightarrow> Ok cs | Panic \<Rightarrow> Panic)
       [] (token_secrets t)"

definition token_spending_conditions :: "externs \<Rightarrow> Token \<Rightarrow> (token_error, SpendingConditions list) outcome" where
  "token_spending_conditions e t = and_then (token_conditions e t) (\<lambda>cs. Ok (remdups cs))"

definition token_p2pk_pubkeys :: "externs \<Rightarrow> Token \<Rightarrow> (token_error, PublicKey list) outcome" where
  "token_p2pk_pubkeys e t = and_then (token_conditions e t) (\<lambda>cs.
     Ok (remdups (concat (map (\<lambda>c. unwrap_or (sc_pubkeys c) []) (filter (\<lambda>c. sc_kind c = P2PK) cs)))))"

definition token_p2pk_refund_pubkeys :: "externs \<Rightarrow> Token \<Rightarrow> (token_error, PublicKey list) outcome" where
  "token_p2pk_refund_pubkeys e t = and_then (token_conditions e t) (\<lambda>cs.
     Ok (remdups (concat (map (\<lambda>c. unwrap_or (sc_refund_keys c) []) (filter (\<lambda>c. sc_kind c = P2PK) cs)))))"

definition token_htlc_hashes :: "externs \<Rightarrow> Token \<Rightarrow> (token_error, bytes list) outcome" where
  "token_htlc_hashes e t = and_then (token_conditions e t) (\<lambda>cs.
     Ok (remdups (concat (map (\<lambda>c. case c of HTLCConditions h _ \<Rightarrow> [h] | P2PKConditions _ _ \<Rightarrow> []) cs))))"

definition token_locktimes :: "externs \<Rightarrow> Token \<Rightarrow> (token_error, u64 list) outcome" where
  "token_locktimes e t = and_then (token_conditions e t) (\<lambda>cs.
     Ok (sort (remdups (concat (map (\<lambda>c. case sc_locktime c of Some l \<Rightarrow> [l] | None \<Rightarrow> []) cs)))))"

section \<open>Text and bytes\<close>

text \<open>
  What the source takes of base64 (\<open>URL_SAFE\<close>, with or without padding), \<open>serde_json\<close> and
  \<open>ciborium\<close>; writing may fail.
\<close>

record token_codec =
  b64_encode :: "bytes \<Rightarrow> string"
  b64_decode :: "string \<Rightarrow> bytes option"
  write_json :: "TokenV3 \<Rightarrow> string option"
  read_json :: "string \<Rightarrow> TokenV3 option"
  write_cbor :: "TokenV4 \<Rightarrow> bytes option"
  read_cbor :: "bytes \<Rightarrow> TokenV4 option"

text \<open>\<open>String::from_utf8\<close>: the text is kept as its bytes, which have to be well-formed.\<close>

abbreviation within :: "u8 \<Rightarrow> u8 \<Rightarrow> u8 \<Rightarrow> bool" where
  "within lo hi b \<equiv> lo \<le> b \<and> b \<le> hi"

definition continues :: "nat \<Rightarrow> u8 \<Rightarrow> u8 \<Rightarrow> bytes \<Rightarrow> bool" where
  "continues n lo hi bs \<longleftrightarrow> n \<le> length bs
     \<and> (case bs of [] \<Rightarrow> n = 0 | b # rest \<Rightarrow> within lo hi b \<and> list_all (within 0x80 0xBF) (take (n - 1) rest))"

definition utf8_step :: "u8 \<Rightarrow> bytes \<Rightarrow> nat option" where
  "utf8_step b bs =
     (if b < 0x80 then Some 0
      else if within 0xC2 0xDF b \<and> continues 1 0x80 0xBF bs then Some 1
      else if b = 0xE0 \<and> continues 2 0xA0 0xBF bs then Some 2
      else if b = 0xED \<and> continues 2 0x80 0x9F bs then Some 2
      else if (within 0xE1 0xEC b \<or> within 0xEE 0xEF b) \<and> continues 2 0x80 0xBF bs then Some 2
      else if b = 0xF0 \<and> continues 3 0x90 0xBF bs then Some 3
      else if b = 0xF4 \<and> continues 3 0x80 0x8F bs then Some 3
      else if within 0xF1 0xF3 b \<and> continues 3 0x80 0xBF bs then Some 3
      else None)"

function valid_utf8 :: "bytes \<Rightarrow> bool" where
  "valid_utf8 [] = True"
| "valid_utf8 (b # bs) = (case utf8_step b bs of Some n \<Rightarrow> valid_utf8 (drop n bs) | None \<Rightarrow> False)"
  by pat_completeness auto

termination
  by (relation "measure length") auto

definition from_utf8 :: "bytes \<Rightarrow> string option" where
  "from_utf8 bs = (if valid_utf8 bs then Some (map (\<lambda>b. char_of (unat b)) bs) else None)"

definition strip_prefix :: "string \<Rightarrow> string \<Rightarrow> string option" where
  "strip_prefix pre s = (if take (length pre) s = pre then Some (drop (length pre) s) else None)"

text \<open>\<open>to_string\<close> panics when \<open>fmt\<close> returns an error.\<close>

definition token_v3_to_string :: "token_codec \<Rightarrow> TokenV3 \<Rightarrow> (token_error, string) outcome" where
  "token_v3_to_string c t = and_then (expect (write_json c t)) (\<lambda>s. Ok (''cashuA'' @ b64_encode c (as_bytes s)))"

definition token_v4_to_string :: "token_codec \<Rightarrow> TokenV4 \<Rightarrow> (token_error, string) outcome" where
  "token_v4_to_string c t = and_then (expect (write_cbor c t)) (\<lambda>b. Ok (''cashuB'' @ b64_encode c b))"

fun token_to_string :: "token_codec \<Rightarrow> Token \<Rightarrow> (token_error, string) outcome" where
  "token_to_string c (TokenV3 t) = token_v3_to_string c t"
| "token_to_string c (TokenV4 t) = token_v4_to_string c t"

definition token_to_v3_string :: "token_codec \<Rightarrow> Token \<Rightarrow> (token_error, string) outcome" where
  "token_to_v3_string c t = token_v3_to_string c (case t of TokenV3 t \<Rightarrow> t | TokenV4 t \<Rightarrow> token_v3_from_v4 t)"

definition decode_v3 :: "token_codec \<Rightarrow> bytes \<Rightarrow> (token_error, TokenV3) outcome" where
  "decode_v3 c b = and_then (ok_or (from_utf8 b) T_Utf8) (\<lambda>s. ok_or (read_json c s) T_SerdeJson)"

definition decode_v4 :: "token_codec \<Rightarrow> bytes \<Rightarrow> (token_error, TokenV4) outcome" where
  "decode_v4 c b = ok_or (read_cbor c b) T_Ciborium"

definition token_from_str :: "token_codec \<Rightarrow> string \<Rightarrow> (token_error, Token) outcome" where
  "token_from_str c s =
     (case (strip_prefix ''cashuA'' s, strip_prefix ''cashuB'' s) of
        (Some r, None) \<Rightarrow> and_then (ok_or (b64_decode c r) T_Base64) (\<lambda>b. and_then (decode_v3 c b) (\<lambda>t. Ok (TokenV3 t)))
      | (None, Some r) \<Rightarrow> and_then (ok_or (b64_decode c r) T_Base64) (\<lambda>b. and_then (decode_v4 c b) (\<lambda>t. Ok (TokenV4 t)))
      | _ \<Rightarrow> Err T_UnsupportedToken)"

definition token_v3_from_str :: "token_codec \<Rightarrow> string \<Rightarrow> (token_error, TokenV3) outcome" where
  "token_v3_from_str c s =
     and_then (ok_or (strip_prefix ''cashuA'' s) T_UnsupportedToken) (\<lambda>r.
     and_then (ok_or (b64_decode c r) T_Base64) (decode_v3 c))"

definition token_v4_from_str :: "token_codec \<Rightarrow> string \<Rightarrow> (token_error, TokenV4) outcome" where
  "token_v4_from_str c s =
     and_then (ok_or (strip_prefix ''cashuB'' s) T_UnsupportedToken) (\<lambda>r.
     and_then (ok_or (b64_decode c r) T_Base64) (decode_v4 c))"

definition token_v4_to_raw_bytes :: "token_codec \<Rightarrow> TokenV4 \<Rightarrow> (token_error, bytes) outcome" where
  "token_v4_to_raw_bytes c t = and_then (ok_or (write_cbor c t) T_Ciborium) (\<lambda>b. Ok (as_bytes ''crawB'' @ b))"

fun token_to_raw_bytes :: "token_codec \<Rightarrow> Token \<Rightarrow> (token_error, bytes) outcome" where
  "token_to_raw_bytes c (TokenV3 t) = Err T_UnsupportedToken"
| "token_to_raw_bytes c (TokenV4 t) = token_v4_to_raw_bytes c t"

definition token_v4_try_from_bytes :: "token_codec \<Rightarrow> bytes \<Rightarrow> (token_error, TokenV4) outcome" where
  "token_v4_try_from_bytes c bs =
     and_then (ensure (5 \<le> length bs) T_UnsupportedToken) (\<lambda>_.
     and_then (ok_or (from_utf8 (take 5 bs)) T_Utf8) (\<lambda>pre.
     and_then (ensure (pre = ''crawB'') T_UnsupportedToken) (\<lambda>_.
     decode_v4 c (drop 5 bs))))"

definition token_try_from_bytes :: "token_codec \<Rightarrow> bytes \<Rightarrow> (token_error, Token) outcome" where
  "token_try_from_bytes c bs = and_then (token_v4_try_from_bytes c bs) (\<lambda>t. Ok (TokenV4 t))"

section \<open>What a token carries\<close>

lemma push_entry_mset: "mset (concat (map snd (push_entry k v t))) = add_mset v (mset (concat (map snd t)))"
  by (induction t rule: push_entry.induct) auto

lemma push_entry_members:
  "(j, vs) \<in> set (push_entry k v t) \<Longrightarrow> w \<in> set vs \<Longrightarrow> (j = k \<and> w = v) \<or> (\<exists>us. (j, us) \<in> set t \<and> w \<in> set us)"
  by (induction k v t rule: push_entry.induct) (auto split: if_splits)

lemma fold_push_entry_mset:
  "mset (concat (map snd (fold (\<lambda>x. push_entry (key x) (item x)) xs t))) = mset (map item xs) + mset (concat (map snd t))"
  by (induction xs arbitrary: t) (simp_all add: push_entry_mset)

lemma fold_push_entry_members:
  "(j, vs) \<in> set (fold (\<lambda>x. push_entry (key x) (item x)) xs t) \<Longrightarrow> w \<in> set vs
     \<Longrightarrow> (\<exists>x \<in> set xs. key x = j \<and> item x = w) \<or> (\<exists>us. (j, us) \<in> set t \<and> w \<in> set us)"
proof (induction xs arbitrary: t)
  case (Cons x xs)
  from Cons.IH [of "push_entry (key x) (item x) t"] Cons.prems
  consider "\<exists>y \<in> set xs. key y = j \<and> item y = w" | us where "(j, us) \<in> set (push_entry (key x) (item x) t)" "w \<in> set us"
    by auto
  then show ?case by cases (auto dest: push_entry_members)
qed auto

lemma group_by_mset: "mset (concat (map snd (group_by key item xs))) = mset (map item xs)"
  by (simp add: group_by_def fold_push_entry_mset)

lemma group_by_members: "(j, vs) \<in> set (group_by key item xs) \<Longrightarrow> w \<in> set vs \<Longrightarrow> \<exists>x \<in> set xs. key x = j \<and> item x = w"
  using fold_push_entry_members [of j vs key item xs "[]" w] by (simp add: group_by_def)

lemma push_entry_nonempty: "list_all (\<lambda>g. snd g \<noteq> []) t \<Longrightarrow> list_all (\<lambda>g. snd g \<noteq> []) (push_entry k v t)"
  by (induction t) auto

lemma group_by_nonempty:
  assumes "(k, vs) \<in> set (group_by key item xs)"
  shows "vs \<noteq> []"
proof -
  have "list_all (\<lambda>g. snd g \<noteq> []) t \<Longrightarrow> list_all (\<lambda>g. snd g \<noteq> []) (fold (\<lambda>x. push_entry (key x) (item x)) xs t)" for t
    by (induction xs arbitrary: t) (simp_all add: push_entry_nonempty)
  from this [of "[]"] assms show ?thesis by (auto simp: group_by_def list_all_iff)
qed

lemma v4_into_from_proof [simp]: "v4_into_proof (keyset_id p) (v4_from_proof p) = p"
  by (simp add: v4_into_proof_def v4_from_proof_def)

text \<open>A keyset that a short identifier stands for among the keysets of the mint.\<close>

definition resolvable :: "KeySetInfo list \<Rightarrow> Id \<Rightarrow> bool" where
  "resolvable keysets i \<longleftrightarrow> id_wf i \<and> (version i = Version01 \<longrightarrow> i \<in> info_id ` set keysets)
     \<and> (\<forall>k \<in> set keysets. id_wf (info_id k) \<and> (take 7 (idbytes_to_vec (id_bytes (info_id k))) = take 7 (idbytes_to_vec (id_bytes i))
          \<longrightarrow> info_id k = i))"

lemma resolvable_short:
  assumes "resolvable keysets i"
  obtains short where "short_from_id i = Ok short" "from_short_keyset_id short keysets = Ok i"
proof -
  have "id_wf i" using assms by (simp add: resolvable_def)
  then obtain short where short: "short_from_id i = Ok short" by (cases rule: id_wf_cases) (simp_all add: short_from_id_def)
  have "from_short_keyset_id short keysets = Ok i"
    using assms short by (intro short_id_resolves) (auto simp: resolvable_def)
  with short show thesis by (rule that)
qed

definition group_token :: "Id \<times> Proof list \<Rightarrow> TokenV4Token" where
  "group_token = (\<lambda>(i, ps). \<lparr>t4_keyset_id = the (ok (short_from_id i)), t4_proofs = map v4_from_proof ps\<rparr>)"

lemma group_of_proofs:
  assumes "(i, ps) \<in> set (group_by keyset_id (\<lambda>p. p) proofs)" "\<forall>p \<in> set proofs. resolvable keysets (keyset_id p)"
  obtains short where "short_from_id i = Ok short" "from_short_keyset_id short keysets = Ok i"
    "map (v4_into_proof i) (map v4_from_proof ps) = ps"
proof -
  have ids: "p \<in> set proofs \<and> keyset_id p = i" if "p \<in> set ps" for p using group_by_members [OF assms(1) that] by auto
  moreover obtain p where "p \<in> set ps" using group_by_nonempty [OF assms(1)] by (cases ps) auto
  ultimately have "resolvable keysets i" using assms(2) by auto
  moreover have "map (v4_into_proof i) (map v4_from_proof ps) = ps"
    using ids v4_into_from_proof by (auto intro!: map_idI simp: comp_def simp del: v4_into_from_proof)
  ultimately show thesis using resolvable_short [of keysets i] that by metis
qed

lemma token_new_Ok:
  assumes "\<forall>p \<in> set proofs. resolvable keysets (keyset_id p)"
  defines "gs \<equiv> group_by keyset_id (\<lambda>p. p) proofs"
  shows "token_new url proofs memo u = Ok (TokenV4 \<lparr>tok4_mint_url = url, tok4_unit = u, tok4_memo = memo, tok4_token = map group_token gs\<rparr>)"
    and "token_v4_proofs keysets \<lparr>tok4_mint_url = url, tok4_unit = u, tok4_memo = memo, tok4_token = map group_token gs\<rparr>
      = Ok (concat (map snd gs))"
proof -
  have "try_map (\<lambda>(i, ps). token_v4_token_new i ps) gs = Ok (map group_token gs)"
    using assms(1) unfolding gs_def
    by (intro try_map_total) (auto simp: token_v4_token_new_def group_token_def elim!: group_of_proofs)
  then show "token_new url proofs memo u = Ok (TokenV4 \<lparr>tok4_mint_url = url, tok4_unit = u, tok4_memo = memo, tok4_token = map group_token gs\<rparr>)"
    by (simp add: token_new_def gs_def)
  have "try_map (\<lambda>k. and_then (map_err T_NUT02 (from_short_keyset_id (t4_keyset_id k) keysets)) (\<lambda>long_id.
       Ok (map (v4_into_proof long_id) (t4_proofs k)))) (map group_token gs) = Ok (map snd gs)"
    using assms(1) unfolding try_map_map gs_def
    by (intro try_map_total) (auto simp: group_token_def elim!: group_of_proofs)
  then show "token_v4_proofs keysets \<lparr>tok4_mint_url = url, tok4_unit = u, tok4_memo = memo, tok4_token = map group_token gs\<rparr>
      = Ok (concat (map snd gs))"
    by (simp add: token_v4_proofs_def)
qed

lemma token_v3_from_v4_proofs:
  "token_v4_proofs keysets t = Ok ps \<Longrightarrow> token_v3_proofs keysets (token_v3_from_v4 t) = Ok ps"
proof -
  have "and_then (try_map (\<lambda>k. and_then (map_err T_NUT02 (from_short_keyset_id (t4_keyset_id k) keysets)) (\<lambda>long_id.
       Ok (map (v4_into_proof long_id) (t4_proofs k)))) ts) (\<lambda>ps. Ok (concat ps)) = Ok ps
    \<Longrightarrow> try_map (\<lambda>p. and_then (map_err T_NUT02 (from_short_keyset_id (v3_keyset_id p) keysets)) (\<lambda>long_id.
       Ok (v3_into_proof long_id p))) (concat (map (\<lambda>k. map (\<lambda>p. \<lparr>v3_amount = v4_amount p, v3_keyset_id = t4_keyset_id k,
        v3_secret = v4_secret p, v3_c = v4_c p, v3_witness = v4_witness p, v3_dleq = v4_dleq p\<rparr>) (t4_proofs k)) ts)) = Ok ps" for ts
  proof (induction ts arbitrary: ps)
    case (Cons k ts)
    then obtain i qs where i: "from_short_keyset_id (t4_keyset_id k) keysets = Ok i" and ps: "ps = map (v4_into_proof i) (t4_proofs k) @ qs"
      and rest: "try_map (\<lambda>p. and_then (map_err T_NUT02 (from_short_keyset_id (v3_keyset_id p) keysets)) (\<lambda>long_id.
       Ok (v3_into_proof long_id p))) (concat (map (\<lambda>k. map (\<lambda>p. \<lparr>v3_amount = v4_amount p, v3_keyset_id = t4_keyset_id k,
        v3_secret = v4_secret p, v3_c = v4_c p, v3_witness = v4_witness p, v3_dleq = v4_dleq p\<rparr>) (t4_proofs k)) ts)) = Ok qs"
      by auto
    show ?case
      using rest i by (auto simp: ps try_map_append_Ok try_map_map v3_into_proof_def v4_into_proof_def
          intro!: try_map_total)
  qed simp
  then show "token_v4_proofs keysets t = Ok ps \<Longrightarrow> token_v3_proofs keysets (token_v3_from_v4 t) = Ok ps"
    by (simp add: token_v4_proofs_def token_v3_proofs_def token_v3_from_v4_def Let_def)
qed

lemma from_utf8_as_bytes: "valid_utf8 (as_bytes s) \<Longrightarrow> from_utf8 (as_bytes s) = Some s"
proof -
  have "unat (of_nat (of_char ch) :: u8) = of_char ch" for ch :: char
    by (simp add: unat_of_nat)
  then have "map (\<lambda>b. char_of (unat b)) (as_bytes s) = s" by (simp add: as_bytes_def comp_def)
  then show "valid_utf8 (as_bytes s) \<Longrightarrow> from_utf8 (as_bytes s) = Some s" by (simp add: from_utf8_def)
qed

text \<open>
  C17: Handing a token over. The proofs a wallet puts into a token and writes as text are the proofs
  another wallet reads from that text, with the mint, the unit and the memo; the text of the older
  version of the same token is read as a token of that version, with the same proofs, mint, unit and
  memo. The keysets of the proofs must be told apart by seven bytes among the keysets the receiver
  knows, and the readers must invert the writers on this token.
\<close>

theorem token_hand_over:
  assumes ids: "\<forall>p \<in> set proofs. resolvable keysets (keyset_id p)"
    and b64: "\<forall>b. b64_decode c (b64_encode c b) = Some b"
    and new: "token_new url proofs memo u = Ok t"
    and written: "token_to_string c t = Ok s" and older: "token_to_v3_string c t = Ok s3"
    and cbor: "\<forall>t4 b. t = TokenV4 t4 \<and> write_cbor c t4 = Some b \<longrightarrow> read_cbor c b = Some t4"
    and json: "\<forall>t4 j. t = TokenV4 t4 \<and> write_json c (token_v3_from_v4 t4) = Some j
      \<longrightarrow> valid_utf8 (as_bytes j) \<and> read_json c j = Some (token_v3_from_v4 t4)"
  shows "\<exists>t3 qs. token_from_str c s = Ok t \<and> token_from_str c s3 = Ok (TokenV3 t3) \<and> mset qs = mset proofs
    \<and> token_proofs keysets t = Ok qs \<and> token_proofs keysets (TokenV3 t3) = Ok qs
    \<and> token_mint_url t = Ok url \<and> token_unit t = Some u \<and> token_memo t = memo
    \<and> token_mint_url (TokenV3 t3) = Ok url \<and> token_unit (TokenV3 t3) = Some u \<and> token_memo (TokenV3 t3) = memo"
proof -
  let ?gs = "group_by keyset_id (\<lambda>p. p) proofs"
  let ?t = "\<lparr>tok4_mint_url = url, tok4_unit = u, tok4_memo = memo, tok4_token = map group_token ?gs\<rparr>"
  have t: "t = TokenV4 ?t" using token_new_Ok(1) [OF ids, of url memo u] new by simp
  from written obtain b where b: "write_cbor c ?t = Some b" "s = ''cashuB'' @ b64_encode c b"
    by (auto simp: t token_v4_to_string_def split: option.splits)
  then have read: "token_from_str c s = Ok t"
    using b64 cbor t by (auto simp: token_from_str_def strip_prefix_def decode_v4_def)
  from older obtain j where j: "write_json c (token_v3_from_v4 ?t) = Some j" "s3 = ''cashuA'' @ b64_encode c (as_bytes j)"
    by (auto simp: t token_to_v3_string_def token_v3_to_string_def split: option.splits)
  then have "valid_utf8 (as_bytes j)" "read_json c j = Some (token_v3_from_v4 ?t)" using json t by auto
  then have read3: "token_from_str c s3 = Ok (TokenV3 (token_v3_from_v4 ?t))"
    using b64 j(2) by (simp add: token_from_str_def strip_prefix_def decode_v3_def from_utf8_as_bytes)
  note ps = token_new_Ok(2) [OF ids, of url u memo]
  have "token_mint_url (TokenV3 (token_v3_from_v4 ?t)) = Ok url" "token_unit (TokenV3 (token_v3_from_v4 ?t)) = Some u"
    "token_memo (TokenV3 (token_v3_from_v4 ?t)) = memo"
    by (simp_all add: token_v3_from_v4_def token_v3_mint_urls_def Let_def)
  then show ?thesis
    using read read3 ps token_v3_from_v4_proofs [OF ps] group_by_mset [of keyset_id "\<lambda>p. p" proofs]
    by (intro exI conjI) (auto simp: t)
qed

definition hand_over_proofs :: "Proof list" where
  "hand_over_proofs =
     [\<lparr>amount = 8, keyset_id = example_id2, secret = ''a'', proof_c = [2], witness = None, dleq = None\<rparr>,
      \<lparr>amount = 1, keyset_id = example_id, secret = ''b'', proof_c = [3], witness = None, dleq = None\<rparr>,
      \<lparr>amount = 4, keyset_id = example_id2, secret = ''c'', proof_c = [2], witness = None, dleq = None\<rparr>]"

definition hand_over_token :: TokenV4 where
  "hand_over_token = \<lparr>tok4_mint_url = ''m'', tok4_unit = Sat, tok4_memo = None,
     tok4_token = map group_token (group_by keyset_id (\<lambda>p. p) hand_over_proofs)\<rparr>"

definition hand_over_codec :: token_codec where
  "hand_over_codec = \<lparr>b64_encode = map (\<lambda>b. char_of (unat b)), b64_decode = (\<lambda>s. Some (as_bytes s)),
     write_json = (\<lambda>_. Some ''J''), read_json = (\<lambda>_. Some (token_v3_from_v4 hand_over_token)), write_cbor = (\<lambda>_. Some [65]), read_cbor = (\<lambda>_. Some hand_over_token)\<rparr>"

theorem token_hand_over_witness:
  "token_new ''m'' hand_over_proofs None Sat = Ok (TokenV4 hand_over_token)
   \<and> token_from_str hand_over_codec ''cashuBA'' = Ok (TokenV4 hand_over_token)
   \<and> token_to_v3_string hand_over_codec (TokenV4 hand_over_token) = Ok ''cashuAJ''
   \<and> (\<exists>t3 qs. token_from_str hand_over_codec ''cashuAJ'' = Ok (TokenV3 t3)
        \<and> token_proofs [info_of example_id 0, info_of example_id2 100] (TokenV3 t3) = Ok qs
        \<and> token_proofs [info_of example_id 0, info_of example_id2 100] (TokenV4 hand_over_token) = Ok qs
        \<and> mset qs = mset hand_over_proofs)"
proof -
  have "replicate 7 (7 :: u8) = [7, 7, 7, 7, 7, 7, 7]" by code_simp
  then have ids: "\<forall>p \<in> set hand_over_proofs. resolvable [info_of example_id 0, info_of example_id2 100] (keyset_id p)"
    by (simp add: hand_over_proofs_def resolvable_def info_of_def example_id_def example_id2_def take_Cons')
  have new: "token_new ''m'' hand_over_proofs None Sat = Ok (TokenV4 hand_over_token)"
    by (simp add: token_new_Ok(1) [OF ids] hand_over_token_def)
  have "char_of (65 :: nat) = CHR ''A''" by code_simp
  then have written: "token_to_string hand_over_codec (TokenV4 hand_over_token) = Ok ''cashuBA''"
    by (simp add: token_v4_to_string_def hand_over_codec_def)
  have codec: "\<forall>b. b64_decode hand_over_codec (b64_encode hand_over_codec b) = Some b"
  proof -
    have "unat (x :: u8) mod 256 = unat x" for x using unsigned_less [of x, where 'a = nat] by simp
    then show ?thesis by (auto simp: hand_over_codec_def as_bytes_def comp_def intro!: map_idI)
  qed
  have "as_bytes ''J'' = [74]" "char_of (74 :: nat) = CHR ''J''" by code_simp+
  then have older: "token_to_v3_string hand_over_codec (TokenV4 hand_over_token) = Ok ''cashuAJ''" "valid_utf8 (as_bytes ''J'')"
    by (simp_all add: token_to_v3_string_def token_v3_to_string_def hand_over_codec_def utf8_step_def word_less_nat_alt)
  have "\<exists>t3 qs. token_from_str hand_over_codec ''cashuBA'' = Ok (TokenV4 hand_over_token)
      \<and> token_from_str hand_over_codec ''cashuAJ'' = Ok (TokenV3 t3) \<and> mset qs = mset hand_over_proofs
      \<and> token_proofs [info_of example_id 0, info_of example_id2 100] (TokenV4 hand_over_token) = Ok qs
      \<and> token_proofs [info_of example_id 0, info_of example_id2 100] (TokenV3 t3) = Ok qs"
    using token_hand_over [OF ids codec new written older(1)] older(2) by (fastforce simp: hand_over_codec_def)
  then show ?thesis using new older(1) by blast
qed

end
