(* ===== verification/WalletDerive.thy ===== *)
theory WalletDerive
  imports Signatory
begin

text \<open>
  Outputs of a wallet: secrets and blinding factors derived from a seed (\<^verbatim>\<open>crates/cashu/src/nuts/nut13.rs\<close>)
  and the batches of outputs made from them or from random ones (\<^verbatim>\<open>PreMintSecrets\<close> of
  \<^verbatim>\<open>crates/cashu/src/nuts/nut00/mod.rs\<close>). BIP-32 derivation and HMAC-SHA256 are parameters. A split that
  does not end gives no batch, so the batches are options. The batches for blank outputs count with
  floating point numbers and are left out.
\<close>

section \<open>Secrets from a seed\<close>

datatype nut13_error =
    N13_DHKE dhke_error
  | N13_Amount amount_error
  | N13_Bip32
  | N13_SecpError

record derivation =
  dv_master :: "bytes \<Rightarrow> Xpriv option"
  dv_hd :: hd_wallet
  dv_hmac :: "bytes \<Rightarrow> bytes \<Rightarrow> bytes"

definition u64_to_be_bytes :: "u64 \<Rightarrow> bytes" where
  "u64_to_be_bytes c = map (\<lambda>n. ucast (drop_bit (8 * n) c)) [7, 6, 5, 4, 3, 2, 1, 0]"

text \<open>\<open>ChildNumber::from_hardened_idx\<close>, with its error.\<close>

definition hardened_child :: "u32 \<Rightarrow> (nut13_error, u32) outcome" where
  "hardened_child i = (if i < 2 ^ 31 then Ok (i + 2 ^ 31) else Err N13_Bip32)"

definition derive_path_from_keyset_id :: "Id \<Rightarrow> (nut13_error, DerivationPath) outcome" where
  "derive_path_from_keyset_id i = try_map hardened_child [129372, 0, id_to_u32 i]"

definition legacy_derive ::
  "derivation \<Rightarrow> bytes \<Rightarrow> Id \<Rightarrow> u32 \<Rightarrow> u32 \<Rightarrow> (nut13_error, SecretKey) outcome" where
  "legacy_derive dv seed i counter which =
     and_then (ok_or (dv_master dv seed) N13_Bip32) (\<lambda>xpriv.
     and_then (derive_path_from_keyset_id i) (\<lambda>path.
     and_then (hardened_child counter) (\<lambda>c.
     and_then (ok_or (hd_derive (dv_hd dv) xpriv (path @ [c, which])) N13_Bip32) (\<lambda>derived_xpriv.
     Ok (hd_private_key (dv_hd dv) derived_xpriv)))))"

definition hmac_derive :: "derivation \<Rightarrow> bytes \<Rightarrow> Id \<Rightarrow> u32 \<Rightarrow> u8 \<Rightarrow> bytes" where
  "hmac_derive dv seed i counter which =
     take 32 (dv_hmac dv seed (as_bytes ''Cashu_KDF_HMAC_SHA256'' @ id_to_bytes i @ u64_to_be_bytes (ucast counter) @ [which]))"

definition secret_from_seed :: "derivation \<Rightarrow> bytes \<Rightarrow> Id \<Rightarrow> u32 \<Rightarrow> (nut13_error, string) outcome" where
  "secret_from_seed dv seed i counter =
     (case version i of
        Version00 \<Rightarrow> and_then (legacy_derive dv seed i counter 0) (\<lambda>k. Ok (encode k))
      | Version01 \<Rightarrow> Ok (encode (hmac_derive dv seed i counter 0)))"

definition sk_from_seed :: "externs \<Rightarrow> derivation \<Rightarrow> bytes \<Rightarrow> Id \<Rightarrow> u32 \<Rightarrow> (nut13_error, SecretKey) outcome" where
  "sk_from_seed e dv seed i counter =
     (case version i of
        Version00 \<Rightarrow> legacy_derive dv seed i counter 1
      | Version01 \<Rightarrow> ok_or (secp_sk_from_slice e (hmac_derive dv seed i counter 1)) N13_SecpError)"

section \<open>Batches of outputs\<close>

record PreMint =
  pm_blinded_message :: BlindedMessage
  pm_secret :: string
  pm_r :: SecretKey
  pm_amount :: Amount

record PreMintSecrets =
  pms_secrets :: "PreMint list"
  pms_keyset_id :: Id

definition premint :: "externs \<Rightarrow> Id \<Rightarrow> Amount \<Rightarrow> string \<Rightarrow> SecretKey \<Rightarrow> (dhke_error, PreMint) outcome" where
  "premint e i a sec factor =
     and_then (blind_message e factor (as_bytes sec) (Some factor)) (\<lambda>(blinded, r).
     Ok \<lparr>pm_blinded_message = \<lparr>bm_amount = a, bm_keyset_id = i, blinded_secret = blinded, bm_witness = None\<rparr>,
         pm_secret = sec, pm_r = r, pm_amount = a\<rparr>)"

text \<open>One output at a counter, and the outputs at consecutive counters.\<close>

definition seed_premint ::
  "externs \<Rightarrow> derivation \<Rightarrow> bytes \<Rightarrow> Id \<Rightarrow> Amount \<Rightarrow> u32 \<Rightarrow> (nut13_error, PreMint) outcome" where
  "seed_premint e dv seed i a counter =
     and_then (secret_from_seed dv seed i counter) (\<lambda>sec.
     and_then (sk_from_seed e dv seed i counter) (\<lambda>factor.
     map_err N13_DHKE (premint e i a sec factor)))"

fun seed_premints ::
  "bool \<Rightarrow> externs \<Rightarrow> derivation \<Rightarrow> bytes \<Rightarrow> Id \<Rightarrow> u32 \<Rightarrow> Amount list \<Rightarrow> (nut13_error, PreMint list) outcome" where
  "seed_premints overflow_checks e dv seed i counter [] = Ok []"
| "seed_premints overflow_checks e dv seed i counter (a # as) =
     and_then (seed_premint e dv seed i a counter) (\<lambda>p.
     and_then (add_unchecked overflow_checks counter 1) (\<lambda>counter'.
     and_then (seed_premints overflow_checks e dv seed i counter' as) (\<lambda>ps. Ok (p # ps))))"

definition premints_from_seed ::
  "bool \<Rightarrow> externs \<Rightarrow> derivation \<Rightarrow> Id \<Rightarrow> u32 \<Rightarrow> bytes \<Rightarrow> Amount \<Rightarrow> SplitTarget \<Rightarrow> FeeAndAmounts
     \<Rightarrow> (nut13_error, PreMintSecrets) outcome option" where
  "premints_from_seed overflow_checks e dv i counter seed a target fa =
     map_option (\<lambda>split.
       and_then (map_err N13_Amount split) (\<lambda>amts.
       and_then (seed_premints overflow_checks e dv seed i counter amts) (\<lambda>ps.
       Ok \<lparr>pms_secrets = ps, pms_keyset_id = i\<rparr>))) (split_targeted a target fa)"

text \<open>The range \<open>start_count..=end_count\<close> has both ends.\<close>

definition restore_batch ::
  "externs \<Rightarrow> derivation \<Rightarrow> Id \<Rightarrow> bytes \<Rightarrow> u32 \<Rightarrow> u32 \<Rightarrow> (nut13_error, PreMintSecrets) outcome" where
  "restore_batch e dv i seed start_count end_count =
     and_then (try_map (\<lambda>n. seed_premint e dv seed i 0 (of_nat n)) [unat start_count ..< Suc (unat end_count)]) (\<lambda>ps.
     Ok \<lparr>pms_secrets = ps, pms_keyset_id = i\<rparr>)"

text \<open>Random secrets, nonces and blinding factors are given by the position of the output.\<close>

definition indexed_premints ::
  "externs \<Rightarrow> Id \<Rightarrow> (nat \<Rightarrow> string) \<Rightarrow> (nat \<Rightarrow> SecretKey) \<Rightarrow> Amount list \<Rightarrow> (nut00_error, PreMint list) outcome" where
  "indexed_premints e i sec factor amts =
     map_err Nut00DHKE (try_map (\<lambda>(n, a). premint e i a (sec n) (factor n)) (enumerate 0 amts))"

definition premints_random ::
  "externs \<Rightarrow> Id \<Rightarrow> (nat \<Rightarrow> string) \<Rightarrow> (nat \<Rightarrow> SecretKey) \<Rightarrow> Amount \<Rightarrow> SplitTarget \<Rightarrow> FeeAndAmounts
     \<Rightarrow> (nut00_error, PreMintSecrets) outcome option" where
  "premints_random e i sec factor a target fa =
     map_option (\<lambda>split.
       and_then (map_err Nut00Amount split) (\<lambda>amts.
       and_then (indexed_premints e i sec factor amts) (\<lambda>ps. Ok \<lparr>pms_secrets = ps, pms_keyset_id = i\<rparr>)))
       (split_targeted a target fa)"

definition premints_from_secrets ::
  "externs \<Rightarrow> Id \<Rightarrow> (nat \<Rightarrow> SecretKey) \<Rightarrow> Amount list \<Rightarrow> string list \<Rightarrow> (nut00_error, PreMintSecrets) outcome" where
  "premints_from_secrets e i factor amts secrets =
     and_then (map_err Nut00DHKE (try_map (\<lambda>(n, sec, a). premint e i a sec (factor n)) (enumerate 0 (zip secrets amts)))) (\<lambda>ps.
     Ok \<lparr>pms_secrets = ps, pms_keyset_id = i\<rparr>)"

definition premints_with_conditions ::
  "externs \<Rightarrow> (Nut10Secret \<Rightarrow> string) \<Rightarrow> (nat \<Rightarrow> string) \<Rightarrow> (nat \<Rightarrow> SecretKey) \<Rightarrow> Id \<Rightarrow> Amount \<Rightarrow> SplitTarget
     \<Rightarrow> SpendingConditions \<Rightarrow> FeeAndAmounts \<Rightarrow> (nut00_error, PreMintSecrets) outcome option" where
  "premints_with_conditions e write_secret nonce factor i a target sc fa =
     premints_random e i (\<lambda>n. write_secret (nut10_from_conditions (nonce n) sc)) factor a target fa"

definition premint_messages :: "PreMintSecrets \<Rightarrow> BlindedMessage list" where
  "premint_messages p = map pm_blinded_message (pms_secrets p)"

definition premint_secrets :: "PreMintSecrets \<Rightarrow> string list" where
  "premint_secrets p = map pm_secret (pms_secrets p)"

definition premint_rs :: "PreMintSecrets \<Rightarrow> SecretKey list" where
  "premint_rs p = map pm_r (pms_secrets p)"

definition premint_total :: "PreMintSecrets \<Rightarrow> (nut00_error, Amount) outcome" where
  "premint_total p = map_err Nut00Amount (try_sum (map pm_amount (pms_secrets p)))"

definition premint_combine :: "PreMintSecrets \<Rightarrow> PreMintSecrets \<Rightarrow> PreMintSecrets" where
  "premint_combine p q = p\<lparr>pms_secrets := pms_secrets p @ pms_secrets q\<rparr>"

definition premint_sort :: "PreMintSecrets \<Rightarrow> PreMintSecrets" where
  "premint_sort p = p\<lparr>pms_secrets := sort_key pm_amount (pms_secrets p)\<rparr>"

section \<open>Outputs can be derived again\<close>

text \<open>What does not depend on the amount: the secret, the blinding factor and the blinded point.\<close>

definition derived_parts :: "PreMint \<Rightarrow> string \<times> SecretKey \<times> PublicKey" where
  "derived_parts p = (pm_secret p, pm_r p, blinded_secret (pm_blinded_message p))"

lemma seed_premint_derived:
  "seed_premint e dv seed i a n = Ok p \<Longrightarrow> \<exists>q. seed_premint e dv seed i b n = Ok q \<and> derived_parts q = derived_parts p"
  by (auto simp: seed_premint_def premint_def derived_parts_def split: prod.splits)

lemma seed_premint_amount:
  "seed_premint e dv seed i a n = Ok p \<Longrightarrow> pm_amount p = a \<and> bm_amount (pm_blinded_message p) = a \<and> bm_keyset_id (pm_blinded_message p) = i"
  by (auto simp: seed_premint_def premint_def split: prod.splits)

lemma add_one_Ok: "add_unchecked True c 1 = Ok d \<Longrightarrow> unat d = Suc (unat c)" for c :: u32
  by (auto simp: add_unchecked_def checked_add_def unat_word_ariths split: option.splits if_splits)

lemma seed_premints_nth:
  assumes "seed_premints True e dv seed i counter amts = Ok ps"
  shows "length ps = length amts" "unat counter + length amts < 2 ^ 32"
    and "n < length amts \<Longrightarrow> seed_premint e dv seed i (amts ! n) (of_nat (unat counter + n)) = Ok (ps ! n)"
  using assms
proof (induction amts arbitrary: counter ps n)
  case Nil
  { case 1 then show ?case by simp }
  { case 2 then show ?case using unsigned_less [of counter] by simp }
  { case 3 then show ?case by simp }
next
  case (Cons a amts)
  have step: "\<exists>q qs d. ps' = q # qs \<and> seed_premint e dv seed i a counter' = Ok q \<and> unat d = Suc (unat counter')
      \<and> seed_premints True e dv seed i d amts = Ok qs"
    if "seed_premints True e dv seed i counter' (a # amts) = Ok ps'" for counter' ps'
    using that by (auto dest: add_one_Ok)
  { case 1
    from step [OF 1] obtain q qs d where "ps = q # qs" "seed_premints True e dv seed i d amts = Ok qs" by blast
    then show ?case using Cons.IH(1) by simp }
  { case 2
    from step [OF 2] obtain qs d where "unat d = Suc (unat counter)" "seed_premints True e dv seed i d amts = Ok qs" by blast
    then show ?case using Cons.IH(2) [of d qs] by simp }
  { case 3
    from step [OF 3(2)] obtain q qs d where st: "ps = q # qs" "seed_premint e dv seed i a counter = Ok q" "unat d = Suc (unat counter)"
      "seed_premints True e dv seed i d amts = Ok qs" by blast
    show ?case
    proof (cases n)
      case 0
      then show ?thesis using st by simp
    next
      case (Suc k)
      then show ?thesis using Cons.IH(3) [OF _ st(4), of k] 3(1) st by simp
    qed }
qed

lemma restore_batch_nth:
  assumes "restore_batch e dv i seed s t = Ok q" "unat s + n \<le> unat t"
  shows "n < length (pms_secrets q)" "seed_premint e dv seed i 0 (of_nat (unat s + n)) = Ok (pms_secrets q ! n)"
proof -
  let ?ns = "[unat s ..< Suc (unat t)]"
  have run: "try_map (\<lambda>n. seed_premint e dv seed i 0 (of_nat n)) ?ns = Ok (pms_secrets q)"
    using assms(1) by (auto simp: restore_batch_def)
  have n: "n < length ?ns" "?ns ! n = unat s + n" using assms(2) by (simp_all add: nth_append del: upt_Suc)
  show "n < length (pms_secrets q)" using try_map_length [OF run] n(1) by simp
  show "seed_premint e dv seed i 0 (of_nat (unat s + n)) = Ok (pms_secrets q ! n)"
    using try_map_nth [OF run n(1)] n(2) by simp
qed

text \<open>
  C31: Outputs made from a seed, in a build that checks additions, can be made again from it: whatever their amounts were, a batch for
  restoring that covers their counters holds their secrets, blinding factors and blinded points, in
  their order.
\<close>

theorem restored_outputs:
  assumes "premints_from_seed True e dv i counter seed a target fa = Some (Ok p)"
    and "restore_batch e dv i seed lo hi = Ok q"
    and "unat lo \<le> unat counter" "unat counter + length (pms_secrets p) \<le> Suc (unat hi)"
  shows "map derived_parts (pms_secrets p)
    = take (length (pms_secrets p)) (drop (unat counter - unat lo) (map derived_parts (pms_secrets q)))"
proof (rule nth_equalityI)
  let ?k = "unat counter - unat lo" and ?n = "length (pms_secrets p)"
  obtain amts where run: "seed_premints True e dv seed i counter amts = Ok (pms_secrets p)"
    using assms(1) by (auto simp: premints_from_seed_def)
  have one: "?k + n < length (pms_secrets q) \<and> derived_parts (pms_secrets q ! (?k + n)) = derived_parts (pms_secrets p ! n)" if "n < ?n" for n
  proof -
    have "seed_premint e dv seed i (amts ! n) (of_nat (unat counter + n)) = Ok (pms_secrets p ! n)"
      using seed_premints_nth [OF run] that by simp
    from seed_premint_derived [OF this, of 0] restore_batch_nth [OF assms(2), of "?k + n"] that assms(3,4)
    show ?thesis by auto
  qed
  show "length (map derived_parts (pms_secrets p)) = length (take ?n (drop ?k (map derived_parts (pms_secrets q))))"
    using one [of "?n - 1"] assms(3) by (cases "?n = 0") auto
  show "map derived_parts (pms_secrets p) ! n = take ?n (drop ?k (map derived_parts (pms_secrets q))) ! n"
    if "n < length (map derived_parts (pms_secrets p))" for n
    using one [of n] that by simp
qed

text \<open>A derivation that gives every counter the same key.\<close>

definition one_key :: derivation where
  "one_key = \<lparr>dv_master = Some, dv_hd = \<lparr>hd_derive = (\<lambda>x _. Some x), hd_private_key = (\<lambda>_. [1])\<rparr>, dv_hmac = (\<lambda>_ _. [1])\<rparr>"

definition one_premint :: "Amount \<Rightarrow> PreMint" where
  "one_premint a = \<lparr>pm_blinded_message = \<lparr>bm_amount = a, bm_keyset_id = example_id2, blinded_secret = [2, 2], bm_witness = None\<rparr>,
     pm_secret = encode [1], pm_r = [1], pm_amount = a\<rparr>"

lemma one_key_premint: "seed_premint toy_externs one_key [0] example_id2 a c = Ok (one_premint a)"
  by (simp add: seed_premint_def secret_from_seed_def sk_from_seed_def hmac_derive_def one_key_def example_id2_def premint_def
      blind_message_def hash_to_curve_def hash_to_curve_from.simps toy_defs one_premint_def)

theorem restored_outputs_witness:
  "\<exists>p q. premints_from_seed True toy_externs one_key example_id2 5 [0] 8 NoTarget \<lparr>fee = 0, amounts = [8]\<rparr> = Some (Ok p)
     \<and> restore_batch toy_externs one_key example_id2 [0] 4 6 = Ok q
     \<and> map derived_parts (pms_secrets p) = take 1 (drop 1 (map derived_parts (pms_secrets q)))"
proof -
  let ?p = "\<lparr>pms_secrets = [one_premint 8], pms_keyset_id = example_id2\<rparr>"
  let ?q = "\<lparr>pms_secrets = [one_premint 0, one_premint 0, one_premint 0], pms_keyset_id = example_id2\<rparr>"
  have p: "premints_from_seed True toy_externs one_key example_id2 5 [0] 8 NoTarget \<lparr>fee = 0, amounts = [8]\<rparr> = Some (Ok ?p)"
    by (simp add: premints_from_seed_def split_targeted_def amount_split_def split_step_def one_key_premint add_unchecked_def checked_add_def)
  have "[4 ..< Suc 6] = [4, 5, 6::nat]" by (simp add: upt_rec)
  then have q: "restore_batch toy_externs one_key example_id2 [0] 4 6 = Ok ?q"
    by (simp add: restore_batch_def one_key_premint del: upt_Suc)
  show ?thesis using restored_outputs [OF p q] p q by simp
qed

end
