(* ===== verification/WalletSwap.thy ===== *)
theory WalletSwap
  imports WalletSelect TokenForms WalletDerive
begin

text \<open>
  The wallet as a client of a mint (\<^verbatim>\<open>crates/cdk/src/wallet\<close>: \<^verbatim>\<open>keysets.rs\<close>, \<^verbatim>\<open>mod.rs\<close>, \<^verbatim>\<open>proofs.rs\<close> and
  \<^verbatim>\<open>swap.rs\<close>): keysets and fees, and swapping proofs at the mint.
  A step works on the SQL store and on the mint behind a client, both of which it may change before it
  fails; a split of an amount that does not end gives no result. The information about a mint is read
  for its clock only: its row in the store and the wallet for authentication are left out. Random values are given by position, and
  a hash map is the list of its entries.
\<close>

section \<open>Steps\<close>

text \<open>The errors that only a wallet raises are added to those of the mint.\<close>

datatype wallet_error =
    W_Error Error
  | W_NoActiveKeyset
  | W_UnexpectedProofState
  | W_MintTimeExceedsTolerance
  | W_AmountKey
  | W_PreimageNotProvided
  | W_NUT01 nut01_error
  | W_NUT02 nut02_error
  | W_NUT13 nut13_error
  | W_HexError hex_error
  | W_Token token_error
  | W_MultiMintTokenNotSupported
  | W_IncorrectMint
  | W_Secret
  | W_P2PKConditionsNotMet string
  | W_InvalidSpendConditions string
  | W_IncorrectWallet
  | W_LocktimeNotProvided
  | W_CouldNotVerifyDleq

record 'm client =
  cl_info :: "'m \<Rightarrow> (Error, u64 option) outcome \<times> 'm"
  cl_keysets :: "'m \<Rightarrow> (Error, KeySetInfo list) outcome \<times> 'm"
  cl_keyset :: "Id \<Rightarrow> 'm \<Rightarrow> (Error, KeySet) outcome \<times> 'm"
  cl_swap :: "SwapRequest \<Rightarrow> 'm \<Rightarrow> (Error, BlindSignature list) outcome \<times> 'm"
  cl_check :: "PublicKey list \<Rightarrow> 'm \<Rightarrow> (Error, (PublicKey \<times> State) list) outcome \<times> 'm"
  cl_restore :: "BlindedMessage list \<Rightarrow> 'm \<Rightarrow> (Error, BlindedMessage list \<times> BlindSignature list) outcome \<times> 'm"

record 'm wallet =
  wal_externs :: externs
  wal_overflow_checks :: bool
  wal_now :: u64
  wal_client :: "'m client"
  wal_mint_url :: MintUrl
  wal_unit :: CurrencyUnit
  wal_seed :: bytes
  wal_target_proof_count :: nat
  wal_derivation :: derivation
  wal_shuffle :: "Proof list \<Rightarrow> Proof list"
  wal_write_secret :: "Nut10Secret \<Rightarrow> string"
  wal_nonce :: "nat \<Rightarrow> string"
  wal_factor :: "nat \<Rightarrow> SecretKey"

record 'm wallet_state =
  wst_db :: WalletSqlDb
  wst_mint :: 'm

type_synonym ('m, 'a) wstep = "'m wallet_state \<Rightarrow> ((wallet_error, 'a) outcome \<times> 'm wallet_state) option"

definition w_then :: "('m, 'a) wstep \<Rightarrow> ('a \<Rightarrow> ('m, 'b) wstep) \<Rightarrow> ('m, 'b) wstep" where
  "w_then f g s =
     (case f s of
        None \<Rightarrow> None
      | Some (Ok a, s') \<Rightarrow> g a s'
      | Some (Err x, s') \<Rightarrow> Some (Err x, s')
      | Some (Panic, s') \<Rightarrow> Some (Panic, s'))"

definition w_give :: "(wallet_error, 'a) outcome \<Rightarrow> ('m, 'a) wstep" where
  "w_give r s = Some (r, s)"

definition w_pure :: "(Error, 'a) outcome \<Rightarrow> ('m, 'a) wstep" where
  "w_pure r = w_give (map_err W_Error r)"

definition w_may :: "(wallet_error, 'a) outcome option \<Rightarrow> ('m, 'a) wstep" where
  "w_may r s = map_option (\<lambda>x. (x, s)) r"

definition w_ask :: "('m \<Rightarrow> (Error, 'a) outcome \<times> 'm) \<Rightarrow> ('m, 'a) wstep" where
  "w_ask f s = (let (r, m) = f (wst_mint s) in Some (map_err W_Error r, s\<lparr>wst_mint := m\<rparr>))"

definition w_read :: "(WalletSqlDb \<Rightarrow> (db_error, 'a) outcome) \<Rightarrow> ('m, 'a) wstep" where
  "w_read f s = Some (map_err (W_Error \<circ> from_db) (f (wst_db s)), s)"

definition w_write :: "(WalletSqlDb \<Rightarrow> WalletSqlDb) \<Rightarrow> ('m, unit) wstep" where
  "w_write f s = Some (Ok (), s\<lparr>wst_db := f (wst_db s)\<rparr>)"

definition w_run :: "(WalletSqlDb \<Rightarrow> (db_error, 'a \<times> WalletSqlDb) outcome) \<Rightarrow> ('m, 'a) wstep" where
  "w_run f s = (case f (wst_db s) of
      Ok (a, db) \<Rightarrow> Some (Ok a, s\<lparr>wst_db := db\<rparr>) | Err x \<Rightarrow> Some (Err (W_Error (from_db x)), s) | Panic \<Rightarrow> Some (Panic, s))"

fun w_each :: "('a \<Rightarrow> ('m, unit) wstep) \<Rightarrow> 'a list \<Rightarrow> ('m, unit) wstep" where
  "w_each f [] = w_give (Ok ())"
| "w_each f (x # xs) = w_then (f x) (\<lambda>_. w_each f xs)"

section \<open>Keysets and fees\<close>

definition load_keyset_keys :: "'m wallet \<Rightarrow> Id \<Rightarrow> ('m, Keys) wstep" where
  "load_keyset_keys w i =
     w_then (w_read (\<lambda>db. Ok (wallet_get_keys i db))) (\<lambda>stored.
     case stored of
       Some keys \<Rightarrow> w_give (Ok keys)
     | None \<Rightarrow>
         w_then (w_ask (cl_keyset (wal_client w) i)) (\<lambda>ks.
         w_then (w_give (map_err W_NUT02 (verify_id (sha256 (wal_externs w)) ks))) (\<lambda>_.
         w_then (w_run (\<lambda>db. and_then (wallet_add_keys (wal_externs w) ks db) (\<lambda>db'. Ok ((), db')))) (\<lambda>_.
         w_give (Ok (ks_keys ks))))))"

definition fetch_mint_info :: "'m wallet \<Rightarrow> ('m, unit) wstep" where
  "fetch_mint_info w s =
     (let (r, m) = cl_info (wal_client w) (wst_mint s); s' = s\<lparr>wst_mint := m\<rparr> in
      case r of
        Ok (Some t) \<Rightarrow>
          Some (ensure ((if t \<le> wal_now w then wal_now w - t else t - wal_now w) \<le> 30) W_MintTimeExceedsTolerance, s')
      | Panic \<Rightarrow> Some (Panic, s')
      | _ \<Rightarrow> Some (Ok (), s'))"

definition refresh_keysets :: "'m wallet \<Rightarrow> ('m, KeySetInfo list) wstep" where
  "refresh_keysets w =
     w_then (fetch_mint_info w) (\<lambda>_.
     w_then (w_ask (cl_keysets (wal_client w))) (\<lambda>all_keysets.
     w_then (\<lambda>s. let (r, db) = wallet_add_mint_keysets (wal_mint_url w) all_keysets (wst_db s) in
               Some (map_err (W_Error \<circ> from_db) r, s\<lparr>wst_db := db\<rparr>)) (\<lambda>_.
     let keysets = filter (\<lambda>k. info_unit k = wal_unit w) all_keysets in
     w_then (w_each (\<lambda>k. w_then (load_keyset_keys w (info_id k)) (\<lambda>_. w_give (Ok ()))) keysets) (\<lambda>_.
     w_give (Ok keysets)))))"

text \<open>\<open>min_by_key\<close> returns the first of the least elements.\<close>

fun least_fee :: "KeySetInfo list \<Rightarrow> KeySetInfo option" where
  "least_fee [] = None"
| "least_fee (k # ks) =
     (case least_fee ks of
        None \<Rightarrow> Some k
      | Some j \<Rightarrow> Some (if info_input_fee_ppk k \<le> info_input_fee_ppk j then k else j))"

definition fetch_active_keyset :: "'m wallet \<Rightarrow> ('m, KeySetInfo) wstep" where
  "fetch_active_keyset w =
     w_then (refresh_keysets w) (\<lambda>ks. w_give (ok_or (least_fee (filter info_active ks)) W_NoActiveKeyset))"

definition load_mint_keysets :: "'m wallet \<Rightarrow> ('m, KeySetInfo list) wstep" where
  "load_mint_keysets w =
     w_then (w_read (wallet_get_mint_keysets (wal_mint_url w))) (\<lambda>stored.
     case stored of Some ks \<Rightarrow> w_give (Ok ks) | None \<Rightarrow> refresh_keysets w)"

definition get_mint_keysets :: "'m wallet \<Rightarrow> ('m, KeySetInfo list) wstep" where
  "get_mint_keysets w =
     w_then (w_read (wallet_get_mint_keysets (wal_mint_url w))) (\<lambda>stored. w_pure (ok_or stored E_UnknownKeySet))"

text \<open>Unlike its documentation, the choice is not among the active keysets only.\<close>

definition get_active_keyset :: "'m wallet \<Rightarrow> ('m, KeySetInfo) wstep" where
  "get_active_keyset w =
     w_then (w_read (wallet_get_mint_keysets (wal_mint_url w))) (\<lambda>stored.
     case stored of
       Some ks \<Rightarrow> w_give (ok_or (least_fee ks) W_NoActiveKeyset)
     | None \<Rightarrow> w_pure (Err E_UnknownKeySet))"

fun add_fees :: "'m wallet \<Rightarrow> (Id \<times> FeeAndAmounts) list \<Rightarrow> KeySetInfo list \<Rightarrow> ('m, (Id \<times> FeeAndAmounts) list) wstep" where
  "add_fees w fees [] = w_give (Ok fees)"
| "add_fees w fees (k # ks) =
     w_then (load_keyset_keys w (info_id k)) (\<lambda>keys.
     add_fees w (upsert replace_row (info_id k) \<lparr>fee = info_input_fee_ppk k, amounts = map fst keys\<rparr> fees) ks)"

definition get_keyset_fees_and_amounts :: "'m wallet \<Rightarrow> ('m, (Id \<times> FeeAndAmounts) list) wstep" where
  "get_keyset_fees_and_amounts w = w_then (get_mint_keysets w) (add_fees w [])"

definition get_keyset_fees_and_amounts_by_id :: "'m wallet \<Rightarrow> Id \<Rightarrow> ('m, FeeAndAmounts) wstep" where
  "get_keyset_fees_and_amounts_by_id w i =
     w_then (get_keyset_fees_and_amounts w) (\<lambda>fees. w_pure (ok_or (map_of fees i) E_UnknownKeySet))"

definition fee_of_keyset :: "Id \<Rightarrow> WalletSqlDb \<Rightarrow> (Error, u64) outcome" where
  "fee_of_keyset i db =
     and_then (map_err from_db (wallet_get_keyset_by_id i db)) (\<lambda>info.
     and_then (ok_or info E_UnknownKeySet) (\<lambda>k. Ok (info_input_fee_ppk k)))"

definition get_proofs_fee_by_count :: "'m wallet \<Rightarrow> (Id \<times> u64) list \<Rightarrow> ('m, Amount) wstep" where
  "get_proofs_fee_by_count w counts s =
     w_pure (and_then (try_map (\<lambda>(i, _). and_then (fee_of_keyset i (wst_db s)) (\<lambda>f. Ok (i, f))) counts) (\<lambda>fees.
       map_err from_fee (calculate_fee (wal_overflow_checks w) counts (map_of fees)))) s"

definition wallet_proofs_fee :: "'m wallet \<Rightarrow> Proof list \<Rightarrow> ('m, Amount) wstep" where
  "wallet_proofs_fee w proofs = get_proofs_fee_by_count w (count_by_keyset proofs)"

definition get_keyset_count_fee :: "'m wallet \<Rightarrow> Id \<Rightarrow> u64 \<Rightarrow> ('m, Amount) wstep" where
  "get_keyset_count_fee w i n s =
     w_pure (and_then (fee_of_keyset i (wst_db s)) (\<lambda>f.
       and_then (mul_unchecked (wal_overflow_checks w) f n) (\<lambda>p. Ok (div_ceil p 1000)))) s"

section \<open>The wallet's proofs\<close>

definition get_proofs_with ::
  "'m wallet \<Rightarrow> State list option \<Rightarrow> SpendingConditions list option \<Rightarrow> WalletSqlDb \<Rightarrow> Proof list" where
  "get_proofs_with w sts conds db = map pi_proof (wallet_get_proofs (Some (wal_mint_url w)) (Some (wal_unit w)) sts conds db)"

definition get_unspent_proofs :: "'m wallet \<Rightarrow> WalletSqlDb \<Rightarrow> Proof list" where
  "get_unspent_proofs w = get_proofs_with w (Some [Unspent]) None"

definition get_reserved_proofs :: "'m wallet \<Rightarrow> WalletSqlDb \<Rightarrow> Proof list" where
  "get_reserved_proofs w = get_proofs_with w (Some [Reserved]) None"

definition unreserve_proofs :: "PublicKey list \<Rightarrow> ('m, unit) wstep" where
  "unreserve_proofs yl = w_write (wallet_update_proofs_state yl Unspent)"

definition wallet_ys :: "'m wallet \<Rightarrow> Proof list \<Rightarrow> ('m, PublicKey list) wstep" where
  "wallet_ys w proofs = w_pure (map_err (E_NUT00 \<circ> Nut00DHKE) (proof_ys (wal_externs w) proofs))"

definition wallet_total :: "Proof list \<Rightarrow> ('m, Amount) wstep" where
  "wallet_total proofs = w_pure (map_err (E_NUT00 \<circ> Nut00Amount) (total_amount proofs))"

definition check_proofs_spent :: "'m wallet \<Rightarrow> Proof list \<Rightarrow> ('m, (PublicKey \<times> State) list) wstep" where
  "check_proofs_spent w proofs =
     w_then (wallet_ys w proofs) (\<lambda>yl.
     w_then (w_ask (cl_check (wal_client w) yl)) (\<lambda>states.
     w_then (w_write (wallet_update_proofs [] (map fst (filter (\<lambda>(_, st). st = Spent) states)))) (\<lambda>_.
     w_give (Ok states))))"

definition check_all_pending_proofs :: "'m wallet \<Rightarrow> ('m, Amount) wstep" where
  "check_all_pending_proofs w =
     w_then (w_read (\<lambda>db. Ok (wallet_get_proofs (Some (wal_mint_url w)) (Some (wal_unit w))
        (Some [Pending, Reserved, PendingSpent]) None db))) (\<lambda>proofs.
     if proofs = [] then w_give (Ok 0)
     else
       w_then (check_proofs_spent w (map pi_proof proofs)) (\<lambda>states.
       let pending_states = map fst (filter (\<lambda>(_, st). st \<noteq> Spent) states);
           pending_proofs = filter (\<lambda>p. pi_y p \<in> set pending_states) proofs;
           non_pending_proofs = filter (\<lambda>p. pi_y p \<notin> set pending_states) proofs in
       w_then (w_pure (map_err E_AmountError (try_sum (map (amount \<circ> pi_proof) pending_proofs)))) (\<lambda>a.
       w_then (w_write (wallet_update_proofs [] (map pi_y non_pending_proofs))) (\<lambda>_.
       w_give (amount_add 0 a)))))"

definition amounts_needed_for_state_target :: "'m wallet \<Rightarrow> FeeAndAmounts \<Rightarrow> WalletSqlDb \<Rightarrow> Amount list" where
  "amounts_needed_for_state_target w fa db =
     (let unspent = map amount (get_unspent_proofs w db) in
      concat (map (\<lambda>a. replicate (wal_target_proof_count w - count_list unspent a) a) (amounts fa)))"

fun take_values :: "Amount \<Rightarrow> Amount list \<Rightarrow> Amount list \<Rightarrow> (Error, Amount list) outcome" where
  "take_values change values [] = Ok values"
| "take_values change values (a # as) =
     and_then (map_err E_AmountError (try_sum values)) (\<lambda>values_sum.
     and_then (amount_add values_sum a) (\<lambda>t.
     take_values change (if t \<le> change then values @ [a] else values) as))"

definition determine_split_target_values :: "'m wallet \<Rightarrow> Amount \<Rightarrow> FeeAndAmounts \<Rightarrow> ('m, SplitTarget) wstep" where
  "determine_split_target_values w change fa s =
     w_pure (and_then (take_values change [] (sort (amounts_needed_for_state_target w fa (wst_db s)))) (\<lambda>vs. Ok (Values vs))) s"

section \<open>Swapping\<close>

record PreSwap =
  pre_mint_secrets :: PreMintSecrets
  pre_swap_request :: SwapRequest
  pre_derived_secret_count :: u32
  pre_fee :: Amount

definition or_zero :: "Amount option \<Rightarrow> Amount" where
  "or_zero a = (case a of Some x \<Rightarrow> x | None \<Rightarrow> 0)"

definition w_split :: "Amount \<Rightarrow> SplitTarget \<Rightarrow> FeeAndAmounts \<Rightarrow> ('m, Amount list) wstep" where
  "w_split a target fa = w_may (map_option (map_err (W_Error \<circ> E_AmountError)) (split_targeted a target fa))"

text \<open>The amounts to send and to keep; the parse of the split is unwrapped.\<close>

definition send_and_change ::
  "'m wallet \<Rightarrow> Id \<Rightarrow> FeeAndAmounts \<Rightarrow> Amount option \<Rightarrow> Amount \<Rightarrow> bool \<Rightarrow> ('m, Amount option \<times> Amount) wstep" where
  "send_and_change w i fa a change with_fees =
     (if with_fees then
        w_then (w_may (map_option unwrap (split_targeted (or_zero a) NoTarget fa))) (\<lambda>parts.
        w_then (get_keyset_count_fee w i (of_nat (length parts))) (\<lambda>fee_to_redeem.
        w_then (case a of None \<Rightarrow> w_give (Ok None)
                | Some x \<Rightarrow> w_pure (and_then (ok_or (checked_add x fee_to_redeem) E_AmountOverflow) (\<lambda>y. Ok (Some y)))) (\<lambda>send_amount.
        w_then (w_pure (ok_or (checked_sub change fee_to_redeem) E_InsufficientFunds)) (\<lambda>change_amount.
        w_give (Ok (send_amount, change_amount))))))
      else w_give (Ok (a, change)))"

definition change_target :: "'m wallet \<Rightarrow> SplitTarget \<Rightarrow> Amount \<Rightarrow> FeeAndAmounts \<Rightarrow> ('m, SplitTarget) wstep" where
  "change_target w target change fa =
     (case target of NoTarget \<Rightarrow> determine_split_target_values w change fa | t \<Rightarrow> w_give (Ok t))"

definition secrets_needed ::
  "'m wallet \<Rightarrow> SpendingConditions option \<Rightarrow> Amount option \<Rightarrow> Amount \<Rightarrow> SplitTarget \<Rightarrow> FeeAndAmounts \<Rightarrow> ('m, u32) wstep" where
  "secrets_needed w conds send_amount change target fa =
     (case conds of
        Some _ \<Rightarrow> w_then (w_split change target fa) (\<lambda>cs. w_give (Ok (of_nat (length cs))))
      | None \<Rightarrow>
          w_then (w_split (or_zero send_amount) NoTarget fa) (\<lambda>ss.
          w_then (w_split change target fa) (\<lambda>cs.
          w_give (add_unchecked (wal_overflow_checks w) (of_nat (length ss)) (of_nat (length cs))))))"

definition sub_unchecked :: "bool \<Rightarrow> u32 \<Rightarrow> u32 \<Rightarrow> ('e, u32) outcome" where
  "sub_unchecked overflow_checks a b = (if overflow_checks \<and> a < b then Panic else Ok (a - b))"

definition reserve_counters :: "'m wallet \<Rightarrow> Id \<Rightarrow> u32 \<Rightarrow> ('m, u32) wstep" where
  "reserve_counters w i needed =
     (if 0 < needed then
        w_then (w_run (wallet_increment_keyset_counter (wal_overflow_checks w) i needed)) (\<lambda>new_counter.
        w_give (sub_unchecked (wal_overflow_checks w) new_counter needed))
      else w_give (Ok 0))"

definition w_from_seed ::
  "'m wallet \<Rightarrow> Id \<Rightarrow> u32 \<Rightarrow> Amount \<Rightarrow> SplitTarget \<Rightarrow> FeeAndAmounts \<Rightarrow> ('m, PreMintSecrets) wstep" where
  "w_from_seed w i counter a target fa =
     w_may (map_option (map_err W_NUT13)
       (premints_from_seed (wal_overflow_checks w) (wal_externs w) (wal_derivation w) i counter (wal_seed w) a target fa))"

definition w_with_conditions ::
  "'m wallet \<Rightarrow> Id \<Rightarrow> Amount \<Rightarrow> SpendingConditions \<Rightarrow> FeeAndAmounts \<Rightarrow> ('m, PreMintSecrets) wstep" where
  "w_with_conditions w i a sc fa =
     w_may (map_option (map_err (W_Error \<circ> E_NUT00))
       (premints_with_conditions (wal_externs w) (wal_write_secret w) (wal_nonce w) (wal_factor w) i a NoTarget sc fa))"

definition swap_messages ::
  "'m wallet \<Rightarrow> Id \<Rightarrow> u32 \<Rightarrow> SpendingConditions option \<Rightarrow> Amount option \<Rightarrow> Amount \<Rightarrow> SplitTarget \<Rightarrow> FeeAndAmounts
     \<Rightarrow> ('m, PreMintSecrets \<times> PreMintSecrets) wstep" where
  "swap_messages w i start conds send_amount change target fa =
     (case conds of
        Some sc \<Rightarrow>
          w_then (w_from_seed w i start change target fa) (\<lambda>change_secrets.
          w_then (w_with_conditions w i (or_zero send_amount) sc fa) (\<lambda>send_secrets.
          w_give (Ok (send_secrets, change_secrets))))
      | None \<Rightarrow>
          w_then (w_from_seed w i start (or_zero send_amount) NoTarget fa) (\<lambda>send_secrets.
          w_then (w_give (add_unchecked (wal_overflow_checks w) start (of_nat (length (pms_secrets send_secrets))))) (\<lambda>next.
          w_then (w_from_seed w i next change target fa) (\<lambda>change_secrets.
          w_give (Ok (send_secrets, change_secrets))))))"

definition create_swap ::
  "'m wallet \<Rightarrow> Amount option \<Rightarrow> SplitTarget \<Rightarrow> Proof list \<Rightarrow> SpendingConditions option \<Rightarrow> bool \<Rightarrow> ('m, PreSwap) wstep" where
  "create_swap w a target proofs conds with_fees =
     w_then (fetch_active_keyset w) (\<lambda>k. let i = info_id k in
     w_then (wallet_total proofs) (\<lambda>proofs_total.
     w_then (wallet_ys w proofs) (\<lambda>yl.
     w_then (w_write (wallet_update_proofs_state yl Reserved)) (\<lambda>_.
     w_then (wallet_proofs_fee w proofs) (\<lambda>swap_fee.
     w_then (w_pure (ok_or (checked_add (or_zero a) swap_fee) E_AmountOverflow)) (\<lambda>total_to_subtract.
     w_then (w_pure (ok_or (checked_sub proofs_total total_to_subtract) E_InsufficientFunds)) (\<lambda>change.
     w_then (get_keyset_fees_and_amounts_by_id w i) (\<lambda>fa.
     w_then (send_and_change w i fa a change with_fees) (\<lambda>(send_amount, change_amount).
     w_then (change_target w target change_amount fa) (\<lambda>change_split_target.
     w_then (secrets_needed w conds send_amount change_amount change_split_target fa) (\<lambda>needed.
     w_then (reserve_counters w i needed) (\<lambda>start.
     w_then (swap_messages w i start conds send_amount change_amount change_split_target fa) (\<lambda>(send_secrets, change_secrets).
     let desired = premint_sort (premint_combine send_secrets change_secrets);
         derived_count = length (pms_secrets change_secrets) + (if conds = None then length (pms_secrets send_secrets) else 0) in
     w_give (Ok \<lparr>pre_mint_secrets = desired,
       pre_swap_request = swap_request_new proofs (premint_messages desired),
       pre_derived_secret_count = of_nat derived_count, pre_fee = swap_fee\<rparr>))))))))))))))"

text \<open>The loop that takes the proofs of the split out of the others.\<close>

fun take_split :: "Amount list \<Rightarrow> Proof list \<Rightarrow> Proof list \<times> Proof list" where
  "take_split parts [] = ([], [])"
| "take_split parts (p # ps) =
     (if amount p \<in> set parts
      then let (send, keep) = take_split (remove1 (amount p) parts) ps in (p # send, keep)
      else let (send, keep) = take_split parts ps in (send, p # keep))"

definition has_condition :: "externs \<Rightarrow> Proof \<Rightarrow> bool" where
  "has_condition e p \<longleftrightarrow> is_ok (nut10_try_from e (secret p))"

definition share_out ::
  "'m wallet \<Rightarrow> Amount \<Rightarrow> SplitTarget \<Rightarrow> SpendingConditions option \<Rightarrow> FeeAndAmounts \<Rightarrow> Proof list
     \<Rightarrow> ('m, Proof list \<times> Proof list) wstep" where
  "share_out w a target conds fa proofs =
     (let (with_condition, without_condition) = partition (has_condition (wal_externs w)) proofs in
      case conds of
        Some _ \<Rightarrow> w_give (Ok (with_condition, without_condition))
      | None \<Rightarrow> w_then (w_split a target fa) (\<lambda>parts. w_give (Ok (take_split parts (rev without_condition)))))"

definition w_infos :: "'m wallet \<Rightarrow> State \<Rightarrow> Proof list \<Rightarrow> ('m, ProofInfo list) wstep" where
  "w_infos w st ps = w_pure (try_map (\<lambda>p. proof_info_new (wal_externs w) p (wal_mint_url w) st (wal_unit w)) ps)"

text \<open>The sum \<open>amount + pre_swap.fee\<close> is only compared with, but it may panic.\<close>

definition sort_swapped ::
  "'m wallet \<Rightarrow> Amount option \<Rightarrow> SplitTarget \<Rightarrow> SpendingConditions option \<Rightarrow> FeeAndAmounts \<Rightarrow> Amount \<Rightarrow> Proof list
     \<Rightarrow> ('m, ProofInfo list \<times> Proof list \<times> Proof list option) wstep" where
  "sort_swapped w a target conds fa swap_fee proofs =
     (case a of
        None \<Rightarrow> w_give (Ok ([], proofs, None))
      | Some x \<Rightarrow>
          w_then (share_out w x target conds fa proofs) (\<lambda>(send, keep).
          w_then (wallet_total send) (\<lambda>_.
          w_then (w_give (amount_add x swap_fee)) (\<lambda>_.
          w_then (w_infos w Reserved send) (\<lambda>infos.
          w_give (Ok (infos, keep, Some send)))))))"

definition settle_swap ::
  "'m wallet \<Rightarrow> Amount option \<Rightarrow> SplitTarget \<Rightarrow> Proof list \<Rightarrow> SpendingConditions option \<Rightarrow> PreSwap \<Rightarrow> BlindSignature list
     \<Rightarrow> ('m, Proof list option) wstep" where
  "settle_swap w a target proofs conds pre sigs =
     (let i = pms_keyset_id (pre_mint_secrets pre) in
      w_then (get_keyset_fees_and_amounts_by_id w i) (\<lambda>fa.
      w_then (w_read (\<lambda>db. Ok (wallet_get_keys i db))) (\<lambda>stored.
      w_then (w_give (ok_or stored W_NoActiveKeyset)) (\<lambda>active_keys.
      w_then (w_pure (map_err E_DHKE (construct_proofs (wal_externs w) sigs (premint_rs (pre_mint_secrets pre))
         (premint_secrets (pre_mint_secrets pre)) active_keys))) (\<lambda>post_swap_proofs.
      w_then (sort_swapped w a target conds fa (pre_fee pre) post_swap_proofs) (\<lambda>(send_infos, change_proofs, send_proofs).
      w_then (w_infos w Unspent change_proofs) (\<lambda>keep_infos.
      w_then (wallet_ys w proofs) (\<lambda>deleted_ys.
      w_then (w_write (wallet_update_proofs (send_infos @ keep_infos) deleted_ys)) (\<lambda>_.
      w_give (Ok send_proofs))))))))))"

definition wallet_swap ::
  "'m wallet \<Rightarrow> Amount option \<Rightarrow> SplitTarget \<Rightarrow> Proof list \<Rightarrow> SpendingConditions option \<Rightarrow> bool
     \<Rightarrow> ('m, Proof list option) wstep" where
  "wallet_swap w a target proofs conds with_fees =
     w_then (refresh_keysets w) (\<lambda>_.
     w_then (create_swap w a target proofs conds with_fees) (\<lambda>pre.
     w_then (w_ask (cl_swap (wal_client w) (pre_swap_request pre))) (\<lambda>sigs.
     settle_swap w a target proofs conds pre sigs)))"

definition reclaim_unspent :: "'m wallet \<Rightarrow> Proof list \<Rightarrow> ('m, unit) wstep" where
  "reclaim_unspent w proofs =
     w_then (wallet_ys w proofs) (\<lambda>yl.
     w_then (w_ask (cl_check (wal_client w) yl)) (\<lambda>states.
     let unspent = map fst (filter (\<lambda>(_, _, st). st = Unspent) (zip proofs states)) in
     w_then (wallet_swap w None NoTarget unspent None False) (\<lambda>_.
     w_write (wallet_remove_transaction (transaction_id_new (wal_externs w) yl)))))"

definition swap_from_unspent ::
  "'m wallet \<Rightarrow> Amount \<Rightarrow> SpendingConditions option \<Rightarrow> bool \<Rightarrow> ('m, Proof list) wstep" where
  "swap_from_unspent w a conds with_fees =
     w_then (w_read (\<lambda>db. Ok (get_unspent_proofs w db))) (\<lambda>available.
     w_then (w_pure (try_fold (\<lambda>t p. ok_or (checked_add t (amount p)) E_AmountOverflow) 0 available)) (\<lambda>proofs_sum.
     w_then (w_pure (ensure (a \<le> proofs_sum) E_InsufficientFunds)) (\<lambda>_.
     w_then (refresh_keysets w) (\<lambda>ks.
     w_then (get_keyset_fees_and_amounts w) (\<lambda>fees.
     w_then (w_pure (select_proofs (wal_overflow_checks w) (wal_shuffle w) a available (map info_id (filter info_active ks)) fees True)) (\<lambda>proofs.
     w_then (wallet_swap w (Some a) NoTarget proofs conds with_fees) (\<lambda>r.
     w_pure (ok_or r E_InsufficientFunds))))))))"

section \<open>What a step does to the proofs\<close>

text \<open>The rows of proofs in the store of a state, and steps that leave them as they are.\<close>

abbreviation rows :: "'m wallet_state \<Rightarrow> (PublicKey \<times> ProofInfo) list" where
  "rows s \<equiv> w_proofs (wst_db s)"

definition w_keeps :: "('m, 'a) wstep \<Rightarrow> bool" where
  "w_keeps f \<longleftrightarrow> (\<forall>s r s'. f s = Some (r, s') \<longrightarrow> rows s' = rows s)"

named_theorems keeps_rules \<open>steps that leave the rows of proofs as they are\<close>

lemma w_then_Some:
  "w_then f g s = Some (r, s') \<longleftrightarrow>
     (\<exists>a s1. f s = Some (Ok a, s1) \<and> g a s1 = Some (r, s'))
     \<or> (\<exists>x. f s = Some (Err x, s') \<and> r = Err x) \<or> (f s = Some (Panic, s') \<and> r = Panic)"
  by (auto simp: w_then_def split: option.splits outcome.splits prod.splits)

lemma w_then_Ok: "w_then f g s = Some (Ok b, s') \<longleftrightarrow> (\<exists>a s1. f s = Some (Ok a, s1) \<and> g a s1 = Some (Ok b, s'))"
  by (simp add: w_then_Some)

lemma w_then_OkE:
  assumes "w_then f g s = Some (Ok b, s')"
  obtains a s1 where "f s = Some (Ok a, s1)" "g a s1 = Some (Ok b, s')"
  using assms by (auto simp: w_then_Ok)

lemma w_keepsD: "w_keeps f \<Longrightarrow> f s = Some (r, s') \<Longrightarrow> rows s' = rows s"
  by (simp add: w_keeps_def)

lemma w_keeps_then [keeps_rules]: "w_keeps f \<Longrightarrow> (\<And>a. w_keeps (g a)) \<Longrightarrow> w_keeps (w_then f g)"
  by (auto simp: w_keeps_def w_then_Some)

lemma w_keeps_basic [keeps_rules]:
  "w_keeps (w_give r)" "w_keeps (w_pure q)" "w_keeps (w_may m)" "w_keeps (w_ask a)" "w_keeps (w_read f)"
  by (auto simp: w_keeps_def w_give_def w_pure_def w_may_def w_ask_def w_read_def split: prod.splits)

lemma w_keeps_run [keeps_rules]: "(\<And>db a db'. f db = Ok (a, db') \<Longrightarrow> w_proofs db' = w_proofs db) \<Longrightarrow> w_keeps (w_run f)"
  by (auto simp: w_keeps_def w_run_def split: outcome.splits prod.splits)

lemma w_keeps_each [keeps_rules]: "(\<And>x. w_keeps (f x)) \<Longrightarrow> w_keeps (w_each f xs)"
  by (induction xs) (simp_all add: keeps_rules)

lemma load_keyset_keys_keeps [keeps_rules]: "w_keeps (load_keyset_keys w i)"
  unfolding load_keyset_keys_def
  by (intro keeps_rules) (auto intro!: keeps_rules simp: wallet_add_keys_def split: option.splits)

lemma add_mint_keysets_rows: "wallet_add_mint_keysets url ks db = (r, db') \<Longrightarrow> w_proofs db' = w_proofs db"
  by (induction url ks db rule: wallet_add_mint_keysets.induct) (auto split: if_splits)

lemma refresh_keysets_keeps [keeps_rules]: "w_keeps (refresh_keysets w)"
proof -
  have "w_keeps (fetch_mint_info w)"
    by (auto simp: w_keeps_def fetch_mint_info_def Let_def split: prod.splits outcome.splits option.splits)
  moreover have "w_keeps (\<lambda>s. let (r, db) = wallet_add_mint_keysets (wal_mint_url w) ks (wst_db s) in
      Some (map_err (W_Error \<circ> from_db) r, s\<lparr>wst_db := db\<rparr>))" for ks
    by (auto simp: w_keeps_def dest: add_mint_keysets_rows split: prod.splits)
  ultimately show ?thesis unfolding refresh_keysets_def Let_def by (intro keeps_rules)
qed

lemma keysets_keep [keeps_rules]:
  "w_keeps (fetch_active_keyset w)" "w_keeps (get_mint_keysets w)" "w_keeps (get_active_keyset w)" "w_keeps (load_mint_keysets w)"
  unfolding fetch_active_keyset_def get_mint_keysets_def get_active_keyset_def load_mint_keysets_def
  by (auto intro!: keeps_rules split: option.splits)

lemma add_fees_keeps: "w_keeps (add_fees w fees ks)"
  by (induction ks arbitrary: fees) (auto intro!: keeps_rules)

lemma fees_keep [keeps_rules]:
  "w_keeps (get_keyset_fees_and_amounts w)" "w_keeps (get_keyset_fees_and_amounts_by_id w i)"
  unfolding get_keyset_fees_and_amounts_by_id_def get_keyset_fees_and_amounts_def
  by (auto intro!: keeps_rules add_fees_keeps)

lemma w_keeps_pure: "(\<And>s. f s = w_pure (g s) s) \<Longrightarrow> w_keeps f"
  by (simp add: w_keeps_def w_pure_def w_give_def)

lemma pure_steps_keep [keeps_rules]:
  "w_keeps (get_proofs_fee_by_count w counts)" "w_keeps (wallet_proofs_fee w ps)" "w_keeps (get_keyset_count_fee w i n)"
  "w_keeps (determine_split_target_values w change fa)" "w_keeps (wallet_ys w ps)" "w_keeps (wallet_total ps)"
  "w_keeps (w_infos w st ps)"
  by (rule w_keeps_pure, simp add: wallet_proofs_fee_def get_proofs_fee_by_count_def get_keyset_count_fee_def
      determine_split_target_values_def wallet_ys_def wallet_total_def w_infos_def)+

lemma increment_rows: "wallet_increment_keyset_counter oc i n db = Ok (c, db') \<Longrightarrow> w_proofs db' = w_proofs db"
  by (auto simp: wallet_increment_keyset_counter_def)

lemma swap_parts_keep [keeps_rules]:
  "w_keeps (w_split a target fa)" "w_keeps (send_and_change w i fa oa change with_fees)" "w_keeps (change_target w target change fa)"
  "w_keeps (secrets_needed w conds oa change target fa)" "w_keeps (reserve_counters w i n)"
  "w_keeps (swap_messages w i start conds oa change target fa)" "w_keeps (share_out w a target conds fa ps)"
  "w_keeps (sort_swapped w oa target conds fa swap_fee ps)"
  unfolding w_split_def send_and_change_def change_target_def secrets_needed_def reserve_counters_def swap_messages_def
    w_from_seed_def w_with_conditions_def share_out_def sort_swapped_def
  by (auto intro!: keeps_rules dest: increment_rows split: option.splits SplitTarget.splits prod.splits)

section \<open>What a swap does to the proofs\<close>

abbreviation failed :: "('e, 'a) outcome \<Rightarrow> bool" where
  "failed r \<equiv> \<forall>a. r \<noteq> Ok a"

definition mark :: "State \<Rightarrow> PublicKey list \<Rightarrow> (PublicKey \<times> ProofInfo) list \<Rightarrow> (PublicKey \<times> ProofInfo) list" where
  "mark st yl = update_where (\<lambda>y _. y \<in> set yl) (\<lambda>p. p\<lparr>pi_state := st\<rparr>)"

lemma mark_rows [simp]: "w_proofs (wallet_update_proofs_state yl st db) = mark st yl (w_proofs db)"
  by (simp add: wallet_update_proofs_state_def mark_def)

text \<open>A step that marks the given proofs as reserved, unless it fails before that.\<close>

definition w_reserves :: "externs \<Rightarrow> Proof list \<Rightarrow> ('m, 'a) wstep \<Rightarrow> bool" where
  "w_reserves e proofs f \<longleftrightarrow> (\<forall>s r s'. f s = Some (r, s') \<longrightarrow>
     (failed r \<and> rows s' = rows s) \<or> (\<exists>yl. proof_ys e proofs = Ok yl \<and> rows s' = mark Reserved yl (rows s)))"

lemma w_reserves_then:
  assumes f: "w_keeps f" and g: "\<And>a. w_reserves e ps (g a)"
  shows "w_reserves e ps (w_then f g)"
  unfolding w_reserves_def
proof (intro allI impI)
  fix s r s' assume "w_then f g s = Some (r, s')"
  then consider a s1 where "f s = Some (Ok a, s1)" "g a s1 = Some (r, s')" | q where "f s = Some (q, s')" "failed r"
    by (auto simp: w_then_Some)
  then show "failed r \<and> rows s' = rows s \<or> (\<exists>yl. proof_ys e ps = Ok yl \<and> rows s' = mark Reserved yl (rows s))"
  proof cases
    case (1 a s1)
    then show ?thesis using w_keepsD [OF f 1(1)] g [of a, unfolded w_reserves_def, THEN spec, THEN spec, THEN spec, THEN mp, OF 1(2)]
      by auto
  next
    case (2 q)
    then show ?thesis using w_keepsD [OF f] by blast
  qed
qed

lemma w_write_Some: "w_write f s = Some (r, s') \<longleftrightarrow> r = Ok () \<and> s' = s\<lparr>wst_db := f (wst_db s)\<rparr>"
  by (auto simp: w_write_def)

lemma wallet_ys_Some: "wallet_ys w ps s = Some (r, s') \<longleftrightarrow>
    s' = s \<and> r = map_err W_Error (map_err (E_NUT00 \<circ> Nut00DHKE) (proof_ys (wal_externs w) ps))"
  by (auto simp: wallet_ys_def w_pure_def w_give_def)

lemma Ok_map_err: "Ok a = map_err f r \<longleftrightarrow> r = Ok a"
  by (cases r) auto

lemma w_reserves_write:
  assumes "\<And>yl. w_keeps (h yl)"
  shows "w_reserves (wal_externs w) ps (w_then (wallet_ys w ps) (\<lambda>yl. w_then (w_write (wallet_update_proofs_state yl Reserved)) (\<lambda>_. h yl)))"
  unfolding w_reserves_def w_then_Some wallet_ys_Some w_write_Some
  using assms by (auto simp: w_keeps_def Ok_map_err)

lemma create_swap_reserves: "w_reserves (wal_externs w) proofs (create_swap w a target proofs conds with_fees)"
  unfolding create_swap_def Let_def split_def
  by (intro w_reserves_then w_reserves_write keeps_rules)

lemma delete_update: "delete_where (\<lambda>y _. y \<in> set yl) (mark st yl t) = delete_where (\<lambda>y _. y \<in> set yl) t"
  by (induction t) (auto simp: mark_def update_where_def delete_where_def)

lemma delete_upsert:
  "delete_where (\<lambda>y _. y \<in> Y) (upsert replace_row k v t)
     = (if k \<in> Y then delete_where (\<lambda>y _. y \<in> Y) t else upsert replace_row k v (delete_where (\<lambda>y _. y \<in> Y) t))"
  by (induction t) (auto simp: delete_where_def)

lemma delete_fold_upsert:
  "delete_where (\<lambda>y _. y \<in> Y) t = delete_where (\<lambda>y _. y \<in> Y) u \<Longrightarrow>
     delete_where (\<lambda>y _. y \<in> Y) (fold (\<lambda>p. upsert replace_row (pi_y p) p) new t)
     = delete_where (\<lambda>y _. y \<in> Y) (fold (\<lambda>p. upsert replace_row (pi_y p) p) new u)"
  by (induction new arbitrary: t u) (simp_all add: delete_upsert)

lemma update_after_mark:
  "w_proofs db = mark st yl (w_proofs db0) \<Longrightarrow> w_proofs (wallet_update_proofs new yl db) = w_proofs (wallet_update_proofs new yl db0)"
  by (simp add: wallet_update_proofs_def delete_fold_upsert [OF delete_update])

text \<open>A step that leaves the rows as they are when it fails.\<close>

definition w_atomic :: "('m, 'a) wstep \<Rightarrow> bool" where
  "w_atomic f \<longleftrightarrow> (\<forall>s r s'. f s = Some (r, s') \<and> failed r \<longrightarrow> rows s' = rows s)"

lemma w_atomic_then: "w_keeps f \<Longrightarrow> (\<And>a. w_atomic (g a)) \<Longrightarrow> w_atomic (w_then f g)"
  unfolding w_atomic_def w_keeps_def w_then_Some by fastforce

lemma w_atomic_write: "w_atomic (w_then (w_write f) (\<lambda>_. w_give (Ok x)))"
  by (auto simp: w_atomic_def w_then_Some w_write_Some w_give_def)

lemma settle_swap_atomic: "w_atomic (settle_swap w a target proofs conds pre sigs)"
  unfolding settle_swap_def Let_def split_def by (intro w_atomic_then w_atomic_write keeps_rules)

lemma w_infos_Ok:
  assumes "w_infos w st ps s = Some (Ok infos, s')"
  shows "s' = s" "map pi_proof infos = ps" "\<forall>p \<in> set infos. pi_state p = st"
proof -
  have ok: "list_all2 (\<lambda>p i. proof_info_new (wal_externs w) p (wal_mint_url w) st (wal_unit w) = Ok i) ps infos"
    using assms by (simp add: w_infos_def w_pure_def w_give_def try_map_Ok_iff Ok_map_err)
  show "s' = s" using assms by (simp add: w_infos_def w_pure_def w_give_def)
  show "map pi_proof infos = ps" "\<forall>p \<in> set infos. pi_state p = st"
    using ok by (induction rule: list_all2_induct) (auto simp: proof_info_new_Ok_iff)
qed

lemma take_split_mset: "take_split parts ps = (send, keep) \<Longrightarrow> mset send + mset keep = mset ps"
  by (induction parts ps arbitrary: send keep rule: take_split.induct) (auto split: if_splits prod.splits)

lemma share_out_Ok:
  assumes "share_out w a target conds fa ps s = Some (Ok (send, keep), s')"
  shows "s' = s" "mset send + mset keep = mset (if conds = None then filter (\<lambda>p. \<not> has_condition (wal_externs w) p) ps else ps)"
  using assms take_split_mset
  by (auto simp: share_out_def w_give_def w_then_Some w_split_def w_may_def multiset_partition [symmetric] comp_def split: option.splits)

text \<open>
  The proofs of a swap that reach the store: all of them, except that a swap to send an amount without
  conditions leaves out those whose secret reads as a condition.
\<close>

definition new_proofs :: "externs \<Rightarrow> Amount option \<Rightarrow> SpendingConditions option \<Rightarrow> Proof list \<Rightarrow> Proof list" where
  "new_proofs e a conds posts = (if a \<noteq> None \<and> conds = None then filter (\<lambda>p. \<not> has_condition e p) posts else posts)"

lemma sort_swapped_Ok:
  assumes "sort_swapped w a target conds fa swap_fee ps s = Some (Ok (infos, keep, out), s')"
  shows "s' = s" "map pi_proof infos = (case out of Some qs \<Rightarrow> qs | None \<Rightarrow> [])" "\<forall>p \<in> set infos. pi_state p = Reserved"
    and "mset (map pi_proof infos) + mset keep = mset (new_proofs (wal_externs w) a conds ps)"
  using assms w_infos_Ok share_out_Ok
  by (fastforce simp: sort_swapped_def new_proofs_def w_then_Ok w_give_def wallet_total_def w_pure_def split: option.splits)+

lemma settle_swap_Ok:
  assumes "settle_swap w a target proofs conds pre sigs s = Some (Ok out, s')"
  obtains yl keys posts new where "proof_ys (wal_externs w) proofs = Ok yl"
    "wallet_get_keys (pms_keyset_id (pre_mint_secrets pre)) (wst_db s') = Some keys"
    "construct_proofs (wal_externs w) sigs (premint_rs (pre_mint_secrets pre)) (premint_secrets (pre_mint_secrets pre)) keys = Ok posts"
    "mset (map pi_proof new) = mset (new_proofs (wal_externs w) a conds posts)"
    "map pi_proof (filter (\<lambda>p. pi_state p = Reserved) new) = (case out of Some qs \<Rightarrow> qs | None \<Rightarrow> [])"
    "\<forall>p \<in> set new. pi_state p \<in> {Reserved, Unspent}"
    "rows s' = w_proofs (wallet_update_proofs new yl (wst_db s))"
proof -
  let ?i = "pms_keyset_id (pre_mint_secrets pre)"
  from assms obtain fa s1 s2 s3 keys ps send keep kept yl where fa: "get_keyset_fees_and_amounts_by_id w ?i s = Some (Ok fa, s1)"
    and keys: "wallet_get_keys ?i (wst_db s1) = Some keys"
    and ps: "construct_proofs (wal_externs w) sigs (premint_rs (pre_mint_secrets pre)) (premint_secrets (pre_mint_secrets pre)) keys = Ok ps"
    and sort: "sort_swapped w a target conds fa (pre_fee pre) ps s1 = Some (Ok (send, keep, out), s2)"
    and kept: "w_infos w Unspent keep s2 = Some (Ok kept, s3)"
    and yl: "proof_ys (wal_externs w) proofs = Ok yl" and s': "s' = s3\<lparr>wst_db := wallet_update_proofs (send @ kept) yl (wst_db s3)\<rparr>"
    unfolding settle_swap_def Let_def split_def
    by (elim w_then_OkE) (auto simp: w_read_def w_give_def w_pure_def Ok_map_err wallet_ys_Some w_write_Some w_then_Ok split: option.splits)
  note so = sort_swapped_Ok [OF sort] and ki = w_infos_Ok [OF kept]
  show thesis
  proof (rule that [OF yl _ ps])
    show "wallet_get_keys ?i (wst_db s') = Some keys"
      using keys s' so(1) ki(1) by (simp add: wallet_get_keys_def wallet_update_proofs_def)
    show "mset (map pi_proof (send @ kept)) = mset (new_proofs (wal_externs w) a conds ps)" using so(4) ki(2) by simp
    show "map pi_proof (filter (\<lambda>p. pi_state p = Reserved) (send @ kept)) = (case out of Some qs \<Rightarrow> qs | None \<Rightarrow> [])"
      using so(2,3) ki(3) by (simp add: filter_id_conv filter_empty_conv)
    show "\<forall>p \<in> set (send @ kept). pi_state p \<in> {Reserved, Unspent}" using so(3) ki(3) by auto
    show "rows s' = w_proofs (wallet_update_proofs (send @ kept) yl (wst_db s))"
      using s' so(1) ki(1) w_keepsD [OF fees_keep(2) fa] by (simp add: wallet_update_proofs_def)
  qed
qed

lemma create_swap_inputs:
  "create_swap w a target proofs conds with_fees s = Some (Ok pre, s') \<Longrightarrow> swap_inputs (pre_swap_request pre) = without_dleqs proofs"
  unfolding create_swap_def Let_def split_def by (elim w_then_OkE) (auto simp: w_give_def swap_request_new_def)


section \<open>A swap is balanced\<close>

lemma split_targeted_Ok_total:
  assumes "n \<le> 63" "amounts fa = pow2_amounts n" "unat a < 2 ^ n" "split_targeted a target fa = Some (Ok parts)"
  shows "total parts = unat a"
proof (cases "target = Value 0")
  case True
  have zero: "amount_split 0 fa = Ok []" using pow2_amounts_nonzero [of n] assms(1,2)
    by (simp add: amount_split_def foldl_split_step_0)
  have "a = 0"
  proof (rule ccontr)
    assume "a \<noteq> 0"
    then have "\<not> a \<le> 0" by simp
    with assms(4) True zero obtain r where "while_parts fa a [] [] 0 = Some r" by (auto simp: split_targeted_def)
    from while_parts_no_parts [OF this] \<open>a \<noteq> 0\<close> show False by (simp add: word_gt_0)
  qed
  with assms(4) True zero show ?thesis by (simp add: split_targeted_def)
next
  case False
  have "total vs \<le> unat a" if "target = Values vs" for vs
    using assms(4) that by (auto simp: split_targeted_def try_sum_Ok_iff word_less_nat_alt not_less split: if_splits)
  from split_targeted_total [OF assms(1-3) False this] assms(4) show ?thesis by auto
qed

abbreviation asked :: "PreMintSecrets \<Rightarrow> Amount list" where
  "asked p \<equiv> map (bm_amount \<circ> pm_blinded_message) (pms_secrets p)"

lemma seed_premints_amounts:
  "seed_premints oc e dv seed i c amts = Ok ps \<Longrightarrow> map (bm_amount \<circ> pm_blinded_message) ps = amts"
  by (induction amts arbitrary: c ps) (auto dest: seed_premint_amount)

lemma w_from_seed_Ok:
  assumes "w_from_seed w i c a target fa s = Some (Ok p, s')"
  shows "s' = s" "pms_keyset_id p = i" "split_targeted a target fa = Some (Ok (asked p))"
  using assms by (auto simp: w_from_seed_def w_may_def premints_from_seed_def Ok_map_err dest!: seed_premints_amounts)

lemma indexed_premints_amounts:
  assumes "indexed_premints e i sec factor amts = Ok ps"
  shows "map (bm_amount \<circ> pm_blinded_message) ps = amts"
proof -
  have "map (bm_amount \<circ> pm_blinded_message) ps = map snd (enumerate 0 amts)"
    using assms unfolding indexed_premints_def map_err_Ok_iff try_map_Ok_iff
    by (induction rule: list_all2_induct) (auto simp: premint_def split: prod.splits)
  then show ?thesis by simp
qed

lemma w_with_conditions_Ok:
  assumes "w_with_conditions w i a sc fa s = Some (Ok p, s')"
  shows "s' = s" "pms_keyset_id p = i" "split_targeted a NoTarget fa = Some (Ok (asked p))"
  using assms by (auto simp: w_with_conditions_def w_may_def premints_with_conditions_def premints_random_def Ok_map_err
      dest!: indexed_premints_amounts)

lemma swap_messages_Ok:
  assumes "swap_messages w i start conds oa change target fa s = Some (Ok (send, keep), s')"
  shows "pms_keyset_id send = i" "split_targeted (or_zero oa) NoTarget fa = Some (Ok (asked send))"
    and "split_targeted change target fa = Some (Ok (asked keep))"
  using assms unfolding swap_messages_def
  by (auto simp: w_then_Ok w_give_def split: option.splits dest: w_from_seed_Ok w_with_conditions_Ok)

lemma send_and_change_Ok:
  assumes "send_and_change w i fa oa change with_fees s = Some (Ok (oa', change'), s')" "oa \<noteq> None \<or> \<not> with_fees"
  shows "unat (or_zero oa') + unat change' = unat (or_zero oa) + unat change"
  using assms by (auto simp: send_and_change_def w_then_Ok w_give_def w_pure_def or_zero_def Ok_map_err checked_add_Some_iff
      checked_sub_Some_iff split: if_splits option.splits)

lemma asked_messages: "map bm_amount (premint_messages p) = asked p"
  by (simp add: premint_messages_def)

lemma total_sorted: "total (asked (premint_sort (premint_combine p q))) = total (asked p) + total (asked q)"
proof -
  let ?f = "bm_amount \<circ> pm_blinded_message"
  have "mset (map ?f (sort_key pm_amount (pms_secrets p @ pms_secrets q))) = mset (asked p @ asked q)" by simp
  then have "total (map ?f (sort_key pm_amount (pms_secrets p @ pms_secrets q))) = total (asked p @ asked q)"
    unfolding total_def by (metis mset_map sum_mset_sum_list)
  then show ?thesis by (simp add: premint_sort_def premint_combine_def)
qed

subsection \<open>What a swap reads twice\<close>

text \<open>
  The store before and after a step, under a relation that every change keeps: keys that are stored
  stay as they are, and what is stored about a keyset, its counter apart, is not touched.
\<close>

definition w_respects :: "(WalletSqlDb \<Rightarrow> WalletSqlDb \<Rightarrow> bool) \<Rightarrow> ('m, 'a) wstep \<Rightarrow> bool" where
  "w_respects R f \<longleftrightarrow> (\<forall>s r s'. f s = Some (r, s') \<longrightarrow> R (wst_db s) (wst_db s'))"

lemma w_respectsD: "w_respects R f \<Longrightarrow> f s = Some (r, s') \<Longrightarrow> R (wst_db s) (wst_db s')"
  by (simp add: w_respects_def)

locale store_relation =
  fixes R :: "WalletSqlDb \<Rightarrow> WalletSqlDb \<Rightarrow> bool"
  assumes refl: "R db db" and trans: "R a b \<Longrightarrow> R b c \<Longrightarrow> R a c"
begin

lemma respects_then: "w_respects R f \<Longrightarrow> (\<And>x. w_respects R (g x)) \<Longrightarrow> w_respects R (w_then f g)"
  unfolding w_respects_def w_then_Some by (blast intro: trans)

lemma respects_basic:
  "w_respects R (w_give r)" "w_respects R (w_pure q)" "w_respects R (w_may m)" "w_respects R (w_ask f)" "w_respects R (w_read h)"
  by (auto simp: w_respects_def w_give_def w_pure_def w_may_def w_ask_def w_read_def refl split: prod.splits)

lemma respects_run: "(\<And>db x db'. f db = Ok (x, db') \<Longrightarrow> R db db') \<Longrightarrow> w_respects R (w_run f)"
  by (auto simp: w_respects_def w_run_def refl split: outcome.splits)

lemma respects_each: "(\<And>x. w_respects R (f x)) \<Longrightarrow> w_respects R (w_each f xs)"
  by (induction xs) (simp_all add: respects_basic respects_then)

lemma respects_fees:
  assumes "\<And>i. w_respects R (load_keyset_keys w i)"
  shows "w_respects R (add_fees w fees ks)" "w_respects R (get_keyset_fees_and_amounts_by_id w i)"
proof -
  show fees: "w_respects R (add_fees w fees ks)" for fees ks
    by (induction ks arbitrary: fees) (auto intro!: respects_basic respects_then assms)
  show "w_respects R (get_keyset_fees_and_amounts_by_id w i)"
    unfolding get_keyset_fees_and_amounts_by_id_def get_keyset_fees_and_amounts_def get_mint_keysets_def
    by (intro respects_then respects_basic fees)
qed

lemma respects_pure: "(\<And>s. f s = w_pure (g s) s) \<Longrightarrow> w_respects R f"
  by (simp add: w_respects_def w_pure_def w_give_def refl)

lemma respects_parts:
  "w_respects R (send_and_change w i fa oa change with_fees)" "w_respects R (change_target w target change fa)"
  "w_respects R (secrets_needed w conds oa change target fa)" "w_respects R (swap_messages w i start conds oa change target fa)"
proof -
  have "w_respects R (get_keyset_count_fee w i n)" for n by (rule respects_pure) (simp add: get_keyset_count_fee_def)
  moreover have "w_respects R (determine_split_target_values w change fa)"
    by (rule respects_pure) (simp add: determine_split_target_values_def)
  ultimately show "w_respects R (send_and_change w i fa oa change with_fees)" "w_respects R (change_target w target change fa)"
    "w_respects R (secrets_needed w conds oa change target fa)" "w_respects R (swap_messages w i start conds oa change target fa)"
    unfolding send_and_change_def change_target_def secrets_needed_def swap_messages_def w_split_def w_from_seed_def w_with_conditions_def
    by (auto intro!: respects_then respects_basic split: option.splits SplitTarget.splits)
qed

end

definition keys_stay :: "WalletSqlDb \<Rightarrow> WalletSqlDb \<Rightarrow> bool" where
  "keys_stay db db' \<longleftrightarrow> (\<forall>i keys. wallet_get_keys i db = Some keys \<longrightarrow> wallet_get_keys i db' = Some keys)"

definition infos_stay :: "WalletSqlDb \<Rightarrow> WalletSqlDb \<Rightarrow> bool" where
  "infos_stay db db' \<longleftrightarrow> (\<forall>i. wallet_get_keyset_by_id i db' = wallet_get_keyset_by_id i db)"

interpretation stored_keys: store_relation keys_stay
  by unfold_locales (auto simp: keys_stay_def)

interpretation stored_infos: store_relation infos_stay
  by unfold_locales (auto simp: infos_stay_def)

lemma add_keys_Ok: "wallet_add_keys e ks db = Ok db' \<Longrightarrow> keys_stay db db'" "wallet_add_keys e ks db = Ok db' \<Longrightarrow> infos_stay db db'"
  by (auto simp: wallet_add_keys_def keys_stay_def infos_stay_def wallet_get_keys_def wallet_get_keyset_by_id_def map_add_def split: option.splits)

lemma load_keyset_keys_stay: "w_respects keys_stay (load_keyset_keys w i)" "w_respects infos_stay (load_keyset_keys w i)"
  unfolding load_keyset_keys_def
  by (auto intro!: stored_keys.respects_then stored_keys.respects_basic stored_keys.respects_run
      stored_infos.respects_then stored_infos.respects_basic stored_infos.respects_run split: option.splits) (auto intro: add_keys_Ok)

lemma load_stored_keys: "wallet_get_keys i (wst_db s) = Some keys \<Longrightarrow> load_keyset_keys w i s = Some (Ok keys, s)"
  by (simp add: load_keyset_keys_def w_then_def w_read_def w_give_def)

lemma add_mint_keysets_keys: "wallet_add_mint_keysets url ks db = (r, db') \<Longrightarrow> w_keys db' = w_keys db"
  by (induction url ks db rule: wallet_add_mint_keysets.induct) (auto split: if_splits)

lemma fetch_active_keyset_keys: "w_respects keys_stay (fetch_active_keyset w)"
proof -
  have "w_respects keys_stay (fetch_mint_info w)"
    by (auto simp: w_respects_def fetch_mint_info_def keys_stay_def Let_def split: prod.splits outcome.splits option.splits)
  moreover have "w_respects keys_stay (\<lambda>s. let (r, db) = wallet_add_mint_keysets (wal_mint_url w) ks (wst_db s) in
      Some (map_err (W_Error \<circ> from_db) r, s\<lparr>wst_db := db\<rparr>))" for ks
    by (auto simp: w_respects_def keys_stay_def wallet_get_keys_def dest: add_mint_keysets_keys split: prod.splits)
  ultimately show ?thesis
    unfolding fetch_active_keyset_def refresh_keysets_def Let_def
    by (intro stored_keys.respects_then stored_keys.respects_basic stored_keys.respects_each load_keyset_keys_stay)
qed

lemma reserve_counters_infos: "w_respects infos_stay (reserve_counters w i n)"
proof -
  have "infos_stay db db'" if "wallet_increment_keyset_counter oc i n db = Ok (c, db')" for oc db c db'
  proof -
    have row: "row_to_keyset (if j = i then r\<lparr>kr_counter := c\<rparr> else r) = row_to_keyset r" for j r by (simp add: row_to_keyset_def)
    show ?thesis
      using that row by (auto simp: wallet_increment_keyset_counter_def infos_stay_def wallet_get_keyset_by_id_def update_where_lookup
          split: option.splits)
  qed
  then show ?thesis
    unfolding reserve_counters_def by (auto intro!: stored_infos.respects_then stored_infos.respects_basic stored_infos.respects_run)
qed

lemma add_fees_amounts:
  assumes "add_fees w fees ks s = Some (Ok fees', s')" "wallet_get_keys i (wst_db s) = Some keys"
    and "\<forall>fa. map_of fees i = Some fa \<longrightarrow> amounts fa = map fst keys" "map_of fees' i = Some fa"
  shows "amounts fa = map fst keys"
  using assms
proof (induction ks arbitrary: fees s)
  case Nil
  then show ?case by (simp add: w_give_def)
next
  case (Cons k ks)
  from Cons.prems(1) obtain ks1 s1 where load: "load_keyset_keys w (info_id k) s = Some (Ok ks1, s1)"
    and rest: "add_fees w (upsert replace_row (info_id k) \<lparr>fee = info_input_fee_ppk k, amounts = map fst ks1\<rparr> fees) ks s1 = Some (Ok fees', s')"
    by (auto simp: w_then_Ok)
  have "wallet_get_keys i (wst_db s1) = Some keys"
    using w_respectsD [OF load_keyset_keys_stay(1) load] Cons.prems(2) by (simp add: keys_stay_def)
  moreover have "ks1 = keys" if "info_id k = i" using load that Cons.prems(2) by (simp add: load_stored_keys)
  ultimately show ?case
    using Cons.prems(3,4) by (intro Cons.IH [OF rest]) (auto simp: upsert_lookup split: if_splits option.splits)
qed

lemma fees_by_id_amounts:
  assumes "get_keyset_fees_and_amounts_by_id w i s = Some (Ok fa, s')" "wallet_get_keys i (wst_db s) = Some keys"
  shows "amounts fa = map fst keys"
  using assms
  by (auto simp: get_keyset_fees_and_amounts_by_id_def get_keyset_fees_and_amounts_def get_mint_keysets_def w_then_Ok w_read_def
      w_pure_def w_give_def Ok_map_err dest!: add_fees_amounts [where fees = "[]"])

lemma proofs_fee_stays:
  assumes "wallet_proofs_fee w proofs s = Some (Ok f, s1)" "infos_stay (wst_db s) (wst_db s')"
  shows "wallet_proofs_fee w proofs s' = Some (Ok f, s')"
proof -
  have "fee_of_keyset i (wst_db s') = fee_of_keyset i (wst_db s)" for i
    using assms(2) by (simp add: fee_of_keyset_def infos_stay_def)
  then show ?thesis
    using assms(1) by (auto simp: wallet_proofs_fee_def get_proofs_fee_by_count_def w_pure_def w_give_def)
qed

lemma proofs_fee_state: "wallet_proofs_fee w proofs s = Some (r, s') \<Longrightarrow> s' = s"
  by (simp add: wallet_proofs_fee_def get_proofs_fee_by_count_def w_pure_def w_give_def)

text \<open>
  C14: A swap the wallet asks for is balanced: the outputs of the request and the fee of its inputs
  are together worth what the inputs are worth, and the fee is the one that the store gives for them.
  The keys of the chosen keyset must be stored when the swap begins and be for the lowest powers of
  two, enough for the inputs; and when the fee for redeeming is to be included, an amount to send is
  given.
\<close>

theorem create_swap_balanced:
  assumes run: "create_swap w a target proofs conds with_fees s = Some (Ok pre, s')" and opt: "a \<noteq> None \<or> \<not> with_fees"
    and keys: "wallet_get_keys (pms_keyset_id (pre_mint_secrets pre)) (wst_db s) = Some keys" "map fst keys = pow2_amounts n"
    and n: "n \<le> 63" "worth proofs < 2 ^ n"
  shows "total (map bm_amount (swap_outputs (pre_swap_request pre))) + unat (pre_fee pre) = worth proofs
    \<and> wallet_proofs_fee w proofs s' = Some (Ok (pre_fee pre), s')"
proof -
  from run obtain k yl i t fee_in sub change fa s0 s1 s1' s2 s3 s4 s5 s6 oa change' target' needed start send keep where
      active: "fetch_active_keyset w s = Some (Ok k, s0)" and i: "i = info_id k"
    and t: "total_amount proofs = Ok t" and sub: "checked_add (or_zero a) fee_in = Some sub" "checked_sub t sub = Some change"
    and s1: "s1 = s0\<lparr>wst_db := wallet_update_proofs_state yl Reserved (wst_db s0)\<rparr>"
    and fee_in: "wallet_proofs_fee w proofs s1 = Some (Ok fee_in, s1')"
    and fa': "get_keyset_fees_and_amounts_by_id w i s1' = Some (Ok fa, s2)"
    and sc: "send_and_change w i fa a change with_fees s2 = Some (Ok (oa, change'), s3)"
    and ct: "change_target w target change' fa s3 = Some (Ok target', s4)"
    and sn: "secrets_needed w conds oa change' target' fa s4 = Some (Ok needed, s5)"
    and rc: "reserve_counters w i needed s5 = Some (Ok start, s6)"
    and ms: "swap_messages w i start conds oa change' target' fa s6 = Some (Ok (send, keep), s')"
    and pre: "pre_mint_secrets pre = premint_sort (premint_combine send keep)"
      "swap_outputs (pre_swap_request pre) = premint_messages (premint_sort (premint_combine send keep))" "pre_fee pre = fee_in"
    unfolding create_swap_def Let_def split_def
    by (elim w_then_OkE) (auto simp: w_give_def w_pure_def wallet_total_def wallet_ys_Some w_write_Some Ok_map_err swap_request_new_def)
  have fa: "get_keyset_fees_and_amounts_by_id w i s1 = Some (Ok fa, s2)" using fa' proofs_fee_state [OF fee_in] by simp
  note msgs = swap_messages_Ok [OF ms]
  have "pms_keyset_id (pre_mint_secrets pre) = i" by (simp add: pre premint_sort_def premint_combine_def msgs(1))
  then have "wallet_get_keys i (wst_db s1) = Some keys"
    using w_respectsD [OF fetch_active_keyset_keys active] keys(1) s1
    by (simp add: keys_stay_def wallet_get_keys_def wallet_update_proofs_state_def)
  then have amounts: "amounts fa = pow2_amounts n" using fees_by_id_amounts [OF fa] keys(2) by simp
  have sum: "unat (or_zero oa) + unat change' + unat fee_in = worth proofs"
    using send_and_change_Ok [OF sc opt] sub t by (simp add: checked_add_Some_iff checked_sub_Some_iff total_amount_Ok_iff)
  then have "total (asked send) = unat (or_zero oa)" "total (asked keep) = unat change'"
    using split_targeted_Ok_total [OF n(1) amounts _ msgs(2)] split_targeted_Ok_total [OF n(1) amounts _ msgs(3)] n(2) by simp_all
  moreover have "infos_stay (wst_db s1) (wst_db s')"
    by (rule stored_infos.trans [OF w_respectsD [OF stored_infos.respects_fees(2) [OF load_keyset_keys_stay(2)] fa]]
        stored_infos.trans [OF w_respectsD [OF stored_infos.respects_parts(1) sc]]
        stored_infos.trans [OF w_respectsD [OF stored_infos.respects_parts(2) ct]]
        stored_infos.trans [OF w_respectsD [OF stored_infos.respects_parts(3) sn]]
        stored_infos.trans [OF w_respectsD [OF reserve_counters_infos rc]]
        w_respectsD [OF stored_infos.respects_parts(4) ms])+
  ultimately show ?thesis using sum proofs_fee_stays [OF fee_in] by (simp add: pre asked_messages total_sorted)
qed

text \<open>A wallet with one proof, at a mint with one keyset that signs whatever it is asked to.\<close>

definition pocket_coin :: Proof where
  "pocket_coin = \<lparr>amount = 8, keyset_id = example_id2, secret = ''x'', proof_c = [2, 2], witness = None, dleq = None\<rparr>"

definition pocket_client :: "unit client" where
  "pocket_client = \<lparr>cl_info = (\<lambda>m. (Ok None, m)), cl_keysets = (\<lambda>m. (Ok [info_of example_id2 0], m)),
     cl_keyset = (\<lambda>_ m. (Err E_UnknownKeySet, m)),
     cl_swap = (\<lambda>req m. (Ok (map (\<lambda>b. \<lparr>bs_amount = bm_amount b, bs_keyset_id = bm_keyset_id b, bs_c = [2, 3], bs_dleq = None\<rparr>)
        (swap_outputs req)), m)),
     cl_check = (\<lambda>yl m. (Ok (map (\<lambda>y. (y, Unspent)) yl), m)), cl_restore = (\<lambda>_ m. (Ok ([], []), m))\<rparr>"

definition pocket_wallet :: "unit wallet" where
  "pocket_wallet = \<lparr>wal_externs = toy_externs, wal_overflow_checks = True, wal_now = 0, wal_client = pocket_client,
     wal_mint_url = ''m'', wal_unit = Sat, wal_seed = [0], wal_target_proof_count = 0, wal_derivation = one_key,
     wal_shuffle = (\<lambda>ps. ps), wal_write_secret = (\<lambda>_. []), wal_nonce = (\<lambda>_. []), wal_factor = (\<lambda>_. [1])\<rparr>"

lemmas w_step_defs = w_then_def w_give_def w_pure_def w_may_def w_ask_def w_read_def w_write_def w_run_def

definition pocket_row :: "State \<Rightarrow> ProofInfo" where
  "pocket_row st = \<lparr>pi_proof = pocket_coin, pi_y = [2, 1], pi_mint_url = ''m'', pi_state = st, pi_spending_condition = None, pi_unit = Sat\<rparr>"

definition pocket_db :: "State \<Rightarrow> u32 \<Rightarrow> unit wallet_state" where
  "pocket_db st n = \<lparr>wst_db = \<lparr>w_keysets = [(example_id2, \<lparr>kr_mint_url = ''m'', kr_info = info_of example_id2 0, kr_counter = n\<rparr>)],
     w_keys = [(example_id2, [(1, [2, 1]), (2, [2, 1]), (4, [2, 1]), (8, [2, 1])])], w_mint_quotes = [], w_melt_quotes = [],
     w_proofs = [([2, 1], pocket_row st)], w_transactions = []\<rparr>, wst_mint = ()\<rparr>"

lemma pocket_wallet_sel [simp]:
  "wal_externs pocket_wallet = toy_externs" "wal_overflow_checks pocket_wallet = True" "wal_client pocket_wallet = pocket_client"
  "wal_mint_url pocket_wallet = ''m''" "wal_unit pocket_wallet = Sat" "wal_seed pocket_wallet = [0]"
  "wal_target_proof_count pocket_wallet = 0" "wal_derivation pocket_wallet = one_key" "wal_shuffle pocket_wallet = (\<lambda>ps. ps)"
  "wal_now pocket_wallet = 0"
  by (simp_all add: pocket_wallet_def)

lemma pocket_ys: "proof_ys toy_externs [pocket_coin] = Ok [[2, 1]]"
  by (simp add: proof_ys_def proof_y_def hash_to_curve_def hash_to_curve_from.simps toy_defs)

lemma pocket_keysets:
  "refresh_keysets pocket_wallet (pocket_db st n) = Some (Ok [info_of example_id2 0], pocket_db st n)"
  "get_keyset_fees_and_amounts_by_id pocket_wallet example_id2 (pocket_db st n) = Some (Ok \<lparr>fee = 0, amounts = [1, 2, 4, 8]\<rparr>, pocket_db st n)"
  "wallet_proofs_fee pocket_wallet [pocket_coin] (pocket_db st n) = Some (Ok 0, pocket_db st n)"
  by (simp_all add: refresh_keysets_def fetch_mint_info_def w_step_defs pocket_wallet_def pocket_client_def pocket_db_def
      load_keyset_keys_def wallet_get_keys_def merge_keyset_def info_of_def get_keyset_fees_and_amounts_by_id_def
      get_keyset_fees_and_amounts_def get_mint_keysets_def wallet_get_mint_keysets_def row_to_keyset_def read_amount_def to_i64_def
      wallet_proofs_fee_def get_proofs_fee_by_count_def count_by_keyset_def pocket_coin_def fee_of_keyset_def wallet_get_keyset_by_id_def
      calculate_fee_def fee_step_def mul_unchecked_def checked_mul_def checked_add_def div_ceil_def)

lemma w_then_step: "f s = Some (Ok a, s1) \<Longrightarrow> w_then f g s = g a s1"
  by (simp add: w_then_def)

lemma pocket_fa_splits:
  "split_targeted 8 (Values []) \<lparr>fee = 0, amounts = [1, 2, 4, 8]\<rparr> = Some (Ok [8])"
  "split_targeted 0 NoTarget \<lparr>fee = 0, amounts = [1, 2, 4, 8]\<rparr> = Some (Ok [])"
  by (simp_all add: split_targeted_def amount_split_def split_step_def checked_sub_def amount_sub_def try_sum_def)

lemma pocket_fetch: "fetch_active_keyset pocket_wallet (pocket_db st n) = Some (Ok (info_of example_id2 0), pocket_db st n)"
  by (simp add: fetch_active_keyset_def pocket_keysets w_then_step w_give_def info_of_def)

lemma pocket_steps:
  "wallet_total [pocket_coin] (pocket_db st n) = Some (Ok 8, pocket_db st n)"
  "wallet_ys pocket_wallet [pocket_coin] (pocket_db st n) = Some (Ok [[2, 1]], pocket_db st n)"
  "w_write (wallet_update_proofs_state [[2, 1]] st') (pocket_db st n) = Some (Ok (), pocket_db st' n)"
  "determine_split_target_values pocket_wallet 8 \<lparr>fee = 0, amounts = [1, 2, 4, 8]\<rparr> (pocket_db st n) = Some (Ok (Values []), pocket_db st n)"
  "secrets_needed pocket_wallet None None 8 (Values []) \<lparr>fee = 0, amounts = [1, 2, 4, 8]\<rparr> (pocket_db st n) = Some (Ok 1, pocket_db st n)"
  "reserve_counters pocket_wallet example_id2 1 (pocket_db st 0) = Some (Ok 0, pocket_db st 1)"
  by (simp_all add: wallet_total_def total_amount_def pocket_coin_def
      try_sum_def checked_add_def wallet_ys_def pocket_ys [unfolded pocket_coin_def] wallet_update_proofs_state_def update_where_def
      determine_split_target_values_def amounts_needed_for_state_target_def secrets_needed_def or_zero_def w_split_def pocket_fa_splits
      add_unchecked_def reserve_counters_def wallet_increment_keyset_counter_def sub_unchecked_def w_step_defs pocket_db_def pocket_row_def)

lemma pocket_messages:
  "swap_messages pocket_wallet example_id2 0 None None 8 (Values []) \<lparr>fee = 0, amounts = [1, 2, 4, 8]\<rparr> (pocket_db st n)
     = Some (Ok (\<lparr>pms_secrets = [], pms_keyset_id = example_id2\<rparr>, \<lparr>pms_secrets = [one_premint 8], pms_keyset_id = example_id2\<rparr>), pocket_db st n)"
  by (simp add: swap_messages_def or_zero_def w_from_seed_def w_may_def premints_from_seed_def pocket_fa_splits one_key_premint
      w_then_def w_give_def add_unchecked_def checked_add_def)

lemma pocket_create:
  "create_swap pocket_wallet None NoTarget [pocket_coin] None False (pocket_db Unspent 0)
     = Some (Ok \<lparr>pre_mint_secrets = \<lparr>pms_secrets = [one_premint 8], pms_keyset_id = example_id2\<rparr>,
         pre_swap_request = swap_request_new [pocket_coin] [pm_blinded_message (one_premint 8)],
         pre_derived_secret_count = 1, pre_fee = 0\<rparr>, pocket_db Reserved 1)"
  by (simp add: create_swap_def pocket_fetch pocket_steps pocket_keysets pocket_messages w_then_step Let_def info_of_def [of example_id2] or_zero_def
      w_pure_def w_give_def send_and_change_def change_target_def checked_add_def checked_sub_def premint_sort_def premint_combine_def
      premint_messages_def)

theorem create_swap_balanced_witness:
  "\<exists>pre s'. create_swap pocket_wallet None NoTarget [pocket_coin] None False (pocket_db Unspent 0) = Some (Ok pre, s')
    \<and> total (map bm_amount (swap_outputs (pre_swap_request pre))) + unat (pre_fee pre) = 8
    \<and> wallet_proofs_fee pocket_wallet [pocket_coin] s' = Some (Ok (pre_fee pre), s')"
proof -
  let ?keys = "[(1, [2, 1]), (2, [2, 1]), (4, [2, 1]), (8, [2, 1])] :: Keys"
  have "map fst ?keys = pow2_amounts 4" "worth [pocket_coin] < 2 ^ 4" "worth [pocket_coin] = 8"
    by (simp_all add: pow2_amounts_def upt_rec pocket_coin_def total_def)
  moreover have "wallet_get_keys example_id2 (wst_db (pocket_db Unspent 0)) = Some ?keys"
    by (simp add: wallet_get_keys_def pocket_db_def)
  ultimately show ?thesis
    using pocket_create create_swap_balanced [OF pocket_create, of ?keys 4] by auto
qed

lemma pocket_swap: "\<exists>s'. wallet_swap pocket_wallet None NoTarget [pocket_coin] None False (pocket_db Unspent 0) = Some (Ok None, s')"
proof -
  let ?sig = "\<lparr>bs_amount = 8, bs_keyset_id = example_id2, bs_c = [2, 3], bs_dleq = None\<rparr>"
  let ?post = "\<lparr>amount = 8, keyset_id = example_id2, secret = encode [1], proof_c = [2, 2], witness = None, dleq = None\<rparr>"
  have "cl_swap pocket_client (swap_request_new [pocket_coin] [pm_blinded_message (one_premint 8)]) () = (Ok [?sig], ())"
    by (simp add: pocket_client_def swap_request_new_def one_premint_def)
  then have ask: "w_ask (cl_swap pocket_client (swap_request_new [pocket_coin] [pm_blinded_message (one_premint 8)])) (pocket_db Reserved 1)
      = Some (Ok [?sig], pocket_db Reserved 1)"
    by (simp add: w_ask_def)
  have post: "construct_proofs toy_externs [?sig] [[1]] [encode [1]] [(1, [2, 1]), (2, [2, 1]), (4, [2, 1]), (8, [2, 1])] = Ok [?post]"
    by (simp add: construct_proofs_def construct_proof_def unblind_message_def toy_defs)
  have info: "\<exists>i. w_infos pocket_wallet Unspent [?post] s = Some (Ok [i], s)" for s :: "unit wallet_state"
    by (simp add: w_infos_def w_pure_def w_give_def proof_info_new_def proof_y_def hash_to_curve_def hash_to_curve_from.simps
        sc_try_from_secret_def nut10_try_from_def toy_defs)
  have keys: "w_read (\<lambda>db. Ok (wallet_get_keys example_id2 db)) (pocket_db Reserved 1) = Some (Ok (Some [(1, [2, 1]), (2, [2, 1]), (4, [2, 1]), (8, [2, 1])]), pocket_db Reserved 1)"
    by (simp add: w_read_def wallet_get_keys_def pocket_db_def)
  have "\<exists>s'. settle_swap pocket_wallet None NoTarget [pocket_coin] None \<lparr>pre_mint_secrets = \<lparr>pms_secrets = [one_premint 8], pms_keyset_id = example_id2\<rparr>,
         pre_swap_request = swap_request_new [pocket_coin] [pm_blinded_message (one_premint 8)],
         pre_derived_secret_count = 1, pre_fee = 0\<rparr> [?sig] (pocket_db Reserved 1) = Some (Ok None, s')"
    using info [of "pocket_db Reserved 1"] post
    by (auto simp: settle_swap_def Let_def pocket_keysets keys premint_rs_def premint_secrets_def one_premint_def sort_swapped_def w_then_step
        w_pure_def w_give_def pocket_steps(2) w_write_def)
  then show ?thesis by (simp add: wallet_swap_def pocket_keysets pocket_create ask w_then_step)
qed


end
