(* ===== verification/WalletSend.thy ===== *)
theory WalletSend
  imports WalletSwap
begin

text \<open>
  Sending and receiving (\<^verbatim>\<open>crates/cdk/src/wallet/send.rs\<close>, \<^verbatim>\<open>receive.rs\<close>). A send is prepared, which reserves
  proofs, and then confirmed or cancelled; a prepared send is the record without its copy of the
  wallet, which is an argument. Received proofs are signed, stored as pending and swapped.
\<close>

section \<open>Sending\<close>

record SendMemo =
  sm_memo :: string
  sm_include_memo :: bool

record SendOptions =
  so_memo :: "SendMemo option"
  so_conditions :: "SpendingConditions option"
  so_amount_split_target :: SplitTarget
  so_send_kind :: SendKind
  so_include_fee :: bool
  so_max_proofs :: "nat option"
  so_metadata :: "(string \<times> string) list"

record PreparedSend =
  ps_amount :: Amount
  ps_options :: SendOptions
  ps_proofs_to_swap :: "Proof list"
  ps_swap_fee :: Amount
  ps_proofs_to_send :: "Proof list"
  ps_send_fee :: Amount

definition ps_proofs :: "PreparedSend \<Rightarrow> Proof list" where
  "ps_proofs ps = ps_proofs_to_swap ps @ ps_proofs_to_send ps"

definition ps_fee :: "PreparedSend \<Rightarrow> ('e, Amount) outcome" where
  "ps_fee ps = amount_add (ps_swap_fee ps) (ps_send_fee ps)"

definition memo_for_token :: "string \<Rightarrow> SendMemo" where
  "memo_for_token s = \<lparr>sm_memo = s, sm_include_memo = True\<rparr>"

text \<open>An error is logged and passed over.\<close>

definition w_try :: "('m, 'a) wstep \<Rightarrow> ('m, unit) wstep" where
  "w_try f s = (case f s of
      None \<Rightarrow> None | Some (Panic, s') \<Rightarrow> Some (Panic, s') | Some (_, s') \<Rightarrow> Some (Ok (), s'))"

definition send_amounts_and_fee ::
  "'m wallet \<Rightarrow> Id \<Rightarrow> FeeAndAmounts \<Rightarrow> Amount \<Rightarrow> bool \<Rightarrow> ('m, Amount list \<times> Amount) wstep" where
  "send_amounts_and_fee w i fa a with_fee =
     (if with_fee then
        w_then (w_pure (map_err E_AmountError (split_with_fee a fa))) (\<lambda>send_split.
        w_then (get_proofs_fee_by_count w [(i, of_nat (length send_split))]) (\<lambda>send_fee.
        w_give (Ok (send_split, send_fee))))
      else w_then (w_give (unwrap (amount_split a fa))) (\<lambda>send_split. w_give (Ok (send_split, 0))))"

text \<open>The proofs to send and to swap; the loop is the one of \<open>take_split\<close>.\<close>

definition send_or_swap ::
  "bool \<Rightarrow> bool \<Rightarrow> SendKind \<Rightarrow> Amount list \<Rightarrow> Proof list \<Rightarrow> Proof list \<times> Proof list" where
  "send_or_swap force_swap exact_proofs kind send_amounts proofs =
     (if force_swap then ([], proofs)
      else if exact_proofs \<or> is_offline kind \<or> has_tolerance kind then (proofs, [])
      else take_split send_amounts proofs)"

definition internal_prepare_send ::
  "'m wallet \<Rightarrow> Amount \<Rightarrow> SendOptions \<Rightarrow> Proof list \<Rightarrow> bool \<Rightarrow> ('m, PreparedSend) wstep" where
  "internal_prepare_send w a opts proofs force_swap =
     w_then (get_active_keyset w) (\<lambda>k. let i = info_id k in
     w_then (get_keyset_fees_and_amounts_by_id w i) (\<lambda>fa.
     w_then (send_amounts_and_fee w i fa a (so_include_fee opts)) (\<lambda>(send_amounts, send_fee).
     w_then (wallet_ys w proofs) (\<lambda>yl.
     w_then (w_write (wallet_update_proofs_state yl Reserved)) (\<lambda>_.
     w_then (wallet_total proofs) (\<lambda>t.
     w_then (w_give (amount_add a send_fee)) (\<lambda>wanted.
     let exact_proofs = (t = wanted \<and> (case so_max_proofs opts of Some n \<Rightarrow> length proofs \<le> n | None \<Rightarrow> True));
         (to_send, to_swap) = send_or_swap force_swap exact_proofs (so_send_kind opts) send_amounts proofs in
     w_then (wallet_proofs_fee w to_swap) (\<lambda>swap_fee.
     w_give (Ok \<lparr>ps_amount = a, ps_options = opts, ps_proofs_to_swap = to_swap, ps_swap_fee = swap_fee,
       ps_proofs_to_send = to_send, ps_send_fee = send_fee\<rparr>)))))))))"

text \<open>The available proofs, and whether they have to be swapped for proofs with the conditions.\<close>

definition available_proofs :: "'m wallet \<Rightarrow> Amount \<Rightarrow> SendOptions \<Rightarrow> ('m, Proof list \<times> bool) wstep" where
  "available_proofs w a opts =
     w_then (w_read (\<lambda>db. Ok (get_proofs_with w (Some [Unspent]) (map_option (\<lambda>c. [c]) (so_conditions opts)) db))) (\<lambda>available.
     w_then (wallet_total available) (\<lambda>available_sum.
     if a \<le> available_sum then w_give (Ok (available, False))
     else if so_conditions opts = None \<or> is_offline (so_send_kind opts) then w_pure (Err E_InsufficientFunds)
     else w_then (w_read (\<lambda>db. Ok (get_proofs_with w (Some [Unspent]) (Some []) db))) (\<lambda>others. w_give (Ok (others, True)))))"

definition tolerance_met :: "SendKind \<Rightarrow> Amount \<Rightarrow> Amount \<Rightarrow> (Error, unit) outcome" where
  "tolerance_met kind selected_total a =
     (case kind of
        OfflineTolerance tolerance \<Rightarrow>
          and_then (amount_sub selected_total a) (\<lambda>extra. ensure (extra \<le> tolerance) E_InsufficientFunds)
      | OnlineTolerance tolerance \<Rightarrow> and_then (amount_sub selected_total a) (\<lambda>_. Ok ())
      | _ \<Rightarrow> Ok ())"

definition prepare_send :: "'m wallet \<Rightarrow> Amount \<Rightarrow> SendOptions \<Rightarrow> ('m, PreparedSend) wstep" where
  "prepare_send w a opts =
     w_then (if is_online (so_send_kind opts) then w_try (refresh_keysets w) else w_give (Ok ())) (\<lambda>_.
     w_then (get_keyset_fees_and_amounts w) (\<lambda>keyset_fees.
     w_then (available_proofs w a opts) (\<lambda>(available, force_swap).
     w_then (get_mint_keysets w) (\<lambda>ks.
     w_then (w_pure (select_proofs (wal_overflow_checks w) (wal_shuffle w) a available (map info_id (filter info_active ks))
        keyset_fees (so_include_fee opts))) (\<lambda>selected.
     w_then (wallet_total selected) (\<lambda>selected_total.
     w_then (if so_include_fee opts then wallet_proofs_fee w selected else w_give (Ok 0)) (\<lambda>send_fee.
     w_then (w_give (amount_add a send_fee)) (\<lambda>wanted.
     if selected_total = wanted then internal_prepare_send w a opts selected force_swap
     else if so_send_kind opts = OfflineExact then w_pure (Err E_InsufficientFunds)
     else w_then (w_pure (tolerance_met (so_send_kind opts) selected_total a)) (\<lambda>_.
       internal_prepare_send w a opts selected force_swap)))))))))"

definition swap_to_send :: "'m wallet \<Rightarrow> PreparedSend \<Rightarrow> Amount \<Rightarrow> ('m, Proof list) wstep" where
  "swap_to_send w ps total_send_amount =
     (if ps_proofs_to_swap ps = [] then w_give (Ok (ps_proofs_to_send ps))
      else
        w_then (wallet_total (ps_proofs_to_send ps)) (\<lambda>t.
        w_then (w_give (amount_sub total_send_amount t)) (\<lambda>swap_amount.
        w_then (wallet_swap w (Some swap_amount) NoTarget (ps_proofs_to_swap ps) (so_conditions (ps_options ps)) False) (\<lambda>r.
        w_give (Ok (ps_proofs_to_send ps @ (case r of Some qs \<Rightarrow> qs | None \<Rightarrow> [])))))))"

definition token_memo_of :: "SendMemo option \<Rightarrow> string option" where
  "token_memo_of m = (case m of Some sm \<Rightarrow> if sm_include_memo sm then Some (sm_memo sm) else None | None \<Rightarrow> None)"

definition confirm :: "'m wallet \<Rightarrow> PreparedSend \<Rightarrow> SendMemo option \<Rightarrow> ('m, Token) wstep" where
  "confirm w ps memo =
     w_then (w_give (ps_fee ps)) (\<lambda>total_send_fee.
     w_then (fetch_active_keyset w) (\<lambda>k.
     w_then (get_keyset_fees_and_amounts_by_id w (info_id k)) (\<lambda>_.
     w_then (w_give (amount_add (ps_amount ps) (ps_send_fee ps))) (\<lambda>total_send_amount.
     w_then (swap_to_send w ps total_send_amount) (\<lambda>to_send.
     w_then (wallet_total to_send) (\<lambda>t.
     w_then (w_pure (ensure (ps_amount ps \<le> t) E_InsufficientFunds)) (\<lambda>_.
     w_then (w_read (\<lambda>db. Ok (get_proofs_with w (Some [Reserved, Unspent])
        (map_option (\<lambda>c. [c]) (so_conditions (ps_options ps))) db))) (\<lambda>sendable.
     w_then (wallet_ys w sendable) (\<lambda>sendable_ys.
     w_then (wallet_ys w to_send) (\<lambda>yl.
     w_then (w_give (ensure (set yl \<subseteq> set sendable_ys) W_UnexpectedProofState)) (\<lambda>_.
     w_then (w_write (wallet_update_proofs_state yl PendingSpent)) (\<lambda>_.
     let send_memo = (case so_memo (ps_options ps) of None \<Rightarrow> memo | m \<Rightarrow> m); text = token_memo_of send_memo in
     w_then (w_write (wallet_add_transaction (wal_externs w)
        \<lparr>txn_mint_url = wal_mint_url w, txn_direction = Outgoing, txn_amount = ps_amount ps, txn_fee = total_send_fee,
         txn_unit = wal_unit w, txn_ys = yl, txn_timestamp = wal_now w, txn_memo = text,
         txn_metadata = so_metadata (ps_options ps), txn_quote_id = None, txn_payment_request = None,
         txn_payment_proof = None\<rparr>)) (\<lambda>_.
     w_give (map_err W_Token (token_new (wal_mint_url w) to_send text (wal_unit w))))))))))))))))"

definition cancel :: "'m wallet \<Rightarrow> PreparedSend \<Rightarrow> ('m, unit) wstep" where
  "cancel w ps =
     w_then (w_read (\<lambda>db. Ok (get_reserved_proofs w db))) (\<lambda>reserved.
     w_then (wallet_ys w reserved) (\<lambda>reserved_ys.
     w_then (wallet_ys w (ps_proofs ps)) (\<lambda>yl.
     w_then (w_give (ensure (set yl \<subseteq> set reserved_ys) W_UnexpectedProofState)) (\<lambda>_.
     w_write (wallet_update_proofs_state yl Unspent)))))"

section \<open>Receiving\<close>

record ReceiveOptions =
  ro_amount_split_target :: SplitTarget
  ro_p2pk_signing_keys :: "SecretKey list"
  ro_preimages :: "string list"
  ro_metadata :: "(string \<times> string) list"

definition hashed_preimages :: "externs \<Rightarrow> string list \<Rightarrow> (wallet_error, (string \<times> string) list) outcome" where
  "hashed_preimages e ps =
     and_then (try_map (\<lambda>p. and_then (map_err W_HexError (decode p)) (\<lambda>b. Ok (encode (sha256 e b), p))) ps) (\<lambda>entries.
     Ok (fold (\<lambda>(h, p). upsert replace_row h p) entries []))"

definition signing_key_map :: "externs \<Rightarrow> SecretKey list \<Rightarrow> (bytes \<times> SecretKey) list" where
  "signing_key_map e sks = fold (\<lambda>sk. upsert replace_row (x_only_public_key (sk_public_key e sk)) sk) sks []"

definition check_received_dleq :: "'m wallet \<Rightarrow> Proof \<Rightarrow> ('m, unit) wstep" where
  "check_received_dleq w p =
     (if dleq p = None then w_give (Ok ())
      else
        w_then (load_keyset_keys w (keyset_id p)) (\<lambda>keys.
        w_then (w_give (ok_or (map_of keys (amount p)) W_AmountKey)) (\<lambda>key.
        w_pure (map_err E_NUT12 (proof_verify_dleq (wal_externs w) p key)))))"

definition sign_received ::
  "externs \<Rightarrow> (string \<times> string) list \<Rightarrow> (bytes \<times> SecretKey) list \<Rightarrow> Proof \<Rightarrow> Nut10Secret \<Rightarrow> Conditions
     \<Rightarrow> (wallet_error, Proof) outcome" where
  "sign_received e preimages sign_with p n conds =
     and_then (case n10_kind n of
         P2PK \<Rightarrow> and_then (map_err W_NUT01 (pk_from_hex e (sd_data (n10_data n)))) (\<lambda>data_key.
           Ok (p, unwrap_or (cond_pubkeys conds) [] @ [data_key]))
       | HTLC \<Rightarrow> and_then (ok_or (map_of preimages (sd_data (n10_data n))) W_PreimageNotProvided) (\<lambda>preimage.
           Ok (add_preimage p preimage, unwrap_or (cond_pubkeys conds) []))) (\<lambda>(q, pubkeys).
     Ok (foldl (\<lambda>q pk. case map_of sign_with (x_only_public_key pk) of
         Some sk \<Rightarrow> sign_p2pk e q sk | None \<Rightarrow> q) q pubkeys))"

definition receive_proof ::
  "'m wallet \<Rightarrow> (string \<times> string) list \<Rightarrow> (bytes \<times> SecretKey) list \<Rightarrow> Proof \<Rightarrow> ('m, Proof \<times> bool) wstep" where
  "receive_proof w preimages sign_with p =
     w_then (check_received_dleq w p) (\<lambda>_.
     case nut10_try_from (wal_externs w) (secret p) of
       Err _ \<Rightarrow> w_give (Ok (p, False))
     | Panic \<Rightarrow> w_give Panic
     | Ok n \<Rightarrow> (case conditions_try_from (wal_externs w) (unwrap_or (n10_tags n) []) of
         Err _ \<Rightarrow> w_give (Ok (p, False))
       | Panic \<Rightarrow> w_give Panic
       | Ok conds \<Rightarrow>
           w_then (w_give (sign_received (wal_externs w) preimages sign_with p n conds)) (\<lambda>q.
           w_give (Ok (q, sig_flag conds = SigAll)))))"

fun receive_each ::
  "'m wallet \<Rightarrow> (string \<times> string) list \<Rightarrow> (bytes \<times> SecretKey) list \<Rightarrow> Proof list \<Rightarrow> ('m, Proof list \<times> bool) wstep" where
  "receive_each w preimages sign_with [] = w_give (Ok ([], False))"
| "receive_each w preimages sign_with (p # ps) =
     w_then (receive_proof w preimages sign_with p) (\<lambda>(q, sig_all).
     w_then (receive_each w preimages sign_with ps) (\<lambda>(qs, sig_all').
     w_give (Ok (q # qs, sig_all \<or> sig_all'))))"

definition sign_blinded_messages :: "externs \<Rightarrow> SecretKey list \<Rightarrow> SwapRequest \<Rightarrow> SwapRequest" where
  "sign_blinded_messages e sks req =
     req\<lparr>swap_outputs := map (\<lambda>m. foldl (\<lambda>m sk. blinded_sign_p2pk e m sk) m sks) (swap_outputs req)\<rparr>"

definition receive_proofs ::
  "'m wallet \<Rightarrow> Proof list \<Rightarrow> ReceiveOptions \<Rightarrow> string option \<Rightarrow> ('m, Amount) wstep" where
  "receive_proofs w proofs opts memo =
     w_then (refresh_keysets w) (\<lambda>_.
     w_then (fetch_active_keyset w) (\<lambda>k. let i = info_id k; e = wal_externs w in
     w_then (load_keyset_keys w i) (\<lambda>keys.
     w_then (wallet_total proofs) (\<lambda>proofs_amount.
     w_then (wallet_ys w proofs) (\<lambda>proofs_ys.
     w_then (w_give (hashed_preimages e (ro_preimages opts))) (\<lambda>preimages.
     let sign_with = signing_key_map e (ro_p2pk_signing_keys opts) in
     w_then (receive_each w preimages sign_with proofs) (\<lambda>(signed, sig_all).
     w_then (w_infos w Pending signed) (\<lambda>infos.
     w_then (w_write (wallet_update_proofs infos [])) (\<lambda>_.
     w_then (create_swap w None (ro_amount_split_target opts) signed None False) (\<lambda>pre.
     let req = (if sig_all then sign_blinded_messages e (map snd sign_with) (pre_swap_request pre) else pre_swap_request pre) in
     w_then (w_ask (cl_swap (wal_client w) req)) (\<lambda>sigs.
     w_then (w_pure (map_err E_DHKE (construct_proofs e sigs (premint_rs (pre_mint_secrets pre))
        (premint_secrets (pre_mint_secrets pre)) keys))) (\<lambda>recv_proofs.
     w_then (w_run (wallet_increment_keyset_counter (wal_overflow_checks w) i (of_nat (length recv_proofs)))) (\<lambda>_.
     w_then (wallet_total recv_proofs) (\<lambda>t.
     w_then (w_infos w Unspent recv_proofs) (\<lambda>recv_infos.
     w_then (w_write (wallet_update_proofs recv_infos (map pi_y infos))) (\<lambda>_.
     w_then (w_give (amount_sub proofs_amount t)) (\<lambda>spent_fee.
     w_then (w_write (wallet_add_transaction e
        \<lparr>txn_mint_url = wal_mint_url w, txn_direction = Incoming, txn_amount = t, txn_fee = spent_fee,
         txn_unit = wal_unit w, txn_ys = proofs_ys, txn_timestamp = wal_now w, txn_memo = memo,
         txn_metadata = ro_metadata opts, txn_quote_id = None, txn_payment_request = None,
         txn_payment_proof = None\<rparr>)) (\<lambda>_.
     w_give (Ok t)))))))))))))))))))"

definition receive :: "'m wallet \<Rightarrow> token_codec \<Rightarrow> string \<Rightarrow> ReceiveOptions \<Rightarrow> ('m, Amount) wstep" where
  "receive w c encoded opts =
     w_then (w_give (map_err W_Token (token_from_str c encoded))) (\<lambda>t.
     w_then (w_pure (ensure ((case token_unit t of Some u \<Rightarrow> u | None \<Rightarrow> Sat) = wal_unit w) E_UnsupportedUnit)) (\<lambda>_.
     w_then (load_mint_keysets w) (\<lambda>keysets.
     w_then (w_give (map_err W_Token (token_proofs keysets t))) (\<lambda>proofs.
     w_then (w_give (ensure (case t of TokenV3 t3 \<Rightarrow> \<not> token_v3_is_multi_mint t3 | TokenV4 _ \<Rightarrow> True) W_MultiMintTokenNotSupported)) (\<lambda>_.
     w_then (w_give (map_err W_Token (token_mint_url t))) (\<lambda>url.
     w_then (w_give (ensure (wal_mint_url w = url) W_IncorrectMint)) (\<lambda>_.
     receive_proofs w proofs opts (token_memo t))))))))"

definition receive_raw :: "'m wallet \<Rightarrow> token_codec \<Rightarrow> bytes \<Rightarrow> ReceiveOptions \<Rightarrow> ('m, Amount) wstep" where
  "receive_raw w c b opts =
     w_then (w_give (map_err W_Token (and_then (token_try_from_bytes c b) (token_to_string c)))) (\<lambda>s.
     receive w c s opts)"

section \<open>Preparing and cancelling a send\<close>

lemma try_map_set: "try_map f xs = Ok ys \<Longrightarrow> set ys = {y. \<exists>x \<in> set xs. f x = Ok y}"
  unfolding try_map_Ok_iff by (induction rule: list_all2_induct) auto

lemma try_map_defined: "(\<exists>ys. try_map f xs = Ok ys) \<longleftrightarrow> (\<forall>x \<in> set xs. \<exists>y. f x = Ok y)"
  by (induction xs) auto

lemma try_map_other_list:
  assumes "try_map f xs = Ok ys" "set xs' = set xs"
  obtains ys' where "try_map f xs' = Ok ys'" "set ys' = set ys"
proof -
  obtain ys' where ys': "try_map f xs' = Ok ys'" using try_map_defined [of f xs] try_map_defined [of f xs'] assms by auto
  from try_map_set [OF assms(1)] try_map_set [OF this] assms(2) have "set ys' = set ys" by simp
  with ys' show thesis by (rule that)
qed

lemma mark_cong: "set yl = set zl \<Longrightarrow> mark st yl = mark st zl"
  by (simp add: mark_def)

lemma w_keeps_try [keeps_rules]: "w_keeps f \<Longrightarrow> w_keeps (w_try f)"
  by (auto simp: w_keeps_def w_try_def split: option.splits prod.splits outcome.splits)

lemma send_amounts_keep [keeps_rules]: "w_keeps (send_amounts_and_fee w i fa a with_fee)"
  unfolding send_amounts_and_fee_def by (auto intro!: keeps_rules)

lemma send_or_swap_mset: "send_or_swap force exact kind parts proofs = (send, swap) \<Longrightarrow> mset swap + mset send = mset proofs"
  using take_split_mset [of parts proofs send swap] by (auto simp: send_or_swap_def add.commute split: if_splits)

lemma internal_prepare_send_Ok:
  assumes "internal_prepare_send w a opts proofs force s = Some (Ok ps, s')"
  obtains yl where "proof_ys (wal_externs w) proofs = Ok yl" "rows s' = mark Reserved yl (rows s)"
    "mset (ps_proofs ps) = mset proofs" "ps_amount ps = a" "ps_options ps = opts"
proof -
  from assms obtain k s1 fa s2 parts send_fee s3 yl s4 exact swap_fee where
      "get_active_keyset w s = Some (Ok k, s1)" "get_keyset_fees_and_amounts_by_id w (info_id k) s1 = Some (Ok fa, s2)"
      "send_amounts_and_fee w (info_id k) fa a (so_include_fee opts) s2 = Some (Ok (parts, send_fee), s3)"
    and yl: "proof_ys (wal_externs w) proofs = Ok yl"
    and "wallet_proofs_fee w (snd (send_or_swap force exact (so_send_kind opts) parts proofs))
      (s3\<lparr>wst_db := wallet_update_proofs_state yl Reserved (wst_db s3)\<rparr>) = Some (Ok swap_fee, s4)" "s' = s4"
    and ps: "ps_proofs_to_swap ps = snd (send_or_swap force exact (so_send_kind opts) parts proofs)"
      "ps_proofs_to_send ps = fst (send_or_swap force exact (so_send_kind opts) parts proofs)" "ps_amount ps = a" "ps_options ps = opts"
    unfolding internal_prepare_send_def Let_def split_def
    by (elim w_then_OkE) (auto simp: w_give_def w_pure_def wallet_total_def Ok_map_err wallet_ys_Some w_write_Some)
  then have "rows s' = mark Reserved yl (rows s)"
    by (auto dest!: w_keepsD [OF keysets_keep(3)] w_keepsD [OF fees_keep(2)] w_keepsD [OF send_amounts_keep] w_keepsD [OF pure_steps_keep(2)])
  moreover have "mset (ps_proofs ps) = mset proofs"
    using send_or_swap_mset [of force exact "so_send_kind opts" parts proofs] ps
    by (cases "send_or_swap force exact (so_send_kind opts) parts proofs") (simp add: ps_proofs_def)
  ultimately show thesis using that yl ps by blast
qed

text \<open>The proofs of the wallet that are offered: rows in a given state.\<close>

definition held :: "'m wallet \<Rightarrow> State list \<Rightarrow> (PublicKey \<times> ProofInfo) list \<Rightarrow> ProofInfo list" where
  "held w sts t = filter (\<lambda>p. is_ok (read_amount (amount (pi_proof p))) \<and> pi_mint_url p = wal_mint_url w \<and> pi_unit p = wal_unit w
     \<and> pi_state p \<in> set sts) (map snd t)"

lemma get_proofs_with_held: "set (get_proofs_with w (Some sts) conds db) \<subseteq> pi_proof ` set (held w sts (w_proofs db))"
  by (auto simp: get_proofs_with_def wallet_get_proofs_def held_def matches_conditions_def)

lemma get_reserved_held: "get_reserved_proofs w db = map pi_proof (held w [Reserved] (w_proofs db))"
  by (auto simp: get_reserved_proofs_def get_proofs_with_def wallet_get_proofs_def held_def matches_conditions_def intro!: arg_cong [of _ _ "map pi_proof"] filter_cong)

lemma available_proofs_Ok:
  "available_proofs w a opts s = Some (Ok (available, force), s') \<Longrightarrow> s' = s \<and> set available \<subseteq> pi_proof ` set (held w [Unspent] (rows s))"
  using get_proofs_with_held [of w "[Unspent]" _ "wst_db s"] unfolding available_proofs_def
  by (fastforce simp: w_then_Ok w_read_def w_give_def w_pure_def wallet_total_def split: if_splits)

lemma prepare_send_Ok:
  assumes prep: "prepare_send w a opts s = Some (Ok ps, s')" and shuffle: "\<And>qs. set (wal_shuffle w qs) = set qs"
  obtains yl where "proof_ys (wal_externs w) (ps_proofs ps) = Ok yl" "rows s' = mark Reserved yl (rows s)"
    "set (ps_proofs ps) \<subseteq> pi_proof ` set (held w [Unspent] (rows s))" "ps_amount ps = a" "ps_options ps = opts"
proof -
  from prep obtain s1 s2 s3 s4 s5 s6 ks fees selected available force u t send_fee wanted where
      "(if is_online (so_send_kind opts) then w_try (refresh_keysets w) else w_give (Ok ())) s = Some (Ok u, s1)"
      "get_keyset_fees_and_amounts w s1 = Some (Ok fees, s2)"
    and av: "available_proofs w a opts s2 = Some (Ok (available, force), s3)"
    and "get_mint_keysets w s3 = Some (Ok ks, s4)"
    and sel: "select_proofs (wal_overflow_checks w) (wal_shuffle w) a available (map info_id (filter info_active ks)) fees (so_include_fee opts) = Ok selected"
    and "wallet_total selected s4 = Some (Ok t, s5)" "(if so_include_fee opts then wallet_proofs_fee w selected else w_give (Ok 0)) s5 = Some (Ok send_fee, s6)"
    and int: "internal_prepare_send w a opts selected force s6 = Some (Ok ps, s')"
    unfolding prepare_send_def split_def
    by (elim w_then_OkE) (auto simp: w_then_Ok w_give_def w_pure_def Ok_map_err split: if_splits)
  have rows6: "rows s6 = rows s" and held3: "rows s2 = rows s"
    using \<open>_ = Some (Ok u, s1)\<close> \<open>_ = Some (Ok fees, s2)\<close> \<open>_ = Some (Ok ks, s4)\<close> \<open>_ = Some (Ok t, s5)\<close> \<open>_ = Some (Ok send_fee, s6)\<close>
      available_proofs_Ok [OF av]
    by (auto dest!: w_keepsD [OF fees_keep(1)] w_keepsD [OF keysets_keep(2)] w_keepsD [OF pure_steps_keep(6)]
        w_keepsD [OF pure_steps_keep(2)] w_keepsD [OF w_keeps_try [OF refresh_keysets_keeps]] simp: w_give_def split: if_splits)
  from int obtain yl where yl: "proof_ys (wal_externs w) selected = Ok yl" "rows s' = mark Reserved yl (rows s6)"
    and ps: "mset (ps_proofs ps) = mset selected" "ps_amount ps = a" "ps_options ps = opts"
    by (rule internal_prepare_send_Ok)
  have same: "set (ps_proofs ps) = set selected" using ps(1) by (rule mset_eq_setD)
  obtain zl where zl: "proof_ys (wal_externs w) (ps_proofs ps) = Ok zl" "set zl = set yl"
    using try_map_other_list [OF yl(1) [unfolded proof_ys_def] same] by (auto simp: proof_ys_def)
  have "set selected \<subseteq> set available" by (rule select_proofs_subset [OF shuffle sel])
  then have "set (ps_proofs ps) \<subseteq> pi_proof ` set (held w [Unspent] (rows s))"
    using available_proofs_Ok [OF av] held3 same by auto
  then show thesis using that [OF zl(1)] yl(2) mark_cong [OF zl(2), of Reserved] rows6 ps(2,3) by simp
qed

text \<open>Each row stands under the point of its own proof.\<close>

definition rows_match :: "externs \<Rightarrow> (PublicKey \<times> ProofInfo) list \<Rightarrow> bool" where
  "rows_match e t \<longleftrightarrow> keyed t \<and> (\<forall>(y, p) \<in> set t. pi_y p = y \<and> proof_y e (pi_proof p) = Ok y)"

lemma mark_member: "(y, p) \<in> set t \<Longrightarrow> y \<in> set yl \<Longrightarrow> (y, p\<lparr>pi_state := st\<rparr>) \<in> set (mark st yl t)"
  by (force simp: mark_def update_where_def)

lemma mark_match: "rows_match e t \<Longrightarrow> \<forall>(y, p) \<in> set (mark st yl t). proof_y e (pi_proof p) = Ok y"
  by (auto simp: rows_match_def mark_def update_where_def split: if_splits)

lemma mark_back:
  assumes "\<forall>(y, p) \<in> set t. y \<in> set yl \<longrightarrow> pi_state p = st"
  shows "mark st yl (mark st' yl t) = t"
  using assms by (induction t) (auto simp: mark_def update_where_def)

text \<open>
  C15: Preparing a send and cancelling it changes nothing: cancelling succeeds, and every proof of the
  store is again as it was before. The store keeps each proof under its own point, and iterating over a
  set of proofs visits all of them.
\<close>

theorem cancel_restores:
  assumes prep: "prepare_send w a opts s = Some (Ok ps, s')"
    and shuffle: "\<And>qs. set (wal_shuffle w qs) = set qs"
    and store: "rows_match (wal_externs w) (w_proofs (wst_db s))"
  shows "\<exists>s''. cancel w ps s' = Some (Ok (), s'') \<and> w_proofs (wst_db s'') = w_proofs (wst_db s)"
proof -
  let ?e = "wal_externs w"
  from prep shuffle obtain yl where yl: "proof_ys ?e (ps_proofs ps) = Ok yl" and s': "rows s' = mark Reserved yl (rows s)"
    and held: "set (ps_proofs ps) \<subseteq> pi_proof ` set (held w [Unspent] (rows s))" by (rule prepare_send_Ok)
  have owner: "\<exists>p. (y, p) \<in> set (rows s) \<and> p \<in> set (held w [Unspent] (rows s))" if "y \<in> set yl" for y
  proof -
    obtain q where q: "q \<in> set (ps_proofs ps)" "proof_y ?e q = Ok y"
      using \<open>y \<in> set yl\<close> try_map_set [OF yl [unfolded proof_ys_def]] by blast
    with held obtain p where p: "pi_proof p = q" "p \<in> set (held w [Unspent] (rows s))" by auto
    then obtain z where z: "(z, p) \<in> set (rows s)" by (auto simp: held_def)
    then have "proof_y ?e (pi_proof p) = Ok z" using store by (auto simp: rows_match_def)
    then have "z = y" using p q by simp
    with z p show ?thesis by blast
  qed
  have unspent: "\<forall>(y, p) \<in> set (rows s). y \<in> set yl \<longrightarrow> pi_state p = Unspent"
  proof (clarify)
    fix y p assume p: "(y, p) \<in> set (rows s)" and "y \<in> set yl"
    with owner obtain q where q: "(y, q) \<in> set (rows s)" "q \<in> set (held w [Unspent] (rows s))" by blast
    then have "p = q" using p store by (auto simp: rows_match_def intro: eq_key_imp_eq_value)
    with q show "pi_state p = Unspent" by (simp add: held_def)
  qed
  obtain rl where rl: "proof_ys ?e (get_reserved_proofs w (wst_db s')) = Ok rl"
    using try_map_defined [of "proof_y ?e" "get_reserved_proofs w (wst_db s')"] mark_match [OF store, of Reserved yl]
    by (fastforce simp: proof_ys_def get_reserved_held held_def s')
  have "set yl \<subseteq> set rl"
  proof
    fix y assume y: "y \<in> set yl"
    then obtain p where p: "(y, p) \<in> set (rows s)" "p \<in> set (held w [Unspent] (rows s))" using owner by blast
    then have "p\<lparr>pi_state := Reserved\<rparr> \<in> set (held w [Reserved] (rows s'))"
      using mark_member [OF p(1) y, of Reserved] by (force simp: held_def s')
    moreover have "proof_y ?e (pi_proof p) = Ok y" using p(1) store by (auto simp: rows_match_def)
    ultimately show "y \<in> set rl"
      using try_map_set [OF rl [unfolded proof_ys_def]] by (force simp: get_reserved_held)
  qed
  then have "cancel w ps s' = Some (Ok (), s'\<lparr>wst_db := wallet_update_proofs_state yl Unspent (wst_db s')\<rparr>)"
    by (simp add: cancel_def w_then_def w_read_def w_give_def wallet_ys_def w_pure_def rl yl w_write_def ensure_def)
  then show ?thesis using mark_back [OF unspent, of Reserved] by (simp add: s')
qed

text \<open>
  C16: A confirmed send. The token is made of proofs worth at least the amount to send, and no proof of
  the token can be spent again by the wallet: every row of one of its proofs is marked as pending
  spent. The wallet keeps a transaction under the digest of these proofs.
\<close>

theorem confirm_pays:
  assumes run: "confirm w ps memo s = Some (Ok t, s')"
  shows "\<exists>to_send yl tr. token_new (wal_mint_url w) to_send (txn_memo tr) (wal_unit w) = Ok t
    \<and> proof_ys (wal_externs w) to_send = Ok yl \<and> unat (ps_amount ps) \<le> worth to_send
    \<and> (ps_proofs_to_swap ps = [] \<longrightarrow> to_send = ps_proofs_to_send ps)
    \<and> (\<forall>(y, p) \<in> set (w_proofs (wst_db s')). y \<in> set yl \<longrightarrow> pi_state p = PendingSpent)
    \<and> map_of (w_transactions (wst_db s')) (transaction_id_new (wal_externs w) yl) = Some tr \<and> txn_amount tr = ps_amount ps"
proof -
  from run obtain total_fee amt s1 s2 to_send t_sum yl label tr where
      swap: "swap_to_send w ps amt s1 = Some (Ok to_send, s2)" and t_sum: "total_amount to_send = Ok t_sum" "ps_amount ps \<le> t_sum"
    and yl: "proof_ys (wal_externs w) to_send = Ok yl"
    and s': "s' = s2\<lparr>wst_db := wallet_add_transaction (wal_externs w) tr (wallet_update_proofs_state yl PendingSpent (wst_db s2))\<rparr>"
    and tr: "txn_ys tr = yl" "txn_amount tr = ps_amount ps" "txn_memo tr = label"
    and t: "token_new (wal_mint_url w) to_send label (wal_unit w) = Ok t"
    unfolding confirm_def Let_def split_def
    by (elim w_then_OkE) (auto simp: w_give_def w_pure_def wallet_total_def Ok_map_err wallet_ys_Some w_write_Some ensure_def w_read_def split: if_splits)
  have worth: "unat (ps_amount ps) \<le> worth to_send" using t_sum by (simp add: total_amount_Ok_iff word_le_nat_alt)
  have "w_proofs (wst_db s') = mark PendingSpent yl (w_proofs (wst_db s2))" by (simp add: s' wallet_add_transaction_def)
  then have marked: "\<forall>(y, p) \<in> set (w_proofs (wst_db s')). y \<in> set yl \<longrightarrow> pi_state p = PendingSpent"
    by (auto simp: mark_def update_where_def split: if_splits)
  obtain tr' where "map_of (w_transactions (wst_db s')) (transaction_id_new (wal_externs w) yl) = Some tr'"
    "txn_memo tr' = label" "txn_amount tr' = ps_amount ps"
    using tr by (auto simp: s' wallet_add_transaction_def transaction_id_def upsert_lookup wallet_update_proofs_state_def split: option.splits)
  moreover have "ps_proofs_to_swap ps = [] \<longrightarrow> to_send = ps_proofs_to_send ps"
    using swap by (auto simp: swap_to_send_def w_give_def)
  ultimately show ?thesis using t yl worth marked by blast
qed

definition pocket_options :: SendOptions where
  "pocket_options = \<lparr>so_memo = None, so_conditions = None, so_amount_split_target = NoTarget, so_send_kind = OfflineExact,
     so_include_fee = False, so_max_proofs = None, so_metadata = []\<rparr>"

lemma pocket_options_sel [simp]:
  "so_conditions pocket_options = None" "so_send_kind pocket_options = OfflineExact" "so_include_fee pocket_options = False"
  "so_max_proofs pocket_options = None"
  by (simp_all add: pocket_options_def)

lemma pocket_select:
  "select_proofs True (\<lambda>ps. ps) 8 [pocket_coin] [example_id2] [(example_id2, \<lparr>fee = 0, amounts = [1, 2, 4, 8]\<rparr>)] False = Ok [pocket_coin]"
  by (simp add: select_proofs_def select_candidates_def total_amount_def try_sum_def pocket_coin_def checked_add_def sort_descending_def
      proof_is_active_def select_optimal_amounts_def amount_split_def split_step_def select_optimal_def select_proof_def ensure_def Let_def)

lemma pocket_available: "available_proofs pocket_wallet 8 pocket_options (pocket_db Unspent 0) = Some (Ok ([pocket_coin], False), pocket_db Unspent 0)"
proof -
  have "get_proofs_with pocket_wallet (Some [Unspent]) None (wst_db (pocket_db Unspent 0)) = [pocket_coin]"
    by (simp add: get_proofs_with_def wallet_get_proofs_def matches_conditions_def pocket_db_def pocket_row_def pocket_coin_def
        read_amount_def to_i64_def)
  then show ?thesis
    by (simp add: available_proofs_def pocket_options_def w_read_def w_then_step pocket_steps w_give_def)
qed

lemma pocket_send_keysets:
  "get_keyset_fees_and_amounts pocket_wallet (pocket_db st n) = Some (Ok [(example_id2, \<lparr>fee = 0, amounts = [1, 2, 4, 8]\<rparr>)], pocket_db st n)"
  "get_mint_keysets pocket_wallet (pocket_db st n) = Some (Ok [info_of example_id2 0], pocket_db st n)"
  "get_active_keyset pocket_wallet (pocket_db st n) = Some (Ok (info_of example_id2 0), pocket_db st n)"
  "wallet_proofs_fee pocket_wallet [] (pocket_db st n) = Some (Ok 0, pocket_db st n)"
  by (simp_all add: w_step_defs pocket_db_def load_keyset_keys_def wallet_get_keys_def info_of_def get_keyset_fees_and_amounts_def
      get_mint_keysets_def get_active_keyset_def wallet_get_mint_keysets_def row_to_keyset_def read_amount_def to_i64_def
      wallet_proofs_fee_def get_proofs_fee_by_count_def count_by_keyset_def calculate_fee_def checked_add_def div_ceil_def)

lemma pocket_prepare:
  "prepare_send pocket_wallet 8 pocket_options (pocket_db Unspent 0)
     = Some (Ok \<lparr>ps_amount = 8, ps_options = pocket_options, ps_proofs_to_swap = [], ps_swap_fee = 0,
         ps_proofs_to_send = [pocket_coin], ps_send_fee = 0\<rparr>, pocket_db Reserved 0)"
proof -
  have parts: "send_amounts_and_fee pocket_wallet example_id2 \<lparr>fee = 0, amounts = [1, 2, 4, 8]\<rparr> 8 False s = Some (Ok ([8], 0), s)" for s
    by (simp add: send_amounts_and_fee_def amount_split_def split_step_def w_give_def w_then_def)
  have "internal_prepare_send pocket_wallet 8 pocket_options [pocket_coin] False (pocket_db Unspent 0)
     = Some (Ok \<lparr>ps_amount = 8, ps_options = pocket_options, ps_proofs_to_swap = [], ps_swap_fee = 0,
         ps_proofs_to_send = [pocket_coin], ps_send_fee = 0\<rparr>, pocket_db Reserved 0)"
    by (simp add: internal_prepare_send_def Let_def pocket_send_keysets pocket_keysets pocket_steps w_then_step info_of_def [of example_id2]
        parts w_give_def amount_add_def checked_add_def send_or_swap_def)
  then show ?thesis
    by (simp add: prepare_send_def pocket_send_keysets pocket_available pocket_select pocket_steps w_then_step w_give_def w_pure_def
        info_of_def [of example_id2] amount_add_def checked_add_def)
qed

theorem cancel_restores_witness:
  "\<exists>ps s' s''. prepare_send pocket_wallet 8 pocket_options (pocket_db Unspent 0) = Some (Ok ps, s') \<and> w_proofs (wst_db s') \<noteq> w_proofs (wst_db (pocket_db Unspent 0))
     \<and> cancel pocket_wallet ps s' = Some (Ok (), s'') \<and> w_proofs (wst_db s'') = w_proofs (wst_db (pocket_db Unspent 0))"
proof -
  have "rows_match (wal_externs pocket_wallet) (w_proofs (wst_db (pocket_db Unspent 0)))"
    by (simp add: rows_match_def pocket_db_def pocket_row_def proof_y_def hash_to_curve_def hash_to_curve_from.simps toy_defs)
  moreover have "w_proofs (wst_db (pocket_db Reserved 0)) \<noteq> w_proofs (wst_db (pocket_db Unspent 0))" by (simp add: pocket_db_def pocket_row_def)
  ultimately show ?thesis using pocket_prepare cancel_restores [OF pocket_prepare] by auto
qed

lemma pocket_confirm:
  "\<exists>t s'. confirm pocket_wallet \<lparr>ps_amount = 8, ps_options = pocket_options, ps_proofs_to_swap = [], ps_swap_fee = 0,
     ps_proofs_to_send = [pocket_coin], ps_send_fee = 0\<rparr> None (pocket_db Reserved 0) = Some (Ok t, s')"
proof -
  have "get_proofs_with pocket_wallet (Some [Reserved, Unspent]) None (wst_db (pocket_db Reserved 0)) = [pocket_coin]"
    by (simp add: get_proofs_with_def wallet_get_proofs_def matches_conditions_def pocket_db_def pocket_row_def pocket_coin_def
        read_amount_def to_i64_def)
  then have sendable: "w_read (\<lambda>db. Ok (get_proofs_with pocket_wallet (Some [Reserved, Unspent]) None db)) (pocket_db Reserved 0)
      = Some (Ok [pocket_coin], pocket_db Reserved 0)" by (simp add: w_read_def)
  have "\<exists>t. token_new ''m'' [pocket_coin] x Sat = Ok t" for x
    by (simp add: token_new_def group_by_def token_v4_token_new_def short_from_id_def pocket_coin_def example_id2_def)
  then show ?thesis
    by (auto simp: confirm_def Let_def pocket_fetch pocket_keysets pocket_steps w_then_step w_give_def w_pure_def ps_fee_def amount_add_def
        checked_add_def swap_to_send_def ensure_def sendable info_of_def [of example_id2] w_write_def [of "wallet_add_transaction _ _"])
qed

theorem confirm_pays_witness:
  "\<exists>t s' yl. confirm pocket_wallet \<lparr>ps_amount = 8, ps_options = pocket_options, ps_proofs_to_swap = [], ps_swap_fee = 0,
       ps_proofs_to_send = [pocket_coin], ps_send_fee = 0\<rparr> None (pocket_db Reserved 0) = Some (Ok t, s')
     \<and> proof_ys toy_externs [pocket_coin] = Ok yl
     \<and> (\<forall>(y, p) \<in> set (w_proofs (wst_db s')). y \<in> set yl \<longrightarrow> pi_state p = PendingSpent)"
proof -
  obtain t s' where run: "confirm pocket_wallet \<lparr>ps_amount = 8, ps_options = pocket_options, ps_proofs_to_swap = [], ps_swap_fee = 0,
       ps_proofs_to_send = [pocket_coin], ps_send_fee = 0\<rparr> None (pocket_db Reserved 0) = Some (Ok t, s')" using pocket_confirm by blast
  from confirm_pays [OF run] show ?thesis using run by auto
qed

end
