(* ===== verification/WalletRestore.thy ===== *)
theory WalletRestore
  imports WalletSwap SwapSaga
begin

text \<open>
  Restoring a wallet from its seed and verifying tokens before they are accepted
  (\<^verbatim>\<open>crates/cdk/src/wallet/mod.rs\<close>). Whether the description of the mint is stored is an argument of
  \<open>restore\<close>. The loop over the batches of a keyset ends after three batches without a signature; a mint
  that always has one keeps it running, so it is a partial function.
\<close>

section \<open>Restoring\<close>

definition found_outputs :: "PreMintSecrets \<Rightarrow> BlindedMessage list \<Rightarrow> PreMint list" where
  "found_outputs pre outputs = filter (\<lambda>p. pm_blinded_message p \<in> set outputs) (pms_secrets pre)"

text \<open>The proofs of one answer: constructed, counted, checked for their states and stored.\<close>

definition restore_found ::
  "'m wallet \<Rightarrow> KeySetInfo \<Rightarrow> Keys \<Rightarrow> PreMintSecrets \<Rightarrow> BlindedMessage list \<Rightarrow> BlindSignature list \<Rightarrow> Amount \<Rightarrow> ('m, Amount) wstep" where
  "restore_found w k keys pre outputs sigs restored_value =
     (let found = found_outputs pre outputs in
      w_then (w_give (if length outputs = length found then Ok () else Panic)) (\<lambda>_.
      w_then (w_pure (map_err E_DHKE (construct_proofs (wal_externs w) sigs (map pm_r found) (map pm_secret found) keys))) (\<lambda>proofs.
      w_then (w_run (wallet_increment_keyset_counter (wal_overflow_checks w) (info_id k) (of_nat (length proofs)))) (\<lambda>_.
      w_then (check_proofs_spent w proofs) (\<lambda>states.
      let unspent = map fst (filter (\<lambda>(_, _, st). st \<noteq> Spent) (zip proofs states)) in
      w_then (wallet_total unspent) (\<lambda>t.
      w_then (w_give (amount_add restored_value t)) (\<lambda>value.
      w_then (w_pure (try_map (\<lambda>p. proof_info_new (wal_externs w) p (wal_mint_url w) Unspent (info_unit k)) unspent)) (\<lambda>infos.
      w_then (w_write (wallet_update_proofs infos [])) (\<lambda>_.
      w_give (Ok value))))))))))"

definition restore_step ::
  "'m wallet \<Rightarrow> KeySetInfo \<Rightarrow> Keys \<Rightarrow> nat \<times> u32 \<times> Amount \<Rightarrow> ('m, nat \<times> u32 \<times> Amount) wstep" where
  "restore_step w k keys = (\<lambda>(empty_batch, start_counter, restored_value).
     w_then (w_give (add_unchecked (wal_overflow_checks w) start_counter 100)) (\<lambda>end_counter.
     w_then (w_give (map_err W_NUT13 (restore_batch (wal_externs w) (wal_derivation w) (info_id k) (wal_seed w) start_counter end_counter))) (\<lambda>pre.
     w_then (w_ask (cl_restore (wal_client w) (premint_messages pre))) (\<lambda>(outputs, sigs).
     if sigs = [] then w_give (Ok (Suc empty_batch, end_counter, restored_value))
     else w_then (restore_found w k keys pre outputs sigs restored_value) (\<lambda>value.
       w_give (Ok (0, end_counter, value)))))))"

partial_function (option) restore_loop ::
  "'m wallet \<Rightarrow> KeySetInfo \<Rightarrow> Keys \<Rightarrow> nat \<times> u32 \<times> Amount \<Rightarrow> 'm wallet_state
     \<Rightarrow> ((wallet_error, Amount) outcome \<times> 'm wallet_state) option" where
  "restore_loop w k keys st s =
     (if 3 \<le> fst st then Some (Ok (snd (snd st)), s)
      else case restore_step w k keys st s of
          None \<Rightarrow> None
        | Some (r, s') \<Rightarrow> (case r of
            Ok st' \<Rightarrow> restore_loop w k keys st' s' | Err x \<Rightarrow> Some (Err x, s') | Panic \<Rightarrow> Some (Panic, s')))"

fun restore_keysets :: "'m wallet \<Rightarrow> KeySetInfo list \<Rightarrow> Amount \<Rightarrow> ('m, Amount) wstep" where
  "restore_keysets w [] restored_value = w_give (Ok restored_value)"
| "restore_keysets w (k # ks) restored_value =
     w_then (load_keyset_keys w (info_id k)) (\<lambda>keys.
     w_then (restore_loop w k keys (0, 0, restored_value)) (restore_keysets w ks))"

definition wallet_restore :: "'m wallet \<Rightarrow> bool \<Rightarrow> ('m, Amount) wstep" where
  "wallet_restore w mint_stored =
     w_then (if mint_stored then w_give (Ok ()) else fetch_mint_info w) (\<lambda>_.
     w_then (load_mint_keysets w) (\<lambda>keysets.
     restore_keysets w keysets 0))"

section \<open>Verifying a token\<close>

text \<open>Refund keys, keys, locktime and number of signatures asked for.\<close>

type_synonym asked_conditions = "PublicKey list option \<times> PublicKey list option \<times> u64 option \<times> u64 option"

fun asked_of :: "SpendingConditions \<Rightarrow> asked_conditions" where
  "asked_of (P2PKConditions pk (Some cs)) =
     (cond_refund_keys cs, Some (pk # unwrap_or (cond_pubkeys cs) []), locktime cs, num_sigs cs)"
| "asked_of (P2PKConditions pk None) = (None, Some [pk], None, None)"
| "asked_of (HTLCConditions _ (Some cs)) = (cond_refund_keys cs, cond_pubkeys cs, locktime cs, num_sigs cs)"
| "asked_of (HTLCConditions _ None) = (None, None, None, None)"

definition refund_allowed ::
  "PublicKey list option \<Rightarrow> u64 option \<Rightarrow> SpendingConditions \<Rightarrow> (wallet_error, unit) outcome" where
  "refund_allowed refund_keys lock sc =
     (case sc_refund_keys sc of
        None \<Rightarrow> Ok ()
      | Some proof_refund_keys \<Rightarrow>
          and_then (ok_or (sc_locktime sc) W_LocktimeNotProvided) (\<lambda>proof_locktime.
          case (refund_keys, lock) of
            (Some condition_refund_keys, Some condition_locktime) \<Rightarrow>
              and_then (ensure (condition_locktime \<le> proof_locktime) (W_P2PKConditionsNotMet ''Proof locktime less then required'')) (\<lambda>_.
              ensure (condition_refund_keys = [] \<or> set proof_refund_keys \<subseteq> set condition_refund_keys)
                (W_P2PKConditionsNotMet ''Refund Key not allowed''))
          | _ \<Rightarrow> Err (W_P2PKConditionsNotMet ''Spending condition does not allow refund keys'')))"

definition proof_meets :: "externs \<Rightarrow> asked_conditions \<Rightarrow> Proof \<Rightarrow> (wallet_error, unit) outcome" where
  "proof_meets e spec p =
     (case spec of (refund_keys, asked_keys, lock, nsigs) \<Rightarrow>
      and_then (map_err (\<lambda>_. W_Secret) (nut10_try_from e (secret p))) (\<lambda>n.
      and_then (map_err (W_Error \<circ> E_NUT11) (sc_try_from_nut10 e n)) (\<lambda>sc.
      and_then (ensure (nsigs = sc_num_sigs sc) (W_P2PKConditionsNotMet ''Num sigs did not match spending condition'')) (\<lambda>_.
      let condition_pubkeys = unwrap_or asked_keys []; proof_pubkeys = unwrap_or (sc_pubkeys sc) [] in
      and_then (ensure (length proof_pubkeys = length condition_pubkeys \<and> set proof_pubkeys \<subseteq> set condition_pubkeys)
        (W_P2PKConditionsNotMet ''Pubkeys in proof not allowed by spending condition'')) (\<lambda>_.
      refund_allowed refund_keys lock sc)))))"

definition verify_token_p2pk :: "'m wallet \<Rightarrow> Token \<Rightarrow> SpendingConditions \<Rightarrow> ('m, unit) wstep" where
  "verify_token_p2pk w t sc =
     (case asked_of sc of (refund_keys, asked_keys, lock, nsigs) \<Rightarrow>
      w_then (w_give (ensure (refund_keys = None \<or> lock \<noteq> None) (W_InvalidSpendConditions ''Must set locktime''))) (\<lambda>_.
      w_then (w_give (map_err W_Token (token_mint_url t))) (\<lambda>url.
      w_then (w_give (ensure (url = wal_mint_url w) W_IncorrectWallet)) (\<lambda>_.
      w_then (load_mint_keysets w) (\<lambda>keysets.
      w_then (w_give (map_err W_Token (token_proofs keysets t))) (\<lambda>proofs.
      w_give (try_fold (\<lambda>_. proof_meets (wal_externs w) (asked_of sc)) () proofs)))))))"

text \<open>The cache of keys is the list of its entries.\<close>

fun verify_dleqs :: "'m wallet \<Rightarrow> (Id \<times> Keys) list \<Rightarrow> Proof list \<Rightarrow> ('m, unit) wstep" where
  "verify_dleqs w cache [] = w_give (Ok ())"
| "verify_dleqs w cache (p # ps) =
     w_then (case map_of cache (keyset_id p) of
         Some keys \<Rightarrow> w_give (Ok (keys, cache))
       | None \<Rightarrow> w_then (load_keyset_keys w (keyset_id p)) (\<lambda>keys. w_give (Ok (keys, (keyset_id p, keys) # cache)))) (\<lambda>(keys, cache').
     w_then (w_give (ok_or (map_of keys (amount p)) W_AmountKey)) (\<lambda>mint_pubkey.
     w_then (w_give (map_err (\<lambda>_. W_CouldNotVerifyDleq) (proof_verify_dleq (wal_externs w) p mint_pubkey))) (\<lambda>_.
     verify_dleqs w cache' ps)))"

definition verify_token_dleq :: "'m wallet \<Rightarrow> Token \<Rightarrow> ('m, unit) wstep" where
  "verify_token_dleq w t =
     w_then (load_mint_keysets w) (\<lambda>keysets.
     w_then (w_give (map_err W_Token (token_proofs keysets t))) (verify_dleqs w []))"

section \<open>What is not checked\<close>

text \<open>A proof locked to keys, to be signed for itself, without refund keys, whose locktime has passed.\<close>

definition open_lock :: "externs \<Rightarrow> u64 \<Rightarrow> PublicKey \<Rightarrow> Conditions \<Rightarrow> Proof \<Rightarrow> bool" where
  "open_lock e now pk cs p \<longleftrightarrow>
     (case nut10_try_from e (secret p) of
        Ok n \<Rightarrow> n10_kind n = P2PK \<and> pk_from_hex e (sd_data (n10_data n)) = Ok pk
          \<and> (\<exists>tags. n10_tags n = Some tags \<and> conditions_try_from e tags = Ok cs)
      | _ \<Rightarrow> False)
     \<and> cond_refund_keys cs = None \<and> sig_flag cs = SigInputs \<and> locktime_passed now cs \<and> distinct (pk # unwrap_or (cond_pubkeys cs) [])"

lemma open_lock_meets:
  assumes "open_lock e now pk cs p"
  shows "proof_meets e (asked_of (P2PKConditions pk (Some (cs\<lparr>locktime := None\<rparr>)))) p = Ok ()"
proof -
  obtain n where "nut10_try_from e (secret p) = Ok n" "sc_try_from_nut10 e n = Ok (P2PKConditions pk (Some cs))"
    "cond_refund_keys cs = None" "distinct (pk # unwrap_or (cond_pubkeys cs) [])"
    using assms by (auto simp: open_lock_def sc_try_from_nut10_def conditions_ok_def split: outcome.splits)
  then show ?thesis
    by (auto simp: proof_meets_def sc_num_sigs_def sc_refund_keys_def refund_allowed_def ensure_def unwrap_or_def distinct_remdups_id
        split: option.splits)
qed

text \<open>
  C37: The check of a locked token before it is accepted passes over the locktime of proofs that have
  no refund keys: a token asked to be locked to keys for ever, each proof to be signed for itself, is
  accepted with a locktime that has passed. A swap of its proofs with an empty witness then passes the
  mint's check of the conditions of every input and its check of the signature flag, so that anyone who
  has the token can spend it without a signature.
\<close>

theorem verified_token_open:
  assumes "load_mint_keysets w s = Some (Ok kss, s')"
    and "token_mint_url t = Ok (wal_mint_url w)" "token_proofs kss t = Ok proofs"
    and "\<forall>p \<in> set proofs. open_lock (wal_externs w) now pk cs p" "cond_refund_keys cs = None"
    and "inputs = map (\<lambda>p. p\<lparr>witness := Some (P2PKWitness [])\<rparr>) proofs"
  shows "verify_token_p2pk w t (P2PKConditions pk (Some (cs\<lparr>locktime := None\<rparr>))) s = Some (Ok (), s')
    \<and> (\<forall>p \<in> set inputs. check_conditions (wal_externs w) now p = Ok ())
    \<and> validate_sig_flag (wal_externs w) \<lparr>swap_inputs = inputs, swap_outputs = outs\<rparr> = Ok ()"
proof (intro conjI ballI)
  let ?e = "wal_externs w"
  have "try_fold (\<lambda>_. proof_meets ?e (asked_of (P2PKConditions pk (Some (cs\<lparr>locktime := None\<rparr>))))) () proofs = Ok ()"
    unfolding try_fold_unit_Ok_iff using assms(4) open_lock_meets by blast
  then show "verify_token_p2pk w t (P2PKConditions pk (Some (cs\<lparr>locktime := None\<rparr>))) s = Some (Ok (), s')"
    using assms by (simp add: verify_token_p2pk_def w_then_def w_give_def ensure_def)
  have read: "\<exists>n tags. nut10_try_from ?e (secret p) = Ok n \<and> n10_kind n = P2PK \<and> n10_tags n = Some tags
      \<and> conditions_try_from ?e tags = Ok cs \<and> sig_flag cs = SigInputs \<and> locktime_passed now cs" if "p \<in> set proofs" for p
    using assms(4) that by (fastforce simp: open_lock_def split: outcome.splits)
  show "check_conditions ?e now q = Ok ()" if "q \<in> set inputs" for q
  proof -
    from that obtain p where p: "p \<in> set proofs" "q = p\<lparr>witness := Some (P2PKWitness [])\<rparr>" by (auto simp: assms(6))
    from read [OF p(1)] obtain n tags where n: "nut10_try_from ?e (secret q) = Ok n" "n10_kind n = P2PK" "n10_tags n = Some tags"
      "conditions_try_from ?e tags = Ok cs" "locktime_passed now cs" by (auto simp: p(2))
    then have "verify_p2pk ?e now q = Ok ()"
      using verify_p2pk_eq [of ?e q n cs "[]" "[]"] assms(5) by (simp add: p(2) unwrap_or_def)
    then show ?thesis using n(1,2) by (simp add: check_conditions_def)
  qed
  have "\<forall>q \<in> set inputs. \<exists>n tags cs. nut10_try_from ?e (secret q) = Ok n \<and> n10_tags n = Some tags
      \<and> conditions_try_from ?e tags = Ok cs \<and> sig_flag cs = SigInputs"
    using read by (fastforce simp: assms(6))
  then obtain f where "enforce_sig_flag ?e inputs = (Ok f :: (Error, EnforceSigFlag) outcome)" "esf_sig_flag f = SigInputs"
    by (rule enforce_sig_inputs)
  then show "validate_sig_flag ?e \<lparr>swap_inputs = inputs, swap_outputs = outs\<rparr> = Ok ()" by (simp add: validate_sig_flag_def)
qed

definition open_conditions :: Conditions where
  "open_conditions = demo_conditions\<lparr>cond_refund_keys := None\<rparr>"

definition open_externs :: externs where
  "open_externs = demo_externs P2PK (pk_to_hex demo_key) (Some (conditions_to_tags open_conditions))"

definition open_token :: TokenV4 where
  "open_token = \<lparr>tok4_mint_url = ''m'', tok4_unit = Sat, tok4_memo = None, tok4_token =
     [\<lparr>t4_keyset_id = \<lparr>short_version = Version00, prefix = [0, 154, 31, 41, 50, 83, 228]\<rparr>, t4_proofs = [v4_from_proof (demo_proof None)]\<rparr>]\<rparr>"

theorem verified_token_open_witness:
  "verify_token_p2pk (pocket_wallet\<lparr>wal_externs := open_externs\<rparr>) (TokenV4 open_token)
       (P2PKConditions demo_key (Some (open_conditions\<lparr>locktime := None\<rparr>))) (pocket_db Unspent 0) = Some (Ok (), pocket_db Unspent 0)
   \<and> check_conditions open_externs 20 (demo_proof (Some (P2PKWitness []))) = Ok ()
   \<and> validate_sig_flag open_externs \<lparr>swap_inputs = [demo_proof (Some (P2PKWitness []))], swap_outputs = []\<rparr> = Ok ()"
proof -
  let ?w = "pocket_wallet\<lparr>wal_externs := open_externs\<rparr>"
  have kss: "load_mint_keysets ?w (pocket_db Unspent 0) = Some (Ok [info_of example_id2 0], pocket_db Unspent 0)"
    by (simp add: load_mint_keysets_def w_step_defs pocket_db_def wallet_get_mint_keysets_def row_to_keyset_def info_of_def
        read_amount_def to_i64_def)
  have proofs: "token_proofs [info_of example_id2 0] (TokenV4 open_token) = Ok [demo_proof None]"
    by (simp add: token_v4_proofs_def open_token_def from_short_keyset_id_def v4_into_proof_def v4_from_proof_def demo_proof_def example_id_def)
  have "conditions_try_from open_externs (conditions_to_tags open_conditions) = Ok open_conditions"
    unfolding open_externs_def by (rule conditions_tags_roundtrip)
      (simp add: conditions_keys_ok_def demo_conditions_def open_conditions_def unwrap_or_def)
  moreover have "pk_from_hex open_externs (pk_to_hex demo_key) = Ok demo_key"
    by (rule pk_from_to_hex) (simp add: key_text_ok_def demo_key_def open_externs_def demo_externs_def toy_externs_def)
  ultimately have "open_lock open_externs 20 demo_key open_conditions (demo_proof None)"
    by (simp add: open_lock_def open_externs_def n10_tags_def locktime_passed_def open_conditions_def demo_conditions_def unwrap_or_def
        word_le_nat_alt)
  with verified_token_open [of ?w, OF kss _ proofs, of 20 demo_key open_conditions "[demo_proof (Some (P2PKWitness []))]" "[]"] show ?thesis
    by (simp add: open_token_def open_conditions_def demo_conditions_def demo_proof_def)
qed

section \<open>The counter after restoring\<close>

lemma check_proofs_spent_keysets: "check_proofs_spent w ps s = Some (Ok states, s') \<Longrightarrow> w_keysets (wst_db s') = w_keysets (wst_db s)"
  unfolding check_proofs_spent_def
  by (elim w_then_OkE) (auto simp: wallet_ys_Some w_ask_def w_write_Some w_give_def wallet_update_proofs_def split: prod.splits)

lemma construct_proofs_length: "construct_proofs e sigs rs secrets keys = Ok ps \<Longrightarrow> length ps = length sigs \<and> length sigs = length rs"
  by (auto simp: construct_proofs_def dest: try_map_length split: if_splits)

text \<open>A mint that knows which outputs it has signed, and gives the signatures of those it is asked for.\<close>

definition restores :: "'m client \<Rightarrow> (BlindedMessage \<Rightarrow> bool) \<Rightarrow> (BlindedMessage \<Rightarrow> BlindSignature) \<Rightarrow> bool" where
  "restores cl issued sig_of \<longleftrightarrow> (\<forall>msgs m. cl_restore cl msgs m = (Ok (filter issued msgs, map sig_of (filter issued msgs)), m))"

abbreviation has_sig :: "(BlindedMessage \<Rightarrow> bool) \<Rightarrow> PreMint \<Rightarrow> bool" where
  "has_sig issued p \<equiv> issued (pm_blinded_message p)"

lemma restore_found_counter:
  assumes run: "restore_found w k keys pre outputs sigs v s = Some (Ok v', s')"
    and oc: "wal_overflow_checks w" and len: "length (pms_secrets pre) < 2 ^ 32"
    and row: "map_of (w_keysets (wst_db s)) (info_id k) = Some r"
  shows "\<exists>r'. map_of (w_keysets (wst_db s')) (info_id k) = Some r' \<and> unat (kr_counter r') = unat (kr_counter r) + length sigs"
proof -
  from run obtain proofs c db states s2 where
      proofs: "construct_proofs (wal_externs w) sigs (map pm_r (found_outputs pre outputs)) (map pm_secret (found_outputs pre outputs)) keys = Ok proofs"
    and inc: "wallet_increment_keyset_counter True (info_id k) (of_nat (length proofs)) (wst_db s) = Ok (c, db)"
    and chk: "check_proofs_spent w proofs (s\<lparr>wst_db := db\<rparr>) = Some (Ok states, s2)"
    and s': "w_keysets (wst_db s') = w_keysets (wst_db s2)"
    unfolding restore_found_def Let_def using oc
    by (elim w_then_OkE) (auto simp: w_give_def w_pure_def w_run_def Ok_map_err wallet_total_def w_write_Some wallet_update_proofs_def split: outcome.splits prod.splits if_splits)
  have "length sigs \<le> length (pms_secrets pre)"
    using construct_proofs_length [OF proofs] by (simp add: found_outputs_def)
  then have n: "unat (of_nat (length proofs) :: u32) = length sigs"
    using construct_proofs_length [OF proofs] len by (simp add: unat_of_nat)
  have "map_of (w_keysets (wst_db s')) (info_id k) = Some (r\<lparr>kr_counter := c\<rparr>)"
    using s' check_proofs_spent_keysets [OF chk] increment_Ok(1) [OF inc] row by (simp add: update_where_lookup)
  moreover have "unat c = unat (kr_counter r) + length sigs" using increment_Ok(2) [OF inc] row n by simp
  ultimately show ?thesis by auto
qed

text \<open>One batch: nothing found, or as many counted as there are signatures.\<close>

lemma restore_step_Ok:
  assumes "restores (wal_client w) issued sig_of" "wal_overflow_checks w"
    and "restore_step w k keys (b, lo, v) s = Some (Ok (b', lo', v'), s')"
  obtains pre where "unat lo' = unat lo + 100" "restore_batch (wal_externs w) (wal_derivation w) (info_id k) (wal_seed w) lo lo' = Ok pre"
    "filter (has_sig issued) (pms_secrets pre) = [] \<Longrightarrow> b' = Suc b \<and> s' = s"
    "filter (has_sig issued) (pms_secrets pre) \<noteq> [] \<Longrightarrow> \<exists>outputs sigs. length sigs = length (filter (has_sig issued) (pms_secrets pre))
       \<and> restore_found w k keys pre outputs sigs v s = Some (Ok v', s')"
proof -
  from assms obtain pre where pre: "add_unchecked True lo 100 = (Ok lo' :: (wallet_error, u32) outcome)"
      "restore_batch (wal_externs w) (wal_derivation w) (info_id k) (wal_seed w) lo lo' = Ok pre"
    and rest: "if filter issued (premint_messages pre) = [] then b' = Suc b \<and> s' = s
      else restore_found w k keys pre (filter issued (premint_messages pre)) (map sig_of (filter issued (premint_messages pre))) v s = Some (Ok v', s')"
    unfolding restore_step_def prod.case restores_def
    by (elim w_then_OkE) (auto simp: w_give_def w_ask_def w_then_Ok Ok_map_err split: if_splits)
  have same: "filter issued (premint_messages pre) = map pm_blinded_message (filter (has_sig issued) (pms_secrets pre))"
    by (simp add: premint_messages_def filter_map comp_def)
  have "unat lo' = unat lo + 100" using pre(1) by (auto simp: add_unchecked_Ok)
  moreover have "length (map sig_of (filter issued (premint_messages pre))) = length (filter (has_sig issued) (pms_secrets pre))"
    by (simp add: same)
  moreover have "filter issued (premint_messages pre) = [] \<longleftrightarrow> filter (has_sig issued) (pms_secrets pre) = []" by (simp add: same)
  ultimately show thesis using rest pre(2) by (intro that [of pre]) (metis (lifting))+
qed

lemma restore_batch_members:
  assumes "restore_batch e dv i seed lo hi = Ok pre" "p \<in> set (pms_secrets pre)"
  shows "\<exists>c. unat lo \<le> unat c \<and> unat c \<le> unat hi \<and> seed_premint e dv seed i 0 c = Ok p"
proof -
  have run: "try_map (\<lambda>n. seed_premint e dv seed i 0 (of_nat n)) [unat lo ..< Suc (unat hi)] = Ok (pms_secrets pre)"
    using assms(1) by (auto simp: restore_batch_def)
  from assms(2) obtain j where j: "j < length (pms_secrets pre)" "pms_secrets pre ! j = p" by (auto simp: in_set_conv_nth)
  then have le: "unat lo + j \<le> unat hi" using try_map_length [OF run] by (simp del: upt_Suc)
  from restore_batch_nth(2) [OF assms(1) le] j(2) have "seed_premint e dv seed i 0 (of_nat (unat lo + j)) = Ok p" by simp
  moreover have "unat (of_nat (unat lo + j) :: u32) = unat lo + j"
    unfolding unat_of_nat using le unsigned_less [of hi, where 'a = nat] by simp
  ultimately show ?thesis using le by (intro exI [of _ "of_nat (unat lo + j)"]) simp
qed

text \<open>Past the last signed output, the loop runs out without touching the store.\<close>

lemma restore_loop_past:
  assumes "restores (wal_client w) issued sig_of" "wal_overflow_checks w"
    and "\<forall>c p. seed_premint (wal_externs w) (wal_derivation w) (wal_seed w) (info_id k) 0 c = Ok p \<and> has_sig issued p \<longrightarrow> unat c \<le> n"
    and "restore_loop w k keys (b, lo, v) s = Some (Ok v', s')" "n < unat lo"
  shows "s' = s"
  using assms(4,5)
proof (induction "3 - b" arbitrary: b lo v s)
  case 0
  then show ?case by (subst (asm) restore_loop.simps) simp
next
  case (Suc x)
  then have b: "\<not> 3 \<le> b" by simp
  with Suc.prems(1) obtain b1 lo1 v1 s1 where step: "restore_step w k keys (b, lo, v) s = Some (Ok (b1, lo1, v1), s1)"
    and rest: "restore_loop w k keys (b1, lo1, v1) s1 = Some (Ok v', s')"
    by (subst (asm) restore_loop.simps) (auto split: option.splits outcome.splits)
  from assms(1,2) step obtain pre where pre: "unat lo1 = unat lo + 100"
    "restore_batch (wal_externs w) (wal_derivation w) (info_id k) (wal_seed w) lo lo1 = Ok pre"
    "filter (has_sig issued) (pms_secrets pre) = [] \<Longrightarrow> b1 = Suc b \<and> s1 = s"
    by (rule restore_step_Ok) blast
  have "\<not> has_sig issued p" if p: "p \<in> set (pms_secrets pre)" for p
    using restore_batch_members [OF pre(2) p] assms(3) Suc.prems(2) by fastforce
  then have "filter (has_sig issued) (pms_secrets pre) = []" by (simp add: filter_empty_conv)
  then have "b1 = Suc b" "s1 = s" using pre(3) by simp_all
  with Suc.hyps(1) [of b1] rest Suc.hyps(2) Suc.prems(2) pre(1) show ?case by simp
qed

lemma count_with_gap:
  assumes "\<forall>i < length xs. P (xs ! i) \<longrightarrow> i \<le> n" "j < n" "j < length xs \<Longrightarrow> \<not> P (xs ! j)"
  shows "length (filter P xs) \<le> n"
proof -
  have "{i. i < length xs \<and> P (xs ! i)} \<subseteq> {..n} - {j}" using assms by auto
  from card_mono [OF _ this] assms(2) show ?thesis by (simp add: length_filter_conv_card)
qed

lemma restored_counter:
  assumes "restores (wal_client w) issued sig_of" "wal_overflow_checks w"
    and "\<forall>c p. seed_premint (wal_externs w) (wal_derivation w) (wal_seed w) (info_id k) 0 c = Ok p \<and> has_sig issued p \<longrightarrow> unat c \<le> n"
    and "restore_loop w k keys (0, 0, v) s = Some (Ok v', s')" "n < 100"
    and "map_of (w_keysets (wst_db s)) (info_id k) = Some r"
  obtains pre r' where "restore_batch (wal_externs w) (wal_derivation w) (info_id k) (wal_seed w) 0 100 = Ok pre"
    "map_of (w_keysets (wst_db s')) (info_id k) = Some r'"
    "unat (kr_counter r') = unat (kr_counter r) + length (filter (has_sig issued) (pms_secrets pre))"
proof -
  from assms(4) obtain b1 lo1 v1 s1 where step: "restore_step w k keys (0, 0, v) s = Some (Ok (b1, lo1, v1), s1)"
    and rest: "restore_loop w k keys (b1, lo1, v1) s1 = Some (Ok v', s')"
    by (subst (asm) restore_loop.simps) (auto split: option.splits outcome.splits)
  from assms(1,2) step obtain pre where lo: "unat lo1 = unat (0 :: u32) + 100"
    and pre: "restore_batch (wal_externs w) (wal_derivation w) (info_id k) (wal_seed w) 0 lo1 = Ok pre"
    and none: "filter (has_sig issued) (pms_secrets pre) = [] \<Longrightarrow> b1 = Suc 0 \<and> s1 = s"
    and some: "filter (has_sig issued) (pms_secrets pre) \<noteq> [] \<Longrightarrow> \<exists>outputs sigs. length sigs = length (filter (has_sig issued) (pms_secrets pre))
       \<and> restore_found w k keys pre outputs sigs v s = Some (Ok v1, s1)"
    by (rule restore_step_Ok) blast
  have lo1: "lo1 = 100" using lo by (simp add: word_unat_eq_iff)
  have s': "s' = s1" by (rule restore_loop_past [OF assms(1-3) rest]) (use lo assms(5) in simp)
  have "length (pms_secrets pre) = 101" using pre by (auto simp: restore_batch_def lo1 dest!: try_map_length)
  then have "\<exists>r'. map_of (w_keysets (wst_db s')) (info_id k) = Some r'
      \<and> unat (kr_counter r') = unat (kr_counter r) + length (filter (has_sig issued) (pms_secrets pre))"
    using none some restore_found_counter [OF _ assms(2) _ assms(6)] assms(6)
    by (cases "filter (has_sig issued) (pms_secrets pre) = []") (fastforce simp: s')+
  then show thesis using that pre by (auto simp: lo1)
qed

lemma reserved_start:
  assumes "wal_overflow_checks w" "0 < needed" "reserve_counters w i needed s = Some (Ok start, s')"
    and "map_of (w_keysets (wst_db s)) i = Some r"
  shows "start = kr_counter r"
proof -
  from assms(1-3) obtain c db where inc: "wallet_increment_keyset_counter True i needed (wst_db s) = Ok (c, db)"
    and start: "start = c - needed"
    unfolding reserve_counters_def
    by (auto simp: w_then_Ok w_run_def w_give_def sub_unchecked_def split: outcome.splits prod.splits if_splits)
  from increment_Ok(2) [OF inc] assms(4) have "unat c = unat (kr_counter r) + unat needed" by simp
  then have "unat c = unat (kr_counter r + needed)" using unsigned_less [of c, where 'a = nat] by (simp add: unat_word_ariths)
  then have "c = kr_counter r + needed" by (simp add: word_unat_eq_iff)
  then show ?thesis by (simp add: start)
qed

text \<open>
  C38: Restoring leaves the counter of a keyset too low, so that used secrets are made again. Take a
  mint that gives the signatures of exactly the outputs it has signed, all of them among the first
  hundred of the seed, the last at the counter \<open>n\<close>, with an output before it that was not issued, and
  a wallet that has not used the keyset. When the restore of the keyset is done, the stored counter is
  at most \<open>n\<close>, and the outputs the wallet next makes from the counters it reserves, once they reach
  \<open>n\<close>, have the secret, the blinding factor and the blinded point of the output that was issued.
\<close>

theorem restored_counter_short:
  assumes mint: "restores (wal_client w) issued sig_of" and oc: "wal_overflow_checks w"
    and last: "\<forall>c p. seed_premint (wal_externs w) (wal_derivation w) (wal_seed w) (info_id k) 0 c = Ok p \<and> has_sig issued p \<longrightarrow> unat c \<le> n"
    and n: "n < 100" "seed_premint (wal_externs w) (wal_derivation w) (wal_seed w) (info_id k) 0 (of_nat n) = Ok used"
    and gap: "j < n" "seed_premint (wal_externs w) (wal_derivation w) (wal_seed w) (info_id k) 0 (of_nat j) = Ok skipped"
      "\<not> has_sig issued skipped"
    and row: "map_of (w_keysets (wst_db s)) (info_id k) = Some r" "kr_counter r = 0"
    and run: "restore_loop w k keys (0, 0, v) s = Some (Ok v', s')"
  shows "\<exists>r'. map_of (w_keysets (wst_db s')) (info_id k) = Some r' \<and> unat (kr_counter r') \<le> n
    \<and> (\<forall>needed start s1 a target fa p s2. 0 < needed \<and> reserve_counters w (info_id k) needed s' = Some (Ok start, s1)
         \<and> w_from_seed w (info_id k) start a target fa s1 = Some (Ok p, s2) \<and> n < unat start + length (pms_secrets p)
         \<longrightarrow> unat start \<le> n \<and> derived_parts (pms_secrets p ! (n - unat start)) = derived_parts used)"
proof -
  let ?e = "wal_externs w" and ?dv = "wal_derivation w" and ?i = "info_id k" and ?seed = "wal_seed w"
  from mint oc last run n(1) row(1) obtain pre r' where pre: "restore_batch ?e ?dv ?i ?seed 0 100 = Ok pre"
    and r': "map_of (w_keysets (wst_db s')) ?i = Some r'"
    and count: "unat (kr_counter r') = unat (kr_counter r) + length (filter (has_sig issued) (pms_secrets pre))"
    by (rule restored_counter)
  have at: "seed_premint ?e ?dv ?seed ?i 0 (of_nat x) = Ok (pms_secrets pre ! x)" if "x \<le> 100" for x
    using restore_batch_nth(2) [OF pre, of x] that by simp
  have "length (pms_secrets pre) = 101" using pre by (auto simp: restore_batch_def dest!: try_map_length)
  moreover have "x \<le> n" if "x \<le> 100" "has_sig issued (pms_secrets pre ! x)" for x
    using last at [OF that(1)] that by (fastforce simp: unat_of_nat)
  moreover have "pms_secrets pre ! j = skipped" using at [of j] gap n(1) by simp
  ultimately have "length (filter (has_sig issued) (pms_secrets pre)) \<le> n"
    using gap by (intro count_with_gap [of _ _ _ j]) auto
  then have le: "unat (kr_counter r') \<le> n" using count row(2) by simp
  have "unat start \<le> n \<and> derived_parts (pms_secrets p ! (n - unat start)) = derived_parts used"
    if "0 < needed" "reserve_counters w ?i needed s' = Some (Ok start, s1)"
      "w_from_seed w ?i start a target fa s1 = Some (Ok p, s2)" "n < unat start + length (pms_secrets p)" for needed start s1 a target fa p s2
  proof -
    have start: "start = kr_counter r'" by (rule reserved_start [OF oc that(1,2) r'])
    from that(3) oc obtain amts where ps: "seed_premints True ?e ?dv ?seed ?i start amts = Ok (pms_secrets p)"
      by (auto simp: w_from_seed_def w_may_def premints_from_seed_def Ok_map_err)
    have "n - unat start < length amts" using that(4) le start seed_premints_nth(1) [OF ps] by simp
    from seed_premints_nth(3) [OF ps this] le start
    have "seed_premint ?e ?dv ?seed ?i (amts ! (n - unat start)) (of_nat n) = Ok (pms_secrets p ! (n - unat start))" by simp
    from seed_premint_derived [OF this, of 0] n(2) le start show ?thesis by auto
  qed
  then show ?thesis using r' le by blast
qed

text \<open>A seed whose output at the counter 1 differs from all others, and a mint that has signed that one only.\<close>

definition gap_derivation :: derivation where
  "gap_derivation = \<lparr>dv_master = Some, dv_hd = \<lparr>hd_derive = (\<lambda>_ p. Some (if p ! 3 = 1 + 2 ^ 31 then [2] else [1])), hd_private_key = (\<lambda>x. x)\<rparr>,
     dv_hmac = (\<lambda>_ _. [])\<rparr>"

definition gap_key :: "u32 \<Rightarrow> SecretKey" where
  "gap_key c = (if c = 1 then [2] else [1])"

definition gap_premint :: "Amount \<Rightarrow> u32 \<Rightarrow> PreMint" where
  "gap_premint a c = \<lparr>pm_blinded_message = \<lparr>bm_amount = a, bm_keyset_id = example_id,
       blinded_secret = (if c = 1 then [2, 3] else [2, 2]), bm_witness = None\<rparr>,
     pm_secret = encode (gap_key c), pm_r = gap_key c, pm_amount = a\<rparr>"

definition gap_issued :: "BlindedMessage \<Rightarrow> bool" where
  "gap_issued b \<longleftrightarrow> blinded_secret b = [2, 3]"

definition gap_signature :: BlindSignature where
  "gap_signature = \<lparr>bs_amount = 8, bs_keyset_id = example_id, bs_c = [2, 3], bs_dleq = None\<rparr>"

definition gap_wallet :: "unit wallet" where
  "gap_wallet = pocket_wallet\<lparr>wal_derivation := gap_derivation, wal_client := pocket_client\<lparr>cl_restore := (\<lambda>msgs m.
     (Ok (filter gap_issued msgs, map (\<lambda>_. gap_signature) (filter gap_issued msgs)), m))\<rparr>\<rparr>"

definition gap_row :: "u32 \<Rightarrow> keyset_row" where
  "gap_row c = \<lparr>kr_mint_url = ''m'', kr_info = info_of example_id 0, kr_counter = c\<rparr>"

definition gap_db :: "u32 \<Rightarrow> unit wallet_state" where
  "gap_db c = \<lparr>wst_db = \<lparr>w_keysets = [(example_id, gap_row c)], w_keys = [(example_id, [(8, [2, 1])])], w_mint_quotes = [], w_melt_quotes = [],
     w_proofs = [], w_transactions = []\<rparr>, wst_mint = ()\<rparr>"

lemma gap_wallet_sel [simp]:
  "wal_externs gap_wallet = toy_externs" "wal_overflow_checks gap_wallet = True" "wal_derivation gap_wallet = gap_derivation"
  "wal_seed gap_wallet = [0]" "wal_mint_url gap_wallet = ''m''" "info_id (info_of i f) = i" "info_unit (info_of i f) = Sat"
  by (simp_all add: gap_wallet_def info_of_def)

lemma gap_db_mint [simp]: "(gap_db c)\<lparr>wst_mint := m\<rparr> = gap_db c"
  by (simp add: gap_db_def)

lemma gap_restores: "restores (wal_client gap_wallet) gap_issued (\<lambda>_. gap_signature)"
  by (simp add: restores_def gap_wallet_def)

lemma gap_seed:
  "seed_premint toy_externs gap_derivation [0] example_id a c = (if c < 2 ^ 31 then Ok (gap_premint a c) else Err N13_Bip32)"
proof -
  have "id_to_u32 example_id < 2 ^ 31" by code_simp
  then obtain path where path: "derive_path_from_keyset_id example_id = Ok path" "length path = 3"
    by (simp add: derive_path_from_keyset_id_def hardened_child_def word_less_nat_alt)
  have "(path @ [c + 2 ^ 31, which]) ! 3 = c + 2 ^ 31" for which using path(2) by (simp add: nth_append)
  then have "legacy_derive gap_derivation [0] example_id c which = (if c < 2 ^ 31 then Ok (gap_key c) else Err N13_Bip32)" for which
    by (simp add: legacy_derive_def path(1) hardened_child_def gap_derivation_def gap_key_def)
  then show ?thesis
    by (simp add: seed_premint_def secret_from_seed_def sk_from_seed_def example_id_def premint_def
        blind_message_def hash_to_curve_def hash_to_curve_from.simps toy_defs gap_premint_def gap_key_def)
qed

lemma gap_batch:
  assumes "unat hi < 2 ^ 31"
  shows "restore_batch toy_externs gap_derivation example_id [0] lo hi
    = Ok \<lparr>pms_secrets = map (\<lambda>n. gap_premint 0 (of_nat n)) [unat lo ..< Suc (unat hi)], pms_keyset_id = example_id\<rparr>"
proof -
  have "of_nat n < (2 ^ 31 :: u32)" if "n \<le> unat hi" for n
    using that assms by (simp add: word_less_nat_alt unat_of_nat)
  then have "try_map (\<lambda>n. seed_premint toy_externs gap_derivation [0] example_id 0 (of_nat n)) [unat lo ..< Suc (unat hi)]
      = Ok (map (\<lambda>n. gap_premint 0 (of_nat n)) [unat lo ..< Suc (unat hi)])"
    by (intro try_map_total) (simp add: gap_seed del: upt_Suc)
  then show ?thesis unfolding restore_batch_def by simp
qed

lemma gap_message: "has_sig gap_issued (gap_premint a c) \<longleftrightarrow> c = 1"
  by (simp add: gap_issued_def gap_premint_def)

lemma gap_found:
  fixes lo hi :: u32
  assumes "unat hi < 2 ^ 31"
  shows "filter (has_sig gap_issued) (map (\<lambda>n. gap_premint 0 (of_nat n)) [unat lo ..< Suc (unat hi)])
    = (if unat lo \<le> 1 \<and> 1 \<le> unat hi then [gap_premint 0 1] else [])"
proof -
  have one: "(of_nat n :: u32) = 1 \<longleftrightarrow> n = 1" if "n \<le> unat hi" for n
    using that assms by (simp add: word_unat_eq_iff unat_of_nat)
  have "filter (\<lambda>n. n = (1 :: nat)) [l ..< h] = (if l \<le> 1 \<and> 1 < h then [1] else [])" for l h
    by (induction h) auto
  moreover have "filter (\<lambda>n. has_sig gap_issued (gap_premint 0 (of_nat n))) [unat lo ..< Suc (unat hi)] = filter (\<lambda>n. n = 1) [unat lo ..< Suc (unat hi)]"
    by (rule filter_cong) (auto simp: gap_message one simp del: upt_Suc)
  ultimately show ?thesis by (auto simp: filter_map comp_def simp del: upt_Suc)
qed

lemma gap_messages: "filter gap_issued (premint_messages pre) = map pm_blinded_message (filter (has_sig gap_issued) (pms_secrets pre))"
  by (simp add: premint_messages_def filter_map comp_def)

lemma gap_step_empty:
  assumes "1 < unat lo" "unat lo + 100 < 2 ^ 31"
  shows "restore_step gap_wallet (info_of example_id 0) keys (b, lo, v) s = Some (Ok (Suc b, lo + 100, v), s)"
proof -
  have hi: "unat (lo + 100) = unat lo + 100" using assms(2) by (simp add: unat_word_ariths)
  have "add_unchecked True lo 100 = (Ok (lo + 100) :: (wallet_error, u32) outcome)"
    using assms(2) by (simp add: add_unchecked_def checked_add_def)
  then show ?thesis
    using gap_found [of "lo + 100" lo] gap_batch [of "lo + 100" lo] assms hi
    by (simp add: restore_step_def w_then_def w_give_def w_ask_def gap_messages gap_wallet_def del: upt_Suc)
qed

lemma gap_restored:
  "\<exists>s'. restore_step gap_wallet (info_of example_id 0) [(8, [2, 1])] (0, 0, 0) (gap_db 0) = Some (Ok (0, 100, 8), s')"
proof -
  define pre where "pre = \<lparr>pms_secrets = map (\<lambda>n. gap_premint 0 (of_nat n)) [unat (0 :: u32) ..< Suc (unat (100 :: u32))], pms_keyset_id = example_id\<rparr>"
  let ?post = "\<lparr>amount = 8, keyset_id = example_id, secret = encode [2], proof_c = [2, 1], witness = None, dleq = None\<rparr>"
  let ?msg = "pm_blinded_message (gap_premint 0 1)"
  have pre: "restore_batch toy_externs gap_derivation example_id [0] 0 100 = Ok pre" unfolding pre_def by (rule gap_batch) simp
  have one: "filter (has_sig gap_issued) (pms_secrets pre) = [gap_premint 0 1]"
    using gap_found [of 100 0] by (simp add: pre_def del: upt_Suc)
  have msgs: "filter gap_issued (premint_messages pre) = [?msg]"
    using one unfolding gap_messages by simp
  have "pm_blinded_message p \<in> set [?msg] \<longleftrightarrow> has_sig gap_issued p" if "p \<in> set (pms_secrets pre)" for p
    using that by (auto simp: pre_def gap_premint_def gap_issued_def split: if_splits simp del: upt_Suc)
  then have "found_outputs pre [?msg] = filter (has_sig gap_issued) (pms_secrets pre)"
    unfolding found_outputs_def by (rule filter_cong [OF refl])
  then have found: "found_outputs pre [?msg] = [gap_premint 0 1]" using one by simp
  have post: "construct_proofs toy_externs [gap_signature] [pm_r (gap_premint 0 1)] [pm_secret (gap_premint 0 1)] [(8, [2, 1])] = Ok [?post]"
    by (simp add: construct_proofs_def construct_proof_def unblind_message_def toy_defs gap_signature_def gap_premint_def gap_key_def)
  have y: "proof_y toy_externs ?post = Ok [2, 1]"
    by (simp add: proof_y_def hash_to_curve_def hash_to_curve_from.simps toy_defs)
  have info: "\<exists>i. proof_info_new toy_externs ?post ''m'' Unspent Sat = Ok i"
    using y by (simp add: proof_info_new_def sc_try_from_secret_def nut10_try_from_def toy_defs)
  have inc: "w_run (wallet_increment_keyset_counter True example_id 1) (gap_db 0) = Some (Ok 1, gap_db 1)"
    by (simp add: w_run_def wallet_increment_keyset_counter_def gap_db_def gap_row_def add_unchecked_def checked_add_def update_where_def)
  have chk: "\<exists>s'. check_proofs_spent gap_wallet [?post] (gap_db 1) = Some (Ok [([2, 1], Unspent)], s')"
    using y by (simp add: check_proofs_spent_def wallet_ys_def proof_ys_def w_step_defs pocket_client_def gap_wallet_def)
  have total: "wallet_total [?post] s = Some (Ok 8, s)" for s :: "unit wallet_state"
    by (simp add: wallet_total_def total_amount_def w_step_defs try_sum_def checked_add_def)
  have "\<exists>s'. restore_found gap_wallet (info_of example_id 0) [(8, [2, 1])] pre [?msg] [gap_signature] 0 (gap_db 0) = Some (Ok 8, s')"
    using info chk
    by (auto simp: restore_found_def Let_def found post inc total w_then_step w_give_def w_pure_def w_write_def amount_add_def checked_add_def)
  then show ?thesis
    using pre msgs
    by (auto simp: restore_step_def w_then_def w_give_def w_ask_def add_unchecked_def checked_add_def
        gap_restores [unfolded restores_def, rule_format])
qed

lemma gap_loop: "\<exists>s'. restore_loop gap_wallet (info_of example_id 0) [(8, [2, 1])] (0, 0, 0) (gap_db 0) = Some (Ok 8, s')"
proof -
  obtain s' where first: "restore_step gap_wallet (info_of example_id 0) [(8, [2, 1])] (0, 0, 0) (gap_db 0) = Some (Ok (0, 100, 8), s')"
    using gap_restored by blast
  have rest: "restore_step gap_wallet (info_of example_id 0) [(8, [2, 1])] (0, 100, 8) s' = Some (Ok (1, 200, 8), s')"
    "restore_step gap_wallet (info_of example_id 0) [(8, [2, 1])] (1, 200, 8) s' = Some (Ok (2, 300, 8), s')"
    "restore_step gap_wallet (info_of example_id 0) [(8, [2, 1])] (2, 300, 8) s' = Some (Ok (3, 400, 8), s')"
    using gap_step_empty [of 100] gap_step_empty [of 200] gap_step_empty [of 300] by (simp_all add: numeral_3_eq_3)
  have "restore_loop gap_wallet (info_of example_id 0) [(8, [2, 1])] (3, 400, 8) s' = Some (Ok 8, s')"
    by (subst restore_loop.simps) simp
  then have "restore_loop gap_wallet (info_of example_id 0) [(8, [2, 1])] (2, 300, 8) s' = Some (Ok 8, s')"
    by (subst restore_loop.simps) (simp add: rest del: One_nat_def)
  then have "restore_loop gap_wallet (info_of example_id 0) [(8, [2, 1])] (1, 200, 8) s' = Some (Ok 8, s')"
    by (subst restore_loop.simps) (simp add: rest del: One_nat_def)
  then have "restore_loop gap_wallet (info_of example_id 0) [(8, [2, 1])] (0, 100, 8) s' = Some (Ok 8, s')"
    by (subst restore_loop.simps) (simp add: rest del: One_nat_def)
  then show ?thesis by (subst restore_loop.simps) (simp add: first)
qed

lemma gap_next:
  assumes "unat c \<le> 1"
  shows "\<exists>p. w_from_seed gap_wallet example_id c 3 NoTarget \<lparr>fee = 0, amounts = [1, 2]\<rparr> s = Some (Ok p, s) \<and> length (pms_secrets p) = 2"
proof -
  have "split_targeted 3 NoTarget \<lparr>fee = 0, amounts = [1, 2]\<rparr> = Some (Ok [1, 2])"
    by (simp add: split_targeted_def amount_split_def split_step_def word_le_nat_alt)
  moreover have "c = 0 \<or> c = 1" using assms by (auto simp: word_unat_eq_iff)
  ultimately show ?thesis
    by (auto simp: w_from_seed_def w_may_def premints_from_seed_def gap_seed add_unchecked_def checked_add_def)
qed

theorem restored_counter_short_witness:
  "\<exists>s' start s1 p s2. restore_loop gap_wallet (info_of example_id 0) [(8, [2, 1])] (0, 0, 0) (gap_db 0) = Some (Ok 8, s')
    \<and> reserve_counters gap_wallet example_id 2 s' = Some (Ok start, s1)
    \<and> w_from_seed gap_wallet example_id start 3 NoTarget \<lparr>fee = 0, amounts = [1, 2]\<rparr> s1 = Some (Ok p, s2)
    \<and> unat start \<le> 1 \<and> derived_parts (pms_secrets p ! (1 - unat start)) = derived_parts (gap_premint 0 1)"
proof -
  obtain s' where run: "restore_loop gap_wallet (info_of example_id 0) [(8, [2, 1])] (0, 0, 0) (gap_db 0) = Some (Ok 8, s')"
    using gap_loop by blast
  have last: "\<forall>c p. seed_premint (wal_externs gap_wallet) (wal_derivation gap_wallet) (wal_seed gap_wallet) (info_id (info_of example_id 0)) 0 c
      = Ok p \<and> has_sig gap_issued p \<longrightarrow> unat c \<le> 1"
    by (auto simp: gap_seed gap_message split: if_splits)
  have row: "map_of (w_keysets (wst_db (gap_db 0))) (info_id (info_of example_id 0)) = Some (gap_row 0)" "kr_counter (gap_row 0) = 0"
    by (simp_all add: gap_db_def gap_row_def)
  from restored_counter_short [OF gap_restores _ last _ _ _ _ _ row run, of "gap_premint 0 1" 0 "gap_premint 0 0"] obtain r' where
    r': "map_of (w_keysets (wst_db s')) example_id = Some r'" "unat (kr_counter r') \<le> 1"
    and again: "\<forall>needed start s1 a target fa p s2. 0 < needed \<and> reserve_counters gap_wallet example_id needed s' = Some (Ok start, s1)
       \<and> w_from_seed gap_wallet example_id start a target fa s1 = Some (Ok p, s2) \<and> 1 < unat start + length (pms_secrets p)
       \<longrightarrow> unat start \<le> 1 \<and> derived_parts (pms_secrets p ! (1 - unat start)) = derived_parts (gap_premint 0 1)"
    by (auto simp: gap_seed gap_message)
  from r' obtain s1 where reserve: "reserve_counters gap_wallet example_id 2 s' = Some (Ok (kr_counter r'), s1)"
    by (auto simp: reserve_counters_def w_then_def w_run_def w_give_def wallet_increment_keyset_counter_def add_unchecked_def
        checked_add_def sub_unchecked_def word_less_nat_alt unat_word_ariths Let_def)
  obtain p where p: "w_from_seed gap_wallet example_id (kr_counter r') 3 NoTarget \<lparr>fee = 0, amounts = [1, 2]\<rparr> s1 = Some (Ok p, s1)"
    "length (pms_secrets p) = 2" using gap_next [OF r'(2)] by blast
  then show ?thesis using run reserve again [rule_format, of 2 "kr_counter r'" s1 3 NoTarget _ p s1] by auto
qed

end
