(* ===== verification/MintUrls.thy ===== *)
theory MintUrls
  imports Hex
begin

text \<open>
  Addresses of mints (\<^verbatim>\<open>crates/cashu/src/mint_url.rs\<close>): the normal form in which two spellings of an
  address compare equal. Case is mapped for ASCII characters.
\<close>

datatype mint_url_error = UrlParse | InvalidUrl

section \<open>Splitting and joining text\<close>

text \<open>\<open>str::split\<close> with the pattern \<open>://\<close> and with a character.\<close>

fun add_to_head :: "char \<Rightarrow> string list \<Rightarrow> string list" where
  "add_to_head c [] = [[c]]"
| "add_to_head c (p # ps) = (c # p) # ps"

fun split_scheme :: "string \<Rightarrow> string list" where
  "split_scheme [] = [[]]"
| "split_scheme (c # s) =
     (if c = CHR '':'' \<and> take 2 s = ''//'' then [] # split_scheme (drop 2 s) else add_to_head c (split_scheme s))"

fun split_on :: "char \<Rightarrow> string \<Rightarrow> string list" where
  "split_on d [] = [[]]"
| "split_on d (c # s) = (if c = d then [] # split_on d s else add_to_head c (split_on d s))"

fun join_with :: "string \<Rightarrow> string list \<Rightarrow> string" where
  "join_with sep [] = []"
| "join_with sep [p] = p"
| "join_with sep (p # ps) = p @ sep @ join_with sep ps"

definition trim_end_slashes :: "string \<Rightarrow> string" where
  "trim_end_slashes s = rev (dropWhile (\<lambda>c. c = CHR ''/'') (rev s))"

section \<open>Addresses\<close>

definition format_url :: "string \<Rightarrow> (mint_url_error, string) outcome" where
  "format_url url =
     and_then (ensure (url \<noteq> []) InvalidUrl) (\<lambda>_.
     case split_scheme (trim_end_slashes url) of
       scheme # rest # _ \<Rightarrow>
         (case split_on (CHR ''/'') rest of
            host # segments \<Rightarrow>
              (let path = join_with ''/'' segments in
               Ok (to_lowercase scheme @ ''://'' @ to_lowercase host @ (if path = [] then [] else ''/'' @ path)))
          | [] \<Rightarrow> Err InvalidUrl)
     | _ \<Rightarrow> Err InvalidUrl)"

definition mint_url_from_str :: "string \<Rightarrow> (mint_url_error, string) outcome" where
  "mint_url_from_str url = (case format_url url of Ok u \<Rightarrow> Ok u | Err _ \<Rightarrow> Err InvalidUrl | Panic \<Rightarrow> Panic)"

text \<open>The text under which the checker stores the wallet of a mint.\<close>

definition storage_key_of :: "string \<Rightarrow> string" where
  "storage_key_of url = ''wallet_'' @ join_with ''_'' (split_on (CHR ''/'') (join_with ''_'' (split_scheme url)))"

section \<open>Normal form\<close>

lemma split_on_nonempty: "split_on d s \<noteq> []"
  by (cases s) (auto elim: add_to_head.elims)

lemma add_to_head_not_Nil [simp]: "add_to_head c ps \<noteq> []"
  by (cases ps) simp_all

lemma split_scheme_nonempty [simp]: "split_scheme s \<noteq> []"
  by (cases s) auto

lemma join_add_to_head: "ps \<noteq> [] \<Longrightarrow> join_with sep (add_to_head c ps) = c # join_with sep ps"
  by (cases ps; cases "tl ps") auto

lemma join_Nil_head: "ps \<noteq> [] \<Longrightarrow> join_with sep ([] # ps) = sep @ join_with sep ps"
  by (cases ps) simp_all

lemma join_split_on: "join_with [d] (split_on d s) = s"
  by (induction s) (auto simp: join_add_to_head join_Nil_head split_on_nonempty)

lemma split_on_no_sep: "p \<in> set (split_on d s) \<Longrightarrow> d \<notin> set p"
proof (induction s arbitrary: p)
  case (Cons c s)
  then show ?case by (cases "split_on d s") (auto split: if_splits)
qed simp

end
