(* ===== verification/CheckerStore.thy ===== *)
theory CheckerStore
  imports WalletDb
begin

text \<open>
  The wallet store of the checker (\<^verbatim>\<open>web/nut-10-checker/src/wallet_db.rs\<close>): a state in memory that is
  written to the browser's local storage as one text after every change. The storage and the derived
  serialisation are third-party: \<open>to_json\<close> and \<open>of_json\<close> are parameters with the law that a written
  state is read back, and any single write may fail. A hash map is the list of its entries.
\<close>

section \<open>State and storage\<close>

record 'i WalletState =
  ws_mints :: "(MintUrl \<times> 'i option) list"
  ws_keysets :: "(MintUrl \<times> KeySetInfo list) list"
  ws_keyset_map :: "(Id \<times> KeySetInfo) list"
  ws_mint_quotes :: "(string \<times> WalletMintQuote) list"
  ws_melt_quotes :: "(string \<times> WalletMeltQuote) list"
  ws_keys :: "(Id \<times> Keys) list"
  ws_proofs :: "ProofInfo list"
  ws_keyset_counters :: "(Id \<times> u32) list"
  ws_transactions :: "Transaction list"

definition wallet_state_default :: "'i WalletState" where
  "wallet_state_default = \<lparr>ws_mints = [], ws_keysets = [], ws_keyset_map = [], ws_mint_quotes = [], ws_melt_quotes = [],
     ws_keys = [], ws_proofs = [], ws_keyset_counters = [], ws_transactions = []\<rparr>"

text \<open>The browser: which writes fail, by the key and the text to be written, and the serialiser.\<close>

record 'i browser =
  br_write_fails :: "string \<Rightarrow> string \<Rightarrow> bool"
  br_to_json :: "'i WalletState \<Rightarrow> string"
  br_of_json :: "string \<Rightarrow> 'i WalletState option"

record 'i LocalStorageWalletDatabase =
  ls_state :: "'i WalletState"
  ls_storage_key :: string
  ls_storage :: "string \<Rightarrow> string option"

definition save_snapshot ::
  "'i browser \<Rightarrow> 'i LocalStorageWalletDatabase \<Rightarrow> (db_error, unit) outcome \<times> 'i LocalStorageWalletDatabase" where
  "save_snapshot br db =
     (let json = br_to_json br (ls_state db) in
      if br_write_fails br (ls_storage_key db) json then (Err DbDatabase, db)
      else (Ok (), db\<lparr>ls_storage := (ls_storage db)(ls_storage_key db \<mapsto> json)\<rparr>))"

definition load_from_localstorage :: "'i browser \<Rightarrow> string \<Rightarrow> (string \<Rightarrow> string option) \<Rightarrow> 'i WalletState option" where
  "load_from_localstorage br key storage = Option.bind (storage key) (br_of_json br)"

definition local_new ::
  "'i browser \<Rightarrow> string \<Rightarrow> (string \<Rightarrow> string option) \<Rightarrow> (db_error, unit) outcome \<times> 'i LocalStorageWalletDatabase" where
  "local_new br key storage =
     save_snapshot br \<lparr>ls_state = (case load_from_localstorage br key storage of Some s \<Rightarrow> s | None \<Rightarrow> wallet_state_default),
       ls_storage_key = key, ls_storage = storage\<rparr>"

text \<open>Every operation changes the state in memory and then writes the snapshot.\<close>

type_synonym ('i, 'a) local_op =
  "'i LocalStorageWalletDatabase \<Rightarrow> (db_error, 'a) outcome \<times> 'i LocalStorageWalletDatabase"

definition and_save :: "'i browser \<Rightarrow> ('i WalletState \<Rightarrow> 'i WalletState) \<Rightarrow> ('i, unit) local_op" where
  "and_save br f db = save_snapshot br (db\<lparr>ls_state := f (ls_state db)\<rparr>)"

section \<open>Mints and keysets\<close>

definition local_add_mint :: "'i browser \<Rightarrow> MintUrl \<Rightarrow> 'i option \<Rightarrow> ('i, unit) local_op" where
  "local_add_mint br url info = and_save br (\<lambda>s. s\<lparr>ws_mints := upsert replace_row url info (ws_mints s)\<rparr>)"

definition local_remove_mint :: "'i browser \<Rightarrow> MintUrl \<Rightarrow> ('i, unit) local_op" where
  "local_remove_mint br url = and_save br (\<lambda>s. s\<lparr>ws_mints := delete_where (\<lambda>u _. u = url) (ws_mints s)\<rparr>)"

definition local_get_mint :: "MintUrl \<Rightarrow> 'i WalletState \<Rightarrow> 'i option" where
  "local_get_mint url s = Option.bind (map_of (ws_mints s) url) id"

definition local_update_mint_url :: "'i browser \<Rightarrow> MintUrl \<Rightarrow> MintUrl \<Rightarrow> ('i, unit) local_op" where
  "local_update_mint_url br old new = and_save br (\<lambda>s.
     case map_of (ws_mints s) old of
       Some info \<Rightarrow> s\<lparr>ws_mints := upsert replace_row new info (delete_where (\<lambda>u _. u = old) (ws_mints s))\<rparr>
     | None \<Rightarrow> s)"

definition local_add_mint_keysets :: "'i browser \<Rightarrow> MintUrl \<Rightarrow> KeySetInfo list \<Rightarrow> ('i, unit) local_op" where
  "local_add_mint_keysets br url ks = and_save br (\<lambda>s.
     s\<lparr>ws_keysets := upsert replace_row url ks (ws_keysets s),
       ws_keyset_map := fold (\<lambda>k. upsert replace_row (info_id k) k) ks (ws_keyset_map s)\<rparr>)"

definition local_get_mint_keysets :: "MintUrl \<Rightarrow> 'i WalletState \<Rightarrow> KeySetInfo list option" where
  "local_get_mint_keysets url s = map_of (ws_keysets s) url"

definition local_get_keyset_by_id :: "Id \<Rightarrow> 'i WalletState \<Rightarrow> KeySetInfo option" where
  "local_get_keyset_by_id i s = map_of (ws_keyset_map s) i"

definition local_add_keys :: "'i browser \<Rightarrow> KeySet \<Rightarrow> ('i, unit) local_op" where
  "local_add_keys br ks = and_save br (\<lambda>s. s\<lparr>ws_keys := upsert replace_row (ks_id ks) (ks_keys ks) (ws_keys s)\<rparr>)"

definition local_get_keys :: "Id \<Rightarrow> 'i WalletState \<Rightarrow> Keys option" where
  "local_get_keys i s = map_of (ws_keys s) i"

definition local_remove_keys :: "'i browser \<Rightarrow> Id \<Rightarrow> ('i, unit) local_op" where
  "local_remove_keys br i = and_save br (\<lambda>s. s\<lparr>ws_keys := delete_where (\<lambda>j _. j = i) (ws_keys s)\<rparr>)"

definition local_increment_keyset_counter :: "bool \<Rightarrow> 'i browser \<Rightarrow> Id \<Rightarrow> u32 \<Rightarrow> ('i, u32) local_op" where
  "local_increment_keyset_counter overflow_checks br i n db =
     (let current = (case map_of (ws_keyset_counters (ls_state db)) i of Some c \<Rightarrow> c | None \<Rightarrow> 0) in
      case add_unchecked overflow_checks current n of
        Ok new \<Rightarrow>
          (case and_save br (\<lambda>s. s\<lparr>ws_keyset_counters := upsert replace_row i new (ws_keyset_counters s)\<rparr>) db of
             (Ok _, db') \<Rightarrow> (Ok new, db') | (Err x, db') \<Rightarrow> (Err x, db') | (Panic, db') \<Rightarrow> (Panic, db'))
      | Err x \<Rightarrow> (Err x, db)
      | Panic \<Rightarrow> (Panic, db))"

section \<open>Quotes and transactions\<close>

definition local_add_mint_quote :: "'i browser \<Rightarrow> WalletMintQuote \<Rightarrow> ('i, unit) local_op" where
  "local_add_mint_quote br q = and_save br (\<lambda>s. s\<lparr>ws_mint_quotes := upsert replace_row (wmq_id q) q (ws_mint_quotes s)\<rparr>)"

definition local_get_mint_quote :: "string \<Rightarrow> 'i WalletState \<Rightarrow> WalletMintQuote option" where
  "local_get_mint_quote i s = map_of (ws_mint_quotes s) i"

definition local_get_mint_quotes :: "'i WalletState \<Rightarrow> WalletMintQuote list" where
  "local_get_mint_quotes s = map snd (ws_mint_quotes s)"

definition local_remove_mint_quote :: "'i browser \<Rightarrow> string \<Rightarrow> ('i, unit) local_op" where
  "local_remove_mint_quote br i = and_save br (\<lambda>s. s\<lparr>ws_mint_quotes := delete_where (\<lambda>j _. j = i) (ws_mint_quotes s)\<rparr>)"

definition local_add_melt_quote :: "'i browser \<Rightarrow> WalletMeltQuote \<Rightarrow> ('i, unit) local_op" where
  "local_add_melt_quote br q = and_save br (\<lambda>s. s\<lparr>ws_melt_quotes := upsert replace_row (wml_id q) q (ws_melt_quotes s)\<rparr>)"

definition local_get_melt_quote :: "string \<Rightarrow> 'i WalletState \<Rightarrow> WalletMeltQuote option" where
  "local_get_melt_quote i s = map_of (ws_melt_quotes s) i"

definition local_get_melt_quotes :: "'i WalletState \<Rightarrow> WalletMeltQuote list" where
  "local_get_melt_quotes s = map snd (ws_melt_quotes s)"

definition local_remove_melt_quote :: "'i browser \<Rightarrow> string \<Rightarrow> ('i, unit) local_op" where
  "local_remove_melt_quote br i = and_save br (\<lambda>s. s\<lparr>ws_melt_quotes := delete_where (\<lambda>j _. j = i) (ws_melt_quotes s)\<rparr>)"

definition local_add_transaction :: "'i browser \<Rightarrow> Transaction \<Rightarrow> ('i, unit) local_op" where
  "local_add_transaction br t = and_save br (\<lambda>s. s\<lparr>ws_transactions := ws_transactions s @ [t]\<rparr>)"

definition local_get_transaction :: "externs \<Rightarrow> bytes \<Rightarrow> 'i WalletState \<Rightarrow> Transaction option" where
  "local_get_transaction e i s = List.find (\<lambda>t. transaction_id_new e (txn_ys t) = i) (ws_transactions s)"

definition local_list_transactions ::
  "MintUrl option \<Rightarrow> TransactionDirection option \<Rightarrow> CurrencyUnit option \<Rightarrow> 'i WalletState \<Rightarrow> Transaction list" where
  "local_list_transactions url dir u s = filter (transaction_matches url dir u) (ws_transactions s)"

definition local_remove_transaction :: "externs \<Rightarrow> 'i browser \<Rightarrow> bytes \<Rightarrow> ('i, unit) local_op" where
  "local_remove_transaction e br i = and_save br (\<lambda>s.
     s\<lparr>ws_transactions := filter (\<lambda>t. transaction_id_new e (txn_ys t) \<noteq> i) (ws_transactions s)\<rparr>)"

section \<open>Proofs\<close>

definition local_set_proofs :: "ProofInfo list \<Rightarrow> PublicKey list \<Rightarrow> 'i WalletState \<Rightarrow> 'i WalletState" where
  "local_set_proofs added removed_ys s = s\<lparr>ws_proofs := filter (\<lambda>p. pi_y p \<notin> set removed_ys) (ws_proofs s) @ added\<rparr>"

definition local_update_proofs :: "'i browser \<Rightarrow> ProofInfo list \<Rightarrow> PublicKey list \<Rightarrow> ('i, unit) local_op" where
  "local_update_proofs br added removed_ys = and_save br (local_set_proofs added removed_ys)"

definition local_matches ::
  "MintUrl option \<Rightarrow> CurrencyUnit option \<Rightarrow> State list option \<Rightarrow> SpendingConditions list option \<Rightarrow> ProofInfo \<Rightarrow> bool" where
  "local_matches url u sts conds p \<longleftrightarrow>
     (case url of Some x \<Rightarrow> pi_mint_url p = x | None \<Rightarrow> True)
     \<and> (case u of Some x \<Rightarrow> pi_unit p = x | None \<Rightarrow> True)
     \<and> (case sts of Some xs \<Rightarrow> pi_state p \<in> set xs | None \<Rightarrow> True)
     \<and> (case conds of
          Some cs \<Rightarrow> (case pi_spending_condition p of Some c \<Rightarrow> c \<in> set cs | None \<Rightarrow> False) \<or> pi_spending_condition p = None
        | None \<Rightarrow> True)"

definition local_get_proofs ::
  "MintUrl option \<Rightarrow> CurrencyUnit option \<Rightarrow> State list option \<Rightarrow> SpendingConditions list option \<Rightarrow> 'i WalletState
     \<Rightarrow> ProofInfo list" where
  "local_get_proofs url u sts conds s = filter (local_matches url u sts conds) (ws_proofs s)"

definition local_set_states :: "PublicKey list \<Rightarrow> State \<Rightarrow> 'i WalletState \<Rightarrow> 'i WalletState" where
  "local_set_states yl st s = s\<lparr>ws_proofs := map (\<lambda>p. if pi_y p \<in> set yl then p\<lparr>pi_state := st\<rparr> else p) (ws_proofs s)\<rparr>"

definition local_update_proofs_state :: "'i browser \<Rightarrow> PublicKey list \<Rightarrow> State \<Rightarrow> ('i, unit) local_op" where
  "local_update_proofs_state br yl st = and_save br (local_set_states yl st)"

text \<open>\<open>Iterator::sum\<close> on \<open>u64\<close>: an unchecked sum that panics or wraps.\<close>

definition sum_u64 :: "bool \<Rightarrow> u64 list \<Rightarrow> ('e, u64) outcome" where
  "sum_u64 overflow_checks xs =
     (if overflow_checks \<and> 2 ^ 64 \<le> total xs then Panic else Ok (of_nat (total xs)))"

definition local_get_balance ::
  "bool \<Rightarrow> MintUrl option \<Rightarrow> CurrencyUnit option \<Rightarrow> State list option \<Rightarrow> 'i WalletState \<Rightarrow> (db_error, u64) outcome" where
  "local_get_balance overflow_checks url u sts s =
     sum_u64 overflow_checks (map (amount \<circ> pi_proof) (local_get_proofs url u sts None s))"

interpretation local_store: wallet_store "\<lambda>_. True" ws_proofs local_set_proofs local_set_states
  by unfold_locales (simp_all add: local_set_proofs_def local_set_states_def)

end
