(* ===== verification/Checker.thy ===== *)
theory Checker
  imports CheckerStore MintUrls MintQuery
begin

text \<open>
  The checker (\<^verbatim>\<open>web/nut-10-checker/src/lib.rs\<close>, \<^verbatim>\<open>lib_helpers.rs\<close>, \<^verbatim>\<open>test_context.rs\<close>): a client that locks
  tokens of a mint to keys, spends them again and compares what the mint accepts with what it should.
  A call of the page is a function on a session, which is the store of the wallet with the browser's
  storage and the mint behind a connector. Values that cross between the page and the program are the
  converted ones. Random secrets, nonces and blinding factors are given by the position of the output.
  Messages to the console are left out.
\<close>

section \<open>Sessions\<close>

datatype js_error =
    JsInvalidUrl
  | JsInvalidSeed
  | JsStore db_error
  | JsKeysets Error
  | JsNoActiveKeyset
  | JsKeys Error
  | JsKeysetMissing
  | JsPubkey nut01_error
  | JsSecretKey
  | JsConditions nut11_error
  | JsInsufficient u64 u64
  | JsDenominations u64 "u64 list"
  | JsBlind dhke_error
  | JsSwap Error
  | JsConstruct dhke_error
  | JsProofInfo Error
  | JsSign nut11_error
  | JsY dhke_error
  | JsCheck Error

text \<open>What the checker asks of a mint. The mint may change its state at every call.\<close>

record 'm connector =
  mc_keysets :: "'m \<Rightarrow> (Error, KeySetInfo list) outcome \<times> 'm"
  mc_keys :: "'m \<Rightarrow> (Error, KeySet list) outcome \<times> 'm"
  mc_swap :: "SwapRequest \<Rightarrow> 'm \<Rightarrow> (Error, BlindSignature list) outcome \<times> 'm"
  mc_check :: "PublicKey list \<Rightarrow> 'm \<Rightarrow> (Error, ProofState list) outcome \<times> 'm"

record ('i, 'm) checker =
  ck_externs :: externs
  ck_overflow_checks :: bool
  ck_browser :: "'i browser"
  ck_mint :: "'m connector"
  ck_mnemonic_ok :: "string \<Rightarrow> bool"
  ck_sk_from_str :: "string \<Rightarrow> SecretKey option"
  ck_write_secret :: "Nut10Secret \<Rightarrow> string"
  ck_rand_secret :: "nat \<Rightarrow> string"
  ck_rand_nonce :: "nat \<Rightarrow> string"
  ck_rand_factor :: "nat \<Rightarrow> SecretKey"

record ('i, 'm) session =
  ses_db :: "'i LocalStorageWalletDatabase"
  ses_mint :: 'm

type_synonym ('i, 'm, 'e, 'a) step = "('i, 'm) session \<Rightarrow> ('e, 'a) outcome \<times> ('i, 'm) session"

definition and_do :: "('i, 'm, 'e, 'a) step \<Rightarrow> ('a \<Rightarrow> ('i, 'm, 'e, 'b) step) \<Rightarrow> ('i, 'm, 'e, 'b) step" where
  "and_do f g s = (case f s of (Ok a, s') \<Rightarrow> g a s' | (Err x, s') \<Rightarrow> (Err x, s') | (Panic, s') \<Rightarrow> (Panic, s'))"

definition give :: "('e, 'a) outcome \<Rightarrow> ('i, 'm, 'e, 'a) step" where
  "give m s = (m, s)"

definition on_store :: "(db_error \<Rightarrow> 'e) \<Rightarrow> ('i, 'a) local_op \<Rightarrow> ('i, 'm, 'e, 'a) step" where
  "on_store h f s = (let (r, db) = f (ses_db s) in (map_err h r, s\<lparr>ses_db := db\<rparr>))"

definition on_mint :: "(Error \<Rightarrow> 'e) \<Rightarrow> ('m \<Rightarrow> (Error, 'a) outcome \<times> 'm) \<Rightarrow> ('i, 'm, 'e, 'a) step" where
  "on_mint h f s = (let (r, m) = f (ses_mint s) in (map_err h r, s\<lparr>ses_mint := m\<rparr>))"

definition read_store :: "('i WalletState \<Rightarrow> 'a) \<Rightarrow> ('i, 'm, 'e, 'a) step" where
  "read_store f s = (Ok (f (ls_state (ses_db s))), s)"

text \<open>Every call opens the store of the mint anew from the storage; building a wallet from given parts does not fail.\<close>

definition parse_url :: "string \<Rightarrow> (js_error, MintUrl) outcome" where
  "parse_url mint_url = map_err (\<lambda>_. JsInvalidUrl) (mint_url_from_str mint_url)"

definition open_store :: "('i, 'm) checker \<Rightarrow> MintUrl \<Rightarrow> ('i, 'm, js_error, unit) step" where
  "open_store ck url = on_store JsStore (\<lambda>db. local_new (ck_browser ck) (storage_key_of url) (ls_storage db))"

definition open_wallet :: "('i, 'm) checker \<Rightarrow> string \<Rightarrow> string \<Rightarrow> ('i, 'm, js_error, MintUrl) step" where
  "open_wallet ck mint_url seed_words =
     and_do (give (parse_url mint_url)) (\<lambda>url.
     and_do (give (ensure (ck_mnemonic_ok ck seed_words) JsInvalidSeed)) (\<lambda>_.
     and_do (open_store ck url) (\<lambda>_. give (Ok url))))"

section \<open>Choosing amounts and inputs\<close>

text \<open>The inner loop \<open>while remaining >= amount\<close> of \<open>select_denominations\<close>; it may not end.\<close>

partial_function (option) take_denomination :: "u64 \<Rightarrow> u64 \<Rightarrow> u64 list \<Rightarrow> (u64 \<times> u64 list) option" where
  "take_denomination a remaining selected =
     (if a \<le> remaining then take_denomination a (remaining - a) (selected @ [a]) else Some (remaining, selected))"

fun take_denominations :: "u64 list \<Rightarrow> u64 \<Rightarrow> u64 list \<Rightarrow> (u64 \<times> u64 list) option" where
  "take_denominations [] remaining selected = Some (remaining, selected)"
| "take_denominations (a # as) remaining selected =
     Option.bind (take_denomination a remaining selected) (\<lambda>(remaining', selected'). take_denominations as remaining' selected')"

definition select_denominations :: "u64 \<Rightarrow> u64 list \<Rightarrow> (js_error, u64 list) outcome option" where
  "select_denominations target available =
     map_option (\<lambda>(remaining, selected). if 0 < remaining then Err (JsDenominations target available) else Ok selected)
       (take_denominations (rev (sort available)) target [])"

text \<open>The loop that selects unspent proofs until their sum reaches the target.\<close>

fun pick_inputs :: "bool \<Rightarrow> u64 \<Rightarrow> u64 \<Rightarrow> ProofInfo list \<Rightarrow> ('e, ProofInfo list \<times> u64) outcome" where
  "pick_inputs overflow_checks target input_total [] = Ok ([], input_total)"
| "pick_inputs overflow_checks target input_total (p # ps) =
     (if target \<le> input_total then Ok ([], input_total)
      else
        and_then (add_unchecked overflow_checks input_total (amount (pi_proof p))) (\<lambda>t.
        and_then (pick_inputs overflow_checks target t ps) (\<lambda>(picks, t'). Ok (p # picks, t'))))"

definition inputs_for ::
  "('i, 'm) checker \<Rightarrow> MintUrl \<Rightarrow> u64 \<Rightarrow> ('i, 'm, js_error, ProofInfo list \<times> u64) step" where
  "inputs_for ck url target =
     and_do (read_store (local_get_proofs (Some url) (Some Sat) (Some [Unspent]) None)) (\<lambda>all_proofs.
     and_do (give (pick_inputs (ck_overflow_checks ck) target 0 all_proofs)) (\<lambda>(inputs, input_total).
     and_do (give (ensure (target \<le> input_total) (JsInsufficient input_total target))) (\<lambda>_.
     give (Ok (inputs, input_total)))))"

definition active_keyset_id :: "('i, 'm) checker \<Rightarrow> ('i, 'm, js_error, Id) step" where
  "active_keyset_id ck =
     and_do (on_mint JsKeysets (mc_keysets (ck_mint ck))) (\<lambda>ks.
     give (and_then (ok_or (List.find info_active ks) JsNoActiveKeyset) (\<lambda>k. Ok (info_id k))))"

definition keys_of_keyset :: "('i, 'm) checker \<Rightarrow> Id \<Rightarrow> ('i, 'm, js_error, Keys) step" where
  "keys_of_keyset ck i =
     and_do (on_mint JsKeys (mc_keys (ck_mint ck))) (\<lambda>all_keys.
     give (and_then (ok_or (List.find (\<lambda>k. ks_id k = i) all_keys) JsKeysetMissing) (\<lambda>k. Ok (ks_keys k))))"

definition MAX_SAFE_JS_INT :: u64 where
  "MAX_SAFE_JS_INT = 9007199254740991"

definition get_mint_denominations :: "('i, 'm) checker \<Rightarrow> string \<Rightarrow> ('i, 'm, js_error, u64 list) step" where
  "get_mint_denominations ck mint_url =
     and_do (give (parse_url mint_url)) (\<lambda>_.
     and_do (active_keyset_id ck) (\<lambda>i.
     and_do (keys_of_keyset ck i) (\<lambda>keys.
     give (Ok (sort (filter (\<lambda>a. a \<le> MAX_SAFE_JS_INT) (map fst keys)))))))"

section \<open>Outputs\<close>

text \<open>A blinded output with its secret and blinding factor.\<close>

definition blind_output ::
  "('i, 'm) checker \<Rightarrow> nat \<Rightarrow> Id \<Rightarrow> Amount \<Rightarrow> string \<Rightarrow> (js_error, BlindedMessage \<times> string \<times> SecretKey) outcome" where
  "blind_output ck n i a sec =
     and_then (map_err JsBlind (blind_message (ck_externs ck) (ck_rand_factor ck n) (as_bytes sec) None)) (\<lambda>(b, r).
     Ok (\<lparr>bm_amount = a, bm_keyset_id = i, blinded_secret = b, bm_witness = None\<rparr>, sec, r))"

definition plain_outputs ::
  "('i, 'm) checker \<Rightarrow> nat \<Rightarrow> Id \<Rightarrow> Amount list \<Rightarrow> (js_error, (BlindedMessage \<times> string \<times> SecretKey) list) outcome" where
  "plain_outputs ck start i amts =
     try_map (\<lambda>(n, a). blind_output ck n i a (ck_rand_secret ck n)) (enumerate start amts)"

definition locked_outputs ::
  "('i, 'm) checker \<Rightarrow> nat \<Rightarrow> Id \<Rightarrow> SpendingConditions \<Rightarrow> Amount list
     \<Rightarrow> (js_error, (BlindedMessage \<times> string \<times> SecretKey) list) outcome" where
  "locked_outputs ck start i sc amts =
     try_map (\<lambda>(n, a). blind_output ck n i a (ck_write_secret ck (nut10_from_conditions (ck_rand_nonce ck n) sc)))
       (enumerate start amts)"

definition messages_of :: "(BlindedMessage \<times> string \<times> SecretKey) list \<Rightarrow> BlindedMessage list" where
  "messages_of outs = map fst outs"

definition secrets_of :: "(BlindedMessage \<times> string \<times> SecretKey) list \<Rightarrow> string list" where
  "secrets_of outs = map (fst \<circ> snd) outs"

definition factors_of :: "(BlindedMessage \<times> string \<times> SecretKey) list \<Rightarrow> SecretKey list" where
  "factors_of outs = map (snd \<circ> snd) outs"

definition unblind_all ::
  "('i, 'm) checker \<Rightarrow> Id \<Rightarrow> (BlindedMessage \<times> string \<times> SecretKey) list \<Rightarrow> BlindSignature list
     \<Rightarrow> ('i, 'm, js_error, Proof list) step" where
  "unblind_all ck i outs sigs =
     and_do (keys_of_keyset ck i) (\<lambda>keys.
     give (map_err JsConstruct (construct_proofs (ck_externs ck) sigs (factors_of outs) (secrets_of outs) keys)))"

section \<open>Locking tokens to two keys\<close>

definition safe_swap ::
  "('i, 'm) checker \<Rightarrow> SwapRequest \<Rightarrow> PublicKey list \<Rightarrow> ('i, 'm, Error, BlindSignature list) step" where
  "safe_swap ck swap_request input_ys =
     and_do (on_store from_db (local_update_proofs_state (ck_browser ck) input_ys Pending)) (\<lambda>_.
     and_do (on_mint id (mc_swap (ck_mint ck) swap_request)) (\<lambda>sigs.
     and_do (on_store from_db (local_update_proofs (ck_browser ck) [] input_ys)) (\<lambda>_.
     give (Ok sigs))))"

definition as_js :: "('e \<Rightarrow> js_error) \<Rightarrow> ('i, 'm, 'e, 'a) step \<Rightarrow> ('i, 'm, js_error, 'a) step" where
  "as_js h f s = (let (r, s') = f s in (map_err h r, s'))"

definition store_proof :: "('i, 'm) checker \<Rightarrow> MintUrl \<Rightarrow> Proof \<Rightarrow> ('i, 'm, js_error, unit) step" where
  "store_proof ck url p =
     and_do (give (map_err JsProofInfo (proof_info_new (ck_externs ck) p url Unspent Sat))) (\<lambda>info.
     on_store JsStore (local_update_proofs (ck_browser ck) [info] []))"

fun store_proofs :: "('i, 'm) checker \<Rightarrow> MintUrl \<Rightarrow> Proof list \<Rightarrow> ('i, 'm, js_error, unit) step" where
  "store_proofs ck url [] = give (Ok ())"
| "store_proofs ck url (p # ps) = and_do (store_proof ck url p) (\<lambda>_. store_proofs ck url ps)"

definition two_of_two :: "PublicKey \<Rightarrow> PublicKey \<Rightarrow> bool \<Rightarrow> (js_error, SpendingConditions) outcome" where
  "two_of_two alice bob use_sig_all =
     and_then (map_err JsConditions
       (conditions_new None (Some [bob]) None (Some 2) (if use_sig_all then Some SigAll else None) None)) (\<lambda>cs.
     Ok (new_p2pk alice (Some cs)))"

text \<open>\<open>swap_to_p2pk_2of2\<close> up to the choice of denominations for the change, and from there on.\<close>

definition p2pk_amounts :: "u64 list" where
  "p2pk_amounts = [1, 2]"

definition lock_prepare ::
  "('i, 'm) checker \<Rightarrow> string \<Rightarrow> string \<Rightarrow> string \<Rightarrow> string \<Rightarrow> bool
     \<Rightarrow> ('i, 'm, js_error, MintUrl \<times> ProofInfo list \<times> u64 \<times> Id \<times> (BlindedMessage \<times> string \<times> SecretKey) list) step" where
  "lock_prepare ck mint_url seed_words alice_pubkey bob_pubkey use_sig_all =
     and_do (open_wallet ck mint_url seed_words) (\<lambda>url.
     and_do (give (map_err JsPubkey (pk_from_hex (ck_externs ck) alice_pubkey))) (\<lambda>alice.
     and_do (give (map_err JsPubkey (pk_from_hex (ck_externs ck) bob_pubkey))) (\<lambda>bob.
     and_do (give (two_of_two alice bob use_sig_all)) (\<lambda>sc.
     and_do (inputs_for ck url 3) (\<lambda>(inputs, input_total).
     and_do (active_keyset_id ck) (\<lambda>i.
     and_do (give (locked_outputs ck 0 i sc p2pk_amounts)) (\<lambda>locked.
     give (Ok (url, inputs, input_total, i, locked)))))))))"

definition lock_finish ::
  "('i, 'm) checker \<Rightarrow> MintUrl \<Rightarrow> ProofInfo list \<Rightarrow> Id \<Rightarrow> (BlindedMessage \<times> string \<times> SecretKey) list \<Rightarrow> u64 list
     \<Rightarrow> ('i, 'm, js_error, Proof list) step" where
  "lock_finish ck url inputs i locked change_denoms =
     and_do (give (plain_outputs ck 2 i change_denoms)) (\<lambda>change.
     let outs = locked @ change;
         req = \<lparr>swap_inputs = map pi_proof inputs, swap_outputs = messages_of outs\<rparr> in
     and_do (as_js JsSwap (safe_swap ck req (map pi_y inputs))) (\<lambda>sigs.
     and_do (unblind_all ck i outs sigs) (\<lambda>all_proofs.
     and_do (store_proofs ck url (drop 2 all_proofs)) (\<lambda>_.
     give (Ok (take 2 all_proofs))))))"

definition swap_to_p2pk_2of2 ::
  "('i, 'm) checker \<Rightarrow> string \<Rightarrow> string \<Rightarrow> string \<Rightarrow> string \<Rightarrow> u64 list \<Rightarrow> bool \<Rightarrow> ('i, 'm) session
     \<Rightarrow> ((js_error, Proof list) outcome \<times> ('i, 'm) session) option" where
  "swap_to_p2pk_2of2 ck mint_url seed_words alice_pubkey bob_pubkey denominations use_sig_all s =
     (case lock_prepare ck mint_url seed_words alice_pubkey bob_pubkey use_sig_all s of
        (Ok (url, inputs, input_total, i, locked), s1) \<Rightarrow>
          if input_total - 3 = 0 then Some (lock_finish ck url inputs i locked [] s1)
          else map_option (\<lambda>r. case r of
              Ok change_denoms \<Rightarrow> lock_finish ck url inputs i locked change_denoms s1
            | Err x \<Rightarrow> (Err x, s1) | Panic \<Rightarrow> (Panic, s1)) (select_denominations (input_total - 3) denominations)
      | (Err x, s1) \<Rightarrow> Some (Err x, s1)
      | (Panic, s1) \<Rightarrow> Some (Panic, s1))"

section \<open>Spending locked tokens\<close>

record SwapResult =
  sres_success :: bool
  sres_error :: "Error option"
  sres_proofs :: "Proof list option"

definition parse_secret_keys :: "('i, 'm) checker \<Rightarrow> string list \<Rightarrow> (js_error, SecretKey list) outcome" where
  "parse_secret_keys ck keys = try_map (\<lambda>k. ok_or (ck_sk_from_str ck k) JsSecretKey) keys"

text \<open>One plain output of the active keyset for each input.\<close>

definition mirror_outputs ::
  "('i, 'm) checker \<Rightarrow> Proof list \<Rightarrow> ('i, 'm, js_error, Id \<times> (BlindedMessage \<times> string \<times> SecretKey) list) step" where
  "mirror_outputs ck proofs =
     and_do (active_keyset_id ck) (\<lambda>i.
     and_do (give (plain_outputs ck 0 i (map amount proofs))) (\<lambda>outs. give (Ok (i, outs))))"

definition sign_all_sig_all ::
  "('i, 'm) checker \<Rightarrow> SecretKey list \<Rightarrow> SwapRequest \<Rightarrow> (js_error, SwapRequest) outcome" where
  "sign_all_sig_all ck sks req = map_err JsSign (try_fold (swap_sign_sig_all (ck_externs ck)) req sks)"

definition sign_all_p2pk :: "('i, 'm) checker \<Rightarrow> SecretKey list \<Rightarrow> SwapRequest \<Rightarrow> SwapRequest" where
  "sign_all_p2pk ck sks req =
     req\<lparr>swap_inputs := foldl (\<lambda>ps sk. map (\<lambda>p. sign_p2pk (ck_externs ck) p sk) ps) (swap_inputs req) sks\<rparr>"

text \<open>The mint's refusal is a result, not an error of the call.\<close>

definition submit_and_unblind ::
  "('i, 'm) checker \<Rightarrow> Id \<Rightarrow> (BlindedMessage \<times> string \<times> SecretKey) list \<Rightarrow> SwapRequest
     \<Rightarrow> ('i, 'm, js_error, SwapResult) step" where
  "submit_and_unblind ck i outs req s =
     (case mc_swap (ck_mint ck) req (ses_mint s) of
        (Ok sigs, m) \<Rightarrow>
          and_do (unblind_all ck i outs sigs) (\<lambda>ps.
          give (Ok \<lparr>sres_success = True, sres_error = None, sres_proofs = Some ps\<rparr>)) (s\<lparr>ses_mint := m\<rparr>)
      | (Err x, m) \<Rightarrow> (Ok \<lparr>sres_success = False, sres_error = Some x, sres_proofs = None\<rparr>, s\<lparr>ses_mint := m\<rparr>)
      | (Panic, m) \<Rightarrow> (Panic, s\<lparr>ses_mint := m\<rparr>))"

definition swap_with_sig_all ::
  "('i, 'm) checker \<Rightarrow> string \<Rightarrow> Proof list \<Rightarrow> string list \<Rightarrow> ('i, 'm, js_error, SwapResult) step" where
  "swap_with_sig_all ck mint_url proofs secret_keys =
     and_do (give (parse_url mint_url)) (\<lambda>_.
     and_do (give (parse_secret_keys ck secret_keys)) (\<lambda>sks.
     and_do (mirror_outputs ck proofs) (\<lambda>(i, outs).
     and_do (give (sign_all_sig_all ck sks \<lparr>swap_inputs = proofs, swap_outputs = messages_of outs\<rparr>)) (\<lambda>req.
     submit_and_unblind ck i outs req))))"

definition swap_with_p2pk ::
  "('i, 'm) checker \<Rightarrow> string \<Rightarrow> Proof list \<Rightarrow> string list \<Rightarrow> ('i, 'm, js_error, SwapResult) step" where
  "swap_with_p2pk ck mint_url proofs secret_keys =
     and_do (give (parse_url mint_url)) (\<lambda>_.
     and_do (give (parse_secret_keys ck secret_keys)) (\<lambda>sks.
     and_do (mirror_outputs ck proofs) (\<lambda>(i, outs).
     submit_and_unblind ck i outs (sign_all_p2pk ck sks \<lparr>swap_inputs = proofs, swap_outputs = messages_of outs\<rparr>))))"

definition sign_proofs_with_sig_all ::
  "('i, 'm) checker \<Rightarrow> string \<Rightarrow> Proof list \<Rightarrow> string list \<Rightarrow> ('i, 'm, js_error, Proof list) step" where
  "sign_proofs_with_sig_all ck mint_url proofs secret_keys =
     and_do (give (parse_url mint_url)) (\<lambda>_.
     and_do (give (parse_secret_keys ck secret_keys)) (\<lambda>sks.
     and_do (mirror_outputs ck proofs) (\<lambda>(_, outs).
     and_do (give (sign_all_sig_all ck sks \<lparr>swap_inputs = proofs, swap_outputs = messages_of outs\<rparr>)) (\<lambda>req.
     give (Ok (swap_inputs req))))))"

text \<open>The signatures over the new outputs are dropped: their secrets were not kept.\<close>

definition submit_signed_proofs ::
  "('i, 'm) checker \<Rightarrow> string \<Rightarrow> Proof list \<Rightarrow> ('i, 'm, js_error, SwapResult) step" where
  "submit_signed_proofs ck mint_url signed_proofs =
     and_do (give (parse_url mint_url)) (\<lambda>_.
     and_do (mirror_outputs ck signed_proofs) (\<lambda>(_, outs) s.
     case mc_swap (ck_mint ck) \<lparr>swap_inputs = signed_proofs, swap_outputs = messages_of outs\<rparr> (ses_mint s) of
       (Ok _, m) \<Rightarrow> (Ok \<lparr>sres_success = True, sres_error = None, sres_proofs = None\<rparr>, s\<lparr>ses_mint := m\<rparr>)
     | (Err x, m) \<Rightarrow> (Ok \<lparr>sres_success = False, sres_error = Some x, sres_proofs = None\<rparr>, s\<lparr>ses_mint := m\<rparr>)
     | (Panic, m) \<Rightarrow> (Panic, s\<lparr>ses_mint := m\<rparr>)))"

section \<open>The store and the mint\<close>

record balance_by_state =
  bal_unspent :: u64
  bal_pending :: u64
  bal_spent :: u64
  bal_reserved :: u64
  bal_pending_spent :: u64
  bal_total :: u64

definition balance_in :: "bool \<Rightarrow> State \<Rightarrow> ProofInfo list \<Rightarrow> ('e, u64) outcome" where
  "balance_in overflow_checks st ps =
     sum_u64 overflow_checks (map (amount \<circ> pi_proof) (filter (\<lambda>p. pi_state p = st) ps))"

definition get_wallet_balance_by_state ::
  "('i, 'm) checker \<Rightarrow> string \<Rightarrow> string \<Rightarrow> ('i, 'm, js_error, balance_by_state) step" where
  "get_wallet_balance_by_state ck mint_url seed_words =
     (let oc = ck_overflow_checks ck in
      and_do (open_wallet ck mint_url seed_words) (\<lambda>url.
      and_do (read_store (local_get_proofs (Some url) (Some Sat) None None)) (\<lambda>ps.
      give (and_then (balance_in oc Unspent ps) (\<lambda>unspent.
        and_then (balance_in oc Pending ps) (\<lambda>pending.
        and_then (balance_in oc Spent ps) (\<lambda>spent.
        and_then (balance_in oc Reserved ps) (\<lambda>reserved.
        and_then (balance_in oc PendingSpent ps) (\<lambda>pending_spent.
        and_then (sum_u64 oc [unspent, pending, spent, reserved, pending_spent]) (\<lambda>t.
        Ok \<lparr>bal_unspent = unspent, bal_pending = pending, bal_spent = spent, bal_reserved = reserved,
            bal_pending_spent = pending_spent, bal_total = t\<rparr>))))))))))"

text \<open>\<open>create_wallet\<close> only opens the store; the balance is the store's own sum over the unspent rows.\<close>

definition create_wallet :: "('i, 'm) checker \<Rightarrow> string \<Rightarrow> string \<Rightarrow> ('i, 'm, js_error, unit) step" where
  "create_wallet ck mint_url seed_words = and_do (open_wallet ck mint_url seed_words) (\<lambda>_. give (Ok ()))"

definition get_wallet_balance :: "('i, 'm) checker \<Rightarrow> string \<Rightarrow> string \<Rightarrow> ('i, 'm, js_error, u64) step" where
  "get_wallet_balance ck mint_url seed_words =
     and_do (open_wallet ck mint_url seed_words) (\<lambda>url.
     and_do (read_store (local_get_balance (ck_overflow_checks ck) (Some url) (Some Sat) (Some [Unspent]))) (\<lambda>r.
     give (map_err JsStore r)))"

definition add_proofs_to_wallet ::
  "('i, 'm) checker \<Rightarrow> string \<Rightarrow> string \<Rightarrow> Proof list \<Rightarrow> ('i, 'm, js_error, unit) step" where
  "add_proofs_to_wallet ck mint_url seed_words proofs =
     and_do (open_wallet ck mint_url seed_words) (\<lambda>url. store_proofs ck url proofs)"

definition check_specific_proofs_state ::
  "('i, 'm) checker \<Rightarrow> string \<Rightarrow> Proof list \<Rightarrow> ('i, 'm, js_error, State list) step" where
  "check_specific_proofs_state ck mint_url proofs =
     and_do (give (parse_url mint_url)) (\<lambda>_.
     and_do (give (map_err JsY (try_map (proof_y (ck_externs ck)) proofs))) (\<lambda>yl.
     and_do (on_mint JsCheck (mc_check (ck_mint ck) yl)) (\<lambda>states.
     give (Ok (map ps_state states)))))"

text \<open>The sums of the amounts that changed state, by the two states; each is an unchecked sum.\<close>

fun note_change ::
  "bool \<Rightarrow> State \<times> State \<Rightarrow> u64 \<Rightarrow> ((State \<times> State) \<times> u64) list \<Rightarrow> ('e, ((State \<times> State) \<times> u64) list) outcome" where
  "note_change overflow_checks k a [] = Ok [(k, a)]"
| "note_change overflow_checks k a ((j, b) # t) =
     (if j = k then and_then (add_unchecked overflow_checks b a) (\<lambda>c. Ok ((j, c) # t))
      else and_then (note_change overflow_checks k a t) (\<lambda>t'. Ok ((j, b) # t')))"

fun sync_states ::
  "('i, 'm) checker \<Rightarrow> (ProofInfo \<times> ProofState) list \<Rightarrow> ((State \<times> State) \<times> u64) list
     \<Rightarrow> ('i, 'm, js_error, ((State \<times> State) \<times> u64) list) step" where
  "sync_states ck [] changes = give (Ok changes)"
| "sync_states ck ((p, st) # rest) changes =
     (if pi_state p = ps_state st then sync_states ck rest changes
      else
        and_do (give (note_change (ck_overflow_checks ck) (pi_state p, ps_state st) (amount (pi_proof p)) changes)) (\<lambda>changes'.
        and_do (on_store JsStore (local_update_proofs_state (ck_browser ck) [pi_y p] (ps_state st))) (\<lambda>_.
        sync_states ck rest changes')))"

definition check_proofs_state ::
  "('i, 'm) checker \<Rightarrow> string \<Rightarrow> string \<Rightarrow> ('i, 'm, js_error, nat \<times> ((State \<times> State) \<times> u64) list) step" where
  "check_proofs_state ck mint_url seed_words =
     and_do (open_wallet ck mint_url seed_words) (\<lambda>url.
     and_do (read_store (local_get_proofs (Some url) (Some Sat) None None)) (\<lambda>all_proofs.
     if all_proofs = [] then give (Ok (0, []))
     else
       and_do (on_mint JsCheck (mc_check (ck_mint ck) (map pi_y all_proofs))) (\<lambda>states.
       and_do (sync_states ck (zip all_proofs states) []) (\<lambda>changes.
       give (Ok (length all_proofs, changes))))))"

section \<open>Helpers of the page\<close>

definition create_blinded_outputs ::
  "('i, 'm) checker \<Rightarrow> string \<Rightarrow> u64 list \<Rightarrow> ('i, 'm, js_error, (BlindedMessage \<times> string \<times> SecretKey) list) step" where
  "create_blinded_outputs ck mint_url amts =
     and_do (give (parse_url mint_url)) (\<lambda>_.
     and_do (active_keyset_id ck) (\<lambda>i. give (plain_outputs ck 0 i amts)))"

definition create_blinded_outputs_with_p2pk ::
  "('i, 'm) checker \<Rightarrow> string \<Rightarrow> u64 list \<Rightarrow> SpendingConditions
     \<Rightarrow> ('i, 'm, js_error, (BlindedMessage \<times> string \<times> SecretKey) list) step" where
  "create_blinded_outputs_with_p2pk ck mint_url amts sc =
     and_do (give (parse_url mint_url)) (\<lambda>_.
     and_do (active_keyset_id ck) (\<lambda>i. give (locked_outputs ck 0 i sc amts)))"

definition create_spending_conditions_p2pk_2of2 ::
  "externs \<Rightarrow> string \<Rightarrow> string \<Rightarrow> u64 option \<Rightarrow> (js_error, SpendingConditions) outcome" where
  "create_spending_conditions_p2pk_2of2 e pubkey1 pubkey2 lt =
     and_then (map_err JsPubkey (pk_from_hex e pubkey1)) (\<lambda>pk1.
     and_then (map_err JsPubkey (pk_from_hex e pubkey2)) (\<lambda>pk2.
     and_then (map_err JsConditions
       (conditions_new lt (Some [pk2]) (Some [pk1]) (Some 2) (Some SigAll) (Some 1))) (\<lambda>cs.
     Ok (new_p2pk pk1 (Some cs)))))"

definition create_spending_conditions_with_locktime_refund ::
  "externs \<Rightarrow> string \<Rightarrow> string \<Rightarrow> u64 \<Rightarrow> (js_error, SpendingConditions) outcome" where
  "create_spending_conditions_with_locktime_refund e primary_pubkey refund_pubkey lt =
     and_then (map_err JsPubkey (pk_from_hex e primary_pubkey)) (\<lambda>primary_pk.
     and_then (map_err JsPubkey (pk_from_hex e refund_pubkey)) (\<lambda>refund_pk.
     and_then (map_err JsConditions
       (conditions_new (Some lt) None (Some [refund_pk]) (Some 1) None (Some 1))) (\<lambda>cs.
     Ok (new_p2pk primary_pk (Some cs)))))"

definition create_spending_conditions_multisig_locktime ::
  "externs \<Rightarrow> string \<Rightarrow> string list \<Rightarrow> string list \<Rightarrow> u64 \<Rightarrow> u64 \<Rightarrow> u64 \<Rightarrow> (js_error, SpendingConditions) outcome" where
  "create_spending_conditions_multisig_locktime e primary_pubkey additional_pubkeys refund_pubkeys lt n nr =
     and_then (map_err JsPubkey (pk_from_hex e primary_pubkey)) (\<lambda>primary_pk.
     and_then (map_err JsPubkey (try_map (pk_from_hex e) additional_pubkeys)) (\<lambda>additional_pks.
     and_then (map_err JsPubkey (try_map (pk_from_hex e) refund_pubkeys)) (\<lambda>refund_pks.
     and_then (map_err JsConditions
       (conditions_new (Some lt) (Some additional_pks) (Some refund_pks) (Some n) None (Some nr))) (\<lambda>cs.
     Ok (new_p2pk primary_pk (Some cs))))))"

definition create_swap_request :: "Proof list \<Rightarrow> BlindedMessage list \<Rightarrow> SwapRequest" where
  "create_swap_request inputs outputs = \<lparr>swap_inputs = inputs, swap_outputs = outputs\<rparr>"

definition sign_swap_request_sigall ::
  "('i, 'm) checker \<Rightarrow> SwapRequest \<Rightarrow> string list \<Rightarrow> (js_error, SwapRequest) outcome" where
  "sign_swap_request_sigall ck req secret_keys =
     and_then (parse_secret_keys ck secret_keys) (\<lambda>sks. sign_all_sig_all ck sks req)"

definition sign_swap_request_p2pk ::
  "('i, 'm) checker \<Rightarrow> SwapRequest \<Rightarrow> string list \<Rightarrow> (js_error, SwapRequest) outcome" where
  "sign_swap_request_p2pk ck req secret_keys =
     and_then (parse_secret_keys ck secret_keys) (\<lambda>sks. Ok (sign_all_p2pk ck sks req))"

definition submit_swap_request ::
  "('i, 'm) checker \<Rightarrow> string \<Rightarrow> SwapRequest \<Rightarrow> ('i, 'm, js_error, Error + BlindSignature list) step" where
  "submit_swap_request ck mint_url req =
     and_do (give (parse_url mint_url)) (\<lambda>_ s.
     case mc_swap (ck_mint ck) req (ses_mint s) of
       (Ok sigs, m) \<Rightarrow> (Ok (Inr sigs), s\<lparr>ses_mint := m\<rparr>)
     | (Err x, m) \<Rightarrow> (Ok (Inl x), s\<lparr>ses_mint := m\<rparr>)
     | (Panic, m) \<Rightarrow> (Panic, s\<lparr>ses_mint := m\<rparr>))"

text \<open>\<open>signatures[0]\<close> panics when there are none.\<close>

definition unblind_signatures ::
  "('i, 'm) checker \<Rightarrow> string \<Rightarrow> BlindSignature list \<Rightarrow> string list \<Rightarrow> SecretKey list \<Rightarrow> ('i, 'm, js_error, Proof list) step" where
  "unblind_signatures ck mint_url sigs secrets factors =
     and_do (give (parse_url mint_url)) (\<lambda>_.
     and_do (on_mint JsKeys (mc_keys (ck_mint ck))) (\<lambda>all_keys.
     give (case sigs of
         [] \<Rightarrow> Panic
       | x # _ \<Rightarrow>
           and_then (ok_or (List.find (\<lambda>k. ks_id k = bs_keyset_id x) all_keys) JsKeysetMissing) (\<lambda>k.
           map_err JsConstruct (construct_proofs (ck_externs ck) sigs factors secrets (ks_keys k))))))"

section \<open>Test contexts\<close>

text \<open>
  A context keeps the address, the active keyset and its keys from the time it was made, and a wallet
  of its own with the store as it was opened then: its state in memory is its own, the browser's
  storage is shared with every other store.
\<close>

record 'i test_context =
  tc_url :: MintUrl
  tc_state :: "'i WalletState"
  tc_storage_key :: string
  tc_keyset_id :: Id
  tc_keys :: Keys

type_synonym ('i, 'm, 'a) context_step =
  "'i test_context \<Rightarrow> ('i, 'm) session \<Rightarrow> (js_error, 'a) outcome \<times> 'i test_context \<times> ('i, 'm) session"

definition test_context_new ::
  "('i, 'm) checker \<Rightarrow> string \<Rightarrow> string \<Rightarrow> ('i, 'm, js_error, 'i test_context) step" where
  "test_context_new ck mint_url seed_words =
     and_do (open_wallet ck mint_url seed_words) (\<lambda>url.
     and_do (active_keyset_id ck) (\<lambda>i.
     and_do (keys_of_keyset ck i) (\<lambda>keys s.
     (Ok \<lparr>tc_url = url, tc_state = ls_state (ses_db s), tc_storage_key = ls_storage_key (ses_db s),
          tc_keyset_id = i, tc_keys = keys\<rparr>, s))))"

text \<open>The session as a context sees it, and a step that a context takes with its own store.\<close>

definition seen_by :: "'i test_context \<Rightarrow> ('i, 'm) session \<Rightarrow> ('i, 'm) session" where
  "seen_by tc s = s\<lparr>ses_db := (ses_db s)\<lparr>ls_state := tc_state tc, ls_storage_key := tc_storage_key tc\<rparr>\<rparr>"

definition in_context :: "('i test_context \<Rightarrow> ('i, 'm, js_error, 'a) step) \<Rightarrow> ('i, 'm, 'a) context_step" where
  "in_context f tc s =
     (let (r, t) = f tc (seen_by tc s) in
      (r, tc\<lparr>tc_state := ls_state (ses_db t)\<rparr>,
       s\<lparr>ses_db := (ses_db s)\<lparr>ls_storage := ls_storage (ses_db t)\<rparr>, ses_mint := ses_mint t\<rparr>))"

definition tc_get_proofs_to_spend ::
  "('i, 'm) checker \<Rightarrow> u64 \<Rightarrow> ('i, 'm, Proof list \<times> PublicKey list \<times> u64) context_step" where
  "tc_get_proofs_to_spend ck a = in_context (\<lambda>tc.
     and_do (inputs_for ck (tc_url tc) a) (\<lambda>(inputs, t). give (Ok (map pi_proof inputs, map pi_y inputs, t))))"

definition tc_create_blinded_outputs ::
  "('i, 'm) checker \<Rightarrow> 'i test_context \<Rightarrow> u64 list \<Rightarrow> (js_error, (BlindedMessage \<times> string \<times> SecretKey) list) outcome" where
  "tc_create_blinded_outputs ck tc amts = plain_outputs ck 0 (tc_keyset_id tc) amts"

definition tc_create_blinded_outputs_with_conditions ::
  "('i, 'm) checker \<Rightarrow> 'i test_context \<Rightarrow> u64 list \<Rightarrow> SpendingConditions
     \<Rightarrow> (js_error, (BlindedMessage \<times> string \<times> SecretKey) list) outcome" where
  "tc_create_blinded_outputs_with_conditions ck tc amts sc = locked_outputs ck 0 (tc_keyset_id tc) sc amts"

definition tc_submit_swap ::
  "('i, 'm) checker \<Rightarrow> SwapRequest \<Rightarrow> PublicKey list \<Rightarrow> ('i, 'm, Error + BlindSignature list) context_step" where
  "tc_submit_swap ck req input_ys = in_context (\<lambda>_.
     and_do (on_store JsStore (local_update_proofs_state (ck_browser ck) input_ys Pending)) (\<lambda>_ s.
     case mc_swap (ck_mint ck) req (ses_mint s) of
       (Ok sigs, m) \<Rightarrow>
         and_do (on_store JsStore (local_update_proofs (ck_browser ck) [] input_ys)) (\<lambda>_. give (Ok (Inr sigs))) (s\<lparr>ses_mint := m\<rparr>)
     | (Err x, m) \<Rightarrow> (Ok (Inl x), s\<lparr>ses_mint := m\<rparr>)
     | (Panic, m) \<Rightarrow> (Panic, s\<lparr>ses_mint := m\<rparr>)))"

definition tc_unblind_signatures ::
  "('i, 'm) checker \<Rightarrow> 'i test_context \<Rightarrow> BlindSignature list \<Rightarrow> string list \<Rightarrow> SecretKey list
     \<Rightarrow> (js_error, Proof list) outcome" where
  "tc_unblind_signatures ck tc sigs secrets factors =
     map_err JsConstruct (construct_proofs (ck_externs ck) sigs factors secrets (tc_keys tc))"

definition tc_add_proofs_to_wallet ::
  "('i, 'm) checker \<Rightarrow> Proof list \<Rightarrow> ('i, 'm, unit) context_step" where
  "tc_add_proofs_to_wallet ck proofs = in_context (\<lambda>tc. store_proofs ck (tc_url tc) proofs)"

end
