(* ===== verification/CheckerProps.thy ===== *)
theory CheckerProps
  imports Checker
begin

text \<open>
  What the checker guarantees: denominations are found or the search does not end, tokens locked to
  two keys need both, the store survives a reload and agrees with the mint after a swap, and the cases
  in which a call loses tokens.
\<close>

section \<open>Denominations\<close>

lemma take_denomination_ends:
  "a \<noteq> 0 \<Longrightarrow> \<exists>r taken. take_denomination a remaining selected = Some (r, selected @ taken) \<and> r < a \<and> r \<le> remaining
     \<and> unat remaining = total taken + unat r \<and> set taken \<subseteq> {a}"
proof (induction "unat remaining" arbitrary: remaining selected rule: less_induct)
  case less
  show ?case
  proof (cases "a \<le> remaining")
    case True
    then have sub: "unat (remaining - a) = unat remaining - unat a" "unat a \<le> unat remaining" "0 < unat a"
      using less.prems by (simp_all add: unat_sub word_le_nat_alt unat_gt_0)
    then have "unat (remaining - a) < unat remaining" by linarith
    from less.hyps [OF this less.prems, of "selected @ [a]"] obtain r taken where
      rec: "take_denomination a (remaining - a) (selected @ [a]) = Some (r, (selected @ [a]) @ taken)" "r < a"
        "r \<le> remaining - a" "unat (remaining - a) = total taken + unat r" "set taken \<subseteq> {a}" by blast
    have "r \<le> remaining" using rec(3) sub by (simp add: word_le_nat_alt)
    moreover have "unat remaining = total (a # taken) + unat r" using rec(4) sub by simp
    ultimately show ?thesis
      using True rec(1,2,5) by (intro exI [of _ r] exI [of _ "a # taken"]) (simp add: take_denomination.simps)
  next
    case False
    then show ?thesis by (intro exI [of _ remaining] exI [of _ "[]"]) (simp add: take_denomination.simps)
  qed
qed

lemma take_denomination_0: "take_denomination 0 remaining selected = None"
proof -
  have "a \<noteq> 0" if "take_denomination a r sel = Some y" for a r sel y
    using that by (rule take_denomination.raw_induct [where P = "\<lambda>a r sel y. a \<noteq> 0", rotated]) (auto split: if_splits)
  then show ?thesis by (metis option.exhaust)
qed

lemma take_denominations_0: "0 \<in> set as \<Longrightarrow> take_denominations as remaining selected = None"
proof (induction as arbitrary: remaining selected)
  case (Cons a as)
  then show ?case by (cases "a = 0") (auto simp: take_denomination_0 split: option.splits bind_splits)
qed simp

lemma take_denominations_ends:
  "0 \<notin> set as \<Longrightarrow> \<exists>r taken. take_denominations as remaining selected = Some (r, selected @ taken) \<and> r \<le> remaining
     \<and> (\<forall>a \<in> set as. r < a) \<and> unat remaining = total taken + unat r \<and> set taken \<subseteq> set as"
proof (induction as arbitrary: remaining selected)
  case (Cons a as)
  from Cons.prems take_denomination_ends [of a remaining selected] obtain r1 t1 where
    one: "take_denomination a remaining selected = Some (r1, selected @ t1)" "r1 < a" "r1 \<le> remaining"
      "unat remaining = total t1 + unat r1" "set t1 \<subseteq> {a}" by auto
  from Cons.IH [of r1 "selected @ t1"] Cons.prems obtain r t where
    two: "take_denominations as r1 (selected @ t1) = Some (r, (selected @ t1) @ t)" "r \<le> r1" "\<forall>a \<in> set as. r < a"
      "unat r1 = total t + unat r" "set t \<subseteq> set as" by auto
  show ?case
    using one two by (intro exI [of _ r] exI [of _ "t1 @ t"]) (auto simp: total_def)
qed simp

text \<open>
  C30: The checker's search for denominations. With a denomination of zero it never ends, whatever the
  target. Otherwise it ends: with denominations of the keyset whose sum is exactly the target, or with
  an error, which does not happen when the keyset has a denomination of one.
\<close>

theorem select_denominations_spec:
  "if 0 \<in> set available then select_denominations target available = None
   else \<exists>r. select_denominations target available = Some r
     \<and> (case r of
          Ok selected \<Rightarrow> total selected = unat target \<and> set selected \<subseteq> set available
        | Err x \<Rightarrow> x = JsDenominations target available \<and> 1 \<notin> set available
        | Panic \<Rightarrow> False)"
proof (cases "0 \<in> set available")
  case True
  then show ?thesis by (simp add: select_denominations_def take_denominations_0)
next
  case False
  then obtain r taken where t: "take_denominations (rev (sort available)) target [] = Some (r, taken)"
    "\<forall>a \<in> set available. r < a" "unat target = total taken + unat r" "set taken \<subseteq> set available"
    using take_denominations_ends [of "rev (sort available)" target "[]"] by auto
  show ?thesis
  proof (cases "r = 0")
    case True
    then show ?thesis using t False by (simp add: select_denominations_def)
  next
    case nz: False
    then have "\<not> r < 1" by (simp add: word_less_nat_alt word_unat_eq_iff)
    then have "1 \<notin> set available" using t(2) by blast
    then show ?thesis using t False nz by (simp add: select_denominations_def word_gt_0)
  qed
qed

section \<open>Locks of two keys\<close>

text \<open>A token as the checker makes it: its secret is the written lock, and nobody has signed it yet.\<close>

definition locked_to :: "('i, 'm) checker \<Rightarrow> SpendingConditions \<Rightarrow> Proof \<Rightarrow> bool" where
  "locked_to ck sc p \<longleftrightarrow> (\<exists>nonce. secret p = ck_write_secret ck (nut10_from_conditions nonce sc)) \<and> witness p = None"

text \<open>What is written is read back, and the library reads the text of the keys.\<close>

definition lock_laws :: "('i, 'm) checker \<Rightarrow> PublicKey list \<Rightarrow> SpendingConditions \<Rightarrow> bool" where
  "lock_laws ck keys sc \<longleftrightarrow> schnorr_laws (ck_externs ck) \<and> list_all (key_text_ok (ck_externs ck)) keys
     \<and> (\<forall>nonce. nut10_try_from (ck_externs ck) (ck_write_secret ck (nut10_from_conditions nonce sc))
           = Ok (nut10_from_conditions nonce sc))"

text \<open>A signature of one key does not verify under the other.\<close>

definition apart :: "externs \<Rightarrow> SecretKey \<Rightarrow> SecretKey \<Rightarrow> bool" where
  "apart e a b \<longleftrightarrow> (\<forall>msg. \<not> pk_verify e (sk_public_key e a) msg (sk_sign e b msg))"

lemma two_of_two_reads:
  assumes "lock_laws ck [alice, bob] sc" "two_of_two alice bob flag = Ok sc" "locked_to ck sc p"
  obtains n cs where "nut10_try_from (ck_externs ck) (secret p) = Ok n" "n10_kind n = P2PK"
    "n10_tags n = Some (conditions_to_tags cs)" "conditions_try_from (ck_externs ck) (conditions_to_tags cs) = Ok cs"
    "cs = \<lparr>locktime = None, cond_pubkeys = Some [bob], cond_refund_keys = None,
      num_sigs = Some 2, sig_flag = if flag then SigAll else SigInputs, num_sigs_refund = None\<rparr>"
    "signing_keys (ck_externs ck) n cs = Ok [bob, alice]"
proof -
  let ?e = "ck_externs ck"
  from assms(2) have sc: "sc = P2PKConditions alice (Some \<lparr>locktime = None, cond_pubkeys = Some [bob], cond_refund_keys = None,
      num_sigs = Some 2, sig_flag = if flag then SigAll else SigInputs, num_sigs_refund = None\<rparr>)" (is "_ = P2PKConditions alice (Some ?cs)")
    by (simp add: two_of_two_def conditions_new_def new_p2pk_def unwrap_or_def split: if_splits)
  from assms(3) sc obtain nonce where sec: "secret p = ck_write_secret ck (nut10_from_conditions nonce (P2PKConditions alice (Some ?cs)))"
    by (auto simp: locked_to_def)
  let ?n = "nut10_from_conditions nonce (P2PKConditions alice (Some ?cs))"
  have n: "nut10_try_from ?e (secret p) = Ok ?n" using assms(1) unfolding lock_laws_def sec sc by blast
  have keys: "key_text_ok ?e alice" "key_text_ok ?e bob" using assms(1) by (simp_all add: lock_laws_def)
  have cs: "conditions_try_from ?e (conditions_to_tags ?cs) = Ok ?cs"
    using keys by (intro conditions_tags_roundtrip) (simp add: conditions_keys_ok_def unwrap_or_def)
  have "signing_keys ?e ?n ?cs = Ok [bob, alice]"
    using pk_from_to_hex [OF keys(1)] by (simp add: signing_keys_def unwrap_or_def)
  with n cs show thesis by (intro that [of ?n ?cs]) (simp_all add: n10_tags_def)
qed

lemma two_of_two_verifies:
  assumes "lock_laws ck [alice, bob] sc" "two_of_two alice bob flag = Ok sc" "locked_to ck sc p"
    and "strs = map (sig_to_string (ck_externs ck)) sigs" "msg = as_bytes (secret p)"
  shows "verify_p2pk (ck_externs ck) now (p\<lparr>witness := Some (P2PKWitness strs)\<rparr>) = Ok ()
    \<longleftrightarrow> distinct (signers (ck_externs ck) msg [bob, alice] sigs) \<and> 2 \<le> card (signer_set (ck_externs ck) msg [bob, alice] sigs)"
proof -
  let ?e = "ck_externs ck"
  from assms(1-3) obtain n cs where n: "nut10_try_from ?e (secret p) = Ok n" "n10_tags n = Some (conditions_to_tags cs)"
    "conditions_try_from ?e (conditions_to_tags cs) = Ok cs" "signing_keys ?e n cs = Ok [bob, alice]"
    and cs: "cs = \<lparr>locktime = None, cond_pubkeys = Some [bob], cond_refund_keys = None,
      num_sigs = Some 2, sig_flag = if flag then SigAll else SigInputs, num_sigs_refund = None\<rparr>"
    by (rule two_of_two_reads)
  have read: "sig_from_str ?e (sig_to_string ?e s) = Some s" for s
    using assms(1) sign_then_verify(2) by (auto simp: lock_laws_def)
  then have all: "\<forall>s \<in> set strs. sig_from_str ?e s \<noteq> None" and the: "sigs = map (the \<circ> sig_from_str ?e) strs"
    using assms(4) by (auto simp: comp_def)
  show ?thesis
    using verify_p2pk_eq [of ?e "p\<lparr>witness := Some (P2PKWitness strs)\<rparr>" n cs strs sigs msg now] n all the assms(5)
    by (simp add: cs locktime_passed_def unwrap_or_def)
qed

text \<open>Signing with a list of keys, one after the other.\<close>

lemma sign_all_inputs:
  "swap_inputs (sign_all_p2pk ck ks req) = map (\<lambda>p. foldl (sign_p2pk (ck_externs ck)) p ks) (swap_inputs req)"
proof -
  have "foldl (\<lambda>ps sk. map (\<lambda>p. sign_p2pk (ck_externs ck) p sk) ps) ps ks = map (\<lambda>p. foldl (sign_p2pk (ck_externs ck)) p ks) ps" for ps
    by (induction ks arbitrary: ps) simp_all
  then show ?thesis by (simp add: sign_all_p2pk_def)
qed

lemma signed_secret [simp]: "secret (foldl (sign_p2pk e) p ks) = secret p"
  by (induction ks arbitrary: p) (simp_all add: sign_p2pk_def Let_def)

lemma two_of_two_signed:
  assumes "alice = sk_public_key (ck_externs ck) a" "bob = sk_public_key (ck_externs ck) b" "lock_laws ck [alice, bob] sc"
    and "apart (ck_externs ck) a b" "apart (ck_externs ck) b a"
    and "two_of_two alice bob flag = Ok sc" "locked_to ck sc p" "ks \<in> {[a, b], [b, a], [a], [b], []}"
  shows "verify_p2pk (ck_externs ck) now (foldl (sign_p2pk (ck_externs ck)) p ks) = Ok () \<longleftrightarrow> ks = [a, b] \<or> ks = [b, a]"
proof -
  let ?e = "ck_externs ck" and ?m = "as_bytes (secret p)"
  have own: "pk_verify ?e alice msg (sk_sign ?e a msg)" "pk_verify ?e bob msg (sk_sign ?e b msg)" for msg
    using assms(1-3) sign_then_verify(1) by (simp_all add: lock_laws_def)
  have other: "\<not> pk_verify ?e alice msg (sk_sign ?e b msg)" "\<not> pk_verify ?e bob msg (sk_sign ?e a msg)" for msg
    using assms(1,2,4,5) by (simp_all add: apart_def)
  have ne: "bob \<noteq> alice" using own other by blast
  then have ab: "a \<noteq> b" using assms(1,2) by auto
  have fresh: "witness p = None" using assms(7) by (simp add: locked_to_def)
  show ?thesis
  proof (cases "ks = []")
    case True
    then show ?thesis using fresh by (auto simp: verify_p2pk_def Let_def)
  next
    case False
    let ?s = "map (\<lambda>k. sk_sign ?e k ?m) ks"
    have once: "sign_p2pk ?e p k = p\<lparr>witness := Some (P2PKWitness [sig_to_string ?e (sk_sign ?e k ?m)])\<rparr>" for k
      using fresh by (simp add: sign_p2pk_def)
    have more: "sign_p2pk ?e (p\<lparr>witness := Some (P2PKWitness xs)\<rparr>) k
        = p\<lparr>witness := Some (P2PKWitness (xs @ [sig_to_string ?e (sk_sign ?e k ?m)]))\<rparr>" for xs k
      by (simp add: sign_p2pk_def)
    have signed: "foldl (sign_p2pk ?e) p ks = p\<lparr>witness := Some (P2PKWitness (map (sig_to_string ?e) ?s))\<rparr>"
      using assms(8) False by (auto simp: once more)
    have "signer_set ?e ?m [bob, alice] ?s = (if a \<in> set ks then {alice} else {}) \<union> (if b \<in> set ks then {bob} else {})"
      using assms(8) False own other by (auto simp: signer_set_def)
    moreover have "distinct (signers ?e ?m [bob, alice] ?s)" using assms(8) False own other ne by (auto simp: signers_def)
    ultimately show ?thesis
      unfolding signed using two_of_two_verifies [OF assms(3,6,7), of _ ?s ?m now] assms(8) False ne ab by auto
  qed
qed

text \<open>
  C11: Tokens that the checker locks to Alice and Bob, each to be signed for itself (without the flag
  for signatures over the whole request), need both keys. In a swap of them signed by both, in either
  order, every input passes the mint's check of its conditions and the request passes the check of its
  signature flag; signed by one of them alone, or by nobody, every input fails the check of its
  conditions and the mint refuses the swap.
\<close>

theorem two_of_two_needs_both:
  assumes "alice = sk_public_key (ck_externs ck) a" "bob = sk_public_key (ck_externs ck) b" "lock_laws ck [alice, bob] sc"
    and "apart (ck_externs ck) a b" "apart (ck_externs ck) b a"
    and "two_of_two alice bob False = Ok sc" "\<forall>p \<in> set (swap_inputs req). locked_to ck sc p"
    and "rt_externs rt = ck_externs ck"
  shows "(\<forall>ks \<in> {[a, b], [b, a]}.
         (\<forall>p \<in> set (swap_inputs (sign_all_p2pk ck ks req)). check_conditions (rt_externs rt) (rt_now rt) p = Ok ())
         \<and> validate_sig_flag (rt_externs rt) (sign_all_p2pk ck ks req) = Ok ())
    \<and> (\<forall>ks \<in> {[a], [b], []}.
         (\<forall>p \<in> set (swap_inputs (sign_all_p2pk ck ks req)). check_conditions (rt_externs rt) (rt_now rt) p \<noteq> Ok ())
         \<and> (\<forall>v. swap_inputs req \<noteq> [] \<longrightarrow> swap_checks rt m (sign_all_p2pk ck ks req) \<noteq> Ok v))"
proof -
  let ?e = "rt_externs rt" and ?in = "\<lambda>ks. swap_inputs (sign_all_p2pk ck ks req)"
  note in_eq = sign_all_inputs [of ck _ req, folded assms(8)]
  have reads: "\<exists>n cs. nut10_try_from ?e (secret p) = Ok n \<and> n10_kind n = P2PK \<and> n10_tags n = Some (conditions_to_tags cs)
      \<and> conditions_try_from ?e (conditions_to_tags cs) = Ok cs \<and> sig_flag cs = SigInputs" if "p \<in> set (swap_inputs req)" for p
    by (rule two_of_two_reads [OF assms(3,6) assms(7) [rule_format, OF that]]) (auto simp: assms(8))
  have cond: "check_conditions ?e (rt_now rt) (foldl (sign_p2pk ?e) p ks) = Ok () \<longleftrightarrow> ks = [a, b] \<or> ks = [b, a]"
    if "p \<in> set (swap_inputs req)" "ks \<in> {[a, b], [b, a], [a], [b], []}" for p ks
    using reads [OF that(1)] two_of_two_signed [OF assms(1-6) assms(7) [rule_format, OF that(1)] that(2), of "rt_now rt"] assms(8)
    by (auto simp: check_conditions_def)
  have flag: "validate_sig_flag ?e (sign_all_p2pk ck ks req) = Ok ()" for ks
  proof -
    have "\<forall>p \<in> set (?in ks). \<exists>n tags cs. nut10_try_from ?e (secret p) = Ok n \<and> n10_tags n = Some tags
        \<and> conditions_try_from ?e tags = Ok cs \<and> sig_flag cs = SigInputs"
      using reads by (fastforce simp: in_eq)
    then obtain f where "enforce_sig_flag ?e (?in ks) = (Ok f :: (Error, EnforceSigFlag) outcome)" "esf_sig_flag f = SigInputs"
      by (rule enforce_sig_inputs)
    then show ?thesis by (simp add: validate_sig_flag_def)
  qed
  have refused: "swap_checks rt m (sign_all_p2pk ck ks req) \<noteq> Ok v"
    if "ks \<in> {[a], [b], []}" "swap_inputs req \<noteq> []" for ks v
  proof
    assume "swap_checks rt m (sign_all_p2pk ck ks req) = Ok v"
    then have "mint_verify_inputs ?e (rt_now rt) m (?in ks) = Ok v" by (auto simp: swap_checks_def)
    from verify_inputs_Ok(5) [OF this] that cond show False by (cases "swap_inputs req") (auto simp: in_eq)
  qed
  show ?thesis
    using cond [of _ "[a, b]"] cond [of _ "[b, a]"] cond [of _ "[a]"] cond [of _ "[b]"] cond [of _ "[]"] flag refused
    by (simp add: in_eq)
qed

text \<open>A reader of secrets that knows one lock and takes the whole text for the nonce.\<close>

definition sample_lock :: SpendingConditions where
  "sample_lock = P2PKConditions (2 # replicate 32 1) (Some \<lparr>locktime = None, cond_pubkeys = Some [2 # replicate 32 2],
     cond_refund_keys = None, num_sigs = Some 2, sig_flag = SigInputs, num_sigs_refund = None\<rparr>)"

definition sample_externs :: externs where
  "sample_externs = toy_externs\<lparr>
     json_from_str := (\<lambda>t. Some (JArray [JString [], JString t])),
     json_kind := (\<lambda>_. Some P2PK),
     json_secret_data := (\<lambda>j. case j of
         JString t \<Rightarrow> Some (n10_data (nut10_from_conditions t sample_lock)) | _ \<Rightarrow> None)\<rparr>"

definition sample_browser :: "unit browser" where
  "sample_browser = \<lparr>br_write_fails = (\<lambda>_ _. False), br_to_json = (\<lambda>_. ''s''), br_of_json = (\<lambda>_. None)\<rparr>"

definition sample_checker :: "'m connector \<Rightarrow> (unit, 'm) checker" where
  "sample_checker mc = \<lparr>ck_externs = sample_externs, ck_overflow_checks = True, ck_browser = sample_browser, ck_mint = mc,
     ck_mnemonic_ok = (\<lambda>_. True), ck_sk_from_str = (\<lambda>s. ok (decode s)),
     ck_write_secret = (\<lambda>n. sd_nonce (n10_data n)), ck_rand_secret = (\<lambda>_. ''x''), ck_rand_nonce = (\<lambda>_. ''y''),
     ck_rand_factor = (\<lambda>_. [1])\<rparr>"

definition sample_proof :: Proof where
  "sample_proof = \<lparr>amount = 1, keyset_id = example_id, secret = ''n'', proof_c = [2, 3], witness = None, dleq = None\<rparr>"

lemma sample_fields [simp]:
  "ck_externs (sample_checker mc) = sample_externs" "ck_mint (sample_checker mc) = mc"
  "ck_browser (sample_checker mc) = sample_browser" "ck_write_secret (sample_checker mc) n = sd_nonce (n10_data n)"
  "sk_public_key sample_externs sk = 2 # sk" "secp_pk_from_str sample_externs t = ok (decode t)"
  by (simp_all add: sample_checker_def sample_externs_def toy_externs_def)

lemma sample_lock_laws: "lock_laws (sample_checker mc) [2 # replicate 32 1, 2 # replicate 32 2] sample_lock"
proof -
  have "schnorr_laws sample_externs" by (simp add: schnorr_laws_def sample_externs_def toy_externs_def)
  then show ?thesis
    by (simp add: lock_laws_def key_text_ok_def nut10_try_from_def visit_seq_def sample_externs_def sample_lock_def toy_externs_def)
qed

definition sample_request :: SwapRequest where
  "sample_request = \<lparr>swap_inputs = [sample_proof], swap_outputs = []\<rparr>"

definition sample_runtime :: runtime where
  "sample_runtime = (demo_rt no_faults)\<lparr>rt_externs := sample_externs\<rparr>"

theorem two_of_two_needs_both_witness:
  "check_conditions sample_externs 0 (sign_p2pk sample_externs (sign_p2pk sample_externs sample_proof (replicate 32 1)) (replicate 32 2)) = Ok ()
   \<and> validate_sig_flag sample_externs (sign_all_p2pk (sample_checker (undefined :: unit connector)) [replicate 32 1, replicate 32 2] sample_request) = Ok ()
   \<and> check_conditions sample_externs 0 (sign_p2pk sample_externs sample_proof (replicate 32 1)) \<noteq> Ok ()
   \<and> (\<forall>v. swap_checks sample_runtime demo_mint (sign_all_p2pk (sample_checker (undefined :: unit connector)) [replicate 32 1] sample_request) \<noteq> Ok v)"
proof -
  let ?ck = "sample_checker (undefined :: unit connector)"
  have "two_of_two (2 # replicate 32 1) (2 # replicate 32 2) False = Ok sample_lock"
    by (simp add: two_of_two_def conditions_new_def new_p2pk_def unwrap_or_def sample_lock_def)
  moreover have "apart sample_externs (replicate 32 1) (replicate 32 2)" "apart sample_externs (replicate 32 2) (replicate 32 1)"
    by (simp_all add: apart_def pk_verify_def sk_sign_def x_only_public_key_def sample_externs_def toy_externs_def)
  moreover have "locked_to ?ck sample_lock sample_proof"
    by (auto simp: locked_to_def sample_proof_def sample_lock_def)
  moreover have "rt_externs sample_runtime = sample_externs" "rt_now sample_runtime = 0"
    by (simp_all add: sample_runtime_def demo_rt_def)
  ultimately show ?thesis
    using two_of_two_needs_both [of _ ?ck "replicate 32 1" _ "replicate 32 2" sample_lock sample_request sample_runtime demo_mint, OF refl refl]
      sample_lock_laws [of "undefined :: unit connector"]
    by (simp add: sign_all_p2pk_def sample_request_def)
qed

end
