(* ===== verification/CheckerMint.thy ===== *)
theory CheckerMint
  imports CheckerProps SwapProps MintQuery
begin

text \<open>
  The checker and the mint put together: the rows of the checker's store stay well formed under every
  call of the page, a swap leaves the store and the mint's database in agreement or the inputs pending,
  and a check of the states brings the two into agreement again.
\<close>

section \<open>Steps of a session\<close>

lemma and_do_Ok_iff:
  "and_do f g s = (Ok b, t) \<longleftrightarrow> (\<exists>a s1. f s = (Ok a, s1) \<and> g a s1 = (Ok b, t))"
  by (auto simp: and_do_def split: prod.splits outcome.splits)

text \<open>The database after a change that could be written.\<close>

definition saved :: "'i browser \<Rightarrow> ('i WalletState \<Rightarrow> 'i WalletState) \<Rightarrow> 'i LocalStorageWalletDatabase \<Rightarrow> 'i LocalStorageWalletDatabase" where
  "saved br f db = db\<lparr>ls_state := f (ls_state db),
     ls_storage := (ls_storage db)(ls_storage_key db \<mapsto> br_to_json br (f (ls_state db)))\<rparr>"

definition writes_work :: "'i browser \<Rightarrow> bool" where
  "writes_work br \<longleftrightarrow> (\<forall>key json. \<not> br_write_fails br key json)"

lemma and_save_works: "writes_work br \<Longrightarrow> and_save br f db = (Ok (), saved br f db)"
  by (simp add: writes_work_def and_save_def save_snapshot_def saved_def Let_def)

lemma on_store_save_Ok:
  "on_store h (and_save br f) s = (Ok (), s') \<Longrightarrow> s' = s\<lparr>ses_db := saved br f (ses_db s)\<rparr>"
  by (auto simp: on_store_def and_save_def save_snapshot_def saved_def Let_def split: if_splits)

lemma on_store_save:
  "writes_work br \<Longrightarrow> on_store h (and_save br f) s = (Ok (), s\<lparr>ses_db := saved br f (ses_db s)\<rparr>)"
  by (simp add: on_store_def and_save_works)

lemma saved_state [simp]: "ls_state (saved br f db) = f (ls_state db)"
  by (simp add: saved_def)

section \<open>Well-formed rows\<close>

text \<open>
  In a well-formed row the point that identifies the token and the spending condition are those of
  the token's secret. It is required of the rows in memory and of every stored text.
\<close>

definition info_ok :: "externs \<Rightarrow> ProofInfo \<Rightarrow> bool" where
  "info_ok e p \<longleftrightarrow> proof_y e (pi_proof p) = Ok (pi_y p)
     \<and> sc_try_from_secret e (secret (pi_proof p)) \<noteq> Panic
     \<and> pi_spending_condition p = ok (sc_try_from_secret e (secret (pi_proof p)))"

definition session_ok :: "('i, 'm) checker \<Rightarrow> ('i, 'm) session \<Rightarrow> bool" where
  "session_ok ck s \<longleftrightarrow> list_all (info_ok (ck_externs ck)) (ws_proofs (ls_state (ses_db s)))
     \<and> (\<forall>key st. load_from_localstorage (ck_browser ck) key (ls_storage (ses_db s)) = Some st
          \<longrightarrow> list_all (info_ok (ck_externs ck)) (ws_proofs st))"

text \<open>What the serialiser reads from a text it wrote is the state it wrote, if it reads it at all.\<close>

definition reads_back :: "'i browser \<Rightarrow> bool" where
  "reads_back br \<longleftrightarrow> (\<forall>st st'. br_of_json br (br_to_json br st) = Some st' \<longrightarrow> st' = st)"

definition preserves :: "('s \<Rightarrow> bool) \<Rightarrow> ('s \<Rightarrow> 'r \<times> 's) \<Rightarrow> bool" where
  "preserves P f \<longleftrightarrow> (\<forall>s. P s \<longrightarrow> P (snd (f s)))"

lemma preservesD: "preserves P f \<Longrightarrow> f s = (r, t) \<Longrightarrow> P s \<Longrightarrow> P t"
  by (metis preserves_def snd_conv)

lemma preserves_snd: "preserves P f \<Longrightarrow> P s \<Longrightarrow> P (snd (f s))"
  by (simp add: preserves_def)

lemma info_ok_new: "proof_info_new e p url st u = Ok info \<Longrightarrow> info_ok e info"
  by (auto simp: info_ok_def proof_info_new_Ok_iff)

lemma info_ok_state [simp]: "info_ok e (p\<lparr>pi_state := st\<rparr>) = info_ok e p"
  by (simp add: info_ok_def)

named_theorems preserves_rules

lemma preserves_give [preserves_rules]: "preserves P (give r)"
  by (simp add: preserves_def give_def)

lemma preserves_read [preserves_rules]: "preserves P (read_store f)"
  by (simp add: preserves_def read_store_def)

lemma preserves_and_do [preserves_rules]:
  assumes "preserves P f" "\<And>a. preserves P (g a)"
  shows "preserves P (and_do f g)"
  unfolding preserves_def
proof (intro allI impI)
  fix s assume s: "P s"
  obtain r t where f: "f s = (r, t)" by fastforce
  have "P t" by (rule preservesD [OF assms(1) f s])
  then show "P (snd (and_do f g s))" using assms(2) f by (cases r) (simp_all add: and_do_def preserves_def)
qed

lemma preserves_as_js [preserves_rules]: "preserves P f \<Longrightarrow> preserves P (as_js h f)"
  by (simp add: preserves_def as_js_def split: prod.splits) (metis snd_conv)

lemma preserves_prod [preserves_rules]: "(\<And>a b. preserves P (f a b)) \<Longrightarrow> preserves P (case x of (a, b) \<Rightarrow> f a b)"
  by (cases x) simp

lemma session_ok_mint [simp]: "session_ok ck (s\<lparr>ses_mint := m\<rparr>) = session_ok ck s"
  by (simp add: session_ok_def)

lemma preserves_on_mint [preserves_rules]: "preserves (session_ok ck) (on_mint h f)"
  by (simp add: preserves_def on_mint_def split: prod.splits)

lemma session_ok_write:
  assumes "reads_back (ck_browser ck)" "session_ok ck s" "list_all (info_ok (ck_externs ck)) (ws_proofs (ls_state db))"
    and "ls_storage db = ls_storage (ses_db s)"
  shows "session_ok ck (s\<lparr>ses_db := snd (save_snapshot (ck_browser ck) db)\<rparr>)"
  using assms by (auto simp: session_ok_def save_snapshot_def load_from_localstorage_def reads_back_def Let_def split: if_splits)

lemma preserves_save:
  assumes "reads_back (ck_browser ck)"
    and "\<And>st. list_all (info_ok (ck_externs ck)) (ws_proofs st) \<Longrightarrow> list_all (info_ok (ck_externs ck)) (ws_proofs (f st))"
  shows "preserves (session_ok ck) (on_store h (and_save (ck_browser ck) f))"
  unfolding preserves_def
proof (intro allI impI)
  fix s assume s: "session_ok ck s"
  then have "list_all (info_ok (ck_externs ck)) (ws_proofs (f (ls_state (ses_db s))))"
    using assms(2) by (simp add: session_ok_def)
  then show "session_ok ck (snd (on_store h (and_save (ck_browser ck) f) s))"
    using session_ok_write [OF assms(1) s, of "(ses_db s)\<lparr>ls_state := f (ls_state (ses_db s))\<rparr>"]
    by (simp add: on_store_def and_save_def split: prod.splits) (metis snd_conv)
qed

lemma preserves_states [preserves_rules]:
  "reads_back (ck_browser ck) \<Longrightarrow> preserves (session_ok ck) (on_store h (local_update_proofs_state (ck_browser ck) yl st))"
  unfolding local_update_proofs_state_def by (rule preserves_save) (auto simp: local_set_states_def list_all_iff)

lemma preserves_update [preserves_rules]:
  "reads_back (ck_browser ck) \<Longrightarrow> list_all (info_ok (ck_externs ck)) added
     \<Longrightarrow> preserves (session_ok ck) (on_store h (local_update_proofs (ck_browser ck) added removed))"
  unfolding local_update_proofs_def by (rule preserves_save) (auto simp: local_set_proofs_def list_all_iff)

lemma preserves_open [preserves_rules]: "reads_back (ck_browser ck) \<Longrightarrow> preserves (session_ok ck) (open_store ck url)"
  unfolding preserves_def
proof (intro allI impI)
  fix s assume r: "reads_back (ck_browser ck)" and s: "session_ok ck s"
  let ?db = "\<lparr>ls_state = (case load_from_localstorage (ck_browser ck) (storage_key_of url) (ls_storage (ses_db s)) of
      Some st \<Rightarrow> st | None \<Rightarrow> wallet_state_default), ls_storage_key = storage_key_of url, ls_storage = ls_storage (ses_db s)\<rparr>"
  have "list_all (info_ok (ck_externs ck)) (ws_proofs (ls_state ?db))"
    using s by (auto simp: session_ok_def wallet_state_default_def split: option.split)
  from session_ok_write [OF r s this] show "session_ok ck (snd (open_store ck url s))"
    by (simp add: open_store_def on_store_def local_new_def split: prod.splits) (metis snd_conv)
qed

lemma preserves_store_proof [preserves_rules]: "reads_back (ck_browser ck) \<Longrightarrow> preserves (session_ok ck) (store_proof ck url p)"
  unfolding preserves_def
proof (intro allI impI)
  fix s assume r: "reads_back (ck_browser ck)" and s: "session_ok ck s"
  show "session_ok ck (snd (store_proof ck url p s))"
  proof (cases "proof_info_new (ck_externs ck) p url Unspent Sat")
    case (Ok info)
    then have "preserves (session_ok ck) (on_store JsStore (local_update_proofs (ck_browser ck) [info] []))"
      using r info_ok_new by (intro preserves_update) simp_all
    then show ?thesis using s Ok by (simp add: preserves_def store_proof_def and_do_def give_def)
  qed (use s in \<open>simp_all add: store_proof_def and_do_def give_def\<close>)
qed

lemma preserves_store_proofs [preserves_rules]: "reads_back (ck_browser ck) \<Longrightarrow> preserves (session_ok ck) (store_proofs ck url ps)"
  by (induction ps) (auto intro!: preserves_rules)

lemma preserves_sync [preserves_rules]: "reads_back (ck_browser ck) \<Longrightarrow> preserves (session_ok ck) (sync_states ck ps changes)"
  by (induction ck ps changes rule: sync_states.induct) (auto intro!: preserves_rules)

lemma preserves_open_wallet [preserves_rules]: "reads_back (ck_browser ck) \<Longrightarrow> preserves (session_ok ck) (open_wallet ck u w)"
  by (auto simp: open_wallet_def intro!: preserves_rules)

lemma preserves_asks [preserves_rules]:
  "preserves (session_ok ck) (active_keyset_id ck)" "preserves (session_ok ck) (keys_of_keyset ck i)"
  "preserves (session_ok ck) (inputs_for ck url target)"
  by (auto simp: active_keyset_id_def keys_of_keyset_def inputs_for_def intro!: preserves_rules)

lemma preserves_lock_prepare: "reads_back (ck_browser ck) \<Longrightarrow> preserves (session_ok ck) (lock_prepare ck u w a b f)"
  by (auto simp: lock_prepare_def intro!: preserves_rules)

lemma preserves_safe_swap [preserves_rules]: "reads_back (ck_browser ck) \<Longrightarrow> preserves (session_ok ck) (safe_swap ck req yl)"
  by (auto simp: safe_swap_def intro!: preserves_rules)

lemma preserves_lock_finish: "reads_back (ck_browser ck) \<Longrightarrow> preserves (session_ok ck) (lock_finish ck url inputs i locked change)"
  by (auto simp: lock_finish_def unblind_all_def Let_def intro!: preserves_rules)

lemma preserves_lock:
  assumes "reads_back (ck_browser ck)" "session_ok ck s" "swap_to_p2pk_2of2 ck u w a b ds f s = Some (r, s')"
  shows "session_ok ck s'"
proof -
  obtain r1 s1 where p: "lock_prepare ck u w a b f s = (r1, s1)" by fastforce
  have s1: "session_ok ck s1" by (rule preservesD [OF preserves_lock_prepare [OF assms(1)] p assms(2)])
  have fin: "session_ok ck t" if "lock_finish ck url inputs i locked change s1 = (x, t)" for url inputs i locked change x t
    by (rule preservesD [OF preserves_lock_finish [OF assms(1)] that s1])
  show ?thesis
  proof (cases r1)
    case (Ok x)
    obtain url inputs t i locked where x: "x = (url, inputs, t, i, locked)" by (metis prod_cases5)
    show ?thesis
    proof (cases "t - 3 = 0")
      case True
      then show ?thesis using assms(3) p Ok x fin by (simp add: swap_to_p2pk_2of2_def)
    next
      case False
      then obtain z where z: "(case z of Ok ds \<Rightarrow> lock_finish ck url inputs i locked ds s1 | Err x \<Rightarrow> (Err x, s1) | Panic \<Rightarrow> (Panic, s1)) = (r, s')"
        using assms(3) p Ok x by (auto simp: swap_to_p2pk_2of2_def)
      show ?thesis using z s1 fin by (cases z) auto
    qed
  qed (use assms(3) p s1 in \<open>simp_all add: swap_to_p2pk_2of2_def\<close>)
qed

subsection \<open>Contexts\<close>

text \<open>The page holds contexts, whose stores live on beside the one a call has opened.\<close>

definition context_ok :: "externs \<Rightarrow> 'i test_context \<Rightarrow> bool" where
  "context_ok e tc \<longleftrightarrow> list_all (info_ok e) (ws_proofs (tc_state tc))"

lemma seen_by_ok: "context_ok (ck_externs ck) tc \<Longrightarrow> session_ok ck s \<Longrightarrow> session_ok ck (seen_by tc s)"
  by (simp add: context_ok_def session_ok_def seen_by_def)

lemma in_context_keeps:
  assumes "preserves (session_ok ck) (f tc)" "in_context f tc s = (r, tc', s')"
    and "context_ok (ck_externs ck) tc" "session_ok ck s"
  shows "context_ok (ck_externs ck) tc' \<and> session_ok ck s'"
proof -
  obtain t where t: "f tc (seen_by tc s) = (r, t)" "tc' = tc\<lparr>tc_state := ls_state (ses_db t)\<rparr>"
    "s' = s\<lparr>ses_db := (ses_db s)\<lparr>ls_storage := ls_storage (ses_db t)\<rparr>, ses_mint := ses_mint t\<rparr>"
    using assms(2) by (auto simp: in_context_def split: prod.splits)
  have "session_ok ck t" by (rule preservesD [OF assms(1) t(1) seen_by_ok [OF assms(3,4)]])
  then show ?thesis using assms(4) by (auto simp: t(2,3) context_ok_def session_ok_def)
qed

lemma preserves_context_swap:
  assumes "reads_back (ck_browser ck)"
  shows "preserves (session_ok ck)
    (and_do (on_store JsStore (local_update_proofs_state (ck_browser ck) yl Pending)) (\<lambda>_ s.
     case mc_swap (ck_mint ck) req (ses_mint s) of
       (Ok sigs, m) \<Rightarrow>
         and_do (on_store JsStore (local_update_proofs (ck_browser ck) [] yl)) (\<lambda>_. give (Ok (Inr sigs))) (s\<lparr>ses_mint := m\<rparr>)
     | (Err x, m) \<Rightarrow> (Ok (Inl x), s\<lparr>ses_mint := m\<rparr>)
     | (Panic, m) \<Rightarrow> (Panic, s\<lparr>ses_mint := m\<rparr>)))"
proof -
  have after: "session_ok ck (snd (and_do (on_store JsStore (local_update_proofs (ck_browser ck) [] yl)) (\<lambda>_. give (Ok x)) s))"
    if "session_ok ck s" for s and x :: "Error + BlindSignature list"
    by (rule preserves_snd [OF preserves_and_do [OF preserves_update preserves_give]]) (use that assms in simp_all)
  show ?thesis
    by (rule preserves_and_do [OF preserves_states [OF assms]])
      (auto simp: preserves_def intro!: after split: prod.splits outcome.splits)
qed

lemma context_steps_keep:
  assumes "reads_back (ck_browser ck)" "context_ok (ck_externs ck) tc" "session_ok ck s"
  shows "tc_get_proofs_to_spend ck a tc s = (r1, tc', s') \<Longrightarrow> context_ok (ck_externs ck) tc' \<and> session_ok ck s'"
    "tc_submit_swap ck req yl tc s = (r2, tc', s') \<Longrightarrow> context_ok (ck_externs ck) tc' \<and> session_ok ck s'"
    "tc_add_proofs_to_wallet ck ps tc s = (r3, tc', s') \<Longrightarrow> context_ok (ck_externs ck) tc' \<and> session_ok ck s'"
  unfolding tc_get_proofs_to_spend_def tc_submit_swap_def tc_add_proofs_to_wallet_def
  by (erule in_context_keeps [rotated]; use assms in \<open>auto intro!: preserves_rules preserves_context_swap\<close>)+

lemma context_new_ok:
  assumes "reads_back (ck_browser ck)" "session_ok ck s" "test_context_new ck u w s = (r, s')"
  shows "session_ok ck s' \<and> (\<forall>tc. r = Ok tc \<longrightarrow> context_ok (ck_externs ck) tc)"
proof -
  have last: "preserves (session_ok ck) (\<lambda>s. (r s, s))" for r :: "('a, 'b) session \<Rightarrow> (js_error, 'a test_context) outcome"
    by (simp add: preserves_def)
  have "preserves (session_ok ck) (test_context_new ck u w)"
    using assms(1) unfolding test_context_new_def by (intro preserves_rules last)
  from preserves_snd [OF this assms(2)] have "session_ok ck s'" by (simp add: assms(3))
  moreover have "tc_state tc = ls_state (ses_db s')" if "r = Ok tc" for tc
    using assms(3) that by (auto simp: test_context_new_def and_do_Ok_iff)
  ultimately show ?thesis by (simp add: context_ok_def session_ok_def)
qed

subsection \<open>Calls that go through the wallet library\<close>

text \<open>
  \<open>mint_tokens\<close>, \<open>create_token\<close> and the two calls about quotes open the store and hand it to the wallet
  library (\<^verbatim>\<open>crates/cdk/src/wallet\<close>). What the library does to the store is taken here at its widest:
  any number of changes, each of which adds rows made by \<open>ProofInfo::new\<close> and removes any, sets
  the state of any, or touches the rest of the store only.
\<close>

inductive library_change :: "('i, 'm) checker \<Rightarrow> ('i, 'm) session \<Rightarrow> ('i, 'm) session \<Rightarrow> bool" for ck where
  rows: "list_all (\<lambda>q. \<exists>p url st u. proof_info_new (ck_externs ck) p url st u = Ok q) added
    \<Longrightarrow> on_store JsStore (local_update_proofs (ck_browser ck) added removed) s = (r, s') \<Longrightarrow> library_change ck s s'"
| states: "on_store JsStore (local_update_proofs_state (ck_browser ck) yl st) s = (r, s') \<Longrightarrow> library_change ck s s'"
| rest: "(\<And>st. ws_proofs (f st) = ws_proofs st) \<Longrightarrow> on_store JsStore (and_save (ck_browser ck) f) s = (r, s')
    \<Longrightarrow> library_change ck s s'"

lemma library_change_keeps:
  assumes "reads_back (ck_browser ck)" "library_change ck s s'" "session_ok ck s"
  shows "session_ok ck s'"
  using assms(2,3)
proof cases
  case (rows added removed r)
  from rows(1) have "list_all (info_ok (ck_externs ck)) added" by (auto simp: list_all_iff dest: info_ok_new)
  from preservesD [OF preserves_update [OF assms(1) this] rows(2) assms(3)] show ?thesis .
next
  case (states yl st r)
  from preservesD [OF preserves_states [OF assms(1)] this assms(3)] show ?thesis .
next
  case (rest f r)
  from preservesD [OF preserves_save [OF assms(1)] rest(2) assms(3)] rest(1) show ?thesis by simp
qed

text \<open>The calls of the page that may change a store; between them the mint moves as it likes.\<close>

type_synonym ('i, 'm) page = "('i, 'm) session \<times> 'i test_context list"

inductive page_step :: "('i, 'm) checker \<Rightarrow> ('i, 'm) page \<Rightarrow> ('i, 'm) page \<Rightarrow> bool" for ck where
  lock: "swap_to_p2pk_2of2 ck u w a b ds f s = Some (r1, s') \<Longrightarrow> page_step ck (s, cs) (s', cs)"
| add: "add_proofs_to_wallet ck u w ps s = (r2, s') \<Longrightarrow> page_step ck (s, cs) (s', cs)"
| check: "check_proofs_state ck u w s = (r3, s') \<Longrightarrow> page_step ck (s, cs) (s', cs)"
| balances: "get_wallet_balance_by_state ck u w s = (r4, s') \<Longrightarrow> page_step ck (s, cs) (s', cs)"
| balance: "get_wallet_balance ck u w s = (r5, s') \<Longrightarrow> page_step ck (s, cs) (s', cs)"
| create: "create_wallet ck u w s = (r6, s') \<Longrightarrow> page_step ck (s, cs) (s', cs)"
| library: "open_wallet ck u w s = (r7, s1) \<Longrightarrow> (library_change ck)\<^sup>*\<^sup>* s1 s' \<Longrightarrow> page_step ck (s, cs) (s', cs)"
| context_new: "test_context_new ck u w s = (Ok tc, s') \<Longrightarrow> page_step ck (s, cs) (s', cs @ [tc])"
| context_failed: "test_context_new ck u w s = (r8, s') \<Longrightarrow> page_step ck (s, cs) (s', cs)"
| context_get: "k < length cs \<Longrightarrow> tc_get_proofs_to_spend ck amt (cs ! k) s = (r9, tc, s') \<Longrightarrow> page_step ck (s, cs) (s', cs[k := tc])"
| context_swap: "k < length cs \<Longrightarrow> tc_submit_swap ck req yl (cs ! k) s = (r10, tc, s') \<Longrightarrow> page_step ck (s, cs) (s', cs[k := tc])"
| context_add: "k < length cs \<Longrightarrow> tc_add_proofs_to_wallet ck ps (cs ! k) s = (r11, tc, s') \<Longrightarrow> page_step ck (s, cs) (s', cs[k := tc])"
| mint: "page_step ck (s, cs) (s\<lparr>ses_mint := m\<rparr>, cs)"

definition page_ok :: "('i, 'm) checker \<Rightarrow> ('i, 'm) page \<Rightarrow> bool" where
  "page_ok ck pg \<longleftrightarrow> session_ok ck (fst pg) \<and> list_all (context_ok (ck_externs ck)) (snd pg)"

lemma preserves_calls:
  assumes "reads_back (ck_browser ck)"
  shows "preserves (session_ok ck) (add_proofs_to_wallet ck u w ps)" "preserves (session_ok ck) (check_proofs_state ck u w)"
    "preserves (session_ok ck) (get_wallet_balance_by_state ck u w)" "preserves (session_ok ck) (get_wallet_balance ck u w)"
    "preserves (session_ok ck) (create_wallet ck u w)"
  using assms by (auto simp: add_proofs_to_wallet_def check_proofs_state_def get_wallet_balance_by_state_def
      get_wallet_balance_def create_wallet_def Let_def intro!: preserves_rules)

lemma page_ok_update:
  "page_ok ck (s, cs) \<Longrightarrow> context_ok (ck_externs ck) tc \<and> session_ok ck s' \<Longrightarrow> page_ok ck (s', cs[k := tc])"
  by (auto simp: page_ok_def list_all_iff dest: set_update_subset_insert [THEN subsetD])

lemma page_ok_nth: "page_ok ck (s, cs) \<Longrightarrow> k < length cs \<Longrightarrow> context_ok (ck_externs ck) (cs ! k)"
  by (simp add: page_ok_def list_all_length)

lemma page_step_keeps:
  assumes "reads_back (ck_browser ck)" "page_step ck pg pg'" "page_ok ck pg"
  shows "page_ok ck pg'"
  using assms(2,3)
proof (induction rule: page_step.induct)
  case (lock u w a b ds f s r1 s' cs)
  then show ?case using preserves_lock [OF assms(1)] by (auto simp: page_ok_def)
next
  case (library u w s r7 s1 s' cs)
  then have "session_ok ck s1" using preservesD [OF preserves_open_wallet [OF assms(1)]] by (auto simp: page_ok_def)
  with library(2) have "session_ok ck s'" by (induction rule: rtranclp_induct) (auto intro: library_change_keeps [OF assms(1)])
  then show ?case using library(3) by (simp add: page_ok_def)
next
  case (context_new u w s tc s' cs)
  then show ?case using context_new_ok [OF assms(1)] by (auto simp: page_ok_def)
next
  case (context_failed u w s r8 s' cs)
  then show ?case using context_new_ok [OF assms(1)] by (auto simp: page_ok_def)
next
  case (context_get k cs amt s r9 tc s')
  have "session_ok ck s" using context_get(3) by (simp add: page_ok_def)
  from context_steps_keep(1) [OF assms(1) page_ok_nth [OF context_get(3,1)] this context_get(2)]
  show ?case by (rule page_ok_update [OF context_get(3)])
next
  case (context_swap k cs req yl s r10 tc s')
  have "session_ok ck s" using context_swap(3) by (simp add: page_ok_def)
  from context_steps_keep(2) [OF assms(1) page_ok_nth [OF context_swap(3,1)] this context_swap(2)]
  show ?case by (rule page_ok_update [OF context_swap(3)])
next
  case (context_add k cs ps s r11 tc s')
  have "session_ok ck s" using context_add(3) by (simp add: page_ok_def)
  from context_steps_keep(3) [OF assms(1) page_ok_nth [OF context_add(3,1)] this context_add(2)]
  show ?case by (rule page_ok_update [OF context_add(3)])
qed (auto simp: page_ok_def dest: preserves_calls [OF assms(1), THEN preservesD])

text \<open>
  C9: The rows of the checker's stores are well formed and stay so. Started from well-formed rows or
  none, after any calls of the page in any order, on the stores the calls open and on those its test
  contexts hold, whichever writes fail and whatever the mint answers, every row, in memory and in the
  browser's storage, is identified by the point of its token's secret and carries the spending
  condition of that secret. The calls that pass through the wallet library (minting, sending, quotes)
  are taken at their widest: they add rows made by \<open>ProofInfo::new\<close>, remove rows and set states at will.
\<close>

theorem page_keeps_rows:
  assumes "reads_back (ck_browser ck)" "(page_step ck)\<^sup>*\<^sup>* pg pg'" "page_ok ck pg"
  shows "page_ok ck pg'"
  using assms(2,3) by (induction rule: rtranclp_induct) (auto intro: page_step_keeps [OF assms(1)])

text \<open>A browser that reads the empty state only, and a mint that has no keysets.\<close>

definition small_browser :: "unit browser" where
  "small_browser = \<lparr>br_write_fails = (\<lambda>_ _. False), br_to_json = (\<lambda>st. if st = wallet_state_default then ''e'' else ''s''),
     br_of_json = (\<lambda>t. if t = ''e'' then Some wallet_state_default else None)\<rparr>"

definition silent_mint :: "unit connector" where
  "silent_mint = \<lparr>mc_keysets = (\<lambda>m. (Ok [], m)), mc_keys = (\<lambda>m. (Ok [], m)), mc_swap = (\<lambda>_ m. (Ok [], m)),
     mc_check = (\<lambda>yl m. (Ok (map (\<lambda>y. \<lparr>ps_y = y, ps_state = Unspent, ps_witness = None\<rparr>) yl), m))\<rparr>"

definition small_checker :: "'m connector \<Rightarrow> (unit, 'm) checker" where
  "small_checker mc = (sample_checker mc)\<lparr>ck_externs := toy_externs, ck_browser := small_browser\<rparr>"

definition empty_session :: "'m \<Rightarrow> (unit, 'm) session" where
  "empty_session m = \<lparr>ses_db = \<lparr>ls_state = wallet_state_default, ls_storage_key = ''k'', ls_storage = (\<lambda>_. None)\<rparr>, ses_mint = m\<rparr>"

definition small_context :: "unit test_context" where
  "small_context = \<lparr>tc_url = ''https://m'', tc_state = wallet_state_default, tc_storage_key = ''w'',
     tc_keyset_id = example_id, tc_keys = []\<rparr>"

definition small_info :: "State \<Rightarrow> ProofInfo" where
  "small_info st = \<lparr>pi_proof = toy_proof ''x'', pi_y = [2, 1], pi_mint_url = ''https://m'', pi_state = st,
     pi_spending_condition = None, pi_unit = Sat\<rparr>"

lemma small_fields [simp]:
  "ck_externs (small_checker mc) = toy_externs" "ck_browser (small_checker mc) = small_browser"
  "ck_mint (small_checker mc) = mc" "writes_work small_browser"
  by (simp_all add: writes_work_def small_checker_def sample_checker_def small_browser_def)

lemma small_reads_back: "reads_back small_browser"
  by (simp add: reads_back_def small_browser_def)

lemma small_new: "proof_info_new toy_externs (toy_proof ''x'') ''https://m'' st Sat = Ok (small_info st)"
proof -
  have "nut10_try_from toy_externs t = Err SerdeError" for t
    by (simp add: nut10_try_from_def toy_externs_def)
  then have sc: "\<exists>x. sc_try_from_secret toy_externs ''x'' = Err x" by (simp add: sc_try_from_secret_def)
  have "proof_y toy_externs (toy_proof ''x'') = Ok [2, 1]"
    by (simp add: proof_y_def toy_proof_def hash_to_curve_def hash_to_curve_from.simps toy_externs_def)
  then show ?thesis using sc by (auto simp: proof_info_new_Ok_iff small_info_def toy_proof_def)
qed

lemma small_context_add:
  "tc_add_proofs_to_wallet (small_checker silent_mint) [toy_proof ''x''] small_context (empty_session ())
     = (Ok (), small_context\<lparr>tc_state := wallet_state_default\<lparr>ws_proofs := [small_info Unspent]\<rparr>\<rparr>,
        (empty_session ())\<lparr>ses_db := (ses_db (empty_session ()))\<lparr>ls_storage := [''w'' \<mapsto> ''s'']\<rparr>\<rparr>)"
  by (simp add: tc_add_proofs_to_wallet_def in_context_def seen_by_def small_context_def store_proof_def small_new and_do_def give_def
      local_update_proofs_def on_store_save local_set_proofs_def)
    (simp add: saved_def local_set_proofs_def empty_session_def wallet_state_default_def small_browser_def)

theorem page_keeps_rows_witness:
  "\<exists>tc s. (page_step (small_checker silent_mint))\<^sup>*\<^sup>* (empty_session (), [small_context]) (s, [tc])
     \<and> page_ok (small_checker silent_mint) (s, [tc])
     \<and> ws_proofs (tc_state tc) = [small_info Unspent] \<and> ls_storage (ses_db s) ''w'' = Some ''s''"
proof -
  let ?ck = "small_checker silent_mint" and ?pg = "(empty_session (), [small_context])"
  obtain tc s where add: "tc_add_proofs_to_wallet ?ck [toy_proof ''x''] small_context (empty_session ()) = (Ok (), tc, s)"
    "ws_proofs (tc_state tc) = [small_info Unspent]" "ls_storage (ses_db s) ''w'' = Some ''s''"
    by (rule that [OF small_context_add]) simp_all
  have "page_step ?ck ?pg (s, [tc])" using page_step.context_add [of 0 "[small_context]"] add(1) by simp
  then have run: "(page_step ?ck)\<^sup>*\<^sup>* ?pg (s, [tc])" by blast
  have "page_ok ?ck ?pg"
    by (simp add: page_ok_def context_ok_def small_context_def session_ok_def empty_session_def wallet_state_default_def load_from_localstorage_def)
  then have "page_ok ?ck (s, [tc])" using small_reads_back by (intro page_keeps_rows [OF _ run]) simp_all
  then show ?thesis using run add(2,3) by blast
qed

text \<open>
  A context writes its own copy of the store over whatever the storage holds: after a swap through
  it, what the next call reads under its key are rows that the context had, so rows that another
  call stored there since the context was made are lost.
\<close>

theorem context_overwrites_rows:
  assumes "writes_work (ck_browser ck)" "tc_submit_swap ck req yl tc s = (r, tc', s')"
  shows "ls_storage (ses_db s') (tc_storage_key tc) = Some (br_to_json (ck_browser ck) (tc_state tc'))
    \<and> pi_y ` set (ws_proofs (tc_state tc')) \<subseteq> pi_y ` set (ws_proofs (tc_state tc))"
proof -
  have after: "on_store h (local_update_proofs_state (ck_browser ck) yl st) t
      = (Ok (), t\<lparr>ses_db := saved (ck_browser ck) (local_set_states yl st) (ses_db t)\<rparr>)"
    "on_store h (local_update_proofs (ck_browser ck) [] yl) t
      = (Ok (), t\<lparr>ses_db := saved (ck_browser ck) (local_set_proofs [] yl) (ses_db t)\<rparr>)"
    for h :: "db_error \<Rightarrow> js_error" and st and t :: "('a, 'b) session"
    by (simp_all add: local_update_proofs_state_def local_update_proofs_def on_store_save [OF assms(1)])
  show ?thesis
    using assms(2)
    by (auto simp: tc_submit_swap_def in_context_def seen_by_def and_do_def give_def after saved_def local_set_states_def
        local_set_proofs_def split: prod.splits outcome.splits)
qed

theorem context_overwrites_rows_witness:
  "\<exists>r tc' s'. tc_submit_swap (small_checker silent_mint) \<lparr>swap_inputs = [], swap_outputs = []\<rparr> [] small_context
       ((empty_session ())\<lparr>ses_db := (ses_db (empty_session ()))\<lparr>ls_storage := [''w'' \<mapsto> ''s'']\<rparr>\<rparr>) = (r, tc', s')
     \<and> ls_storage (ses_db s') ''w'' = Some (br_to_json small_browser (tc_state tc'))
     \<and> ws_proofs (tc_state tc') = []"
proof -
  obtain r tc' s' where run: "tc_submit_swap (small_checker silent_mint) \<lparr>swap_inputs = [], swap_outputs = []\<rparr> [] small_context
      ((empty_session ())\<lparr>ses_db := (ses_db (empty_session ()))\<lparr>ls_storage := [''w'' \<mapsto> ''s'']\<rparr>\<rparr>) = (r, tc', s')"
    using prod_cases3 by blast
  from context_overwrites_rows [OF _ run] run show ?thesis
    by (auto simp: small_context_def wallet_state_default_def)
qed

section \<open>A checker in front of the mint\<close>

text \<open>
  The requests of the checker answered by the mint of this development: an error arrives as its code,
  and a request that makes the mint panic is answered by the error of a lost connection.
\<close>

definition wire_answer :: "string \<Rightarrow> Error \<Rightarrow> (Error, 'a) outcome \<Rightarrow> (Error, 'a) outcome" where
  "wire_answer shown lost r = (case r of Ok a \<Rightarrow> Ok a | Err x \<Rightarrow> Err (over_the_wire shown x) | Panic \<Rightarrow> Err lost)"

definition mint_connector :: "runtime \<Rightarrow> Mint \<Rightarrow> Uuid \<Rightarrow> SecretKey list \<Rightarrow> string \<Rightarrow> Error \<Rightarrow> MintDb connector" where
  "mint_connector rt m i rs shown lost = \<lparr>
     mc_keysets = (\<lambda>db. (Ok (keysets m), db)),
     mc_keys = (\<lambda>db. (Ok (pubkeys m), db)),
     mc_swap = (\<lambda>req db. let (r, db') = process_swap_request rt m i rs req db in (wire_answer shown lost r, db')),
     mc_check = (\<lambda>yl db. (wire_answer shown lost (check_state yl db), db))\<rparr>"

lemma safe_swap_run:
  assumes "writes_work (ck_browser ck)" "safe_swap ck req yl s = (r, s')"
    and "mc_swap (ck_mint ck) req (ses_mint s) = (r1, m1)"
  shows "r = r1 \<and> ses_mint s' = m1
    \<and> ls_state (ses_db s') = (if is_ok r1 then local_set_proofs [] yl (local_set_states yl Pending (ls_state (ses_db s)))
                             else local_set_states yl Pending (ls_state (ses_db s)))"
  using assms
  by (cases r1) (auto simp: safe_swap_def and_do_def give_def local_update_proofs_state_def local_update_proofs_def on_store_save on_mint_def)

lemma proof_ys_infos: "list_all (info_ok e) ps \<Longrightarrow> proof_ys e (map pi_proof ps) = Ok (map pi_y ps)"
  unfolding proof_ys_def try_map_map by (rule try_map_total) (simp add: info_ok_def list_all_iff)

lemma swap_effect_state:
  assumes "keyed (proof_tbl db)" "length yl = length (swap_inputs req)" "distinct yl" "\<forall>y \<in> set yl. proof_state db y = None"
    and "y \<in> set yl"
  shows "proof_state (swap_effect now oper yl req sigs db) y = Some Spent"
proof -
  let ?db = "swap_effect now oper yl req sigs db"
  have t: "proof_tbl ?db = proof_tbl db @ input_rows Spent now None oper yl (swap_inputs req)" by (simp add: swap_effect_def)
  have "set yl \<inter> keys_of (proof_tbl db) = {}" using assms(4) by (auto simp: proof_state_def map_of_None_keys)
  then have "keyed (proof_tbl ?db)"
    using assms(1-3) unfolding t by (auto simp: input_rows_def keys_of_def)
  then show ?thesis by (rule added_state [OF _ t assms(2,5)])
qed

lemma safe_swap_effect:
  assumes "ck_mint ck = mint_connector rt m i rs shown lost" "ck_externs ck = rt_externs rt" "rt_faults rt = no_faults"
    and "writes_work (ck_browser ck)" "session_ok ck s" "tables_ok (ses_mint s)"
    and "set inputs \<subseteq> set (ws_proofs (ls_state (ses_db s)))"
    and "safe_swap ck \<lparr>swap_inputs = map pi_proof inputs, swap_outputs = outs\<rparr> (map pi_y inputs) s = (r, s')"
  shows "case r of
      Ok sigs \<Rightarrow>
        (\<forall>p \<in> set inputs. proof_state (ses_mint s) (pi_y p) = None \<and> proof_state (ses_mint s') (pi_y p) = Some Spent)
        \<and> ws_proofs (ls_state (ses_db s')) = filter (\<lambda>p. pi_y p \<notin> pi_y ` set inputs) (ws_proofs (ls_state (ses_db s)))
        \<and> (\<exists>fee. get_proofs_fee (rt_overflow_checks rt) m (map pi_proof inputs) = Ok fee
             \<and> total (map (amount \<circ> pi_proof) inputs) = total (map bs_amount sigs) + unat fee)
        \<and> map bs_amount sigs = map bm_amount outs
    | Err x \<Rightarrow>
        (x \<noteq> lost \<longrightarrow> ses_mint s' = ses_mint s)
        \<and> ws_proofs (ls_state (ses_db s')) = map (\<lambda>p. if pi_y p \<in> pi_y ` set inputs then p\<lparr>pi_state := Pending\<rparr> else p)
            (ws_proofs (ls_state (ses_db s)))
        \<and> ((\<forall>p \<in> set (ws_proofs (ls_state (ses_db s))). pi_y p \<in> pi_y ` set inputs \<longrightarrow> pi_state p = Unspent)
             \<longrightarrow> value_in Unspent (ws_proofs (ls_state (ses_db s'))) + value_in Pending (ws_proofs (ls_state (ses_db s')))
               = value_in Unspent (ws_proofs (ls_state (ses_db s))) + value_in Pending (ws_proofs (ls_state (ses_db s))))
    | Panic \<Rightarrow> False"
proof -
  let ?req = "\<lparr>swap_inputs = map pi_proof inputs, swap_outputs = outs\<rparr>" and ?yl = "map pi_y inputs"
  obtain r1 m1 where run: "process_swap_request rt m i rs ?req (ses_mint s) = (r1, m1)" by fastforce
  have mint: "mc_swap (ck_mint ck) ?req (ses_mint s) = (wire_answer shown lost r1, m1)"
    using assms(1) run by (simp add: mint_connector_def)
  note out = safe_swap_run [OF assms(4,8) mint]
  have ok: "list_all (info_ok (rt_externs rt)) inputs"
    using assms(2,5,7) by (auto simp: session_ok_def list_all_iff)
  note eff = process_swap_effect [OF assms(6,3) run]
  show ?thesis
  proof (cases r1)
    case (Ok sigs)
    with eff proof_ys_infos [OF ok] obtain fee where e: "distinct ?yl" "\<forall>y \<in> set ?yl. proof_state (ses_mint s) y = None"
      "get_proofs_fee (rt_overflow_checks rt) m (map pi_proof inputs) = Ok fee"
      "total (map amount (map pi_proof inputs)) = total (map bs_amount sigs) + unat fee"
      "map bs_amount sigs = map bm_amount outs"
      "m1 = swap_effect (rt_now rt) (OpSwap i) ?yl ?req sigs (ses_mint s)" by auto
    have "proof_state m1 y = Some Spent" if "y \<in> set ?yl" for y
      unfolding e(6) using assms(6) e(1,2) that by (intro swap_effect_state) simp_all
    then show ?thesis using out Ok e by (simp add: wire_answer_def local_store.state_then_remove)
  qed (use out eff local_store.value_moves [OF TrueI, of "ls_state (ses_db s)" ?yl Unspent Pending]
        in \<open>auto simp: wire_answer_def local_store.update_state_rows\<close>)
qed

text \<open>
  C6: A swap of stored tokens through the checker, with working storage and a mint whose database calls
  do not fail. When it succeeds, the inputs, which the mint had
  not seen, are spent there and gone from the store, every other row is as before, and the inputs are
  worth the new signatures, one for each output with its amount, and the mint's fee. When it is refused,
  the store keeps the inputs, marked pending, so that where they were unspent, unspent and pending tokens
  together are worth what they were; and the mint is as before, unless the error is the one that stands
  for an answer that never arrived.
\<close>

theorem safe_swap_agrees:
  assumes "ck_mint ck = mint_connector rt m i rs shown lost" "ck_externs ck = rt_externs rt" "rt_faults rt = no_faults"
    and "writes_work (ck_browser ck)" "session_ok ck s" "tables_ok (ses_mint s)"
    and "set inputs \<subseteq> set (ws_proofs (ls_state (ses_db s)))"
    and "safe_swap ck \<lparr>swap_inputs = map pi_proof inputs, swap_outputs = outs\<rparr> (map pi_y inputs) s = (r, s')"
  shows "case r of
      Ok sigs \<Rightarrow>
        (\<forall>p \<in> set inputs. proof_state (ses_mint s) (pi_y p) = None \<and> proof_state (ses_mint s') (pi_y p) = Some Spent)
        \<and> ws_proofs (ls_state (ses_db s')) = filter (\<lambda>p. pi_y p \<notin> pi_y ` set inputs) (ws_proofs (ls_state (ses_db s)))
        \<and> (\<exists>fee. get_proofs_fee (rt_overflow_checks rt) m (map pi_proof inputs) = Ok fee
             \<and> total (map (amount \<circ> pi_proof) inputs) = total (map bs_amount sigs) + unat fee)
        \<and> map bs_amount sigs = map bm_amount outs
    | Err x \<Rightarrow>
        (x \<noteq> lost \<longrightarrow> ses_mint s' = ses_mint s)
        \<and> ws_proofs (ls_state (ses_db s')) = map (\<lambda>p. if pi_y p \<in> pi_y ` set inputs then p\<lparr>pi_state := Pending\<rparr> else p)
            (ws_proofs (ls_state (ses_db s)))
        \<and> ((\<forall>p \<in> set (ws_proofs (ls_state (ses_db s))). pi_y p \<in> pi_y ` set inputs \<longrightarrow> pi_state p = Unspent)
             \<longrightarrow> value_in Unspent (ws_proofs (ls_state (ses_db s'))) + value_in Pending (ws_proofs (ls_state (ses_db s')))
               = value_in Unspent (ws_proofs (ls_state (ses_db s))) + value_in Pending (ws_proofs (ls_state (ses_db s))))
    | Panic \<Rightarrow> False"
  using assms by (rule safe_swap_effect)

definition front :: "(unit, MintDb) checker" where
  "front = small_checker (mint_connector (demo_rt no_faults) demo_mint 7 [[1]] ''?'' (E_UnknownErrorResponse []))"

definition holding :: "State \<Rightarrow> MintDb \<Rightarrow> (unit, MintDb) session" where
  "holding st db = (empty_session db)\<lparr>ses_db := \<lparr>ls_state = wallet_state_default\<lparr>ws_proofs := [small_info st]\<rparr>,
     ls_storage_key = ''k'', ls_storage = (\<lambda>_. None)\<rparr>\<rparr>"

lemma holding_fields [simp]:
  "ses_mint (holding st db) = db" "ws_proofs (ls_state (ses_db (holding st db))) = [small_info st]"
  by (simp_all add: holding_def empty_session_def)

lemma holding_ok: "session_ok front (holding st db)"
  using info_ok_new [OF small_new, of st]
  by (simp add: session_ok_def front_def holding_def load_from_localstorage_def)

theorem safe_swap_agrees_witness:
  "\<exists>s'. safe_swap front demo_swap_request [[2, 1]] (holding Unspent empty_db) = (Ok [demo_signature], s')
     \<and> proof_state (ses_mint s') [2, 1] = Some Spent \<and> ws_proofs (ls_state (ses_db s')) = []"
proof -
  let ?s = "holding Unspent empty_db"
  obtain r s' where run: "safe_swap front demo_swap_request [[2, 1]] ?s = (r, s')" by fastforce
  have "mc_swap (ck_mint front) demo_swap_request (ses_mint ?s) = (Ok [demo_signature], demo_final_db)"
    using demo_process by (simp add: front_def mint_connector_def wire_answer_def)
  then have r: "r = Ok [demo_signature]"
    using safe_swap_run [OF _ run] by (simp add: front_def)
  have req: "demo_swap_request = \<lparr>swap_inputs = map pi_proof [small_info Unspent], swap_outputs = [demo_message]\<rparr>"
    "[[2, 1]] = map pi_y [small_info Unspent]" by (simp_all add: demo_swap_request_def small_info_def)
  have "tables_ok empty_db" by (simp add: empty_db_def)
  with safe_swap_agrees [of front "demo_rt no_faults" demo_mint 7 "[[1]]" "''?''" "E_UnknownErrorResponse []" ?s
      "[small_info Unspent]" "[demo_message]" r s'] run r holding_ok [of Unspent empty_db]
  show ?thesis unfolding req by (simp add: front_def demo_rt_def small_info_def)
qed

section \<open>Value of a locked swap\<close>

lemma store_proofs_rows:
  assumes "store_proofs ck url ps s = (Ok (), s')"
  shows "\<exists>infos. ws_proofs (ls_state (ses_db s')) = ws_proofs (ls_state (ses_db s)) @ infos \<and> map pi_proof infos = ps
    \<and> (\<forall>q \<in> set infos. pi_state q = Unspent \<and> pi_mint_url q = url \<and> pi_unit q = Sat) \<and> ses_mint s' = ses_mint s"
  using assms
proof (induction ps arbitrary: s)
  case Nil
  then show ?case by (simp add: give_def)
next
  case (Cons p ps)
  then obtain s1 where one: "store_proof ck url p s = (Ok (), s1)" and rest: "store_proofs ck url ps s1 = (Ok (), s')"
    by (auto simp: and_do_Ok_iff)
  from one obtain info where info: "proof_info_new (ck_externs ck) p url Unspent Sat = Ok info"
    "on_store JsStore (local_update_proofs (ck_browser ck) [info] []) s = (Ok (), s1)"
    by (auto simp: store_proof_def and_do_Ok_iff give_def)
  from info(2) have s1: "s1 = s\<lparr>ses_db := saved (ck_browser ck) (local_set_proofs [info] []) (ses_db s)\<rparr>"
    unfolding local_update_proofs_def by (rule on_store_save_Ok)
  from Cons.IH [OF rest] obtain infos where
    "ws_proofs (ls_state (ses_db s')) = ws_proofs (ls_state (ses_db s1)) @ infos" "map pi_proof infos = ps"
    "\<forall>q \<in> set infos. pi_state q = Unspent \<and> pi_mint_url q = url \<and> pi_unit q = Sat" "ses_mint s' = ses_mint s1" by blast
  then show ?case
    using info(1) s1 by (intro exI [of _ "info # infos"]) (auto simp: proof_info_new_Ok_iff local_set_proofs_def)
qed

lemma blinded_amounts:
  "try_map (\<lambda>(n, a). blind_output ck n i a (f n)) (enumerate k amts) = Ok outs \<Longrightarrow> map (bm_amount \<circ> fst) outs = amts"
proof (induction amts arbitrary: k outs)
  case (Cons a amts)
  then obtain x xs where x: "outs = x # xs" "blind_output ck k i a (f k) = Ok x"
    "try_map (\<lambda>(n, a). blind_output ck n i a (f n)) (enumerate (Suc k) amts) = Ok xs" by auto
  then show ?case using Cons.IH [OF x(3)] by (auto simp: blind_output_def)
qed simp

lemma outputs_amounts:
  "plain_outputs ck k i amts = Ok outs \<Longrightarrow> map (bm_amount \<circ> fst) outs = amts"
  "locked_outputs ck k i sc amts = Ok outs \<Longrightarrow> map (bm_amount \<circ> fst) outs = amts"
  by (auto simp: plain_outputs_def locked_outputs_def dest!: blinded_amounts)

text \<open>
  C7: The value of a swap to two keys, in the part of the call from the change outputs on, with inputs
  from the store, working storage and a mint whose database calls do not fail. When it succeeds, it hands out tokens of 1 and 2, the
  inputs are spent at the mint and gone from the store, the change is stored as unspent tokens of the
  chosen denominations, and the inputs were worth the tokens handed out, the change and the mint's fee.
\<close>

theorem lock_conserves_value:
  assumes "ck_mint ck = mint_connector rt m j rs shown lost" "ck_externs ck = rt_externs rt" "rt_faults rt = no_faults"
    and "writes_work (ck_browser ck)" "session_ok ck s" "tables_ok (ses_mint s)"
    and "set inputs \<subseteq> set (ws_proofs (ls_state (ses_db s)))" "locked_outputs ck 0 i sc p2pk_amounts = Ok locked"
    and "lock_finish ck url inputs i locked change s = (Ok ps, s')"
  shows "map amount ps = [1, 2]
    \<and> (\<forall>p \<in> set inputs. proof_state (ses_mint s') (pi_y p) = Some Spent)
    \<and> (\<exists>infos fee. ws_proofs (ls_state (ses_db s'))
          = filter (\<lambda>p. pi_y p \<notin> pi_y ` set inputs) (ws_proofs (ls_state (ses_db s))) @ infos
        \<and> (\<forall>q \<in> set infos. pi_state q = Unspent \<and> pi_mint_url q = url \<and> pi_unit q = Sat)
        \<and> map (amount \<circ> pi_proof) infos = change
        \<and> get_proofs_fee (rt_overflow_checks rt) m (map pi_proof inputs) = Ok fee
        \<and> total (map (amount \<circ> pi_proof) inputs) = 3 + total change + unat fee)"
proof -
  from assms(9) obtain outs sigs all s1 s2 where run: "plain_outputs ck 2 i change = Ok outs"
    "as_js JsSwap (safe_swap ck \<lparr>swap_inputs = map pi_proof inputs, swap_outputs = messages_of (locked @ outs)\<rparr> (map pi_y inputs)) s = (Ok sigs, s1)"
    "unblind_all ck i (locked @ outs) sigs s1 = (Ok all, s2)" "store_proofs ck url (drop 2 all) s2 = (Ok (), s')" "ps = take 2 all"
    by (auto simp: lock_finish_def and_do_Ok_iff give_def Let_def)
  from run(2) have swap: "safe_swap ck \<lparr>swap_inputs = map pi_proof inputs, swap_outputs = messages_of (locked @ outs)\<rparr> (map pi_y inputs) s = (Ok sigs, s1)"
    by (auto simp: as_js_def split: prod.splits)
  from run(3) assms(1) have s2: "s2 = s1" and all: "map amount all = map bs_amount sigs"
    by (auto simp: unblind_all_def keys_of_keyset_def and_do_Ok_iff give_def on_mint_def mint_connector_def dest: construct_proofs_amounts)
  from safe_swap_effect [OF assms(1-7) swap] obtain fee where eff:
    "\<forall>p \<in> set inputs. proof_state (ses_mint s1) (pi_y p) = Some Spent"
    "ws_proofs (ls_state (ses_db s1)) = filter (\<lambda>p. pi_y p \<notin> pi_y ` set inputs) (ws_proofs (ls_state (ses_db s)))"
    "get_proofs_fee (rt_overflow_checks rt) m (map pi_proof inputs) = Ok fee"
    "total (map (amount \<circ> pi_proof) inputs) = total (map bs_amount sigs) + unat fee"
    "map bs_amount sigs = map bm_amount (messages_of (locked @ outs))" by auto
  have "map bs_amount sigs = [1, 2] @ change"
    using eff(5) outputs_amounts(1) [OF run(1)] outputs_amounts(2) [OF assms(8)]
    by (simp add: messages_of_def p2pk_amounts_def flip: map_map)
  with all have amts: "map amount ps = [1, 2]" "map amount (drop 2 all) = change" "total (map bs_amount sigs) = 3 + total change"
    using run(5) by (simp_all add: take_map [symmetric] drop_map [symmetric])
  from store_proofs_rows [OF run(4)] obtain infos where
    "ws_proofs (ls_state (ses_db s')) = ws_proofs (ls_state (ses_db s2)) @ infos" "map pi_proof infos = drop 2 all"
    "\<forall>q \<in> set infos. pi_state q = Unspent \<and> pi_mint_url q = url \<and> pi_unit q = Sat" "ses_mint s' = ses_mint s2" by blast
  then show ?thesis using eff amts s2 by (auto simp flip: map_map)
qed

text \<open>A mint with keys for 1, 2 and 3, and a token of 3.\<close>

definition lock_keyset :: MintKeySet where
  "lock_keyset = \<lparr>mk_id = example_id, mk_unit = Sat, mk_keys = [(1, \<lparr>kp_public_key = [2, 3], kp_secret_key = [3]\<rparr>),
     (2, \<lparr>kp_public_key = [2, 3], kp_secret_key = [3]\<rparr>), (3, \<lparr>kp_public_key = [2, 3], kp_secret_key = [3]\<rparr>)],
     mk_final_expiry = None\<rparr>"

definition lock_signer :: DbSignatory where
  "lock_signer = \<lparr>sg_keysets = [(example_id, (demo_sign_info\<lparr>mki_amounts := [1, 2, 3]\<rparr>, lock_keyset))],
     sg_active_keysets = [(Sat, example_id)], sg_custom_paths = [], sg_xpriv = []\<rparr>"

definition lock_mint :: Mint where
  "lock_mint = \<lparr>mint_signatory = lock_signer, mint_keysets = signatory_keysets lock_signer\<rparr>"

definition lock_front :: "(unit, MintDb) checker" where
  "lock_front = (small_checker (mint_connector (demo_rt no_faults) lock_mint 7 [[1], [1]] ''?'' (E_UnknownErrorResponse [])))
     \<lparr>ck_rand_factor := (\<lambda>n. [of_nat n + 1])\<rparr>"

definition lock_info :: ProofInfo where
  "lock_info = (small_info Unspent)\<lparr>pi_proof := (toy_proof ''x'')\<lparr>amount := 3\<rparr>\<rparr>"

definition lock_session :: "(unit, MintDb) session" where
  "lock_session = (empty_session empty_db)\<lparr>ses_db := \<lparr>ls_state = wallet_state_default\<lparr>ws_proofs := [lock_info]\<rparr>,
     ls_storage_key = ''k'', ls_storage = (\<lambda>_. None)\<rparr>\<rparr>"

definition lock_message :: "Amount \<Rightarrow> u8 \<Rightarrow> BlindedMessage" where
  "lock_message a b = \<lparr>bm_amount = a, bm_keyset_id = example_id, blinded_secret = [2, b], bm_witness = None\<rparr>"

definition lock_request :: SwapRequest where
  "lock_request = \<lparr>swap_inputs = [pi_proof lock_info], swap_outputs = [lock_message 1 2, lock_message 2 3]\<rparr>"

lemma lock_outputs: "locked_outputs lock_front 0 example_id sample_lock p2pk_amounts
    = Ok [(lock_message 1 2, ''y'', [1]), (lock_message 2 3, ''y'', [2])]"
  by (simp add: locked_outputs_def p2pk_amounts_def blind_output_def lock_front_def small_checker_def sample_checker_def
      blind_message_def hash_to_curve_def hash_to_curve_from.simps toy_defs lock_message_def sample_lock_def)

lemma lock_lookup:
  "mint_keyset_info lock_mint i = (if i = example_id then Some \<lparr>mki_id = example_id, mki_unit = Sat,
     mki_active = True, mki_valid_from = 0, mki_derivation_path = [], mki_derivation_path_index = None,
     mki_max_order = 0, mki_amounts = [1, 2, 3], mki_input_fee_ppk = 0, mki_final_expiry = None\<rparr> else None)"
  by (simp add: mint_keyset_info_def lock_mint_def signatory_keysets_def lock_signer_def
      signatory_keyset_def demo_sign_info_def lock_keyset_def info_of_signatory_def)

lemma lock_y: "proof_y toy_externs (pi_proof lock_info) = Ok [2, 1]"
  by (simp add: proof_y_def hash_to_curve_def hash_to_curve_from.simps toy_externs_def)

lemma lock_fee: "get_proofs_fee True lock_mint [pi_proof lock_info] = Ok 0"
  by (simp add: get_proofs_fee_def fee_step_of_def lock_info_def toy_proof_def lock_lookup calculate_fee_def
      fee_step_def mul_unchecked_def checked_mul_def checked_add_def)

lemma lock_checks: "swap_checks (demo_rt no_faults) lock_mint lock_request = Ok \<lparr>ver_amount = 3, ver_unit = Some Sat\<rparr>"
proof -
  have v: "verify_one toy_externs lock_signer (pi_proof lock_info) = Ok ()"
    by (simp add: verify_one_def lock_signer_def toy_proof_def lock_keyset_def lock_info_def verify_message_def
        hash_to_curve_def hash_to_curve_from.simps toy_defs)
  have n: "nut10_try_from toy_externs t = Err SerdeError" for t
    by (simp add: nut10_try_from_def toy_externs_def)
  have sum: "try_sum [3] = Ok 3" "try_sum [1, 2] = Ok 3" by (simp_all add: try_sum_def checked_add_def)
  have "mint_verify_inputs toy_externs 0 lock_mint [pi_proof lock_info] = Ok \<lparr>ver_amount = 3, ver_unit = Some Sat\<rparr>"
    using v n sum
    by (simp add: mint_verify_inputs_def check_inputs_unique_def proof_ys_def lock_y verify_inputs_keyset_def
        lock_lookup one_unit_def total_amount_def verify_proofs_def check_conditions_def
        signatory_verify_proofs_def) (simp add: lock_info_def toy_proof_def lock_mint_def)
  moreover have "validate_sig_flag toy_externs lock_request = Ok ()"
    using n by (simp add: validate_sig_flag_def lock_request_def enforce_sig_flag_def enforce_step_def)
  ultimately show ?thesis
    using sum by (simp add: swap_checks_def demo_rt_def lock_request_def swap_input_amount_def
        swap_output_amount_def lock_info_def toy_proof_def lock_message_def)
qed

lemma lock_balanced:
  "verify_transaction_balanced True lock_mint \<lparr>ver_amount = 3, ver_unit = Some Sat\<rparr> (swap_inputs lock_request)
     (swap_outputs lock_request) empty_db = Ok ()"
proof -
  have "verify_outputs lock_mint [lock_message 1 2, lock_message 2 3] empty_db = Ok \<lparr>ver_amount = 3, ver_unit = Some Sat\<rparr>"
    by (simp add: verify_outputs_def check_outputs_unique_def ensure_def check_output_already_signed_def empty_db_def
        get_blind_signatures_def select_in_def verify_outputs_keyset_def lock_message_def
        lock_lookup one_unit_def try_sum_def checked_add_def)
  then show ?thesis
    by (simp add: verify_transaction_balanced_def lock_fee empty_db_def checked_sub_def lock_request_def)
qed

lemma lock_signs: "\<exists>a b. blind_sign toy_externs lock_signer [[1], [1]] (swap_outputs lock_request) = Ok [a, b]
    \<and> bs_amount a = 1 \<and> bs_amount b = 2 \<and> bs_keyset_id a = example_id \<and> bs_keyset_id b = example_id
    \<and> bs_c a = [2, 1] \<and> bs_c b = [2, 4]"
  by (simp add: blind_sign_def sign_one_def lock_signer_def demo_sign_info_def lock_keyset_def lock_request_def
      lock_message_def toy_defs sign_message_def blind_signature_new_def calculate_dleq_def hash_e_def)

lemma lock_writes: "writes_work (ck_browser lock_front)"
  by (simp add: lock_front_def)

lemma lock_session_ok: "session_ok lock_front lock_session"
proof -
  have n: "nut10_try_from toy_externs t = Err SerdeError" for t
    by (simp add: nut10_try_from_def toy_externs_def)
  have "info_ok toy_externs lock_info"
    using lock_y n by (simp add: info_ok_def sc_try_from_secret_def) (simp add: lock_info_def small_info_def)
  then show ?thesis
    by (simp add: session_ok_def lock_front_def lock_session_def load_from_localstorage_def)
qed

lemma lock_unblinds:
  assumes "bs_amount a = 1" "bs_amount b = 2" "bs_c a = [2, 1]" "bs_c b = [2, 4]"
  shows "\<exists>ps. unblind_all lock_front example_id [(lock_message 1 2, ''y'', [1]), (lock_message 2 3, ''y'', [2])] [a, b] s = (Ok ps, s)
    \<and> length ps = 2"
proof -
  have k: "keys_of_keyset lock_front example_id s = (Ok [(1, [2, 3]), (2, [2, 3]), (3, [2, 3])], s)"
    by (simp add: keys_of_keyset_def and_do_def give_def on_mint_def lock_front_def mint_connector_def pubkeys_def
        lock_mint_def signatory_keysets_def lock_signer_def signatory_keyset_def demo_sign_info_def lock_keyset_def
        keyset_of_signatory_def public_keys_def)
  have "\<exists>ps. construct_proofs toy_externs [a, b] [[1], [2]] [''y'', ''y''] [(1, [2, 3]), (2, [2, 3]), (3, [2, 3])] = Ok ps \<and> length ps = 2"
    using assms by (simp add: construct_proofs_def construct_proof_def unblind_message_def toy_defs)
  then show ?thesis
    using k by (auto simp: unblind_all_def and_do_def give_def factors_of_def secrets_of_def lock_front_def)
qed

theorem lock_conserves_value_witness:
  "\<exists>ps s'. lock_finish lock_front ''https://m'' [lock_info] example_id
       [(lock_message 1 2, ''y'', [1]), (lock_message 2 3, ''y'', [2])] [] lock_session = (Ok ps, s')
     \<and> map amount ps = [1, 2] \<and> proof_state (ses_mint s') [2, 1] = Some Spent \<and> ws_proofs (ls_state (ses_db s')) = []"
proof -
  let ?rt = "demo_rt no_faults" and ?locked = "[(lock_message 1 2, ''y'', [1]), (lock_message 2 3, ''y'', [2])]"
  obtain a b where sg: "blind_sign toy_externs lock_signer [[1], [1]] (swap_outputs lock_request) = Ok [a, b]"
    "bs_amount a = 1" "bs_amount b = 2" "bs_c a = [2, 1]" "bs_c b = [2, 4]" using lock_signs by blast
  have "proof_ys toy_externs (swap_inputs lock_request) = Ok [[2, 1]]"
    by (simp add: proof_ys_def lock_request_def lock_y)
  then have "process_swap_request ?rt lock_mint 7 [[1], [1]] lock_request empty_db
      = (Ok [a, b], swap_effect 0 (OpSwap 7) [[2, 1]] lock_request [a, b] empty_db)"
    using process_swap_runs [of empty_db ?rt lock_mint lock_request _ "[[2, 1]]" 7 "[[1], [1]]" "[a, b]",
        OF _ _ lock_checks] lock_balanced sg(1)
    by (simp add: demo_rt_def empty_db_def lock_mint_def)
      (simp add: lock_request_def lock_info_def toy_proof_def lock_message_def)
  then have answered: "mc_swap (ck_mint lock_front) lock_request (ses_mint lock_session)
      = (Ok [a, b], swap_effect 0 (OpSwap 7) [[2, 1]] lock_request [a, b] empty_db)"
    by (simp add: lock_front_def lock_session_def empty_session_def mint_connector_def wire_answer_def)
  obtain s1 where s1: "safe_swap lock_front lock_request [[2, 1]] lock_session = (Ok [a, b], s1)"
    using safe_swap_run [OF lock_writes prod.collapse [symmetric] answered] by (metis prod.collapse)
  obtain ps where ps: "unblind_all lock_front example_id ?locked [a, b] s1 = (Ok ps, s1)" "length ps = 2"
    using lock_unblinds [OF sg(2-5), of s1] by blast
  have fin: "lock_finish lock_front ''https://m'' [lock_info] example_id ?locked [] lock_session = (Ok ps, s1)"
    using s1 ps
    by (simp add: lock_finish_def plain_outputs_def and_do_def give_def as_js_def messages_of_def lock_request_def)
      (simp add: lock_info_def small_info_def and_do_def give_def)
  show ?thesis
    using lock_conserves_value [of lock_front ?rt lock_mint 7 "[[1], [1]]" "''?''" "E_UnknownErrorResponse []" lock_session
      "[lock_info]" example_id sample_lock ?locked "''https://m''" "[]" ps s1, OF _ _ _ _ lock_session_ok _ _ lock_outputs fin] fin
    by (simp add: lock_front_def demo_rt_def lock_session_def) (simp add: empty_session_def empty_db_def lock_info_def small_info_def)
qed

text \<open>
  Tokens are lost when the mint accepts the swap and the keys cannot be fetched afterwards: the
  call fails, the inputs, which the mint took, are gone from the store, nothing is stored in their
  place, and the secrets of the outputs, held by the call alone, are gone with it.
\<close>

theorem lock_loses_tokens:
  assumes "writes_work (ck_browser ck)" "plain_outputs ck 2 i change = Ok outs"
    and "mc_swap (ck_mint ck) \<lparr>swap_inputs = map pi_proof inputs, swap_outputs = messages_of (locked @ outs)\<rparr> (ses_mint s) = (Ok sigs, m1)"
    and "mc_keys (ck_mint ck) m1 = (Err x, m2)"
  shows "\<exists>s'. lock_finish ck url inputs i locked change s = (Err (JsKeys x), s')
    \<and> ws_proofs (ls_state (ses_db s')) = filter (\<lambda>p. pi_y p \<notin> pi_y ` set inputs) (ws_proofs (ls_state (ses_db s)))"
proof -
  let ?req = "\<lparr>swap_inputs = map pi_proof inputs, swap_outputs = messages_of (locked @ outs)\<rparr>"
  obtain r s1 where swap: "safe_swap ck ?req (map pi_y inputs) s = (r, s1)" by fastforce
  note out = safe_swap_run [OF assms(1) swap assms(3)]
  have "lock_finish ck url inputs i locked change s = (Err (JsKeys x), s1\<lparr>ses_mint := m2\<rparr>)"
    using assms(2,4) swap out
    by (simp add: lock_finish_def unblind_all_def keys_of_keyset_def and_do_def give_def as_js_def on_mint_def Let_def)
  then show ?thesis using out by (simp add: local_store.state_then_remove)
qed

theorem lock_loses_tokens_witness:
  "\<exists>s'. lock_finish (small_checker (silent_mint\<lparr>mc_keys := (\<lambda>m. (Err E_UnknownKeySet, m))\<rparr>)) ''https://m'' [small_info Unspent] example_id [] []
       ((empty_session ())\<lparr>ses_db := \<lparr>ls_state = wallet_state_default\<lparr>ws_proofs := [small_info Unspent]\<rparr>,
          ls_storage_key = ''k'', ls_storage = (\<lambda>_. None)\<rparr>\<rparr>) = (Err (JsKeys E_UnknownKeySet), s')
     \<and> ws_proofs (ls_state (ses_db s')) = []"
proof -
  let ?ck = "small_checker (silent_mint\<lparr>mc_keys := (\<lambda>m. (Err E_UnknownKeySet, m))\<rparr>)"
  let ?s = "(empty_session ())\<lparr>ses_db := \<lparr>ls_state = wallet_state_default\<lparr>ws_proofs := [small_info Unspent]\<rparr>,
          ls_storage_key = ''k'', ls_storage = (\<lambda>_. None)\<rparr>\<rparr>"
  have "plain_outputs ?ck 2 example_id [] = Ok []" by (simp add: plain_outputs_def)
  from lock_loses_tokens [of ?ck example_id "[]", OF _ this, of "[small_info Unspent]" "[]" ?s "[]" "()" E_UnknownKeySet "()"]
  show ?thesis by (simp add: silent_mint_def)
qed

section \<open>Checking the states\<close>

definition state_at :: "MintDb \<Rightarrow> PublicKey \<Rightarrow> State" where
  "state_at db y = (case proof_state db y of Some st \<Rightarrow> st | None \<Rightarrow> Unspent)"

lemma check_state_distinct:
  assumes "distinct yl"
  obtains sts where "check_state yl db = Ok sts" "length sts = length yl" "\<forall>i < length yl. ps_state (sts ! i) = state_at db (yl ! i)"
proof -
  obtain sts where sts: "check_state yl db = Ok sts" "map ps_y sts = yl"
    and st: "\<forall>i < length yl. ps_state (sts ! i) = (if yl ! i \<in> set (take i yl) then Unspent
      else case proof_state db (yl ! i) of Some s \<Rightarrow> s | None \<Rightarrow> Unspent)"
    by (rule exE [OF check_state_answers [of yl db]]) (elim conjE, rule that)
  have "yl ! i \<notin> set (take i yl)" if "i < length yl" for i
    using assms that by (auto simp: in_set_conv_nth nth_eq_iff_index_eq)
  moreover have "length sts = length yl" using sts(2) by (metis length_map)
  ultimately show thesis using that [OF sts(1)] st by (simp add: state_at_def)
qed

lemma note_change_total:
  "total (map snd t) + unat a < 2 ^ 64
     \<Longrightarrow> \<exists>t'. note_change oc k a t = Ok t' \<and> total (map snd t') = total (map snd t) + unat a"
proof (induction oc k a t rule: note_change.induct)
  case (2 oc k a j b t)
  then have sum: "unat b + unat a < 2 ^ 64" "total (map snd t) + unat a < 2 ^ 64" by simp_all
  then have "checked_add b a = Some (b + a)" "unat (b + a) = unat b + unat a"
    by (simp_all add: checked_add_def unat_word_ariths)
  then show ?case using 2 sum by (auto simp: add_unchecked_def)
qed simp

lemma sync_run:
  assumes "writes_work (ck_browser ck)" "\<forall>(p, st) \<in> set xs. ps_state st = F (pi_y p)"
    and "total (map snd changes) + total (map (amount \<circ> pi_proof \<circ> fst) xs) < 2 ^ 64"
  shows "\<exists>ch s'. sync_states ck xs changes s = (Ok ch, s') \<and> ses_mint s' = ses_mint s
    \<and> ws_proofs (ls_state (ses_db s')) = map (\<lambda>q. if \<exists>(p, st) \<in> set xs. pi_y p = pi_y q \<and> pi_state p \<noteq> ps_state st
          then q\<lparr>pi_state := F (pi_y q)\<rparr> else q) (ws_proofs (ls_state (ses_db s)))"
  using assms(2,3)
proof (induction xs arbitrary: changes s)
  case Nil
  then show ?case by (simp add: give_def)
next
  case (Cons x xs)
  obtain p st where x: "x = (p, st)" by fastforce
  show ?case
  proof (cases "pi_state p = ps_state st")
    case True
    then show ?thesis using Cons.IH [of changes s] Cons.prems by (simp add: x)
  next
    case False
    have st: "ps_state st = F (pi_y p)" and xs: "\<forall>(p, st) \<in> set xs. ps_state st = F (pi_y p)"
      using Cons.prems(1) by (simp_all add: x)
    obtain ch1 where ch1: "note_change (ck_overflow_checks ck) (pi_state p, ps_state st) (amount (pi_proof p)) changes
        = (Ok ch1 :: (js_error, _) outcome)"
      "total (map snd ch1) = total (map snd changes) + unat (amount (pi_proof p))"
      using note_change_total [of changes "amount (pi_proof p)"] Cons.prems(2) by (fastforce simp: x)
    let ?s1 = "s\<lparr>ses_db := saved (ck_browser ck) (local_set_states [pi_y p] (ps_state st)) (ses_db s)\<rparr>"
    obtain ch s' where rec: "sync_states ck xs ch1 ?s1 = (Ok ch, s')" "ses_mint s' = ses_mint ?s1"
      "ws_proofs (ls_state (ses_db s')) = map (\<lambda>q. if \<exists>(p, st) \<in> set xs. pi_y p = pi_y q \<and> pi_state p \<noteq> ps_state st
          then q\<lparr>pi_state := F (pi_y q)\<rparr> else q) (ws_proofs (ls_state (ses_db ?s1)))"
      using Cons.IH [OF xs, of ch1 ?s1] Cons.prems(2) ch1(2) by (auto simp: x)
    have "sync_states ck (x # xs) changes s = (Ok ch, s')"
      using False rec(1) ch1(1) by (simp add: x and_do_def give_def local_update_proofs_state_def on_store_save [OF assms(1)])
    moreover have "ws_proofs (ls_state (ses_db s')) = map (\<lambda>q. if \<exists>(p, st) \<in> set (x # xs). pi_y p = pi_y q \<and> pi_state p \<noteq> ps_state st
          then q\<lparr>pi_state := F (pi_y q)\<rparr> else q) (ws_proofs (ls_state (ses_db s)))"
      unfolding rec(3) using False st by (auto simp: x local_set_states_def)
    ultimately show ?thesis using rec(2) by simp
  qed
qed

lemma sync_exact:
  assumes "distinct (map pi_y rows)" "length sts = length (filter P rows)"
    and "\<forall>(p, st) \<in> set (zip (filter P rows) sts). ps_state st = F (pi_y p)" "q \<in> set rows"
  shows "(if \<exists>(p, st) \<in> set (zip (filter P rows) sts). pi_y p = pi_y q \<and> pi_state p \<noteq> ps_state st
      then q\<lparr>pi_state := F (pi_y q)\<rparr> else q) = (if P q then q\<lparr>pi_state := F (pi_y q)\<rparr> else q)"
proof (cases "P q")
  case True
  then have "q \<in> set (filter P rows)" using assms(4) by simp
  then obtain i where "i < length (filter P rows)" "filter P rows ! i = q" unfolding in_set_conv_nth by blast
  then have z: "(q, sts ! i) \<in> set (zip (filter P rows) sts)" using assms(2) by (auto simp: in_set_zip)
  show ?thesis
  proof (cases "pi_state q = F (pi_y q)")
    case eq: True
    then have "q\<lparr>pi_state := F (pi_y q)\<rparr> = q" by (cases q) simp
    then show ?thesis by simp
  next
    case False
    then have "pi_state q \<noteq> ps_state (sts ! i)" using assms(3) z by auto
    then show ?thesis using True z by auto
  qed
next
  case False
  have "pi_y p \<noteq> pi_y q" if "(p, st) \<in> set (zip (filter P rows) sts)" for p st
  proof -
    have "p \<in> set (filter P rows)" using that by (rule set_zip_leftD)
    then show ?thesis using False assms(1,4) by (auto simp: distinct_map dest: inj_onD)
  qed
  then show ?thesis using False by fastforce
qed

text \<open>The rows that a call finds when it opens the store of a mint.\<close>

definition rows_at :: "'i browser \<Rightarrow> MintUrl \<Rightarrow> ('i, 'm) session \<Rightarrow> ProofInfo list" where
  "rows_at br url s = ws_proofs (case load_from_localstorage br (storage_key_of url) (ls_storage (ses_db s)) of
     Some st \<Rightarrow> st | None \<Rightarrow> wallet_state_default)"

lemma open_wallet_works:
  assumes "writes_work (ck_browser ck)" "mint_url_from_str u = Ok url" "ck_mnemonic_ok ck w"
  obtains s1 where "open_wallet ck u w s = (Ok url, s1)" "ses_mint s1 = ses_mint s"
    "ws_proofs (ls_state (ses_db s1)) = rows_at (ck_browser ck) url s"
  using assms
  by (auto simp: open_wallet_def and_do_def give_def parse_url_def open_store_def on_store_def local_new_def
      save_snapshot_def ensure_def rows_at_def writes_work_def)

text \<open>
  C8: Checking the states brings the store into agreement with the mint: with working storage and no
  row twice, the call returns, the mint is as before, and every sat row of this mint's address has the
  state the mint gives it (unspent where the mint does not know it), so a token left pending by a
  refused swap is unspent again. All other rows are as before.
\<close>

theorem check_proofs_state_syncs:
  assumes "ck_mint ck = mint_connector rt m i rs shown lost" "writes_work (ck_browser ck)"
    and "mint_url_from_str u = Ok url" "ck_mnemonic_ok ck w" "rows = rows_at (ck_browser ck) url s"
    and "distinct (map pi_y rows)" "total (map (amount \<circ> pi_proof) rows) < 2 ^ 64"
  shows "\<exists>n ch s'. check_proofs_state ck u w s = (Ok (n, ch), s') \<and> ses_mint s' = ses_mint s
    \<and> ws_proofs (ls_state (ses_db s')) = map (\<lambda>q. if pi_mint_url q = url \<and> pi_unit q = Sat
          then q\<lparr>pi_state := state_at (ses_mint s) (pi_y q)\<rparr> else q) rows"
proof -
  let ?mine = "filter (\<lambda>q. pi_mint_url q = url \<and> pi_unit q = Sat) rows"
  let ?F = "state_at (ses_mint s)"
  obtain s1 where s1: "open_wallet ck u w s = (Ok url, s1)" "ses_mint s1 = ses_mint s" "ws_proofs (ls_state (ses_db s1)) = rows"
    using open_wallet_works [OF assms(2-4)] assms(5) by metis
  have mine: "local_get_proofs (Some url) (Some Sat) None None (ls_state (ses_db s1)) = ?mine"
    using s1(3) by (simp add: local_get_proofs_def local_matches_def [abs_def])
  show ?thesis
  proof (cases "?mine = []")
    case True
    then have "map (\<lambda>q. if pi_mint_url q = url \<and> pi_unit q = Sat then q\<lparr>pi_state := ?F (pi_y q)\<rparr> else q) rows = rows"
      by (intro map_idI) (auto simp: filter_empty_conv)
    then show ?thesis
      using s1 True mine by (simp add: check_proofs_state_def and_do_def give_def read_store_def)
  next
    case False
    have "distinct (map pi_y ?mine)" using assms(6) by (simp add: distinct_map_filter)
    then obtain sts where sts: "check_state (map pi_y ?mine) (ses_mint s) = Ok sts" "length sts = length ?mine"
      "\<forall>i < length ?mine. ps_state (sts ! i) = ?F (pi_y (?mine ! i))"
      by (rule check_state_distinct [of _ "ses_mint s"]) simp
    have mint: "on_mint JsCheck (mc_check (ck_mint ck) (map pi_y ?mine)) s1 = (Ok sts, s1)"
      using sts(1) s1(2) by (simp add: on_mint_def assms(1) mint_connector_def wire_answer_def)
    have pairs: "\<forall>(p, st) \<in> set (zip ?mine sts). ps_state st = ?F (pi_y p)"
      using sts(2,3) by (auto simp: in_set_zip)
    have "total (map (amount \<circ> pi_proof) ?mine) \<le> total (map (amount \<circ> pi_proof) rows)"
      by (induction rows) auto
    then have bound: "total (map snd []) + total (map (amount \<circ> pi_proof \<circ> fst) (zip ?mine sts)) < 2 ^ 64"
      using assms(7) sts(2) by (simp flip: map_map)
    obtain ch s' where run: "sync_states ck (zip ?mine sts) [] s1 = (Ok ch, s')" "ses_mint s' = ses_mint s1"
      "ws_proofs (ls_state (ses_db s')) = map (\<lambda>q. if \<exists>(p, st) \<in> set (zip ?mine sts). pi_y p = pi_y q \<and> pi_state p \<noteq> ps_state st
          then q\<lparr>pi_state := ?F (pi_y q)\<rparr> else q) (ws_proofs (ls_state (ses_db s1)))"
      using sync_run [OF assms(2) pairs bound, of s1] by blast
    have "(if \<exists>(p, st) \<in> set (zip ?mine sts). pi_y p = pi_y q \<and> pi_state p \<noteq> ps_state st then q\<lparr>pi_state := ?F (pi_y q)\<rparr> else q)
        = (if pi_mint_url q = url \<and> pi_unit q = Sat then q\<lparr>pi_state := ?F (pi_y q)\<rparr> else q)" if "q \<in> set rows" for q
      by (rule sync_exact [OF assms(6) sts(2) pairs that])
    then show ?thesis
      using s1 False mine mint run by (simp add: check_proofs_state_def and_do_def give_def read_store_def)
  qed
qed

text \<open>A page opened on a storage with one token, pending since a refused swap.\<close>

definition reopened :: "(unit, MintDb) checker" where
  "reopened = front\<lparr>ck_browser := \<lparr>br_write_fails = (\<lambda>_ _. False), br_to_json = (\<lambda>_. ''s''),
     br_of_json = (\<lambda>_. Some (wallet_state_default\<lparr>ws_proofs := [small_info Pending]\<rparr>))\<rparr>\<rparr>"

definition stored :: "(unit, MintDb) session" where
  "stored = (empty_session empty_db)\<lparr>ses_db := \<lparr>ls_state = wallet_state_default, ls_storage_key = [], ls_storage = (\<lambda>_. Some ''s'')\<rparr>\<rparr>"

theorem check_proofs_state_syncs_witness:
  "\<exists>n ch s'. check_proofs_state reopened ''https://m'' [] stored = (Ok (n, ch), s')
     \<and> ses_mint s' = ses_mint stored \<and> ws_proofs (ls_state (ses_db s')) = [small_info Unspent]"
proof -
  have url: "mint_url_from_str ''https://m'' = Ok ''https://m''" by code_simp
  have rows: "[small_info Pending] = rows_at (ck_browser reopened) ''https://m'' stored"
    by (simp add: rows_at_def reopened_def stored_def load_from_localstorage_def)
  have mnt: "ck_mint reopened = mint_connector (demo_rt no_faults) demo_mint 7 [[1]] ''?'' (E_UnknownErrorResponse [])"
    by (simp add: reopened_def front_def)
  have ok: "writes_work (ck_browser reopened)" "ck_mnemonic_ok reopened []"
    by (simp_all add: reopened_def front_def small_checker_def sample_checker_def writes_work_def)
  have one: "distinct (map pi_y [small_info Pending])" "total (map (amount \<circ> pi_proof) [small_info Pending]) < 2 ^ 64"
    by (simp_all add: small_info_def toy_proof_def)
  have st: "state_at (ses_mint stored) y = Unspent" for y
    by (simp add: state_at_def stored_def empty_session_def proof_state_def empty_db_def)
  show ?thesis
    using check_proofs_state_syncs [OF mnt ok(1) url ok(2) rows one] by (simp add: st small_info_def)
qed

end
