(* ===== verification/Spec2Isabelle.thy ===== *)
theory Spec2Isabelle
  imports Amounts Hex Keysets Crypto Tokens Spending MintDb Errors Signatory MintVerify SwapSaga
    SwapProps MintIssue Ledger MintQuery ProofWriter MintMelt MeltProps WalletSelect WalletDb TokenForms
    WalletDerive WalletSwap WalletSend WalletRestore
    MintUrls CheckerStore Checker CheckerProps CheckerMint
begin

text \<open>
  A verification development of a Cashu mint, its protocol library and a client that checks mints, the
  Rust workspace under \<^verbatim>\<open>src/crates\<close> and \<^verbatim>\<open>src/web/nut-10-checker\<close>. A mint signs blinded messages of its
  clients; a client unblinds a signature into a proof, a bearer token of some amount, which the mint
  later takes back once and only once. The checker locks tokens to keys and tries to spend them.

  \<^bold>\<open>Parts and theories.\<close>

  \<^item> \<^verbatim>\<open>Prelude\<close>: results that may be an error or a panic, try-loops, checked 64-bit arithmetic,
    byte strings, and tables with a primary key. Shared lemmas and simplification collections.
  \<^item> \<^verbatim>\<open>Amounts\<close> (\<^verbatim>\<open>cashu/src/amount.rs\<close>): amounts, splitting into denominations, splitting with
    a target or with fees, unit conversion.
  \<^item> \<^verbatim>\<open>Hex\<close> (\<^verbatim>\<open>cashu/src/util/hex.rs\<close>): hexadecimal text.
  \<^item> \<^verbatim>\<open>Keysets\<close> (\<^verbatim>\<open>cashu/src/nuts/nut02.rs\<close>, \<^verbatim>\<open>cdk/src/fees.rs\<close>): keyset identifiers of both
    versions, their short forms, and the fee of a set of proofs.
  \<^item> \<^verbatim>\<open>Crypto\<close> (\<^verbatim>\<open>dhke.rs\<close>, \<^verbatim>\<open>nut01\<close>, \<^verbatim>\<open>nut12.rs\<close>): blinding, signing, unblinding, hashing to
    the curve, proofs of discrete-logarithm equality. The curve, the hash functions and Schnorr
    signatures are fields of the record \<^verbatim>\<open>externs\<close>; their documented laws are the hypotheses
    \<^verbatim>\<open>secp_laws\<close> and \<^verbatim>\<open>schnorr_laws\<close>, which hold of a small concrete group.
  \<^item> \<^verbatim>\<open>Tokens\<close> (\<^verbatim>\<open>nut00\<close>, \<^verbatim>\<open>nut03.rs\<close> to \<^verbatim>\<open>nut07.rs\<close>, \<^verbatim>\<open>nut20.rs\<close>): proofs, blinded messages,
    signatures and requests, construction of proofs by the wallet, signed mint requests.
  \<^item> \<^verbatim>\<open>Spending\<close> (\<^verbatim>\<open>nut10.rs\<close>, \<^verbatim>\<open>nut11\<close>, \<^verbatim>\<open>nut14\<close>): pay-to-public-key and hash-time-lock
    conditions, their tags, verification, signing, and signatures over a whole request.
  \<^item> \<^verbatim>\<open>MintDb\<close> (\<^verbatim>\<open>cdk-sql-common/src/mint/mod.rs\<close>, \<^verbatim>\<open>cdk-common/src/mint.rs\<close>, \<^verbatim>\<open>state.rs\<close>): the
    tables of the mint and every operation of a database transaction on proofs, blind signatures,
    quotes, melt requests, sagas and keysets. \<^verbatim>\<open>MintValue\<close>: the value these tables hold and how
    each operation changes it.
  \<^item> \<^verbatim>\<open>Errors\<close> (\<^verbatim>\<open>cdk-common/src/error.rs\<close>): the errors of the mint and the numbers that carry
    them to a wallet.
  \<^item> \<^verbatim>\<open>Signatory\<close> (\<^verbatim>\<open>cdk-signatory/src\<close>): the holder of the private keys: deriving, rotating and
    reloading keysets, blind signing and verifying.
  \<^item> \<^verbatim>\<open>MintVerify\<close> (\<^verbatim>\<open>cdk/src/mint/verification.rs\<close>, \<^verbatim>\<open>mint/mod.rs\<close>, \<^verbatim>\<open>mint/keysets\<close>): what the mint
    checks of the inputs and outputs of a request.
  \<^item> \<^verbatim>\<open>SwapSaga\<close> (\<^verbatim>\<open>cdk/src/mint/swap\<close>, \<^verbatim>\<open>mint/start_up_check.rs\<close>): the swap of proofs for new
    signatures: two transactions with signing between them, compensation, recovery at start.
  \<^item> \<^verbatim>\<open>SwapProps\<close>: a swap as one atomic step, when it succeeds, and what failing database calls leave.
  \<^item> \<^verbatim>\<open>MintIssue\<close> (\<^verbatim>\<open>mint/issue\<close>, \<^verbatim>\<open>mint/ln.rs\<close>): mint quotes, payments and the request that issues.
    \<^verbatim>\<open>Ledger\<close>: swaps, payments and issues interleaved, crashes included.
  \<^item> \<^verbatim>\<open>MintQuery\<close> (\<^verbatim>\<open>mint/check_spendable.rs\<close>, \<^verbatim>\<open>mint/mod.rs\<close>): states of proofs, restoring, totals.
  \<^item> \<^verbatim>\<open>ProofWriter\<close> (\<^verbatim>\<open>mint/proof_writer.rs\<close>), \<^verbatim>\<open>MintMelt\<close> (\<^verbatim>\<open>mint/melt.rs\<close>) and \<^verbatim>\<open>MeltProps\<close>: melt
    quotes, the melt with its transactions, payment, change and rollback, and what it guarantees.
  \<^item> \<^verbatim>\<open>WalletSelect\<close> (\<^verbatim>\<open>cdk/src/wallet/proofs.rs\<close>): which proofs a wallet spends.
  \<^item> \<^verbatim>\<open>WalletDb\<close> (\<^verbatim>\<open>cdk-common/src/common.rs\<close>, \<^verbatim>\<open>wallet.rs\<close>, \<^verbatim>\<open>cdk-sql-common/src/wallet/mod.rs\<close>): the
    records of a wallet and its SQL store.
  \<^item> \<^verbatim>\<open>TokenForms\<close> (\<^verbatim>\<open>nut00/token.rs\<close>): tokens of both versions, their text and bytes.
  \<^item> \<^verbatim>\<open>WalletDerive\<close> (\<^verbatim>\<open>nut13.rs\<close>, \<^verbatim>\<open>nut00/mod.rs\<close>): outputs from a seed, from random secrets, with conditions.
  \<^item> \<^verbatim>\<open>WalletSwap\<close> (\<^verbatim>\<open>cdk/src/wallet/keysets.rs\<close>, \<^verbatim>\<open>mod.rs\<close>, \<^verbatim>\<open>proofs.rs\<close>, \<^verbatim>\<open>swap.rs\<close>) and \<^verbatim>\<open>WalletSend\<close>
    (\<^verbatim>\<open>send.rs\<close>, \<^verbatim>\<open>receive.rs\<close>): the wallet as a client of a mint: keysets and fees, swapping, preparing,
    confirming and cancelling a send, receiving. \<^verbatim>\<open>WalletRestore\<close> (\<^verbatim>\<open>mod.rs\<close>): restoring from the seed and
    verifying tokens.
  \<^item> \<^verbatim>\<open>MintUrls\<close> (\<^verbatim>\<open>cashu/src/mint_url.rs\<close>): addresses of mints.
  \<^item> \<^verbatim>\<open>CheckerStore\<close> (\<^verbatim>\<open>wallet_db.rs\<close>), \<^verbatim>\<open>Checker\<close> (\<^verbatim>\<open>lib.rs\<close>, \<^verbatim>\<open>lib_helpers.rs\<close>, \<^verbatim>\<open>test_context.rs\<close>): the
    checker's store in the browser and the calls of its page. \<^verbatim>\<open>CheckerProps\<close>: denominations and locks
    of two keys. \<^verbatim>\<open>CheckerMint\<close>: the checker in front of the mint of this development.

  \<^bold>\<open>How the code is modelled.\<close> A Rust \<^verbatim>\<open>Result\<close> is the type \<^verbatim>\<open>outcome\<close>, whose third case is a
  panic; \<^verbatim>\<open>?\<close> is \<^verbatim>\<open>and_then\<close>. Integers keep their width as words, and arithmetic that the code
  leaves unchecked panics or wraps as the build's overflow checks say. A table is an association
  list keyed by its primary key; a database transaction is a function from the database to an
  outcome with the new database, so a rollback is the unchanged database. The swap handler also
  takes the set of database calls that fail. A call of the checker's page is a function on a session,
  the store and the state of the mint; a test context has a store of its own, which shares only the
  browser's storage with the others. A step of the wallet works on its store and the mint, and
  keeps what it changed before it failed.

  What is not in the repository is a parameter: the curve and the hashes (\<^verbatim>\<open>externs\<close>), the payment
  backend (\<^verbatim>\<open>backend\<close>), the readers of invoices and offers (\<^verbatim>\<open>lightning\<close>), key derivation, the browser's
  storage and serialiser (\<^verbatim>\<open>browser\<close>), the mint that a checker talks to (\<^verbatim>\<open>connector\<close>, for which
  \<^verbatim>\<open>mint_connector\<close> puts in the mint modelled here) or a wallet talks to (\<^verbatim>\<open>client\<close>), the serialisers
  of tokens (\<^verbatim>\<open>token_codec\<close>), random secrets, and the order in which a hash
  set is listed (\<^verbatim>\<open>shuffle\<close> in \<^verbatim>\<open>WalletSelect\<close>). A hash map is the list of its entries.

  A loop is a structural recursion or has a termination proof; no definition has fuel. The search of
  \<^verbatim>\<open>hash_to_curve\<close> ends at the code's own bound of 65,536 tries. The outer loop of \<^verbatim>\<open>split_targeted\<close>,
  the inner loop of \<^verbatim>\<open>select_denominations\<close> and the loop over the batches of a restore may not end:
  they are partial functions (\<^verbatim>\<open>while_parts\<close>, \<^verbatim>\<open>take_denomination\<close>, \<^verbatim>\<open>restore_loop\<close>) whose value is None then, and theorems say when the first two return.

  Interfaces are locales with the model's definitions as their interpretations: \<^verbatim>\<open>proof_store\<close> and
  \<^verbatim>\<open>quote_book\<close> in \<^verbatim>\<open>MintDb\<close> and \<^verbatim>\<open>MintIssue\<close> for what the mint relies on of its tables,
  \<^verbatim>\<open>wallet_store\<close> in \<^verbatim>\<open>WalletDb\<close> for a wallet's rows, interpreted for the SQL store and for the
  checker's store; \<^verbatim>\<open>store_relation\<close> in \<^verbatim>\<open>WalletSwap\<close> for what a step of the wallet keeps of its store,
  interpreted for the stored keys and for the stored keysets.

  \<^bold>\<open>What is shown.\<close> The mint as a whole: what it has redeemed and what is in circulation is covered
  by the payments it received, under any interleaving of requests, failing database calls, crashes
  and recoveries. Swap: atomic, and successful whenever the checks pass. Issue: the effect of a mint
  request on quote and signatures. Melt: a success has taken the inputs, change is bounded by what is
  left, a rejection leaves nothing. Database: states obey the transition rules, a spent proof is
  spent for ever, signatures can be restored, state checks are true. Spending conditions:
  verification accepts exactly the proofs whose witness satisfies the lock, conditions survive their
  tags, signing makes requests verify. Signatory: what it signs it accepts back, before and after a
  rotation. Amounts and keysets: splits are exact and shortest, fees are the rounded-up sum,
  identifiers survive their text and bytes. Wallet: a selection is a subset of the proofs worth the
  amount, and exists when it can; counters of keysets hand out disjoint ranges; outputs can be derived
  again from the seed; a swap asks for what its inputs are worth, and loses no proof when it fails;
  a cancelled send changes nothing, a confirmed one pays; a token carries its proofs. Checker: its rows
  stay well formed, a swap leaves store and mint in agreement or the inputs pending, value is
  conserved, a state check restores agreement, and tokens locked to two keys need both. A group
  of theorems pins behaviour that departs from what the code means to do: inputs released after a
  payment, stranded and lost tokens, panics, ignored locktimes, fees that are never included, a
  counter that restoring leaves too low.

  \<^bold>\<open>Not modelled.\<close> Minting and melting by the wallet, the wallet over many mints and the calls of
  the checker that pass through them: they repeat the exchanges modelled here with quotes and
  subscriptions in between. Where \<^verbatim>\<open>CheckerMint\<close> speaks of all calls of the page, these calls may add any
  rows made by \<^verbatim>\<open>ProofInfo::new\<close>, remove rows and set states. HTTP routing and its cache, authentication, the key-value store, payment
  backends, the gRPC bridges, command line, bindings, database drivers and metrics: input and output
  around third-party services. The JSON and CBOR text of tokens is written by derived serialisers, a
  parameter. Notifications to subscribers and messages to the console do not influence the state.
\<close>

end
